(* ===== verification/Prelude.thy ===== *)
theory Prelude
  imports Main "HOL-Library.Word"
begin

text \<open>
  Shared vocabulary of the development: the machine types of the LP64 platform that is
  modelled, the collection \<open>unat_eqs\<close> that moves word arithmetic to \<open>nat\<close>, and generic
  lemmas on lists and words.
\<close>

unbundle bit_operations_syntax

section \<open>Machine types\<close>

type_synonym byte = "8 word"
type_synonym uint16 = "16 word"
type_synonym uint32 = "32 word"
type_synonym uint64 = "64 word"
type_synonym size_t = "64 word"
type_synonym addr = "64 word"

abbreviation (input) SIZE_MAX :: size_t where
  "SIZE_MAX \<equiv> - 1"

abbreviation (input) NULL :: addr where
  "NULL \<equiv> 0"

named_theorems unat_eqs \<open>equations that read word operations as nat operations\<close>

lemmas [unat_eqs] = unat_div unat_mod

section \<open>Words as naturals\<close>

lemma unat_bound64: "unat (x :: 64 word) < 2 ^ 64"
  using unsigned_less [of x] by simp

lemma unat_SIZE_MAX: "unat SIZE_MAX = 2 ^ 64 - 1"
  by (simp add: unsigned_minus_1_eq_mask mask_eq_exp_minus_1)

lemma unat_le_SIZE_MAX: "unat (x :: 64 word) \<le> 2 ^ 64 - 1"
  using unat_bound64 [of x] by simp

lemma unat_add64: "unat a + unat b < 2 ^ 64 \<Longrightarrow> unat (a + b :: 64 word) = unat a + unat b"
  by (simp add: unat_word_ariths)

lemma unat_mult64: "unat a * unat b < 2 ^ 64 \<Longrightarrow> unat (a * b :: 64 word) = unat a * unat b"
  by (simp add: unat_word_ariths)

lemma unat_sub64: "unat b \<le> unat a \<Longrightarrow> unat (a - b :: 64 word) = unat a - unat b"
  by (simp add: unat_sub word_le_nat_alt)

lemma unat_of_nat64: "n < 2 ^ 64 \<Longrightarrow> unat (of_nat n :: 64 word) = n"
  by (simp add: unsigned_of_nat take_bit_nat_eq_self)

lemma word_eq_unatI: "unat a = unat b \<Longrightarrow> a = (b :: 'a::len word)"
  by (simp add: word_unat_eq_iff)

lemma unat_pow2:
  assumes "k < 64" shows "unat (2 ^ k :: 64 word) = 2 ^ k"
proof -
  have "(2 :: nat) ^ k < 2 ^ 64" using assms by (rule power_strict_increasing) simp
  then have "unat (of_nat (2 ^ k) :: 64 word) = 2 ^ k" by (rule unat_of_nat64)
  then show ?thesis by simp
qed

section \<open>Exclusive or\<close>

lemma xor_cancel_left: "x XOR y = x XOR z \<longleftrightarrow> y = (z :: 'a::len word)"
proof
  assume "x XOR y = x XOR z"
  then have "x XOR (x XOR y) = x XOR (x XOR z)" by (rule arg_cong)
  then show "y = z" by (simp flip: xor.assoc)
qed simp

lemma xor_cancel_right: "y XOR x = z XOR x \<longleftrightarrow> y = (z :: 'a::len word)"
  using xor_cancel_left [of x y z] by (simp add: xor.commute)

lemma xor_eq_0_iff_word: "x XOR y = 0 \<longleftrightarrow> x = (y :: 'a::len word)"
  using xor_cancel_left [of x y x] by auto

section \<open>Lists\<close>

lemma all_set_update:
  "(\<forall>x\<in>set xs. P x) \<Longrightarrow> P y \<Longrightarrow> \<forall>x\<in>set (xs[i := y]). P x"
  using set_update_subset_insert [of xs i y] by auto

lemma nth_append_replicate:
  "j < n \<Longrightarrow> (take n xs @ replicate (n - length xs) y) ! j = (if j < length xs then xs ! j else y)"
  by (auto simp: nth_append min_def)

lemma byte_position:
  assumes "n < LENGTH(8)"
  obtains "n \<in> {7, 6, 5, 4, 3, 2, 1, 0}"
proof
  show "n \<in> {7, 6, 5, 4, 3, 2, 1, 0}" using assms by auto
qed

end
