(* ===== verification/Platform.thy ===== *)
theory Platform
  imports Prelude
begin

text \<open>
  \<open>macros.h\<close>, \<open>platform.h\<close>, \<open>error.h\<close>, \<open>hashdef.h\<close>, the inline alignment functions of
  \<open>mem.h\<close>, and \<open>ctz.c\<close>: packing bytes, the encoding of error codes, powers of two and
  alignment. C's \<open>int\<close> is modelled as \<open>int\<close>: every value here stays within 32 bits.
\<close>

section \<open>errno values used by the library (Linux)\<close>

abbreviation (input) "EPERM \<equiv> (1 :: int)"
abbreviation (input) "ENOENT \<equiv> (2 :: int)"
abbreviation (input) "EIO \<equiv> (5 :: int)"
abbreviation (input) "EBADF \<equiv> (9 :: int)"
abbreviation (input) "ENOMEM \<equiv> (12 :: int)"
abbreviation (input) "EACCES \<equiv> (13 :: int)"
abbreviation (input) "EISDIR \<equiv> (21 :: int)"
abbreviation (input) "EINVAL \<equiv> (22 :: int)"
abbreviation (input) "ENOSPC \<equiv> (28 :: int)"
abbreviation (input) "ESPIPE \<equiv> (29 :: int)"
abbreviation (input) "ERANGE \<equiv> (34 :: int)"
abbreviation (input) "EOVERFLOW \<equiv> (75 :: int)"
abbreviation (input) "ENOTSUP \<equiv> (95 :: int)"
abbreviation (input) "ECANCELED \<equiv> (125 :: int)"

section \<open>Packing bytes (macros.h)\<close>

definition VSC_U8 :: "uint32 \<Rightarrow> uint32" where
  "VSC_U8 v = v AND 0xFF"

definition VSC_PACKU32 :: "uint32 \<Rightarrow> uint32 \<Rightarrow> uint32 \<Rightarrow> uint32 \<Rightarrow> uint32" where
  "VSC_PACKU32 a b c d =
     push_bit 24 (VSC_U8 a) OR push_bit 16 (VSC_U8 b) OR push_bit 8 (VSC_U8 c) OR push_bit 0 (VSC_U8 d)"

definition VSC_FOURCC :: "uint32 \<Rightarrow> uint32 \<Rightarrow> uint32 \<Rightarrow> uint32 \<Rightarrow> uint32" where
  "VSC_FOURCC a b c d = VSC_PACKU32 d c b a"

definition VSC_FOURCCBE :: "uint32 \<Rightarrow> uint32 \<Rightarrow> uint32 \<Rightarrow> uint32 \<Rightarrow> uint32" where
  "VSC_FOURCCBE a b c d = VSC_PACKU32 a b c d"

section \<open>Error codes (error.h)\<close>

definition VSC_ERROR :: "int \<Rightarrow> int" where
  "VSC_ERROR x = - (x AND 0xFFFF)"

definition VSC_UNERROR :: "int \<Rightarrow> int" where
  "VSC_UNERROR err = (- err) AND 0xFFFF"

definition VSC_MKERR :: "uint32 \<Rightarrow> uint32 \<Rightarrow> uint32 \<Rightarrow> int" where
  "VSC_MKERR b c d = - sint (VSC_FOURCCBE 0x20 b c d)"

definition VSC_ERROR_IS_SYSTEM :: "int \<Rightarrow> bool" where
  "VSC_ERROR_IS_SYSTEM err \<longleftrightarrow> (- err) AND VSC_MKERR 0 0 0 = 0"

definition VSC_ERROR_SUCCESS :: int where
  "VSC_ERROR_SUCCESS = 0"

definition VSC_ERROR_EOF :: int where
  "VSC_ERROR_EOF = VSC_MKERR 0x45 0x4F 0x46"

definition VSC_ERROR_STACKOFLOW :: int where
  "VSC_ERROR_STACKOFLOW = VSC_MKERR 0x53 0x4F 0x46"

definition VSC_ERROR_STACKUFLOW :: int where
  "VSC_ERROR_STACKUFLOW = VSC_MKERR 0x53 0x55 0x46"

definition VSC_ERROR_UNKNOWN :: int where
  "VSC_ERROR_UNKNOWN = VSC_MKERR 0x55 0x4E 0x4B"

definition VSC_ERROR_BUG :: int where
  "VSC_ERROR_BUG = VSC_MKERR 0x42 0x55 0x47"

section \<open>Hashes (hashdef.h)\<close>

type_synonym vsc_hash_t = size_t

definition VSC_INVALID_HASH :: vsc_hash_t where
  "VSC_INVALID_HASH = NOT 0"

section \<open>Powers of two and alignment (platform.h, mem.h)\<close>

definition VSC_IS_POT :: "size_t \<Rightarrow> bool" where
  "VSC_IS_POT a \<longleftrightarrow> a \<noteq> 0 \<and> a AND (a - 1) = 0"

definition VSC_IS_ALIGNED :: "addr \<Rightarrow> size_t \<Rightarrow> bool" where
  "VSC_IS_ALIGNED p a \<longleftrightarrow> p AND (a - 1) = 0"

definition VSC_ALIGN_DOWN :: "addr \<Rightarrow> size_t \<Rightarrow> addr" where
  "VSC_ALIGN_DOWN p a = p AND (- a)"

definition VSC_ALIGN_UP :: "addr \<Rightarrow> size_t \<Rightarrow> addr" where
  "VSC_ALIGN_UP p a = (p + (a - 1)) AND (- a)"

definition VSC_MAX :: "size_t \<Rightarrow> size_t \<Rightarrow> size_t" where
  "VSC_MAX a b = (if a > b then a else b)"

definition VSC_MIN :: "size_t \<Rightarrow> size_t \<Rightarrow> size_t" where
  "VSC_MIN a b = (if a < b then a else b)"

definition vsc_is_pot :: "uint32 \<Rightarrow> bool" where
  "vsc_is_pot alignment \<longleftrightarrow> alignment \<noteq> 0 \<and> alignment AND (alignment - 1) = 0"

definition vsc_is_aligned :: "addr \<Rightarrow> size_t \<Rightarrow> bool" where
  "vsc_is_aligned p alignment = VSC_IS_ALIGNED p alignment"

definition vsc_align_down :: "addr \<Rightarrow> size_t \<Rightarrow> addr" where
  "vsc_align_down p alignment = VSC_ALIGN_DOWN p alignment"

definition vsc_align_up :: "addr \<Rightarrow> size_t \<Rightarrow> addr" where
  "vsc_align_up p alignment = VSC_ALIGN_UP p alignment"

section \<open>Counting trailing zeros (ctz.c)\<close>

text \<open>
  The portable branch of \<open>vsc_ctz\<close>, the loop that shifts until one bit is left; the other
  branches call a compiler builtin.
\<close>

function vsc_ctz_loop :: "size_t \<Rightarrow> byte \<Rightarrow> byte" where
  "vsc_ctz_loop x pwr = (if x > 1 then vsc_ctz_loop (drop_bit 1 x) (pwr + 1) else pwr)"
  by pat_completeness auto
termination
proof (relation "measure (\<lambda>(x, pwr). unat x)")
  fix x :: size_t and pwr :: byte
  assume "x > 1"
  then have "unat x > 1" by (simp add: word_less_nat_alt)
  then have "unat (drop_bit 1 x) < unat x"
    by (simp add: drop_bit_eq_div unat_div)
  then show "((drop_bit 1 x, pwr + 1), x, pwr) \<in> measure (\<lambda>(x, pwr). unat x)"
    by simp
qed simp

declare vsc_ctz_loop.simps [simp del]

definition vsc_ctz :: "size_t \<Rightarrow> byte" where
  "vsc_ctz x = vsc_ctz_loop x 0"

section \<open>Facts about powers of two and alignment\<close>

lemma pow2_gt_1: "0 < k \<Longrightarrow> k < 64 \<Longrightarrow> (1 :: 64 word) < 2 ^ k"
  using unat_pow2 [of k] by (simp add: word_less_nat_alt del: One_nat_def)

lemma drop_bit_pow2: "Suc k < 64 \<Longrightarrow> drop_bit 1 ((2 :: 64 word) ^ Suc k) = 2 ^ k"
  using unat_pow2 [of "Suc k"] unat_pow2 [of k]
  by (simp add: drop_bit_eq_div word_unat_eq_iff unat_div)

lemma vsc_ctz_loop_pow2: "k < 64 \<Longrightarrow> vsc_ctz_loop (2 ^ k) n = n + of_nat k"
proof (induction k arbitrary: n)
  case 0 show ?case by (simp add: vsc_ctz_loop.simps [of 1])
next
  case (Suc k)
  have "(1 :: 64 word) < 2 ^ Suc k" using Suc.prems by (intro pow2_gt_1) auto
  with Suc show ?case
    using drop_bit_pow2 [of k]
    by (simp add: vsc_ctz_loop.simps [of "2 ^ Suc k"] add.assoc del: power_Suc)
qed
lemma and_not_mask: "p AND NOT (mask k) = p - take_bit k (p :: 64 word)"
proof -
  have "p AND NOT (mask k) = p AND NOT (take_bit k p)"
    by (rule bit_word_eqI) (auto simp: bit_simps)
  also have "\<dots> = p - take_bit k p"
    by (rule disjunctive_diff [symmetric]) (simp add: bit_take_bit_iff)
  finally show ?thesis .
qed
lemma nat_and_pred_pow2:
  assumes "0 < (n :: nat)" and "n AND (n - 1) = 0" shows "\<exists>k. n = 2 ^ k"
  using assms
proof (induction n rule: less_induct)
  case (less n)
  show ?case
  proof (cases "even n")
    case True
    then obtain m where n: "n = 2 * m" by blast
    with less.prems have m: "0 < m" "m < n" by auto
    have "(2 * m - 1) div 2 = m - 1" using m by arith
    with n m have "n AND (n - 1) = 2 * (m AND (m - 1))"
      by (subst and_nat_rec) auto
    with less.prems have "m AND (m - 1) = 0" by simp
    with less.IH m obtain k where "m = 2 ^ k" by blast
    with n have "n = 2 ^ Suc k" by simp
    then show ?thesis by blast
  next
    case False
    then obtain m where n: "n = 2 * m + 1" using oddE by blast
    then have "n AND (n - 1) = 2 * m" 
      by (subst and_nat_rec) auto
    with less.prems n have "n = 2 ^ 0" by simp
    then show ?thesis by blast
  qed
qed
lemma VSC_IS_POT_iff: "VSC_IS_POT a \<longleftrightarrow> (\<exists>k<64. a = 2 ^ k)"
proof
  assume a: "VSC_IS_POT a"
  then have pos: "0 < unat a" by (simp add: VSC_IS_POT_def unat_gt_0)
  have "unat (a AND (a - 1)) = unat a AND (unat a - 1)"
    using pos by (simp add: unsigned_and_eq unat_sub64)
  with a pos obtain k where k: "unat a = 2 ^ k"
    using nat_and_pred_pow2 [of "unat a"] by (auto simp: VSC_IS_POT_def)
  have "(2 :: nat) ^ k < 2 ^ 64" using unat_bound64 [of a] k by simp
  then have k64: "k < 64" by (simp only: power_strict_increasing_iff)
  with k have "a = 2 ^ k" by (intro word_eq_unatI) (simp add: unat_pow2)
  with k64 show "\<exists>k<64. a = 2 ^ k" by blast
next
  assume "\<exists>k<64. a = 2 ^ k"
  then obtain k where k: "k < 64" "a = 2 ^ k" by blast
  have "(2 ^ k AND mask k :: 64 word) = 0"
    by (rule bit_word_eqI) (auto simp: bit_simps)
  with k unat_pow2 [of k] show "VSC_IS_POT a"
    by (auto simp: VSC_IS_POT_def mask_eq_exp_minus_1)
qed
lemma unat_take_bit64: "unat (take_bit k (p :: 64 word)) = unat p mod 2 ^ k"
  by (simp only: unsigned_take_bit_eq) (simp only: take_bit_eq_mod)
lemma mask_minus: "(2 ^ k - 1 :: 64 word) = mask k"
  by (simp add: mask_eq_exp_minus_1)

lemma neg_pow2: "(- (2 ^ k) :: 64 word) = NOT (mask k)"
  by (simp add: not_eq_complement mask_eq_exp_minus_1)

lemma IS_ALIGNED_dvd: "VSC_IS_ALIGNED p (2 ^ k) \<longleftrightarrow> 2 ^ k dvd unat p"
  using and_mask_dvd_nat [of k p] by (simp add: VSC_IS_ALIGNED_def mask_minus)

lemma unat_align_down: "unat (VSC_ALIGN_DOWN p (2 ^ k)) = unat p - unat p mod 2 ^ k"
proof -
  have "VSC_ALIGN_DOWN p (2 ^ k) = p - take_bit k p"
    by (simp add: VSC_ALIGN_DOWN_def neg_pow2 and_not_mask)
  then show ?thesis by (simp add: unat_sub64 unat_take_bit64)
qed

lemma unat_align_up:
  assumes "k < 64" and "unat p + 2 ^ k \<le> 2 ^ 64"
  shows "unat (VSC_ALIGN_UP p (2 ^ k)) = (unat p + 2 ^ k - 1) div 2 ^ k * 2 ^ k"
proof -
  have m: "unat (2 ^ k - 1 :: 64 word) = 2 ^ k - 1"
    using assms(1) unat_pow2 [of k] by (simp add: unat_sub64)
  have p: "unat (p + (2 ^ k - 1)) = unat p + (2 ^ k - 1)"
    using assms(2) m by (subst unat_add64) (auto simp: le_diff_conv)
  have "VSC_ALIGN_UP p (2 ^ k) = VSC_ALIGN_DOWN (p + (2 ^ k - 1)) (2 ^ k)"
    by (simp add: VSC_ALIGN_UP_def VSC_ALIGN_DOWN_def)
  then show ?thesis
    by (simp add: unat_align_down p minus_mod_eq_div_mult)
qed

text \<open>
  The two round-up laws the allocators rest on: the aligned-up address is the least aligned
  address not below \<open>p\<close>.
\<close>

lemma nat_round_up_least:
  assumes "0 < (m :: nat)"
  shows "x \<le> (x + m - 1) div m * m" and "(x + m - 1) div m * m < x + m"
    and "m dvd y \<Longrightarrow> x \<le> y \<Longrightarrow> (x + m - 1) div m * m \<le> y"
proof -
  have dm: "(x + m - 1) div m * m + (x + m - 1) mod m = x + m - 1"
    by (rule div_mult_mod_eq)
  have lt: "(x + m - 1) mod m < m" using assms by simp
  show "x \<le> (x + m - 1) div m * m" using dm lt by linarith
  show up: "(x + m - 1) div m * m < x + m" using dm assms by linarith
  assume y: "m dvd y" "x \<le> y"
  then obtain q where q: "y = m * q" by blast
  have "(x + m - 1) div m * m < (q + 1) * m" using up y q by (simp add: algebra_simps)
  then have "(x + m - 1) div m < q + 1" by (simp only: mult_less_cancel2)
  then show "(x + m - 1) div m * m \<le> y" using q by (simp add: mult.commute)
qed

section \<open>Facts about error codes\<close>

lemma VSC_MKERR_0: "VSC_MKERR 0 0 0 = - 0x20000000"
  by (simp add: VSC_MKERR_def VSC_FOURCCBE_def VSC_PACKU32_def VSC_U8_def)

lemma int_and_FFFF: "(x :: int) AND 0xFFFF = x mod 2 ^ 16"
proof -
  have "x AND 0xFFFF = take_bit 16 x" by (simp add: take_bit_eq_mask mask_numeral)
  then show ?thesis by (simp add: take_bit_eq_mod)
qed

lemma int_and_high: "(n :: int) AND (- 0x20000000) = n - n mod 2 ^ 29"
proof -
  have m: "(- 0x20000000 :: int) = NOT (mask 29)" by (simp add: mask_numeral not_int_def)
  have "n AND NOT (mask 29) = n AND NOT (take_bit 29 n)"
    by (rule bit_eqI) (auto simp: bit_simps)
  also have "\<dots> = n - take_bit 29 n"
    by (rule disjunctive_diff [symmetric]) (simp add: bit_take_bit_iff)
  finally show ?thesis unfolding m by (simp add: take_bit_eq_mod)
qed

lemma VSC_ERROR_neg: "0 < e \<Longrightarrow> e < 2 ^ 16 \<Longrightarrow> VSC_ERROR e < 0"
proof -
  assume e: "0 < e" "e < 2 ^ 16"
  have "e AND 0xFFFF = take_bit 16 e" by (simp add: take_bit_eq_mask mask_eq_exp_minus_1)
  also have "\<dots> = e" using e by (simp add: take_bit_int_eq_self)
  finally show ?thesis using e by (simp add: VSC_ERROR_def)
qed

lemma VSC_ERROR_IS_SYSTEM_iff: "VSC_ERROR_IS_SYSTEM (- n) \<longleftrightarrow> 0 \<le> n \<and> n < 2 ^ 29"
  by (auto simp: VSC_ERROR_IS_SYSTEM_def VSC_MKERR_0 int_and_high)

lemma VSC_U8_take_bit: "VSC_U8 v = take_bit 8 v"
  by (simp add: VSC_U8_def take_bit_eq_mask mask_numeral)

lemma drop_bit_PACKU32: "drop_bit 24 (VSC_PACKU32 a b c d) = VSC_U8 a"
  by (rule bit_word_eqI) (auto simp: VSC_PACKU32_def VSC_U8_take_bit bit_simps)

lemma drop_bit_PACKU32_16: "take_bit 8 (drop_bit 16 (VSC_PACKU32 a b c d)) = VSC_U8 b"
  by (rule bit_word_eqI) (auto simp: VSC_PACKU32_def VSC_U8_take_bit bit_simps)

lemma drop_bit_PACKU32_8: "take_bit 8 (drop_bit 8 (VSC_PACKU32 a b c d)) = VSC_U8 c"
  by (rule bit_word_eqI) (auto simp: VSC_PACKU32_def VSC_U8_take_bit bit_simps)

lemma drop_bit_PACKU32_0: "take_bit 8 (VSC_PACKU32 a b c d) = VSC_U8 d"
  by (rule bit_word_eqI) (auto simp: VSC_PACKU32_def VSC_U8_take_bit bit_simps)

lemma uint_FOURCCBE_space:
  "2 ^ 29 \<le> uint (VSC_FOURCCBE 0x20 b c d) \<and> uint (VSC_FOURCCBE 0x20 b c d) < 2 ^ 31"
proof -
  define w where "w = VSC_FOURCCBE 0x20 b c d"
  have "unat (drop_bit 24 w) = 0x20"
    by (simp add: w_def VSC_FOURCCBE_def drop_bit_PACKU32 VSC_U8_def)
  then have "unat w div 2 ^ 24 = 0x20"
    by (simp only: unat_drop_bit_eq) (simp only: drop_bit_eq_div)
  then have "0x20000000 \<le> unat w" and "unat w < 0x80000000"
    using div_mult_mod_eq [of "unat w" "2 ^ 24"] mod_less_divisor [of "2 ^ 24" "unat w"] by simp_all
  moreover have "int (unat w) = uint w" by (rule of_nat_unat)
  ultimately have "0x20000000 \<le> uint w" and "uint w < 0x80000000" by linarith+
  then show ?thesis by (simp add: w_def)
qed

lemma VSC_MKERR_range: "- (2 ^ 31) < VSC_MKERR b c d \<and> VSC_MKERR b c d \<le> - (2 ^ 29)"
  using uint_FOURCCBE_space [of b c d]
  by (simp add: VSC_MKERR_def sint_uint signed_take_bit_int_eq_self)

section \<open>Properties\<close>

text \<open>
  (C37) The two spaces of error codes never meet: \<open>VSC_ERROR\<close> of an errno value in
  1..0xFFFF is negative, is recognised by \<open>VSC_ERROR_IS_SYSTEM\<close> and is undone by
  \<open>VSC_UNERROR\<close>, while every \<open>VSC_MKERR\<close> code is negative and is not a system error,
  whatever its three characters.
\<close>
theorem error_code_spaces:
  assumes "0 < x" and "x \<le> 0xFFFF"
  shows "VSC_ERROR x < 0 \<and> VSC_UNERROR (VSC_ERROR x) = x \<and> VSC_ERROR_IS_SYSTEM (VSC_ERROR x) \<and>
    VSC_MKERR b c d < 0 \<and> \<not> VSC_ERROR_IS_SYSTEM (VSC_MKERR b c d)"
proof -
  have e: "VSC_ERROR x = - x" using assms by (simp add: VSC_ERROR_def int_and_FFFF)
  moreover have "VSC_UNERROR (VSC_ERROR x) = x" using assms e by (simp add: VSC_UNERROR_def int_and_FFFF)
  moreover have "VSC_ERROR_IS_SYSTEM (VSC_ERROR x)" using assms by (simp add: e VSC_ERROR_IS_SYSTEM_iff)
  moreover have "\<not> VSC_ERROR_IS_SYSTEM (VSC_MKERR b c d)"
    using VSC_MKERR_range [of b c d] VSC_ERROR_IS_SYSTEM_iff [of "- VSC_MKERR b c d"] by simp
  ultimately show ?thesis using assms VSC_MKERR_range [of b c d] by simp
qed

theorem error_code_spaces_witness:
  "VSC_UNERROR (VSC_ERROR 22) = 22 \<and> \<not> VSC_ERROR_IS_SYSTEM (VSC_MKERR 0x45 0x4F 0x46)"
  using error_code_spaces [of 22 "0x45" "0x4F" "0x46"] by simp
text \<open>
  \<open>vsc_align_up\<close> returns the least address that is aligned to the power of two
  \<open>a\<close> and not below \<open>p\<close>, provided rounding up does not run past the address space.
\<close>

theorem vsc_align_up_least:
  assumes "VSC_IS_POT a" and "unat p + unat a \<le> 2 ^ 64"
  shows "vsc_is_aligned (vsc_align_up p a) a \<and> p \<le> vsc_align_up p a \<and>
    (\<forall>q. vsc_is_aligned q a \<and> p \<le> q \<longrightarrow> vsc_align_up p a \<le> q)"
proof -
  obtain k where k: "k < 64" "a = 2 ^ k" using assms(1) by (auto simp: VSC_IS_POT_iff)
  have u: "unat (VSC_ALIGN_UP p a) = (unat p + 2 ^ k - 1) div 2 ^ k * 2 ^ k"
    using assms(2) k by (simp add: unat_align_up unat_pow2)
  have "(0 :: nat) < 2 ^ k" by simp
  note L = nat_round_up_least [OF this, where x = "unat p"]
  show ?thesis
    using L u by (auto simp: k IS_ALIGNED_dvd word_le_nat_alt vsc_is_aligned_def vsc_align_up_def)
qed

theorem vsc_align_up_least_witness:
  "vsc_align_up 0x1018 16 = 0x1020 \<and> vsc_is_aligned (vsc_align_up 0x1018 16) 16"
proof -
  have "VSC_IS_POT 16" and "unat (0x1018 :: addr) + unat (16 :: size_t) \<le> 2 ^ 64"
    by (simp_all add: VSC_IS_POT_def)
  then have "vsc_is_aligned (vsc_align_up 0x1018 16) 16"
    using vsc_align_up_least [of 16 "0x1018"] by blast
  then show ?thesis by (simp add: vsc_align_up_def VSC_ALIGN_UP_def)
qed

text \<open>
  \<open>vsc_ctz\<close> of a power of two is its exponent, for every exponent a \<open>size_t\<close> has.
\<close>

theorem vsc_ctz_pow2:
  assumes "VSC_IS_POT x"
  shows "x = 2 ^ unat (vsc_ctz x) \<and> unat (vsc_ctz x) < 64"
proof -
  obtain k where k: "k < 64" "x = 2 ^ k" using assms by (auto simp: VSC_IS_POT_iff)
  then have "vsc_ctz x = of_nat k" by (simp add: vsc_ctz_def vsc_ctz_loop_pow2)
  then have "unat (vsc_ctz x) = k" using k by (simp add: unat_of_nat)
  with k show ?thesis by simp
qed

theorem vsc_ctz_pow2_witness: "(0x1000 :: size_t) = 2 ^ unat (vsc_ctz 0x1000)"
proof -
  have "VSC_IS_POT 0x1000" by (simp add: VSC_IS_POT_def)
  then show ?thesis using vsc_ctz_pow2 [of "0x1000"] by blast
qed

end
