(* ===== verification/Memory.thy ===== *)
theory Memory
  imports Platform
begin

text \<open>
  \<open>memdef.h\<close> and \<open>memory.c\<close>: the allocator interface, the allocation entry points, the
  port of \<open>std::align\<close> and the block allocator.

  The store is a \<open>world\<close>: the bytes of memory and the private state of the allocator. An
  allocator's callbacks are functions over it. A result \<open>None\<close> is a call of \<open>abort()\<close>.
  \<open>vsc_assert\<close> is compiled out of release builds and has no effect in the model.
\<close>

section \<open>Memory\<close>

record 's world =
  mem :: "addr \<Rightarrow> byte"
  os :: 's

definition memcpy :: "addr \<Rightarrow> addr \<Rightarrow> size_t \<Rightarrow> 's world \<Rightarrow> 's world" where
  "memcpy dst src n w =
     w\<lparr>mem := (\<lambda>x. if x - dst < n then mem w (src + (x - dst)) else mem w x)\<rparr>"

definition load64 :: "(addr \<Rightarrow> byte) \<Rightarrow> addr \<Rightarrow> uint64" where
  "load64 m p = word_rcat (map (\<lambda>i. m (p + of_nat i)) (rev [0..<8]))"

definition store64 :: "addr \<Rightarrow> uint64 \<Rightarrow> (addr \<Rightarrow> byte) \<Rightarrow> addr \<Rightarrow> byte" where
  "store64 p v m = (\<lambda>x. if x - p < 8 then ucast (drop_bit (8 * unat (x - p)) v) else m x)"

section \<open>The allocator interface (memdef.h)\<close>

definition VSC_ALLOC_ZERO :: uint32 where
  "VSC_ALLOC_ZERO = push_bit 0 1"

definition VSC_ALLOC_NOFAIL :: uint32 where
  "VSC_ALLOC_NOFAIL = push_bit 1 1"

definition VSC_ALLOC_REALLOC :: uint32 where
  "VSC_ALLOC_REALLOC = push_bit 2 1"

lemmas alloc_flags = VSC_ALLOC_ZERO_def VSC_ALLOC_NOFAIL_def VSC_ALLOC_REALLOC_def

text \<open>
  \<open>alloc_proc ptr size alignment flags user\<close> returns the status and what it leaves in \<open>*ptr\<close>.
\<close>

record 's VscAllocator =
  alloc_proc :: "addr \<Rightarrow> size_t \<Rightarrow> size_t \<Rightarrow> uint32 \<Rightarrow> addr \<Rightarrow> 's world \<Rightarrow> int \<times> addr \<times> 's world"
  free_proc :: "addr \<Rightarrow> addr \<Rightarrow> 's world \<Rightarrow> 's world"
  size_proc :: "addr \<Rightarrow> addr \<Rightarrow> 's world \<Rightarrow> size_t"
  alignment :: size_t
  user :: addr

record VscBlockAllocInfo =
  count :: size_t
  element_size :: size_t
  block_alignment :: size_t
  out :: addr

section \<open>Allocation entry points (memory.c)\<close>

definition vsc_xalloc_ex ::
  "'s VscAllocator \<Rightarrow> addr \<Rightarrow> size_t \<Rightarrow> uint32 \<Rightarrow> size_t \<Rightarrow> 's world \<Rightarrow> (int \<times> addr \<times> 's world) option" where
  "vsc_xalloc_ex a ptr sz flags align w =
     (let align = (if align = 0 then alignment a else align);
          flags = (if ptr = NULL then flags AND NOT VSC_ALLOC_REALLOC else flags);
          (ret, ptr, w) = alloc_proc a ptr sz align flags (user a) w
      in if ret = VSC_ERROR ENOTSUP \<and> flags AND VSC_ALLOC_REALLOC \<noteq> 0 then
           let p = ptr; msize = size_proc a ptr (user a) w
           in if sz \<le> msize then Some (0, ptr, w)
              else
                let (ret, ptr, w) = alloc_proc a ptr sz align (flags AND NOT VSC_ALLOC_REALLOC) (user a) w
                in if ret < 0 then Some (ret, ptr, w)
                   else if p \<noteq> NULL then Some (0, ptr, free_proc a p (user a) (memcpy ptr p msize w))
                   else Some (0, ptr, w)
         else if ret < 0 then
           (if flags AND VSC_ALLOC_NOFAIL \<noteq> 0 then None else Some (ret, ptr, w))
         else Some (0, ptr, w))"

text \<open>The idiom \<open>if(vsc_xalloc_ex(...) < 0) return NULL; return p;\<close>.\<close>

fun null_on_error :: "int \<times> addr \<times> 's world \<Rightarrow> addr \<times> 's world" where
  "null_on_error (r, p, w) = (if r < 0 then NULL else p, w)"

definition vsc_xalloc :: "'s VscAllocator \<Rightarrow> size_t \<Rightarrow> 's world \<Rightarrow> (addr \<times> 's world) option" where
  "vsc_xalloc a sz w = map_option null_on_error (vsc_xalloc_ex a NULL sz 0 (alignment a) w)"

definition vsc_xfree :: "'s VscAllocator \<Rightarrow> addr \<Rightarrow> 's world \<Rightarrow> 's world" where
  "vsc_xfree a p w = (if p = NULL then w else free_proc a p (user a) w)"

definition vsc_xrealloc :: "'s VscAllocator \<Rightarrow> addr \<Rightarrow> size_t \<Rightarrow> 's world \<Rightarrow> (addr \<times> 's world) option" where
  "vsc_xrealloc a ptr sz w =
     (if sz = 0 then Some (NULL, vsc_xfree a ptr w)
      else map_option null_on_error (vsc_xalloc_ex a ptr sz VSC_ALLOC_REALLOC 0 w))"

definition vsc_xcalloc :: "'s VscAllocator \<Rightarrow> size_t \<Rightarrow> size_t \<Rightarrow> 's world \<Rightarrow> (addr \<times> 's world) option" where
  "vsc_xcalloc a nmemb sz w =
     (if sz > 0 \<and> nmemb > SIZE_MAX div sz then Some (NULL, w)
      else map_option null_on_error (vsc_xalloc_ex a NULL (sz * nmemb) VSC_ALLOC_ZERO 0 w))"

section \<open>Alignment of a pointer in a buffer\<close>

text \<open>\<open>vsc_align\<close> returns its result and what it leaves in \<open>*ptr\<close> and \<open>*space\<close>.\<close>

definition vsc_align :: "size_t \<Rightarrow> size_t \<Rightarrow> addr \<Rightarrow> size_t \<Rightarrow> addr \<times> addr \<times> size_t" where
  "vsc_align align sz ptr space =
     (if sz \<le> space then
        let mask = align - 1;
            p1 = ptr;
            p2 = (p1 + mask) AND NOT mask;
            d = p2 - p1
        in if d \<le> space - sz then (p2, p2, space - d) else (0, ptr, space)
      else (0, ptr, space))"

section \<open>The block allocator\<close>

definition block_size :: "VscBlockAllocInfo \<Rightarrow> size_t" where
  "block_size b = element_size b * count b"

definition block_align :: "size_t \<Rightarrow> VscBlockAllocInfo \<Rightarrow> size_t" where
  "block_align dflt b = (if block_alignment b = 0 then dflt else block_alignment b)"

text \<open>Pass 1: the buffer size. \<open>pad\<close> is what \<open>vsc_align\<close> took from an unbounded space.\<close>

fun block_pass1 :: "size_t \<Rightarrow> size_t \<Rightarrow> VscBlockAllocInfo list \<Rightarrow> size_t" where
  "block_pass1 dflt reqsize [] = reqsize"
| "block_pass1 dflt reqsize (bai # rest) =
     (let sz = block_size bai;
          (_, _, space) = vsc_align (block_align dflt bai) sz reqsize (NOT 0);
          pad = NOT 0 - space
      in block_pass1 dflt (reqsize + (sz + pad)) rest)"

definition block_initial :: "size_t \<Rightarrow> VscBlockAllocInfo \<Rightarrow> size_t" where
  "block_initial dflt b0 =
     (let reqsize = block_size b0;
          initial_align = block_align dflt b0
      in if VSC_IS_ALIGNED reqsize initial_align \<and> VSC_IS_ALIGNED reqsize (push_bit 1 initial_align)
         then reqsize + initial_align else reqsize)"

definition block_reqsize :: "size_t \<Rightarrow> VscBlockAllocInfo \<Rightarrow> VscBlockAllocInfo list \<Rightarrow> size_t" where
  "block_reqsize dflt b0 bs = block_pass1 dflt (block_initial dflt b0) bs"

definition store_out :: "VscBlockAllocInfo \<Rightarrow> addr \<Rightarrow> 's world \<Rightarrow> 's world" where
  "store_out b v w = (if out b \<noteq> NULL then w\<lparr>mem := store64 (out b) v (mem w)\<rparr> else w)"

text \<open>
  Pass 2: the aligned pointers of the blocks after the first. \<open>Inl\<close> is the branch that gives
  up, with the world at that point; \<open>Inr\<close> carries the pointers.
\<close>

fun block_pass2 ::
  "size_t \<Rightarrow> addr \<Rightarrow> size_t \<Rightarrow> addr \<Rightarrow> size_t \<Rightarrow> VscBlockAllocInfo list \<Rightarrow> 's world \<Rightarrow>
   's world + (addr list \<times> 's world)" where
  "block_pass2 dflt base reqsize lastptr prev_size [] w = Inr ([], w)"
| "block_pass2 dflt base reqsize lastptr prev_size (cur # rest) w =
     (if block_size cur = 0 then
        (case block_pass2 dflt base reqsize lastptr prev_size rest (store_out cur NULL w) of
           Inl w \<Rightarrow> Inl w
         | Inr (ps, w) \<Rightarrow> Inr (NULL # ps, w))
      else
        let p = lastptr + prev_size;
            space = reqsize - (p - base);
            (r, _, _) = vsc_align (block_align dflt cur) (block_size cur) p space
        in if r = NULL then Inl w
           else (case block_pass2 dflt base reqsize r (block_size cur) rest (store_out cur r w) of
                   Inl w \<Rightarrow> Inl w
                 | Inr (ps, w) \<Rightarrow> Inr (r # ps, w)))"

text \<open>
  The arguments that may be NULL are options. The result is the status, the contents of the
  array \<open>ptr\<close> and the world.
\<close>

definition vsc_block_xalloc ::
  "'s VscAllocator option \<Rightarrow> addr list option \<Rightarrow> VscBlockAllocInfo list option \<Rightarrow> uint32 \<Rightarrow> 's world \<Rightarrow>
   (int \<times> addr list option \<times> 's world) option" where
  "vsc_block_xalloc a ptr blockinfo flags w =
     (case (blockinfo, ptr, a) of
        (Some (b0 # bs), Some ptrs, Some a) \<Rightarrow>
          (let flags = flags AND NOT VSC_ALLOC_REALLOC;
               reqsize = block_reqsize (alignment a) b0 bs
           in case vsc_xalloc_ex a NULL reqsize flags (block_alignment b0) w of
                None \<Rightarrow> None
              | Some (r, block, w) \<Rightarrow>
                  if r < 0 then Some (r, Some ptrs, w)
                  else
                    (case block_pass2 (alignment a) block reqsize block (block_size b0) bs (store_out b0 block w) of
                       Inl w \<Rightarrow> Some (VSC_ERROR ENOSPC, Some (replicate (length (b0 # bs)) NULL), vsc_xfree a block w)
                     | Inr (ps, w) \<Rightarrow> Some (0, Some (block # ps), w)))
      | _ \<Rightarrow> Some (VSC_ERROR EINVAL, ptr, w))"

section \<open>Facts about the entry points\<close>

lemma NOT_REALLOC_REALLOC [simp]:
  "(flags AND NOT VSC_ALLOC_REALLOC) AND VSC_ALLOC_REALLOC = 0"
  by (simp add: and.assoc)

lemma VSC_ERROR_values [simp]:
  "VSC_ERROR EPERM = - 1" "VSC_ERROR ENOENT = - 2" "VSC_ERROR EIO = - 5" "VSC_ERROR EBADF = - 9"
  "VSC_ERROR ENOMEM = - 12" "VSC_ERROR EACCES = - 13" "VSC_ERROR EISDIR = - 21" "VSC_ERROR EINVAL = - 22"
  "VSC_ERROR ENOSPC = - 28" "VSC_ERROR ESPIPE = - 29" "VSC_ERROR ERANGE = - 34"
  "VSC_ERROR EOVERFLOW = - 75" "VSC_ERROR ENOTSUP = - 95" "VSC_ERROR ECANCELED = - 125"
  by (simp_all add: VSC_ERROR_def)

lemma xalloc_ex_no_abort:
  "flags AND VSC_ALLOC_NOFAIL = 0 \<Longrightarrow> vsc_xalloc_ex a ptr sz flags align w \<noteq> None"
  by (auto simp: vsc_xalloc_ex_def Let_def alloc_flags and.assoc and.left_commute split: prod.splits)

lemma vsc_xalloc_no_abort: "vsc_xalloc a sz w \<noteq> None"
  unfolding vsc_xalloc_def option.map_disc_iff by (rule xalloc_ex_no_abort) simp

lemma vsc_xrealloc_no_abort: "vsc_xrealloc a ptr sz w \<noteq> None"
proof -
  have "vsc_xalloc_ex a ptr sz VSC_ALLOC_REALLOC 0 w \<noteq> None"
    by (rule xalloc_ex_no_abort) (simp add: alloc_flags)
  then show ?thesis by (simp add: vsc_xrealloc_def del: not_None_eq)
qed

lemma vsc_xcalloc_no_abort: "vsc_xcalloc a n sz w \<noteq> None"
proof -
  have "vsc_xalloc_ex a NULL (sz * n) VSC_ALLOC_ZERO 0 w \<noteq> None"
    by (rule xalloc_ex_no_abort) (simp add: alloc_flags)
  then show ?thesis by (simp add: vsc_xcalloc_def del: not_None_eq)
qed

section \<open>Facts about \<open>vsc_align\<close>\<close>

definition round_up :: "nat \<Rightarrow> nat \<Rightarrow> nat" where
  "round_up m x = (x + m - 1) div m * m"

lemma round_up_ge: "0 < m \<Longrightarrow> x \<le> round_up m x"
  and round_up_less: "0 < m \<Longrightarrow> round_up m x < x + m"
  and round_up_least: "0 < m \<Longrightarrow> m dvd y \<Longrightarrow> x \<le> y \<Longrightarrow> round_up m x \<le> y"
  unfolding round_up_def by (rule nat_round_up_least; assumption)+

lemma round_up_dvd: "m dvd round_up m x"
  by (simp add: round_up_def)

lemma round_up_mono: "x \<le> y \<Longrightarrow> round_up m x \<le> round_up m y"
  by (auto simp: round_up_def intro!: mult_le_mono1 div_le_mono)

lemma round_up_shift:
  assumes "0 < m" and "m dvd b" shows "round_up m (b + x) = b + round_up m x"
proof -
  obtain q where q: "b = q * m" using assms(2) by (metis dvd_div_mult_self)
  have "b + x + m - 1 = q * m + (x + m - 1)" using assms(1) by (simp add: q)
  moreover have "(q * m + (x + m - 1)) div m = q + (x + m - 1) div m"
    using assms(1) by (intro div_mult_self3) simp
  ultimately have "(b + x + m - 1) div m = q + (x + m - 1) div m" by (simp only:)
  then show ?thesis by (simp add: round_up_def q add_mult_distrib)
qed

lemma vsc_align_mask:
  assumes "k < 64" and "unat p + 2 ^ k \<le> 2 ^ 64"
  shows "unat ((p + (2 ^ k - 1) :: addr) AND NOT (2 ^ k - 1)) = round_up (2 ^ k) (unat p)"
  using unat_align_up [OF assms] by (simp add: VSC_ALIGN_UP_def neg_pow2 mask_minus round_up_def)

text \<open>What the call returns when rounding up stays inside the address space.\<close>

lemma vsc_align_fits:
  assumes pot: "VSC_IS_POT a" and room: "round_up (unat a) (unat p) < 2 ^ 64"
    and fit: "round_up (unat a) (unat p) - unat p + unat sz \<le> unat sp"
  shows "\<exists>r. vsc_align a sz p sp = (r, r, sp - (r - p)) \<and> unat r = round_up (unat a) (unat p)"
proof -
  obtain k where k: "k < 64" "a = 2 ^ k" using pot by (auto simp: VSC_IS_POT_iff)
  have ua: "unat a = 2 ^ k" using k by (simp add: unat_pow2)
  have pos: "0 < unat a" by (simp add: ua)
  have "(2 :: nat) ^ k dvd 2 ^ 64" using k by (intro le_imp_power_dvd) simp
  then have "unat a dvd 2 ^ 64 - round_up (unat a) (unat p)"
    unfolding ua by (rule dvd_diff_nat [OF _ round_up_dvd])
  then have "unat a \<le> 2 ^ 64 - round_up (unat a) (unat p)"
    using room by (intro dvd_imp_le) auto
  then have wide: "unat p + 2 ^ k \<le> 2 ^ 64"
    using room round_up_ge [OF pos, of "unat p"] unfolding ua by linarith
  define r where "r = (p + (a - 1)) AND NOT (a - 1)"
  have r: "unat r = round_up (unat a) (unat p)"
    using vsc_align_mask [OF k(1) wide] by (simp only: r_def k(2) unat_pow2 [OF k(1)])
  have ge: "unat p \<le> unat r" using round_up_ge [OF pos, of "unat p"] by (simp add: r)
  have d: "unat (r - p) = unat r - unat p" using ge by (rule unat_sub64)
  have "sz \<le> sp" using fit by (simp add: word_le_nat_alt)
  moreover have "r - p \<le> sp - sz"
    using fit d r ge by (simp add: word_le_nat_alt unat_sub64)
  ultimately show ?thesis using r by (auto simp: vsc_align_def Let_def simp flip: r_def)
qed

section \<open>The layout the block allocator computes\<close>

definition block_bytes :: "VscBlockAllocInfo \<Rightarrow> nat" where
  "block_bytes b = unat (element_size b) * unat (count b)"

definition block_ok :: "size_t \<Rightarrow> VscBlockAllocInfo \<Rightarrow> bool" where
  "block_ok dflt b \<longleftrightarrow> VSC_IS_POT (block_align dflt b) \<and> block_bytes b < 2 ^ 64"

text \<open>Pass 1 without wrap-around, and the bytes it may ask for at most.\<close>

fun block_offsets :: "size_t \<Rightarrow> nat \<Rightarrow> VscBlockAllocInfo list \<Rightarrow> nat" where
  "block_offsets dflt n [] = n"
| "block_offsets dflt n (b # bs) =
     block_offsets dflt (round_up (unat (block_align dflt b)) n + block_bytes b) bs"

definition block_demand :: "size_t \<Rightarrow> VscBlockAllocInfo \<Rightarrow> VscBlockAllocInfo list \<Rightarrow> nat" where
  "block_demand dflt b0 bs = block_offsets dflt (block_bytes b0 + unat (block_align dflt b0)) bs"

text \<open>
  The specification: from \<open>lo\<close> on, each non-empty block sits at the first address aligned for
  it after the previous non-empty block and ends at or before \<open>hi\<close>; an empty block is NULL.
\<close>

fun block_layout :: "size_t \<Rightarrow> nat \<Rightarrow> nat \<Rightarrow> VscBlockAllocInfo list \<Rightarrow> addr list \<Rightarrow> bool" where
  "block_layout dflt lo hi [] [] \<longleftrightarrow> True"
| "block_layout dflt lo hi (b # bs) (p # ps) \<longleftrightarrow>
     (if block_bytes b = 0 then p = NULL \<and> block_layout dflt lo hi bs ps
      else unat p = round_up (unat (block_align dflt b)) lo \<and> unat p + block_bytes b \<le> hi \<and>
           block_layout dflt (unat p + block_bytes b) hi bs ps)"
| "block_layout dflt lo hi _ _ \<longleftrightarrow> False"

lemma unat_block_size: "block_ok dflt b \<Longrightarrow> unat (block_size b) = block_bytes b"
  by (simp add: block_ok_def block_size_def block_bytes_def unat_mult64)

lemma block_size_0_iff: "block_ok dflt b \<Longrightarrow> block_size b = 0 \<longleftrightarrow> block_bytes b = 0"
  using unat_block_size [of dflt b] by (auto simp: unat_eq_zero)

lemma block_align_pos: "block_ok dflt b \<Longrightarrow> 0 < unat (block_align dflt b)"
  by (auto simp: block_ok_def VSC_IS_POT_def unat_gt_0)

lemma block_offsets_ge: "\<forall>b\<in>set bs. block_ok dflt b \<Longrightarrow> n \<le> block_offsets dflt n bs"
proof (induction bs arbitrary: n)
  case (Cons b bs)
  have "n \<le> round_up (unat (block_align dflt b)) n"
    using Cons.prems block_align_pos by (simp add: round_up_ge)
  also have "\<dots> \<le> round_up (unat (block_align dflt b)) n + block_bytes b" by simp
  also have "\<dots> \<le> block_offsets dflt (round_up (unat (block_align dflt b)) n + block_bytes b) bs"
    using Cons by simp
  finally show ?case by simp
qed simp

lemma block_offsets_mono: "m \<le> n \<Longrightarrow> block_offsets dflt m bs \<le> block_offsets dflt n bs"
  by (induction bs arbitrary: m n) (simp_all add: round_up_mono)

lemma block_pass1_offsets:
  assumes "\<forall>b\<in>set bs. block_ok dflt b" and "block_offsets dflt (unat n) bs < 2 ^ 64"
  shows "unat (block_pass1 dflt n bs) = block_offsets dflt (unat n) bs"
  using assms
proof (induction bs arbitrary: n)
  case (Cons b bs)
  let ?a = "block_align dflt b" and ?s = "block_size b"
  have ok: "block_ok dflt b" using Cons.prems by simp
  have us: "unat ?s = block_bytes b" using ok by (rule unat_block_size)
  have end_le: "round_up (unat ?a) (unat n) + block_bytes b < 2 ^ 64"
    using block_offsets_ge [of bs dflt "round_up (unat ?a) (unat n) + block_bytes b"] Cons.prems by simp
  have "round_up (unat ?a) (unat n) - unat n + unat ?s \<le> unat (NOT 0 :: size_t)"
    using end_le us by (simp add: unat_SIZE_MAX)
  then obtain r where r: "vsc_align ?a ?s n (NOT 0) = (r, r, NOT 0 - (r - n))"
    and ur: "unat r = round_up (unat ?a) (unat n)"
    using vsc_align_fits [of ?a n ?s "NOT 0"] ok end_le by (auto simp: block_ok_def)
  have "unat (?s + r) = round_up (unat ?a) (unat n) + block_bytes b"
    using end_le us ur by (simp add: unat_add64)
  moreover have "n + (?s + (NOT 0 - (NOT 0 - (r - n)))) = ?s + r" by simp
  ultimately show ?case using Cons r by (simp add: Let_def)
qed simp

text \<open>
  Pass 2 finds room when pass 1 did not overflow and ran ahead of it by at least \<open>c\<close> bytes, where
  the base is \<open>c\<close> bytes above an address aligned for every block.
\<close>

lemma block_pass2_layout:
  assumes "\<forall>b\<in>set bs. block_ok dflt b \<and> unat (block_align dflt b) dvd unat base - c"
    and "c \<le> unat base" and "unat base + unat req < 2 ^ 64" and "base \<noteq> NULL"
    and "unat (lastptr + prev) = unat base + off" and "off + c \<le> n"
    and "block_offsets dflt n bs \<le> unat req"
  shows "\<exists>ps w'. block_pass2 dflt base req lastptr prev bs w = Inr (ps, w') \<and>
    block_layout dflt (unat base + off) (unat base + unat req) bs ps"
  using assms
proof (induction bs arbitrary: lastptr prev off n w)
  case (Cons b bs)
  let ?a = "block_align dflt b" and ?s = "block_size b" and ?p = "lastptr + prev"
  let ?n = "round_up (unat ?a) n + block_bytes b"
  let ?off = "round_up (unat ?a) (off + c) - c"
  have ok: "block_ok dflt b" and al: "unat ?a dvd unat base - c" using Cons.prems(1) by auto
  have pos: "0 < unat ?a" using ok by (rule block_align_pos)
  have n_le: "n \<le> ?n" using round_up_ge [OF pos, of n] by simp
  have rest: "block_offsets dflt ?n bs \<le> unat req" using Cons.prems(7) by simp
  have n_req: "?n \<le> unat req"
    using block_offsets_ge [of bs dflt ?n] Cons.prems(1) rest by simp
  show ?case
  proof (cases "block_bytes b = 0")
    case True
    have "block_size b = 0" using ok True by (simp add: block_size_0_iff)
    moreover obtain ps w' where "block_pass2 dflt base req lastptr prev bs (store_out b NULL w) = Inr (ps, w')"
      "block_layout dflt (unat base + off) (unat base + unat req) bs ps"
      using Cons.IH [of lastptr prev off ?n "store_out b NULL w"] Cons.prems n_le rest by auto
    ultimately show ?thesis using True by simp
  next
    case False
    have off_le: "off + c \<le> round_up (unat ?a) (off + c)" using pos by (rule round_up_ge)
    have "unat ?p = (unat base - c) + (off + c)" using Cons.prems(2,5) by simp
    then have start: "round_up (unat ?a) (unat ?p) = unat base + ?off"
      using round_up_shift [OF pos al, of "off + c"] off_le Cons.prems(2) by simp
    have off_n: "?off + block_bytes b + c \<le> ?n"
      using Cons.prems(6) off_le round_up_mono [of "off + c" n "unat ?a"] by simp
    have pb: "unat (?p - base) = off" using Cons.prems(5) by (simp add: unat_sub64)
    have sp: "unat (req - (?p - base)) = unat req - off"
      using pb off_le off_n n_req by (subst unat_sub64) auto
    have room: "round_up (unat ?a) (unat ?p) < 2 ^ 64"
      using start off_n n_req Cons.prems(3) by linarith
    have fit: "round_up (unat ?a) (unat ?p) - unat ?p + unat ?s \<le> unat (req - (?p - base))"
      using start off_n n_req off_le sp Cons.prems(5) unat_block_size [OF ok] by linarith
    obtain r where r: "vsc_align ?a ?s ?p (req - (?p - base)) = (r, r, req - (?p - base) - (r - ?p))"
      and ur: "unat r = unat base + ?off"
      using vsc_align_fits [OF _ room fit] ok start by (auto simp: block_ok_def)
    have r0: "r \<noteq> NULL" using ur Cons.prems(4) by (auto simp: unat_eq_zero [symmetric])
    have next_off: "unat (r + ?s) = unat base + (?off + block_bytes b)"
      using ur unat_block_size [OF ok] off_n n_req Cons.prems(3) by (subst unat_add64) auto
    obtain ps w' where "block_pass2 dflt base req r ?s bs (store_out b r w) = Inr (ps, w')"
      and "block_layout dflt (unat base + (?off + block_bytes b)) (unat base + unat req) bs ps"
      using Cons.IH [of r ?s "?off + block_bytes b" ?n "store_out b r w"]
        Cons.prems next_off off_n rest by auto
    then show ?thesis
      using False r r0 ur start off_n n_req Cons.prems(5) block_size_0_iff [OF ok]
      by (auto simp: Let_def add.assoc)
  qed
qed simp

text \<open>
  The reach of a base that is aligned for the first block: it lies \<open>c\<close> bytes above an address
  aligned for all the blocks, and pass 1 starts at least \<open>c\<close> bytes behind the first block.
\<close>

lemma pot_dvd_linear: "VSC_IS_POT a \<Longrightarrow> VSC_IS_POT b \<Longrightarrow> unat a dvd unat b \<or> 2 * unat b dvd unat a"
proof -
  assume "VSC_IS_POT a" "VSC_IS_POT b"
  then obtain k l where k: "k < 64" "a = 2 ^ k" and l: "l < 64" "b = 2 ^ l" by (auto simp: VSC_IS_POT_iff)
  then have "unat a = 2 ^ k" "unat b = 2 ^ l" by (simp_all add: unat_pow2)
  then show ?thesis by (cases "k \<le> l") (auto simp: le_imp_power_dvd simp flip: power_Suc)
qed

lemma base_reach:
  assumes "VSC_IS_POT a0" and "unat a0 dvd n"
    and "\<forall>a\<in>A. VSC_IS_POT a \<and> (unat a dvd n \<or> padded \<and> unat a dvd 2 * unat a0)"
  shows "\<exists>c\<le>n. (c = 0 \<or> padded \<and> c = unat a0) \<and> (\<forall>a\<in>A. unat a dvd n - c)"
proof (cases "2 * unat a0 dvd n")
  case True
  then show ?thesis using assms(3) by (intro exI [of _ 0]) (auto intro: dvd_trans)
next
  case False
  have pos: "0 < unat a0" using assms(1) by (auto simp: VSC_IS_POT_def unat_gt_0)
  obtain q where q: "n = unat a0 * q" using assms(2) by blast
  with False have "odd q" by auto
  then have "\<exists>m. n = 2 * unat a0 * m + unat a0" using q by (auto elim!: oddE simp: algebra_simps)
  then obtain m where n: "n = 2 * unat a0 * m + unat a0" by blast
  have small: "unat a dvd unat a0" if "a \<in> A" "unat a dvd n" for a
    using pot_dvd_linear [of a a0] that assms(1,3) False by (auto dest: dvd_trans)
  show ?thesis
  proof (cases "padded")
    case True
    have "unat a dvd 2 * unat a0 * m" if "a \<in> A" for a
      using small [OF that] assms(3) that by (metis dvd_mult dvd_mult2)
    then show ?thesis using n True by (intro exI [of _ "unat a0"]) simp
  next
    case False
    then show ?thesis using assms(3) by (intro exI [of _ 0]) auto
  qed
qed

lemma unat_block_initial:
  assumes "block_ok dflt b0" and "block_bytes b0 + unat (block_align dflt b0) < 2 ^ 64"
  shows "block_bytes b0 \<le> unat (block_initial dflt b0)"
    and "unat (block_initial dflt b0) \<le> block_bytes b0 + unat (block_align dflt b0)"
  using assms unat_block_size [OF assms(1)]
  by (auto simp: block_initial_def Let_def unat_add64)

text \<open>Where the padding of the first block applies.\<close>

lemma block_initial_padded:
  assumes "block_ok dflt b0" and "block_bytes b0 + unat (block_align dflt b0) < 2 ^ 64"
    and "2 * unat (block_align dflt b0) dvd block_bytes b0"
  shows "unat (block_initial dflt b0) = block_bytes b0 + unat (block_align dflt b0)"
proof -
  obtain k where k: "k < 64" "block_align dflt b0 = 2 ^ k" using assms(1) by (auto simp: block_ok_def VSC_IS_POT_iff)
  note size = unat_block_size [OF assms(1)]
  have "2 ^ Suc k dvd unat (block_size b0)" using assms(3) k by (simp add: size unat_pow2)
  then have "VSC_IS_ALIGNED (block_size b0) (2 ^ Suc k)" "VSC_IS_ALIGNED (block_size b0) (2 ^ k)"
    unfolding IS_ALIGNED_dvd by (auto intro: dvd_trans [OF le_imp_power_dvd])
  moreover have "push_bit 1 (2 ^ k) = (2 ^ Suc k :: size_t)" by (simp add: push_bit_eq_mult)
  ultimately have "block_initial dflt b0 = block_size b0 + 2 ^ k" by (simp only: block_initial_def Let_def k(2) if_True simp_thms)
  then show ?thesis using assms(2) k size by (simp only: k(2)) (subst unat_add64, simp_all)
qed


section \<open>Properties\<close>

text \<open>
  (C35) \<open>vsc_xcalloc\<close> never passes a wrapped size on: when \<open>nmemb * size\<close> does not fit in
  a \<open>size_t\<close> it returns NULL and leaves the world alone, otherwise it is \<open>vsc_xalloc_ex\<close>
  with the exact product, and it never aborts.
\<close>

theorem vsc_xcalloc_no_wrap:
  "(if 2 ^ 64 \<le> unat nmemb * unat sz then vsc_xcalloc a nmemb sz w = Some (NULL, w)
    else unat (sz * nmemb) = unat nmemb * unat sz \<and>
      vsc_xcalloc a nmemb sz w =
        map_option null_on_error (vsc_xalloc_ex a NULL (sz * nmemb) VSC_ALLOC_ZERO 0 w)) \<and>
   vsc_xcalloc a nmemb sz w \<noteq> None"
proof -
  have "(0 < sz \<and> nmemb > SIZE_MAX div sz) \<longleftrightarrow> 2 ^ 64 \<le> unat nmemb * unat sz"
  proof (cases "sz = 0")
    case False
    then have pos: "0 < unat sz" by (simp add: unat_gt_0)
    have "nmemb > SIZE_MAX div sz \<longleftrightarrow> (2 ^ 64 - 1) div unat sz < unat nmemb"
      unfolding word_less_nat_alt unat_div unat_SIZE_MAX ..
    also have "\<dots> \<longleftrightarrow> 2 ^ 64 - 1 < unat nmemb * unat sz"
      using pos by (rule div_less_iff_less_mult)
    finally show ?thesis using False by (auto simp: word_gt_0)
  qed simp
  then show ?thesis
    using vsc_xcalloc_no_abort [of a nmemb sz w] unat_mult64 [of sz nmemb]
    by (auto simp: vsc_xcalloc_def mult.commute)
qed

text \<open>
  (C29) When the allocator refuses a reallocation with ENOTSUP, \<open>vsc_xalloc_ex\<close> emulates it
  without losing data: if the block is too small and the fresh block lies apart from the old
  one, the call succeeds and the first \<open>msize\<close> bytes of the new block are those the old
  block held before the call, whatever the release of the old block does to other memory.
\<close>

theorem vsc_xalloc_ex_emulated_realloc:
  assumes "ptr \<noteq> NULL" and "al \<noteq> 0"
    and "alloc_proc a ptr sz al VSC_ALLOC_REALLOC (user a) w = (VSC_ERROR ENOTSUP, ptr, w)"
    and "size_proc a ptr (user a) w < sz"
    and "alloc_proc a ptr sz al 0 (user a) w = (0, q, w1)"
    and "\<And>i. i < size_proc a ptr (user a) w \<Longrightarrow> mem w1 (ptr + i) = mem w (ptr + i)"
    and "\<And>v i. i < sz \<Longrightarrow> mem (free_proc a ptr (user a) v) (q + i) = mem v (q + i)"
  shows "\<exists>w'. vsc_xalloc_ex a ptr sz VSC_ALLOC_REALLOC al w = Some (0, q, w') \<and>
    (\<forall>i < size_proc a ptr (user a) w. mem w' (q + i) = mem w (ptr + i))"
proof -
  have R: "VSC_ALLOC_REALLOC \<noteq> 0" "VSC_ALLOC_REALLOC AND NOT VSC_ALLOC_REALLOC = 0"
    by (simp_all add: alloc_flags)
  show ?thesis
    using assms R by (auto simp: vsc_xalloc_ex_def Let_def memcpy_def)
qed



text \<open>
  An allocator that refuses reallocation and places every block at one address, as a linear
  allocator with room for one block does: the instance the witnesses use.
\<close>

definition fixed_allocator :: "addr \<Rightarrow> size_t \<Rightarrow> size_t \<Rightarrow> unit VscAllocator" where
  "fixed_allocator p n al =
     \<lparr>alloc_proc = (\<lambda>ptr sz al flags u w.
         if flags AND VSC_ALLOC_REALLOC \<noteq> 0 then (VSC_ERROR ENOTSUP, ptr, w) else (0, p, w)),
      free_proc = (\<lambda>p u w. w), size_proc = (\<lambda>p u w. n), alignment = al, user = 0\<rparr>"

definition sample_world :: "unit world" where
  "sample_world = \<lparr>mem = (\<lambda>x. 0), os = ()\<rparr>"

theorem vsc_xalloc_ex_emulated_realloc_witness:
  "\<exists>w'. vsc_xalloc_ex (fixed_allocator 0x2000 8 16) 0x1000 24 VSC_ALLOC_REALLOC 16
      \<lparr>mem = (\<lambda>x. ucast x), os = ()\<rparr> = Some (0, 0x2000, w') \<and> mem w' 0x2005 = 5"
proof -
  let ?w = "\<lparr>mem = (\<lambda>x. ucast x), os = ()\<rparr> :: unit world"
  have "\<exists>w'. vsc_xalloc_ex (fixed_allocator 0x2000 8 16) 0x1000 24 VSC_ALLOC_REALLOC 16 ?w = Some (0, 0x2000, w') \<and>
    (\<forall>i < size_proc (fixed_allocator 0x2000 8 16) 0x1000 (user (fixed_allocator 0x2000 8 16)) ?w.
       mem w' (0x2000 + i) = mem ?w (0x1000 + i))"
    by (rule vsc_xalloc_ex_emulated_realloc [where ?w1.0 = ?w]) (simp_all add: fixed_allocator_def alloc_flags)
  then obtain w' where w': "vsc_xalloc_ex (fixed_allocator 0x2000 8 16) 0x1000 24 VSC_ALLOC_REALLOC 16 ?w = Some (0, 0x2000, w')"
    and copied: "\<forall>i < 8. mem w' (0x2000 + i) = mem ?w (0x1000 + i)"
    by (auto simp: fixed_allocator_def)
  from copied have "mem w' (0x2000 + 5) = mem ?w (0x1000 + 5)" by (rule allE [of _ 5]) simp
  then have "mem w' 0x2005 = 5" by simp
  with w' show ?thesis by blast
qed


text \<open>
  The branch of pass 2 commented ``this is a bug and should never happen'' can be taken: an
  allocator that returns a block aligned exactly as requested, here to 16 at 0x1020, makes a
  request of 48 bytes aligned to 16 followed by 8 bytes aligned to 64 fail with ENOSPC, because
  pass 1 measures padding from offset 0 and the block is only aligned for its first member.
\<close>

theorem vsc_block_xalloc_enospc:
  "vsc_block_xalloc (Some (fixed_allocator 0x1020 0 16)) (Some [1, 2])
      (Some [\<lparr>count = 48, element_size = 1, block_alignment = 16, out = 0\<rparr>,
             \<lparr>count = 8, element_size = 1, block_alignment = 64, out = 0\<rparr>]) 0 w =
    Some (VSC_ERROR ENOSPC, Some [0, 0], w) \<and>
   vsc_is_aligned 0x1020 16"
  by (simp add: vsc_block_xalloc_def fixed_allocator_def block_reqsize_def block_initial_def block_size_def
      block_align_def VSC_IS_ALIGNED_def vsc_align_def Let_def vsc_xalloc_ex_def store_out_def vsc_xfree_def
      alloc_flags vsc_is_aligned_def)

end
