(* ===== verification/Stdio.thy ===== *)
theory Stdio
  imports Memory
begin

text \<open>
  Streams, as the C library provides them to \<open>io.h\<close>, \<open>wav.c\<close>, \<open>getline.c\<close>, \<open>freadall.c\<close> and
  \<open>error.c\<close>, and the wrappers of \<open>stdio.c\<close>. A \<open>FILE\<close> has the bytes of the file, the position,
  the room that is left for writing, an offset from which reads fail, the errno seeking fails
  with (for a pipe ESPIPE), the descriptor (negative when there is none), and the two indicators.
\<close>

section \<open>Streams\<close>

record FILE =
  fdata :: "byte list"
  fpos :: nat
  froom :: nat
  fbad :: "nat option"
  fnoseek :: "int option"
  fdesc :: int
  feof :: bool
  ferror :: bool

text \<open>The bytes a read can get before the end of the file or an error.\<close>

definition readable :: "FILE \<Rightarrow> nat" where
  "readable f = (case fbad f of None \<Rightarrow> length (fdata f) | Some k \<Rightarrow> min k (length (fdata f))) - fpos f"

definition read_fails :: "FILE \<Rightarrow> bool" where
  "read_fails f = (case fbad f of None \<Rightarrow> False | Some k \<Rightarrow> k \<le> length (fdata f))"

text \<open>A read of \<open>n\<close> bytes is short only at the end of the file or on an error.\<close>

definition read_bytes :: "nat \<Rightarrow> FILE \<Rightarrow> byte list \<times> FILE" where
  "read_bytes n f =
     (let k = min n (readable f);
          f' = f\<lparr>fpos := fpos f + k\<rparr>
      in (take k (drop (fpos f) (fdata f)),
          if k = n then f' else if read_fails f then f'\<lparr>ferror := True\<rparr> else f'\<lparr>feof := True\<rparr>))"

definition write_bytes :: "byte list \<Rightarrow> FILE \<Rightarrow> nat \<times> FILE" where
  "write_bytes bs f =
     (let k = min (length bs) (froom f);
          f' = f\<lparr>fdata := fdata f @ take k bs, froom := froom f - k\<rparr>
      in (k, if k = length bs then f' else f'\<lparr>ferror := True\<rparr>))"

text \<open>\<open>fread\<close> and \<open>fwrite\<close> count whole items; items of size 0 transfer nothing.\<close>

definition fread :: "nat \<Rightarrow> nat \<Rightarrow> FILE \<Rightarrow> nat \<times> byte list \<times> FILE" where
  "fread sz n f =
     (if sz = 0 \<or> n = 0 then (0, [], f)
      else let (bs, f) = read_bytes (sz * n) f in (length bs div sz, bs, f))"

definition fwrite :: "byte list \<Rightarrow> nat \<Rightarrow> nat \<Rightarrow> FILE \<Rightarrow> nat \<times> FILE" where
  "fwrite buf sz n f =
     (if sz = 0 \<or> n = 0 then (0, f)
      else let (k, f) = write_bytes (take (sz * n) buf) f in (k div sz, f))"

definition EOF :: int where
  "EOF = - 1"

definition getc :: "FILE \<Rightarrow> int \<times> FILE" where
  "getc f = (let (bs, f) = read_bytes 1 f in (case bs of [] \<Rightarrow> EOF | c # _ \<Rightarrow> uint c, f))"

text \<open>A system call's result and the errno it leaves. \<open>whence\<close> is 0 for SEEK_SET, 1 for SEEK_CUR, 2 for SEEK_END.\<close>

definition ftello :: "FILE \<Rightarrow> int \<times> int" where
  "ftello f = (case fnoseek f of None \<Rightarrow> (int (fpos f), 0) | Some e \<Rightarrow> (- 1, e))"

definition fseeko :: "FILE \<Rightarrow> int \<Rightarrow> int \<Rightarrow> int \<times> int \<times> FILE" where
  "fseeko f offset whence =
     (case fnoseek f of
        Some e \<Rightarrow> (- 1, e, f)
      | None \<Rightarrow>
          let p = (if whence = 0 then 0 else if whence = 1 then int (fpos f) else int (length (fdata f))) + offset
          in if p < 0 then (- 1, EINVAL, f) else (0, 0, f\<lparr>fpos := nat p, feof := False\<rparr>))"

definition fileno :: "FILE \<Rightarrow> int \<times> int" where
  "fileno f = (if fdesc f < 0 then (- 1, EBADF) else (fdesc f, 0))"

section \<open>The wrappers (stdio.c)\<close>

definition vsc_fileno :: "FILE \<Rightarrow> int" where
  "vsc_fileno stream = (let (r, errno) = fileno stream in if r < 0 then VSC_ERROR errno else r)"

definition vsc_ftello :: "FILE \<Rightarrow> int" where
  "vsc_ftello stream = (let (r, errno) = ftello stream in if r < 0 then VSC_ERROR errno else r)"

definition vsc_fseeko :: "FILE \<Rightarrow> int \<Rightarrow> int \<Rightarrow> int \<times> FILE" where
  "vsc_fseeko stream offset whence =
     (let (r, errno, stream) = fseeko stream offset whence
      in if r < 0 then (VSC_ERROR errno, stream) else (r, stream))"

text \<open>
  The descriptor calls of the operating system, over its state \<open>'o\<close>: each returns its result,
  errno and the new state.
\<close>

record 'o posix =
  sys_open :: "string \<Rightarrow> int \<Rightarrow> 'o \<Rightarrow> int \<times> int \<times> 'o"
  sys_dup2 :: "int \<Rightarrow> int \<Rightarrow> 'o \<Rightarrow> int \<times> int \<times> 'o"
  sys_close :: "int \<Rightarrow> 'o \<Rightarrow> int \<times> int \<times> 'o"
  sys_chdir :: "string \<Rightarrow> 'o \<Rightarrow> int \<times> int \<times> 'o"
  sys_fopen :: "string \<Rightarrow> string \<Rightarrow> 'o \<Rightarrow> FILE option \<times> int \<times> 'o"

definition vsc_open :: "'o posix \<Rightarrow> string \<Rightarrow> int \<Rightarrow> 'o \<Rightarrow> int \<times> 'o" where
  "vsc_open px pathname flags s =
     (let (r, errno, s) = sys_open px pathname flags s in if r < 0 then (VSC_ERROR errno, s) else (r, s))"

definition vsc_dup2 :: "'o posix \<Rightarrow> int \<Rightarrow> int \<Rightarrow> 'o \<Rightarrow> int \<times> 'o" where
  "vsc_dup2 px oldfd newfd s =
     (let (r, errno, s) = sys_dup2 px oldfd newfd s in if r < 0 then (VSC_ERROR errno, s) else (r, s))"

definition vsc_close :: "'o posix \<Rightarrow> int \<Rightarrow> 'o \<Rightarrow> int \<times> 'o" where
  "vsc_close px fd s =
     (let (r, errno, s) = sys_close px fd s in if r < 0 then (VSC_ERROR errno, s) else (r, s))"

section \<open>Files (fopena.c, chdir.c, fnullify.c)\<close>

text \<open>The status and what \<open>*fp\<close> holds; the POSIX branch uses the allocator for nothing.\<close>

definition vsc_fopena ::
  "'o posix \<Rightarrow> string \<Rightarrow> string \<Rightarrow> FILE option \<Rightarrow> 's VscAllocator \<Rightarrow> 'o \<Rightarrow> int \<times> FILE option \<times> 'o" where
  "vsc_fopena px pathname mode fp a s =
     (let (f, errno, s) = sys_fopen px pathname mode s
      in case f of None \<Rightarrow> (VSC_ERROR errno, fp, s) | Some f \<Rightarrow> (0, Some f, s))"

definition vsc_chdira :: "'o posix \<Rightarrow> string \<Rightarrow> 's VscAllocator \<Rightarrow> 'o \<Rightarrow> int \<times> 'o" where
  "vsc_chdira px path a s =
     (let (r, errno, s) = sys_chdir px path s in if r < 0 then (VSC_ERROR errno, s) else (0, s))"

definition VSC_DEVNULL :: string where
  "VSC_DEVNULL = ''/dev/null''"

definition O_RDWR :: int where
  "O_RDWR = 2"

definition vsc_fnullify :: "'o posix \<Rightarrow> FILE option \<Rightarrow> 'o \<Rightarrow> int \<times> 'o" where
  "vsc_fnullify px file s =
     (case file of
        None \<Rightarrow> (VSC_ERROR EINVAL, s)
      | Some f \<Rightarrow>
          let fd = vsc_fileno f
          in if fd < 0 then (fd, s)
             else
               let (devnull, s) = vsc_open px VSC_DEVNULL O_RDWR s
               in if devnull < 0 then (devnull, s)
                  else
                    let (r, s) = vsc_dup2 px devnull fd s
                    in if r < 0 then (let (_, s) = vsc_close px devnull s in (r, s))
                       else (fd, s))"

section \<open>Facts\<close>

text \<open>The bytes of a literal.\<close>

definition ascii :: "string \<Rightarrow> byte list" where
  "ascii s = map of_char s"

lemma readable_le: "readable f \<le> length (fdata f) - fpos f"
  by (auto simp: readable_def split: option.split)

lemma write_bytes_fits:
  "length bs \<le> froom f \<Longrightarrow> write_bytes bs f = (length bs, f\<lparr>fdata := fdata f @ bs, froom := froom f - length bs\<rparr>)"
  by (simp add: write_bytes_def Let_def)

lemma fwrite_one:
  "sz \<noteq> 0 \<Longrightarrow> length bs = sz \<Longrightarrow>
   (case fwrite bs sz 1 f of (k, f') \<Rightarrow>
      if sz \<le> froom f then k = 1 \<and> f' = f\<lparr>fdata := fdata f @ bs, froom := froom f - sz\<rparr> else k = 0)"
  by (auto simp: fwrite_def write_bytes_def Let_def)

lemma read_bytes_all:
  "n \<le> readable f \<Longrightarrow> read_bytes n f = (take n (drop (fpos f) (fdata f)), f\<lparr>fpos := fpos f + n\<rparr>)"
  by (simp add: read_bytes_def)

lemma length_read_bytes: "length (fst (read_bytes n f)) = min n (readable f)"
  using readable_le [of f] by (auto simp: read_bytes_def Let_def)

end
