(* ===== verification/ByteIO.thy ===== *)
theory ByteIO
  imports Stdio
begin

text \<open>
  \<open>io.h\<close>: byte order and the reading and writing of fixed-width integers. The macros declare
  one function per width and signedness; a definition here is polymorphic in the width, and the
  signed functions are the unsigned ones, since the conversions between the two types keep the
  bits. The platform is little-endian.
\<close>

section \<open>Swapping\<close>

definition vsc_swap_uint16 :: "uint16 \<Rightarrow> uint16" where
  "vsc_swap_uint16 x =
     push_bit 8 (drop_bit 0 (x AND 0x00FF)) OR push_bit 0 (drop_bit 8 (x AND 0xFF00))"

definition vsc_swap_uint32 :: "uint32 \<Rightarrow> uint32" where
  "vsc_swap_uint32 x =
     push_bit 24 (drop_bit 0 (x AND 0x000000FF)) OR push_bit 16 (drop_bit 8 (x AND 0x0000FF00)) OR
     push_bit 8 (drop_bit 16 (x AND 0x00FF0000)) OR push_bit 0 (drop_bit 24 (x AND 0xFF000000))"

definition vsc_swap_uint64 :: "uint64 \<Rightarrow> uint64" where
  "vsc_swap_uint64 x =
     push_bit 56 (drop_bit 0 (x AND 0x00000000000000FF)) OR push_bit 48 (drop_bit 8 (x AND 0x000000000000FF00)) OR
     push_bit 40 (drop_bit 16 (x AND 0x0000000000FF0000)) OR push_bit 32 (drop_bit 24 (x AND 0x00000000FF000000)) OR
     push_bit 24 (drop_bit 32 (x AND 0x000000FF00000000)) OR push_bit 16 (drop_bit 40 (x AND 0x0000FF0000000000)) OR
     push_bit 8 (drop_bit 48 (x AND 0x00FF000000000000)) OR push_bit 0 (drop_bit 56 (x AND 0xFF00000000000000))"

text \<open>\<open>vsc_swap_int16\<close> and the others: a cast, the unsigned swap, a cast.\<close>

definition vsc_swap_int16 :: "int \<Rightarrow> int" where
  "vsc_swap_int16 x = sint (vsc_swap_uint16 (word_of_int x))"

definition vsc_swap_int32 :: "int \<Rightarrow> int" where
  "vsc_swap_int32 x = sint (vsc_swap_uint32 (word_of_int x))"

definition vsc_swap_int64 :: "int \<Rightarrow> int" where
  "vsc_swap_int64 x = sint (vsc_swap_uint64 (word_of_int x))"

text \<open>The swap the macros select by width.\<close>

definition vsc_swap :: "'a::len word \<Rightarrow> 'a word" where
  "vsc_swap x =
     (if LENGTH('a) = 16 then ucast (vsc_swap_uint16 (ucast x))
      else if LENGTH('a) = 32 then ucast (vsc_swap_uint32 (ucast x))
      else if LENGTH('a) = 64 then ucast (vsc_swap_uint64 (ucast x))
      else x)"

section \<open>Conversion (\<open>VSCLIB_DECLARE_IO_CONVERTERS(l, b)\<close>)\<close>

datatype endian = L | B

definition vsc_native_to_e :: "endian \<Rightarrow> 'a::len word \<Rightarrow> 'a word" where
  "vsc_native_to_e e x = (case e of L \<Rightarrow> x | B \<Rightarrow> vsc_swap x)"

definition vsc_e_to_native :: "endian \<Rightarrow> 'a::len word \<Rightarrow> 'a word" where
  "vsc_e_to_native e x = (case e of L \<Rightarrow> x | B \<Rightarrow> vsc_swap x)"

section \<open>Buffers\<close>

text \<open>The object representation of an integer, least significant byte first, and back.\<close>

definition sizeof_word :: "'a::len word \<Rightarrow> nat" where
  "sizeof_word v = LENGTH('a) div 8"

definition to_bytes :: "'a::len word \<Rightarrow> byte list" where
  "to_bytes v = map (\<lambda>i. ucast (drop_bit (8 * i) v)) [0..<sizeof_word v]"

fun of_bytes :: "byte list \<Rightarrow> 'a::len word" where
  "of_bytes [] = 0"
| "of_bytes (b # bs) = ucast b OR push_bit 8 (of_bytes bs)"

text \<open>\<open>memcpy(p, &v, sizeof(v))\<close> at offset \<open>p\<close> of a buffer, and \<open>memcpy(&v, p, sizeof(v))\<close>.\<close>

definition vsc_write_uint :: "byte list \<Rightarrow> nat \<Rightarrow> 'a::len word \<Rightarrow> byte list" where
  "vsc_write_uint buf p v = take p buf @ to_bytes v @ drop (p + sizeof_word v) buf"

definition vsc_read_uint :: "byte list \<Rightarrow> nat \<Rightarrow> 'a::len word" where
  "vsc_read_uint buf p = of_bytes (take (LENGTH('a) div 8) (drop p buf))"

definition vsc_write_e :: "endian \<Rightarrow> byte list \<Rightarrow> nat \<Rightarrow> 'a::len word \<Rightarrow> byte list" where
  "vsc_write_e e buf p v = vsc_write_uint buf p (vsc_native_to_e e v)"

definition vsc_read_e :: "endian \<Rightarrow> byte list \<Rightarrow> nat \<Rightarrow> 'a::len word" where
  "vsc_read_e e buf p = vsc_e_to_native e (vsc_read_uint buf p)"

section \<open>Streams\<close>

definition vsc_fwrite_uint :: "FILE \<Rightarrow> 'a::len word \<Rightarrow> nat \<times> FILE" where
  "vsc_fwrite_uint f v = fwrite (to_bytes v) (sizeof_word v) 1 f"

definition vsc_fread_uint :: "FILE \<Rightarrow> 'a::len word \<times> FILE" where
  "vsc_fread_uint f =
     (let (k, bs, f) = fread (LENGTH('a) div 8) 1 f
      in if k \<noteq> 1 then (0, f) else (of_bytes bs, f))"

definition vsc_fwrite_e :: "endian \<Rightarrow> FILE \<Rightarrow> 'a::len word \<Rightarrow> nat \<times> FILE" where
  "vsc_fwrite_e e f v = vsc_fwrite_uint f (vsc_native_to_e e v)"

definition vsc_fread_e :: "endian \<Rightarrow> FILE \<Rightarrow> 'a::len word \<times> FILE" where
  "vsc_fread_e e f = (let (v, f) = vsc_fread_uint f in (vsc_e_to_native e v, f))"

section \<open>Object representations\<close>

lemma length_to_bytes [simp]: "length (to_bytes v) = sizeof_word v"
  by (simp add: to_bytes_def)

lemma bit_of_bytes:
  "bit (of_bytes bs :: 'a::len word) n \<longleftrightarrow> n < LENGTH('a) \<and> n div 8 < length bs \<and> bit (bs ! (n div 8)) (n mod 8)"
proof (induction bs arbitrary: n)
  case (Cons b bs)
  show ?case
  proof (cases "n < 8")
    case True
    then show ?thesis by (auto simp: bit_or_iff bit_push_bit_iff bit_unsigned_iff)
  next
    case False
    then obtain m where "n = 8 + m" using le_Suc_ex not_less by blast
    then have "n div 8 = Suc ((n - 8) div 8)" "n mod 8 = (n - 8) mod 8"
      by simp_all
    then show ?thesis
      using False Cons.IH [of "n - 8"]
      by (auto simp: bit_or_iff bit_push_bit_iff bit_unsigned_iff dest: bit_imp_le_length)
  qed
qed simp

lemma of_to_bytes:
  assumes "8 dvd LENGTH('a)" shows "of_bytes (to_bytes v) = (v :: 'a::len word)"
proof (rule bit_word_eqI)
  fix n assume n: "n < LENGTH('a)"
  obtain k where k: "LENGTH('a) = 8 * k" using assms by blast
  then have "n div 8 < sizeof_word v" using n by (simp add: sizeof_word_def less_mult_imp_div_less mult.commute)
  moreover have "8 * (n div 8) + n mod 8 = n" by simp
  ultimately show "bit (of_bytes (to_bytes v) :: 'a word) n = bit v n"
    using n by (simp add: bit_of_bytes to_bytes_def bit_unsigned_iff bit_drop_bit_eq)
qed

lemma to_of_bytes:
  assumes "length bs = LENGTH('a) div 8" shows "to_bytes (of_bytes bs :: 'a::len word) = bs"
proof (rule nth_equalityI)
  fix i assume "i < length (to_bytes (of_bytes bs :: 'a word))"
  then have i: "i < LENGTH('a) div 8" by (simp add: sizeof_word_def)
  show "to_bytes (of_bytes bs :: 'a word) ! i = bs ! i"
  proof (rule bit_word_eqI)
    fix n assume n: "n < LENGTH(8)"
    have "8 * i + n < LENGTH('a)" using i n by (simp add: less_eq_div_iff_mult_less_eq)
    moreover have "(8 * i + n) div 8 = i" "(8 * i + n) mod 8 = n" using n by simp_all
    ultimately show "bit (to_bytes (of_bytes bs :: 'a word) ! i) n = bit (bs ! i) n"
      using i n assms
      by (simp add: to_bytes_def sizeof_word_def bit_unsigned_iff bit_drop_bit_eq bit_of_bytes)
  qed
qed (simp add: assms sizeof_word_def)

section \<open>Swaps\<close>

text \<open>One term of a swap: the byte at bit \<open>b\<close> goes to bit \<open>a\<close>.\<close>

lemma swap_term:
  assumes "m = push_bit b (mask 8)" "b + 8 \<le> LENGTH('a)"
  shows "push_bit a (drop_bit b (x AND m)) = push_bit a (ucast (ucast (drop_bit b x) :: byte) :: 'a::len word)"
proof -
  have "drop_bit b (x AND m) = ucast (ucast (drop_bit b x) :: byte)"
    using assms(2)
    by (auto simp: assms(1) bit_eq_iff bit_drop_bit_eq bit_and_iff bit_push_bit_iff bit_mask_iff bit_unsigned_iff
          dest: bit_imp_le_length)
  then show ?thesis by simp
qed

lemma swap_mask:
  "0x00FF = push_bit 0 (mask 8 :: uint16)" "0xFF00 = push_bit 8 (mask 8 :: uint16)"
  "0x000000FF = push_bit 0 (mask 8 :: uint32)" "0x0000FF00 = push_bit 8 (mask 8 :: uint32)"
  "0x00FF0000 = push_bit 16 (mask 8 :: uint32)" "0xFF000000 = push_bit 24 (mask 8 :: uint32)"
  "0x00000000000000FF = push_bit 0 (mask 8 :: uint64)" "0x000000000000FF00 = push_bit 8 (mask 8 :: uint64)"
  "0x0000000000FF0000 = push_bit 16 (mask 8 :: uint64)" "0x00000000FF000000 = push_bit 24 (mask 8 :: uint64)"
  "0x000000FF00000000 = push_bit 32 (mask 8 :: uint64)" "0x0000FF0000000000 = push_bit 40 (mask 8 :: uint64)"
  "0x00FF000000000000 = push_bit 48 (mask 8 :: uint64)" "0xFF00000000000000 = push_bit 56 (mask 8 :: uint64)"
  by (simp_all add: mask_eq_exp_minus_1 push_bit_eq_mult)

lemmas swap_terms = swap_mask [THEN swap_term]

lemmas width = len_bit0 len_bit1 len_num1 len_num0 arith_simps rel_simps add_0 add_0_right mult_1_right simp_thms
  numeral_One one_add_one numeral_plus_one one_plus_numeral

lemma upt_bytes: "[0..<2] = [0, 1]" "[0..<4] = [0, 1, 2, 3]" "[0..<8] = [0, 1, 2, 3, 4, 5, 6, 7 :: nat]"
  by (simp_all add: upt_rec)

lemmas to_bytes_unroll = to_bytes_def sizeof_word_def upt_bytes

lemma swap_uint16_of_bytes: "vsc_swap_uint16 x = of_bytes (rev (to_bytes x))"
  unfolding vsc_swap_uint16_def
  by (simp only: swap_terms width) (simp add: to_bytes_unroll push_bit_or or.commute or.left_commute or.assoc)

lemma swap_uint32_of_bytes: "vsc_swap_uint32 x = of_bytes (rev (to_bytes x))"
  unfolding vsc_swap_uint32_def
  by (simp only: swap_terms width) (simp add: to_bytes_unroll push_bit_or or.commute or.left_commute or.assoc)

lemma swap_uint64_of_bytes: "vsc_swap_uint64 x = of_bytes (rev (to_bytes x))"
  unfolding vsc_swap_uint64_def
  by (simp only: swap_terms width) (simp add: to_bytes_unroll push_bit_or or.commute or.left_commute or.assoc)

lemma rev_to_bytes_inj:
  assumes "8 dvd LENGTH('a)" shows "of_bytes (rev (to_bytes (of_bytes (rev (to_bytes v)) :: 'a word))) = (v :: 'a::len word)"
  by (subst to_of_bytes) (simp_all add: sizeof_word_def of_to_bytes assms)

lemma vsc_swap_of_bytes:
  assumes "LENGTH('a) \<in> {16, 32, 64}" shows "vsc_swap (v :: 'a::len word) = of_bytes (rev (to_bytes v))"
proof -
  have *: "(ucast (of_bytes bs :: 'b::len word) :: 'a word) = of_bytes bs" "to_bytes (ucast v :: 'b word) = to_bytes v"
    if "LENGTH('b) = LENGTH('a)" for bs
  proof -
    show "(ucast (of_bytes bs :: 'b::len word) :: 'a word) = of_bytes bs"
      by (rule bit_word_eqI) (simp add: bit_unsigned_iff bit_of_bytes that)
    show "to_bytes (ucast v :: 'b word) = to_bytes v"
      by (auto simp: to_bytes_def sizeof_word_def that bit_eq_iff bit_unsigned_iff bit_drop_bit_eq
            simp flip: that dest: bit_imp_le_length)
  qed
  consider "LENGTH('a) = LENGTH(16)" | "LENGTH('a) = LENGTH(32)" | "LENGTH('a) = LENGTH(64)" using assms by auto
  then show ?thesis
    by cases
      (simp_all add: vsc_swap_def swap_uint16_of_bytes swap_uint32_of_bytes swap_uint64_of_bytes *)
qed

lemma vsc_swap_involution: "vsc_swap (vsc_swap v) = v"
proof (cases "LENGTH('a) \<in> {16, 32, 64}")
  case True
  then have "8 dvd LENGTH('a)" by auto
  with True show ?thesis by (simp only: vsc_swap_of_bytes rev_to_bytes_inj)
qed (simp add: vsc_swap_def)

lemma to_bytes_swap:
  assumes "LENGTH('a) \<in> {16, 32, 64}" shows "to_bytes (vsc_swap (v :: 'a::len word)) = rev (to_bytes v)"
proof -
  have "length (rev (to_bytes v)) = LENGTH('a) div 8" by (simp add: sizeof_word_def)
  then show ?thesis by (simp only: vsc_swap_of_bytes [OF assms] to_of_bytes)
qed

section \<open>The conversions as a codec\<close>

locale word_codec =
  fixes enc dec :: "'a::len word \<Rightarrow> 'a word"
  assumes dec_enc: "dec (enc v) = v"

context word_codec begin

lemma buffer_roundtrip:
  assumes "8 dvd LENGTH('a)" "p + LENGTH('a) div 8 \<le> length buf"
  shows "dec (vsc_read_uint (vsc_write_uint buf p (enc v)) p) = v"
  using assms
  by (simp add: vsc_read_uint_def vsc_write_uint_def sizeof_word_def of_to_bytes dec_enc min_def)

lemma stream_roundtrip:
  assumes w: "8 dvd LENGTH('a)" and room: "LENGTH('a) div 8 \<le> froom f"
    and g: "fdata g = fdata f @ to_bytes (enc v) @ rest" "fpos g = length (fdata f)" "fbad g = None"
  shows "vsc_fread_uint g = (enc v, g\<lparr>fpos := fpos g + LENGTH('a) div 8\<rparr>)"
proof -
  have pos: "0 < LENGTH('a) div 8" using w len_gt_0 [where 'a='a] by (elim dvdE) simp
  have "readable g \<ge> LENGTH('a) div 8" using g by (simp add: readable_def sizeof_word_def)
  then show ?thesis
    using pos g
    by (simp add: vsc_fread_uint_def fread_def read_bytes_all of_to_bytes [OF w] sizeof_word_def)
qed

end

interpretation io: word_codec "vsc_native_to_e e" "vsc_e_to_native e" for e
  by unfold_locales (simp add: vsc_native_to_e_def vsc_e_to_native_def vsc_swap_involution split: endian.split)

text \<open>The byte a value has at offset \<open>i\<close> of its external representation.\<close>

definition external_byte :: "endian \<Rightarrow> 'a::len word \<Rightarrow> nat \<Rightarrow> byte" where
  "external_byte e v i = ucast (drop_bit (8 * (case e of L \<Rightarrow> i | B \<Rightarrow> sizeof_word v - 1 - i)) v)"

lemma to_bytes_external:
  assumes "LENGTH('a) \<in> {16, 32, 64}"
  shows "to_bytes (vsc_native_to_e e (v :: 'a::len word)) = map (external_byte e v) [0..<sizeof_word v]"
proof (cases e)
  case L
  then show ?thesis by (simp add: vsc_native_to_e_def external_byte_def to_bytes_def)
next
  case B
  have "rev (to_bytes v) = map (external_byte B v) [0..<sizeof_word v]"
    by (rule nth_equalityI) (simp_all add: to_bytes_def external_byte_def rev_nth)
  then show ?thesis using B by (simp add: vsc_native_to_e_def to_bytes_swap [OF assms])
qed

text \<open>
  (C24) Storing a 16, 32 or 64 bit integer in either byte order puts its bytes in that order at the
  given offset, changes nothing else of the buffer, and reading it back gives the integer.
\<close>

theorem write_e_layout:
  assumes "LENGTH('a) \<in> {16, 32, 64}" "p + LENGTH('a) div 8 \<le> length buf"
  shows "vsc_read_e e (vsc_write_e e buf p v) p = (v :: 'a::len word) \<and>
    length (vsc_write_e e buf p v) = length buf \<and>
    (\<forall>i<length buf. vsc_write_e e buf p v ! i =
       (if i < p \<or> p + LENGTH('a) div 8 \<le> i then buf ! i else external_byte e v (i - p)))"
proof (intro conjI allI impI)
  have "8 dvd LENGTH('a)" using assms(1) by auto
  then show "vsc_read_e e (vsc_write_e e buf p v) p = v"
    unfolding vsc_read_e_def vsc_write_e_def using assms(2) by (rule io.buffer_roundtrip)
  show "length (vsc_write_e e buf p v) = length buf"
    using assms(2) by (simp add: vsc_write_e_def vsc_write_uint_def sizeof_word_def)
  show "vsc_write_e e buf p v ! i =
       (if i < p \<or> p + LENGTH('a) div 8 \<le> i then buf ! i else external_byte e v (i - p))" if "i < length buf" for i
    using assms(2) that
    by (auto simp: vsc_write_e_def vsc_write_uint_def to_bytes_external [OF assms(1)] nth_append sizeof_word_def)
qed

lemma write_e_layout_witness:
  "vsc_write_e B (replicate 6 0) 1 (0x12345678 :: uint32) ! 1 = 0x12 \<and>
   vsc_read_e B (vsc_write_e B (replicate 6 0) 1 (0x12345678 :: uint32)) 1 = (0x12345678 :: uint32)"
  using write_e_layout [where 'a=32 and p=1 and buf="replicate 6 0" and e=B and v="0x12345678"]
  by (simp add: external_byte_def sizeof_word_def drop_bit_eq_div)

text \<open>
  (C23) What the stream writers put out, the stream readers get back: with room for the integer the
  writer returns 1, and a reader positioned there returns it and advances past it, whatever
  follows; without the room the writer does not return 1, and a reader with fewer bytes left returns 0.
\<close>

theorem fread_fwrite_e:
  assumes w: "LENGTH('a) \<in> {16, 32, 64}"
  shows "(case vsc_fwrite_e e f (v :: 'a::len word) of (k, f') \<Rightarrow>
     if LENGTH('a) div 8 \<le> froom f
     then k = 1 \<and>
       (\<forall>g rest. fdata g = fdata f' @ rest \<longrightarrow> fpos g = length (fdata f) \<longrightarrow> fbad g = None \<longrightarrow>
          vsc_fread_e e g = (v, g\<lparr>fpos := fpos g + LENGTH('a) div 8\<rparr>))
     else k = 0) \<and>
    (readable h < LENGTH('a) div 8 \<longrightarrow> fst (vsc_fread_e e h) = (0 :: 'a word))" (is "?round_trip \<and> ?read")
proof
  have w8: "8 dvd LENGTH('a)" and pos: "0 < LENGTH('a) div 8" using w by auto
  let ?f = "f\<lparr>fdata := fdata f @ to_bytes (vsc_native_to_e e v), froom := froom f - LENGTH('a) div 8\<rparr>"
  have wr: "vsc_fwrite_e e f v = (1, ?f)" if "LENGTH('a) div 8 \<le> froom f"
    using that pos
    by (simp add: vsc_fwrite_e_def vsc_fwrite_uint_def fwrite_def write_bytes_fits sizeof_word_def)
  have no: "fst (vsc_fwrite_e e f v) = 0" if "\<not> LENGTH('a) div 8 \<le> froom f"
    using that pos
    by (simp add: vsc_fwrite_e_def vsc_fwrite_uint_def fwrite_def write_bytes_def Let_def sizeof_word_def)
  show ?round_trip
    using no wr
    by (auto simp: vsc_fread_e_def io.stream_roundtrip [OF w8] io.dec_enc split: prod.split)
  have "vsc_e_to_native e (0 :: 'a word) = 0"
    by (cases e) (simp_all add: vsc_e_to_native_def vsc_swap_def vsc_swap_uint16_def vsc_swap_uint32_def vsc_swap_uint64_def)
  then show ?read
    using length_read_bytes [of "LENGTH('a) div 8" h]
    by (auto simp: vsc_fread_e_def vsc_fread_uint_def fread_def split: prod.split)
qed

lemma fread_fwrite_e_witness:
  "case vsc_fwrite_e B \<lparr>fdata = [7], fpos = 1, froom = 9, fbad = None, fnoseek = None, fdesc = 3, feof = False, ferror = False\<rparr> (0x12345678 :: uint32) of
     (k, f') \<Rightarrow> k = 1 \<and> 
       fst (vsc_fread_e B (f'\<lparr>fdata := fdata f' @ [9], fpos := 1, fbad := None\<rparr>)) = (0x12345678 :: uint32)"
  using fread_fwrite_e [where 'a=32 and e=B and v="0x12345678"
      and f="\<lparr>fdata = [7], fpos = 1, froom = 9, fbad = None, fnoseek = None, fdesc = 3, feof = False, ferror = False\<rparr>"]
  by (auto split: prod.splits)

end
