(* ===== verification/Xxhash.thy ===== *)
theory Xxhash
  imports ByteIO
begin

text \<open>
  The parts of \<open>xxhash.h\<close> that its hash families share: loads, rotations, byte swaps, and the
  contract of the streaming interfaces, as a locale. Memory that is read through a pointer is
  the list of the bytes from there on.
\<close>

section \<open>Loads, swaps and rotations\<close>

definition XXH_read32 :: "byte list \<Rightarrow> uint32" where
  "XXH_read32 memPtr = of_bytes (take 4 memPtr)"

definition XXH_read64 :: "byte list \<Rightarrow> uint64" where
  "XXH_read64 memPtr = of_bytes (take 8 memPtr)"

text \<open>The bytes of the union with the integer 1 tell the byte order.\<close>

definition XXH_isLittleEndian :: bool where
  "XXH_isLittleEndian = (hd (to_bytes (1 :: uint32)) \<noteq> 0)"

definition XXH_rotl32 :: "uint32 \<Rightarrow> nat \<Rightarrow> uint32" where
  "XXH_rotl32 x r = push_bit r x OR drop_bit (32 - r) x"

definition XXH_rotl64 :: "uint64 \<Rightarrow> nat \<Rightarrow> uint64" where
  "XXH_rotl64 x r = push_bit r x OR drop_bit (64 - r) x"

definition XXH_swap32 :: "uint32 \<Rightarrow> uint32" where
  "XXH_swap32 x =
     (push_bit 24 x AND 0xff000000) OR (push_bit 8 x AND 0x00ff0000) OR
     (drop_bit 8 x AND 0x0000ff00) OR (drop_bit 24 x AND 0x000000ff)"

definition XXH_swap64 :: "uint64 \<Rightarrow> uint64" where
  "XXH_swap64 x =
     (push_bit 56 x AND 0xff00000000000000) OR (push_bit 40 x AND 0x00ff000000000000) OR
     (push_bit 24 x AND 0x0000ff0000000000) OR (push_bit 8 x AND 0x000000ff00000000) OR
     (drop_bit 8 x AND 0x00000000ff000000) OR (drop_bit 24 x AND 0x0000000000ff0000) OR
     (drop_bit 40 x AND 0x000000000000ff00) OR (drop_bit 56 x AND 0x00000000000000ff)"

definition XXH_readLE32 :: "byte list \<Rightarrow> uint32" where
  "XXH_readLE32 ptr = (if XXH_isLittleEndian then XXH_read32 ptr else XXH_swap32 (XXH_read32 ptr))"

definition XXH_readBE32 :: "byte list \<Rightarrow> uint32" where
  "XXH_readBE32 ptr = (if XXH_isLittleEndian then XXH_swap32 (XXH_read32 ptr) else XXH_read32 ptr)"

definition XXH_readLE64 :: "byte list \<Rightarrow> uint64" where
  "XXH_readLE64 ptr = (if XXH_isLittleEndian then XXH_read64 ptr else XXH_swap64 (XXH_read64 ptr))"

definition XXH_readBE64 :: "byte list \<Rightarrow> uint64" where
  "XXH_readBE64 ptr = (if XXH_isLittleEndian then XXH_swap64 (XXH_read64 ptr) else XXH_read64 ptr)"

text \<open>The byte-shift loads that \<open>XXH_FORCE_MEMORY_ACCESS == 3\<close> selects.\<close>

definition XXH_readLE32_shift :: "byte list \<Rightarrow> uint32" where
  "XXH_readLE32_shift bytePtr =
     ucast (bytePtr ! 0) OR push_bit 8 (ucast (bytePtr ! 1)) OR
     push_bit 16 (ucast (bytePtr ! 2)) OR push_bit 24 (ucast (bytePtr ! 3))"

definition XXH_readBE32_shift :: "byte list \<Rightarrow> uint32" where
  "XXH_readBE32_shift bytePtr =
     ucast (bytePtr ! 3) OR push_bit 8 (ucast (bytePtr ! 2)) OR
     push_bit 16 (ucast (bytePtr ! 1)) OR push_bit 24 (ucast (bytePtr ! 0))"

definition XXH_readLE64_shift :: "byte list \<Rightarrow> uint64" where
  "XXH_readLE64_shift bytePtr =
     ucast (bytePtr ! 0) OR push_bit 8 (ucast (bytePtr ! 1)) OR
     push_bit 16 (ucast (bytePtr ! 2)) OR push_bit 24 (ucast (bytePtr ! 3)) OR
     push_bit 32 (ucast (bytePtr ! 4)) OR push_bit 40 (ucast (bytePtr ! 5)) OR
     push_bit 48 (ucast (bytePtr ! 6)) OR push_bit 56 (ucast (bytePtr ! 7))"

definition XXH_readBE64_shift :: "byte list \<Rightarrow> uint64" where
  "XXH_readBE64_shift bytePtr =
     ucast (bytePtr ! 7) OR push_bit 8 (ucast (bytePtr ! 6)) OR
     push_bit 16 (ucast (bytePtr ! 5)) OR push_bit 24 (ucast (bytePtr ! 4)) OR
     push_bit 32 (ucast (bytePtr ! 3)) OR push_bit 40 (ucast (bytePtr ! 2)) OR
     push_bit 48 (ucast (bytePtr ! 1)) OR push_bit 56 (ucast (bytePtr ! 0))"

datatype XXH_alignment = XXH_aligned | XXH_unaligned

definition XXH_readLE32_align :: "byte list \<Rightarrow> XXH_alignment \<Rightarrow> uint32" where
  "XXH_readLE32_align ptr align =
     (if align = XXH_unaligned then XXH_readLE32 ptr
      else if XXH_isLittleEndian then XXH_read32 ptr else XXH_swap32 (XXH_read32 ptr))"

definition XXH_readLE64_align :: "byte list \<Rightarrow> XXH_alignment \<Rightarrow> uint64" where
  "XXH_readLE64_align ptr align =
     (if align = XXH_unaligned then XXH_readLE64 ptr
      else if XXH_isLittleEndian then XXH_read64 ptr else XXH_swap64 (XXH_read64 ptr))"

text \<open>\<open>XXH_memcpy\<close> into an array, at an offset.\<close>

definition XXH_memcpy :: "byte list \<Rightarrow> nat \<Rightarrow> byte list \<Rightarrow> byte list" where
  "XXH_memcpy dest off src = take off dest @ src @ drop (off + length src) dest"

datatype XXH_errorcode = XXH_OK | XXH_ERROR

section \<open>Facts on loads\<close>

lemma isLittleEndian [simp]: "XXH_isLittleEndian"
  by (simp add: XXH_isLittleEndian_def to_bytes_unroll)

lemma readLE32_align [simp]: "XXH_readLE32_align p a = XXH_readLE32 p"
  by (simp add: XXH_readLE32_align_def XXH_readLE32_def)

lemma readLE64_align [simp]: "XXH_readLE64_align p a = XXH_readLE64 p"
  by (simp add: XXH_readLE64_align_def XXH_readLE64_def)

lemma readLE32_append [simp]: "4 \<le> length p \<Longrightarrow> XXH_readLE32 (p @ q) = XXH_readLE32 p"
  by (simp add: XXH_readLE32_def XXH_read32_def)

lemma readLE64_append [simp]: "8 \<le> length p \<Longrightarrow> XXH_readLE64 (p @ q) = XXH_readLE64 p"
  by (simp add: XXH_readLE64_def XXH_read64_def)

lemma take_4: "4 \<le> length p \<Longrightarrow> take 4 p = [p ! 0, p ! 1, p ! 2, p ! 3]"
  by (rule nth_equalityI) (auto simp: less_Suc_eq numeral_eq_Suc)

lemma take_8: "8 \<le> length p \<Longrightarrow> take 8 p = [p ! 0, p ! 1, p ! 2, p ! 3, p ! 4, p ! 5, p ! 6, p ! 7]"
  by (rule nth_equalityI) (auto simp: less_Suc_eq numeral_eq_Suc)

lemmas or_ac = or.assoc or.commute or.left_commute

text \<open>A masked term, shifted before or after the mask.\<close>

lemma swap_fold:
  assumes "m = push_bit a (mask 8)"
  shows "c \<ge> a \<Longrightarrow> push_bit a (drop_bit c x) AND m = drop_bit (c - a) x AND (m :: 'a::len word)"
    and "c < a \<Longrightarrow> push_bit a (drop_bit c x) AND m = push_bit (a - c) x AND (m :: 'a::len word)"
  unfolding assms by (auto simp: bit_eq_iff bit_and_iff bit_push_bit_iff bit_drop_bit_eq bit_mask_iff add.commute)

lemmas swap_folds = swap_mask [THEN swap_fold(1)] swap_mask [THEN swap_fold(2)]

lemma XXH_swap32_vsc: "XXH_swap32 x = vsc_swap_uint32 x"
  unfolding XXH_swap32_def vsc_swap_uint32_def by (simp add: or_ac swap_folds)

lemma XXH_swap64_vsc: "XXH_swap64 x = vsc_swap_uint64 x"
  unfolding XXH_swap64_def vsc_swap_uint64_def by (simp add: or_ac swap_folds)

lemma swap_of_bytes_32: "length p = 4 \<Longrightarrow> XXH_swap32 (of_bytes p) = of_bytes (rev p)"
  by (simp add: XXH_swap32_vsc swap_uint32_of_bytes to_of_bytes)

lemma swap_of_bytes_64: "length p = 8 \<Longrightarrow> XXH_swap64 (of_bytes p) = of_bytes (rev p)"
  by (simp add: XXH_swap64_vsc swap_uint64_of_bytes to_of_bytes)

lemma readBE32: "4 \<le> length p \<Longrightarrow> XXH_readBE32 p = of_bytes (rev (take 4 p))"
  by (simp add: XXH_readBE32_def XXH_read32_def swap_of_bytes_32)

lemma readBE64: "8 \<le> length p \<Longrightarrow> XXH_readBE64 p = of_bytes (rev (take 8 p))"
  by (simp add: XXH_readBE64_def XXH_read64_def swap_of_bytes_64)

lemma read32_shift:
  assumes "4 \<le> length p"
  shows "XXH_readLE32 p = XXH_readLE32_shift p" "XXH_readBE32 p = XXH_readBE32_shift p"
  using assms
  by (simp_all add: XXH_readLE32_def XXH_read32_def readBE32 XXH_readLE32_shift_def XXH_readBE32_shift_def
      take_4 push_bit_or or_ac)

lemma read64_shift:
  assumes "8 \<le> length p"
  shows "XXH_readLE64 p = XXH_readLE64_shift p" "XXH_readBE64 p = XXH_readBE64_shift p"
  using assms
  by (simp_all add: XXH_readLE64_def XXH_read64_def readBE64 XXH_readLE64_shift_def XXH_readBE64_shift_def
      take_8 push_bit_or or_ac)

lemma memcpy_length [simp]: "off + length src \<le> length dest \<Longrightarrow> length (XXH_memcpy dest off src) = length dest"
  by (simp add: XXH_memcpy_def)

lemma memcpy_take [simp]: "off \<le> length dest \<Longrightarrow> take (off + length src) (XXH_memcpy dest off src) = take off dest @ src"
  by (simp add: XXH_memcpy_def)

section \<open>Streaming\<close>

text \<open>
  Both the one-shot functions and the streaming interfaces fold \<open>stripe\<close> over the stripes of \<open>w\<close>
  bytes of the input, in a loop that runs at least once and as long as a whole stripe is left.
\<close>

locale stripes =
  fixes w :: nat
    and stripe :: "'v \<Rightarrow> byte list \<Rightarrow> 'v"
    and loop :: "'v \<Rightarrow> byte list \<Rightarrow> 'v \<times> byte list"
  assumes w_pos: "0 < w"
    and stripe_append: "w \<le> length p \<Longrightarrow> stripe v (p @ q) = stripe v p"
    and loop_eq: "loop v p = (if w \<le> length (drop w p) then loop (stripe v p) (drop w p) else (stripe v p, drop w p))"

primrec absorb :: "nat \<Rightarrow> ('v \<Rightarrow> byte list \<Rightarrow> 'v) \<Rightarrow> nat \<Rightarrow> 'v \<Rightarrow> byte list \<Rightarrow> 'v" where
  "absorb w f 0 v p = v"
| "absorb w f (Suc n) v p = absorb w f n (f v p) (drop w p)"

text \<open>
  The body that the update functions share, over the accumulators, the buffer of \<open>w\<close> bytes and
  the number of bytes in it: a short input is only buffered; otherwise the buffer is filled and
  absorbed, then the stripes of the input, and the rest is buffered.
\<close>

definition buffer_input ::
  "nat \<Rightarrow> ('v \<Rightarrow> byte list \<Rightarrow> 'v) \<Rightarrow> ('v \<Rightarrow> byte list \<Rightarrow> 'v \<times> byte list) \<Rightarrow>
   byte list \<Rightarrow> 'v \<times> byte list \<times> nat \<Rightarrow> 'v \<times> byte list \<times> nat" where
  "buffer_input w stripe loop p = (\<lambda>(v, arr, memsize).
     if memsize + length p < w then (v, XXH_memcpy arr memsize p, memsize + length p)
     else
       let (v, arr, memsize, p) =
             (if memsize \<noteq> 0
              then let arr = XXH_memcpy arr memsize (take (w - memsize) p)
                   in (stripe v arr, arr, 0, drop (w - memsize) p)
              else (v, arr, memsize, p));
           (v, p) = (if w \<le> length p then loop v p else (v, p))
       in if p \<noteq> [] then (v, XXH_memcpy arr 0 p, length p) else (v, arr, memsize))"

text \<open>
  The accumulators \<open>v\<close> and the buffered bytes \<open>buf\<close> are those that the input \<open>xs\<close> leaves: all the
  whole stripes are absorbed, the rest is buffered.
\<close>

definition absorbed :: "nat \<Rightarrow> ('v \<Rightarrow> byte list \<Rightarrow> 'v) \<Rightarrow> 'v \<Rightarrow> byte list \<Rightarrow> 'v \<Rightarrow> byte list \<Rightarrow> bool" where
  "absorbed w f v0 xs v buf =
     (v = absorb w f (length xs div w) v0 xs \<and> buf = drop (w * (length xs div w)) xs)"

context stripes begin

lemma absorb_append: "w * n \<le> length p \<Longrightarrow> absorb w stripe n v (p @ q) = absorb w stripe n v p"
  by (induction n arbitrary: v p) (simp_all add: stripe_append)

lemma absorb_add: "absorb w stripe (m + n) v p = absorb w stripe n (absorb w stripe m v p) (drop (w * m) p)"
  by (induction m arbitrary: v p) (simp_all add: add.commute)

lemma loop_absorb:
  "w \<le> length p \<Longrightarrow> loop v p = (absorb w stripe (length p div w) v p, drop (w * (length p div w)) p)"
proof (induction "length p" arbitrary: v p rule: less_induct)
  case less
  have n: "length p div w = Suc (length (drop w p) div w)"
    using less.prems w_pos by (simp add: le_div_geq)
  show ?case
  proof (cases "w \<le> length (drop w p)")
    case True
    then have "loop (stripe v p) (drop w p) =
        (absorb w stripe (length (drop w p) div w) (stripe v p) (drop w p),
         drop (w * (length (drop w p) div w)) (drop w p))"
      using less.prems w_pos by (intro less.hyps) auto
    then show ?thesis by (subst loop_eq) (simp add: True n add.commute)
  next
    case False
    then have "length (drop w p) div w = 0" by simp
    then show ?thesis by (subst loop_eq) (simp add: False n del: length_drop div_eq_0_iff)
  qed
qed

lemma absorbed_init: "absorbed w stripe v0 [] v0 []"
  by (simp add: absorbed_def)

lemma absorbed_length: "absorbed w stripe v0 xs v buf \<Longrightarrow> length buf = length xs mod w"
  by (auto simp: absorbed_def minus_mult_div_eq_mod)

lemma absorbedI:
  assumes "w * n \<le> length xs" "length xs < w * n + w" "v = absorb w stripe n v0 xs" "buf = drop (w * n) xs"
  shows "absorbed w stripe v0 xs v buf"
proof -
  have "length xs div w = n" using assms(1,2) by (intro div_nat_eqI) (simp_all add: algebra_simps)
  then show ?thesis using assms(3,4) by (simp add: absorbed_def)
qed

text \<open>The first branch of the update functions: the buffer still has room.\<close>

lemma absorbed_buffer:
  assumes "absorbed w stripe v0 xs v buf" "length buf + length ys < w"
  shows "absorbed w stripe v0 (xs @ ys) v (buf @ ys)"
proof -
  have "length (xs @ ys) div w = length xs div w"
    using assms absorbed_length [OF assms(1)] w_pos by (simp add: div_add1_eq [of "length xs"])
  moreover have "w * (length xs div w) \<le> length xs" by simp
  ultimately show ?thesis using assms(1) by (simp add: absorbed_def absorb_append)
qed

text \<open>The other: the buffer is filled and absorbed, then what is left of the input.\<close>

lemma absorbed_fill:
  assumes "absorbed w stripe v0 xs v buf" "w \<le> length buf + length ys"
  defines "v' \<equiv> if buf = [] then v else stripe v (buf @ take (w - length buf) ys)"
    and "p \<equiv> if buf = [] then ys else drop (w - length buf) ys"
  shows "absorbed w stripe v0 (xs @ ys) (fst (if w \<le> length p then loop v' p else (v', p)))
           (snd (if w \<le> length p then loop v' p else (v', p)))"
proof -
  define n where "n = length xs div w"
  define k where "k = (if buf = [] then 0 else 1 :: nat)"
  have buf: "buf = drop (w * n) xs" "v = absorb w stripe n v0 xs" "w * n \<le> length xs"
    using assms(1) by (simp_all add: absorbed_def n_def)
  have lt: "length buf < w" using absorbed_length [OF assms(1)] w_pos by simp
  have p: "p = drop (w * (n + k)) (xs @ ys)"
    using lt buf(3) by (auto simp: p_def k_def buf(1) algebra_simps)
  have "stripe v (buf @ ys) = stripe v (buf @ take (w - length buf) ys)"
    using assms(2) lt stripe_append [of "buf @ take (w - length buf) ys" v "drop (w - length buf) ys"] by simp
  then have v': "v' = absorb w stripe (n + k) v0 (xs @ ys)"
    using buf by (simp add: v'_def k_def absorb_add absorb_append)
  have le: "w * (n + k) \<le> length (xs @ ys)"
    using assms(2) lt buf(3) by (auto simp: k_def buf(1) algebra_simps)
  define q where "q = length p div w"
  have "length p = w * q + length p mod w" by (simp add: q_def)
  then have "length (xs @ ys) = w * (n + k) + w * q + length p mod w"
    using arg_cong [OF p, of length] le by (simp only: length_drop)
  moreover have "length p mod w < w" using w_pos by simp
  moreover have "absorb w stripe q v' p = absorb w stripe (n + k + q) v0 (xs @ ys)"
    by (simp only: absorb_add [of "n + k" q] v' p)
  moreover have "drop (w * q) p = drop (w * (n + k + q)) (xs @ ys)"
    by (simp only: p drop_drop distrib_left ac_simps)
  ultimately have fin: "absorbed w stripe v0 (xs @ ys) (absorb w stripe q v' p) (drop (w * q) p)"
    by (intro absorbedI [of "n + k + q"])
      (simp_all only: distrib_left)
  show ?thesis
  proof (cases "w \<le> length p")
    case True
    then show ?thesis using fin by (simp add: loop_absorb q_def)
  next
    case False
    then have "q = 0" by (simp add: q_def)
    then show ?thesis using False fin by simp
  qed
qed

text \<open>The buffer and the accumulators hold the input \<open>xs\<close>.\<close>

definition holds :: "'v \<Rightarrow> byte list \<Rightarrow> 'v \<times> byte list \<times> nat \<Rightarrow> bool" where
  "holds v0 xs = (\<lambda>(v, arr, m). absorbed w stripe v0 xs v (take m arr) \<and> length arr = w \<and> m = length xs mod w)"

lemma holds_init: "length arr = w \<Longrightarrow> holds v0 [] (v0, arr, 0)"
  by (simp add: holds_def absorbed_init)

lemma holds_input:
  assumes "holds v0 xs s" shows "holds v0 (xs @ ys) (buffer_input w stripe loop ys s)"
proof -
  obtain v arr m where s: "s = (v, arr, m)" by (metis surj_pair)
  define buf where "buf = take m arr"
  have abs: "absorbed w stripe v0 xs v buf" and arr: "length arr = w" and m: "m = length xs mod w"
    using assms by (auto simp: holds_def s buf_def)
  have mw: "m < w" using w_pos by (simp add: m)
  have len: "length buf = m" "buf = [] \<longleftrightarrow> m = 0" using arr mw by (auto simp: buf_def)
  show ?thesis
  proof (cases "m + length ys < w")
    case True
    have "length (xs @ ys) mod w = (m + length ys) mod w" by (simp add: m mod_add_left_eq)
    with True show ?thesis
      using absorbed_buffer [OF abs, of ys] arr
      by (simp add: s holds_def buffer_input_def len flip: buf_def)
  next
    case False
    define r where "r = (let p = (if buf = [] then ys else drop (w - length buf) ys);
      v' = (if buf = [] then v else stripe v (buf @ take (w - length buf) ys))
      in if w \<le> length p then loop v' p else (v', p))"
    have out: "absorbed w stripe v0 (xs @ ys) (fst r) (snd r)"
      using absorbed_fill [OF abs, of ys] False unfolding r_def Let_def len(1) by simp
    have r: "length (snd r) = length (xs @ ys) mod w" "length (snd r) < w"
      using absorbed_length [OF out] w_pos by simp_all
    have fill: "XXH_memcpy arr m (take (w - m) ys) = buf @ take (w - m) ys"
      using arr mw False by (simp add: XXH_memcpy_def buf_def)
    have nil: "XXH_memcpy x 0 [] = x" for x by (simp add: XXH_memcpy_def)
    have "\<exists>arr'. length arr' = w \<and>
        buffer_input w stripe loop ys s = (fst r, XXH_memcpy arr' 0 (snd r), length (snd r))"
    proof (intro exI conjI)
      show "length (if m = 0 then arr else buf @ take (w - m) ys) = w" using len arr mw False by simp
      show "buffer_input w stripe loop ys s =
          (fst r, XXH_memcpy (if m = 0 then arr else buf @ take (w - m) ys) 0 (snd r), length (snd r))"
        using False
        by (auto simp: buffer_input_def s r_def Let_def len nil fill simp del: length_drop split: prod.splits)
    qed
    then show ?thesis using out r by (auto simp: holds_def) (simp_all add: XXH_memcpy_def)
  qed
qed

end

end
