(* ===== verification/Xxh32.thy ===== *)
theory Xxh32
  imports Xxhash
begin

text \<open>
  XXH32 (\<open>xxhash.h\<close>), one-shot, streaming and canonical form; \<open>vsc_hash\<close> uses it where \<open>long\<close>
  has 32 bits. The build switches \<open>XXH32_ENDJMP\<close> and \<open>XXH_FORCE_ALIGN_CHECK\<close> are arguments.
\<close>

section \<open>Rounds\<close>

definition XXH_PRIME32_1 :: uint32 where "XXH_PRIME32_1 = 0x9E3779B1"
definition XXH_PRIME32_2 :: uint32 where "XXH_PRIME32_2 = 0x85EBCA77"
definition XXH_PRIME32_3 :: uint32 where "XXH_PRIME32_3 = 0xC2B2AE3D"
definition XXH_PRIME32_4 :: uint32 where "XXH_PRIME32_4 = 0x27D4EB2F"
definition XXH_PRIME32_5 :: uint32 where "XXH_PRIME32_5 = 0x165667B1"

definition XXH32_round :: "uint32 \<Rightarrow> uint32 \<Rightarrow> uint32" where
  "XXH32_round acc input =
     (let acc = acc + input * XXH_PRIME32_2;
          acc = XXH_rotl32 acc 13
      in acc * XXH_PRIME32_1)"

definition XXH32_avalanche :: "uint32 \<Rightarrow> uint32" where
  "XXH32_avalanche hash =
     (let hash = hash XOR drop_bit 15 hash;
          hash = hash * XXH_PRIME32_2;
          hash = hash XOR drop_bit 13 hash;
          hash = hash * XXH_PRIME32_3
      in hash XOR drop_bit 16 hash)"

section \<open>The tail\<close>

text \<open>The hash and the pointer after one byte, and after four.\<close>

definition XXH_PROCESS1 :: "uint32 \<times> byte list \<Rightarrow> uint32 \<times> byte list" where
  "XXH_PROCESS1 = (\<lambda>(hash, ptr).
     let hash = hash + ucast (ptr ! 0) * XXH_PRIME32_5
     in (XXH_rotl32 hash 11 * XXH_PRIME32_1, drop 1 ptr))"

definition XXH_PROCESS4 :: "XXH_alignment \<Rightarrow> uint32 \<times> byte list \<Rightarrow> uint32 \<times> byte list" where
  "XXH_PROCESS4 align = (\<lambda>(hash, ptr).
     let hash = hash + XXH_readLE32_align ptr align * XXH_PRIME32_3
     in (XXH_rotl32 hash 17 * XXH_PRIME32_4, drop 4 ptr))"

function finalize32_4s :: "XXH_alignment \<Rightarrow> nat \<Rightarrow> uint32 \<times> byte list \<Rightarrow> nat \<times> uint32 \<times> byte list" where
  "finalize32_4s align n s = (if 4 \<le> n then finalize32_4s align (n - 4) (XXH_PROCESS4 align s) else (n, s))"
  by pat_completeness auto
termination by (relation "measure (\<lambda>(_, n, _). n)") auto

primrec finalize32_1s :: "nat \<Rightarrow> uint32 \<times> byte list \<Rightarrow> uint32 \<times> byte list" where
  "finalize32_1s 0 s = s"
| "finalize32_1s (Suc n) s = finalize32_1s n (XXH_PROCESS1 s)"

text \<open>The switch: each case label is the code from there on, through the cases it falls into.\<close>

definition finalize32_switch :: "XXH_alignment \<Rightarrow> nat \<Rightarrow> uint32 \<times> byte list \<Rightarrow> uint32" where
  "finalize32_switch align n s =
     (let done = (\<lambda>s. XXH32_avalanche (fst s));
          p1 = XXH_PROCESS1;
          p4 = XXH_PROCESS4 align;
          case4 = done \<circ> p4;             case8 = case4 \<circ> p4;  case12 = case8 \<circ> p4;
          case5 = done \<circ> p1 \<circ> p4;        case9 = case5 \<circ> p4;  case13 = case9 \<circ> p4;
          case6 = done \<circ> p1 \<circ> p1 \<circ> p4;   case10 = case6 \<circ> p4; case14 = case10 \<circ> p4;
          case0 = done; case1 = case0 \<circ> p1; case2 = case1 \<circ> p1; case3 = case2 \<circ> p1;
          case7 = case3 \<circ> p4;            case11 = case7 \<circ> p4; case15 = case11 \<circ> p4
      in ([case0, case1, case2, case3, case4, case5, case6, case7, case8, case9, case10, case11,
           case12, case13, case14, case15] ! n) s)"

definition XXH32_finalize :: "bool \<Rightarrow> uint32 \<Rightarrow> byte list \<Rightarrow> nat \<Rightarrow> XXH_alignment \<Rightarrow> uint32" where
  "XXH32_finalize XXH32_ENDJMP hash ptr n align =
     (if \<not> XXH32_ENDJMP
      then let (n, s) = finalize32_4s align (n mod 16) (hash, ptr)
           in XXH32_avalanche (fst (finalize32_1s n s))
      else finalize32_switch align (n mod 16) (hash, ptr))"

section \<open>One shot\<close>

type_synonym lanes32 = "uint32 \<times> uint32 \<times> uint32 \<times> uint32"

definition XXH32_init :: "uint32 \<Rightarrow> lanes32" where
  "XXH32_init seed =
     (seed + XXH_PRIME32_1 + XXH_PRIME32_2, seed + XXH_PRIME32_2, seed + 0, seed - XXH_PRIME32_1)"

fun XXH32_stripe :: "XXH_alignment \<Rightarrow> lanes32 \<Rightarrow> byte list \<Rightarrow> lanes32" where
  "XXH32_stripe align (v1, v2, v3, v4) input =
     (XXH32_round v1 (XXH_readLE32_align input align),
      XXH32_round v2 (XXH_readLE32_align (drop 4 input) align),
      XXH32_round v3 (XXH_readLE32_align (drop 8 input) align),
      XXH32_round v4 (XXH_readLE32_align (drop 12 input) align))"

text \<open>The do-while loop: \<open>input < limit\<close> as long as 16 bytes are left.\<close>

function XXH32_loop :: "XXH_alignment \<Rightarrow> lanes32 \<Rightarrow> byte list \<Rightarrow> lanes32 \<times> byte list" where
  "XXH32_loop align lanes input =
     (let lanes = XXH32_stripe align lanes input;
          input = drop 16 input
      in if 16 \<le> length input then XXH32_loop align lanes input else (lanes, input))"
  by pat_completeness auto
termination by (relation "measure (\<lambda>(_, _, input). length input)") auto

declare XXH32_loop.simps [simp del] finalize32_4s.simps [simp del]

fun XXH32_merge :: "lanes32 \<Rightarrow> uint32" where
  "XXH32_merge (v1, v2, v3, v4) = XXH_rotl32 v1 1 + XXH_rotl32 v2 7 + XXH_rotl32 v3 12 + XXH_rotl32 v4 18"

definition XXH32_endian_align :: "bool \<Rightarrow> byte list \<Rightarrow> uint32 \<Rightarrow> XXH_alignment \<Rightarrow> uint32" where
  "XXH32_endian_align endjmp input seed align =
     (let n = length input;
          (h32, input) =
            (if 16 \<le> n
             then let (lanes, input) = XXH32_loop align (XXH32_init seed) input in (XXH32_merge lanes, input)
             else (seed + XXH_PRIME32_5, input));
          h32 = h32 + of_nat n
      in XXH32_finalize endjmp h32 input (n mod 16) align)"

text \<open>The input is given by its address and its bytes.\<close>

definition XXH32 :: "bool \<Rightarrow> bool \<Rightarrow> addr \<Rightarrow> byte list \<Rightarrow> uint32 \<Rightarrow> uint32" where
  "XXH32 endjmp align_check p input seed =
     (if align_check \<and> p AND 3 = 0 then XXH32_endian_align endjmp input seed XXH_aligned
      else XXH32_endian_align endjmp input seed XXH_unaligned)"

section \<open>Streaming\<close>

record XXH32_state =
  total_len_32 :: uint32
  large_len :: uint32
  v32 :: lanes32
  mem32 :: "byte list"
  memsize32 :: uint32

definition XXH32_reset :: "uint32 \<Rightarrow> XXH_errorcode \<times> XXH32_state" where
  "XXH32_reset seed =
     (XXH_OK, \<lparr>total_len_32 = 0, large_len = 0, v32 = XXH32_init seed, mem32 = replicate 16 0, memsize32 = 0\<rparr>)"

text \<open>The length so far, and whether it has reached 16.\<close>

definition XXH32_count :: "nat \<Rightarrow> XXH32_state \<Rightarrow> XXH32_state" where
  "XXH32_count n state =
     (let total = total_len_32 state + of_nat n
      in state\<lparr>total_len_32 := total, large_len := large_len state OR of_bool (16 \<le> n \<or> 16 \<le> total)\<rparr>)"

definition XXH32_update :: "XXH32_state \<Rightarrow> byte list option \<Rightarrow> XXH_errorcode \<times> XXH32_state" where
  "XXH32_update state input =
     (case input of
        None \<Rightarrow> (XXH_OK, state)
      | Some p \<Rightarrow>
          let n = length p;
              state = XXH32_count n state;
              (lanes, arr, m) =
                buffer_input 16 (XXH32_stripe XXH_unaligned) (XXH32_loop XXH_unaligned) p
                  (v32 state, mem32 state, unat (memsize32 state))
          in (XXH_OK, state\<lparr>v32 := lanes, mem32 := arr, memsize32 := of_nat m\<rparr>))"

definition XXH32_digest :: "bool \<Rightarrow> XXH32_state \<Rightarrow> uint32" where
  "XXH32_digest endjmp state =
     (let h32 = (if large_len state \<noteq> 0 then XXH32_merge (v32 state)
                 else fst (snd (snd (v32 state))) + XXH_PRIME32_5);
          h32 = h32 + total_len_32 state
      in XXH32_finalize endjmp h32 (mem32 state) (unat (memsize32 state)) XXH_aligned)"

text \<open>The definition of \<open>XXH32\<close> for \<open>XXH_SIZE_OPT >= 2\<close>.\<close>

definition XXH32_small :: "bool \<Rightarrow> byte list \<Rightarrow> uint32 \<Rightarrow> uint32" where
  "XXH32_small endjmp input seed =
     (let (_, state) = XXH32_reset seed;
          (_, state) = XXH32_update state (Some input)
      in XXH32_digest endjmp state)"

section \<open>Canonical form\<close>

definition XXH32_canonicalFromHash :: "uint32 \<Rightarrow> byte list" where
  "XXH32_canonicalFromHash hash = to_bytes (if XXH_isLittleEndian then XXH_swap32 hash else hash)"

definition XXH32_hashFromCanonical :: "byte list \<Rightarrow> uint32" where
  "XXH32_hashFromCanonical src = XXH_readBE32 src"

section \<open>The tail, rolled and unrolled\<close>

lemma upt_16: "[0..<16] = [0, 1, 2, 3, 4, 5, 6, 7, 8, 9, 10, 11, 12, 13, 14, 15 :: nat]"
  by (simp add: upt_rec)

lemma finalize32_switch_eq:
  assumes "n < 16"
  shows "finalize32_switch align n s =
    (let (n, s) = finalize32_4s align n s in XXH32_avalanche (fst (finalize32_1s n s)))"
proof -
  have "n \<in> set [0..<16]" using assms by simp
  then show ?thesis unfolding upt_16 list.set
    by (elim insertE emptyE) (simp_all add: finalize32_switch_def finalize32_4s.simps numeral_eq_Suc Let_def)
qed

lemma finalize32_4s_bound: "finalize32_4s align n s = (m, t) \<Longrightarrow> m < 4"
  by (induction align n s arbitrary: m t rule: finalize32_4s.induct)
    (subst (asm) (2) finalize32_4s.simps, simp split: if_splits)

text \<open>Only the first \<open>n mod 16\<close> bytes matter.\<close>

lemma finalize32_4s_append:
  assumes "n \<le> length p"
  shows "finalize32_4s align n (h, p @ q) =
    (let (m, h', p') = finalize32_4s align n (h, p) in (m, h', p' @ q)) \<and>
    (case finalize32_4s align n (h, p) of (m, h', p') \<Rightarrow> m \<le> length p')"
  using assms
proof (induction n arbitrary: h p rule: less_induct)
  case (less n)
  show ?case
  proof (cases "4 \<le> n")
    case True
    have "XXH_PROCESS4 align (h, p @ q) = (case XXH_PROCESS4 align (h, p) of (h', p') \<Rightarrow> (h', p' @ q))"
      using True less.prems by (simp add: XXH_PROCESS4_def)
    moreover obtain h' where "XXH_PROCESS4 align (h, p) = (h', drop 4 p)"
      by (simp add: XXH_PROCESS4_def)
    ultimately show ?thesis
      using True less.prems less.IH [of "n - 4" "drop 4 p" h'] by (simp add: finalize32_4s.simps [of _ n])
  qed (use less.prems in \<open>simp add: finalize32_4s.simps\<close>)
qed

lemma finalize32_1s_append:
  "n \<le> length p \<Longrightarrow> fst (finalize32_1s n (h, p @ q)) = fst (finalize32_1s n (h, p))"
proof (induction n arbitrary: h p)
  case (Suc n)
  then have "XXH_PROCESS1 (h, p @ q) = (case XXH_PROCESS1 (h, p) of (h', p') \<Rightarrow> (h', p' @ q))"
    "snd (XXH_PROCESS1 (h, p)) = drop 1 p"
    by (auto simp: XXH_PROCESS1_def nth_append Let_def)
  then show ?case using Suc by (cases "XXH_PROCESS1 (h, p)") simp
qed simp

lemma finalize32_append:
  assumes "n \<le> length p"
  shows "XXH32_finalize endjmp h (p @ q) n align = XXH32_finalize endjmp' h p n align'"
proof -
  have "finalize32_4s align = finalize32_4s align'"
    by (rule ext)+ (rule finalize32_4s.induct, subst (1 2) finalize32_4s.simps, simp add: XXH_PROCESS4_def)
  moreover have "n mod 16 \<le> length p" using assms by (rule le_trans [OF mod_less_eq_dividend])
  ultimately show ?thesis
    using finalize32_4s_append [of "n mod 16" p align h q]
    by (simp add: XXH32_finalize_def finalize32_switch_eq finalize32_1s_append split: prod.splits)
qed

section \<open>Streaming is hashing the concatenation\<close>

interpretation xxh32: stripes 16 "XXH32_stripe align" "XXH32_loop align" for align
proof
  show "XXH32_stripe align v (p @ q) = XXH32_stripe align v p" if "16 \<le> length p" for v p q
    using that by (cases v) simp
  show "XXH32_loop align v p = (if 16 \<le> length (drop 16 p) then XXH32_loop align (XXH32_stripe align v p) (drop 16 p)
      else (XXH32_stripe align v p, drop 16 p))" for v p
    by (subst XXH32_loop.simps) (simp add: Let_def)
qed simp

lemma XXH32_stripe_align: "XXH32_stripe align = XXH32_stripe XXH_unaligned"
  by (intro ext) (simp add: case_prod_unfold split_paired_all)

text \<open>What a state that has taken in \<open>xs\<close> holds.\<close>

definition xxh32_took :: "uint32 \<Rightarrow> byte list \<Rightarrow> XXH32_state \<Rightarrow> bool" where
  "xxh32_took seed xs s =
     (total_len_32 s = of_nat (length xs) \<and> (large_len s \<noteq> 0 \<longleftrightarrow> 16 \<le> length xs) \<and>
      xxh32.holds XXH_unaligned (XXH32_init seed) xs (v32 s, mem32 s, unat (memsize32 s)))"

lemma reset32_took: "xxh32_took seed [] (snd (XXH32_reset seed))"
  by (simp add: xxh32_took_def XXH32_reset_def xxh32.holds_init)

text \<open>The wrapped total still tells short inputs from long ones.\<close>

lemma large_len_update:
  fixes l :: uint32
  assumes "l \<noteq> 0 \<longleftrightarrow> 16 \<le> m"
  shows "l OR of_bool (16 \<le> n \<or> 16 \<le> (of_nat m + of_nat n :: uint32)) \<noteq> 0 \<longleftrightarrow> 16 \<le> m + n"
proof -
  have or0: "l OR x \<noteq> 0 \<longleftrightarrow> l \<noteq> 0 \<or> x \<noteq> 0" for x :: uint32
    by (auto simp: bit_eq_iff bit_or_iff)
  consider "16 \<le> m" | "16 \<le> n" | "m < 16" "n < 16" by linarith
  then show ?thesis
  proof cases
    case 3
    then have "unat (of_nat m + of_nat n :: uint32) = m + n"
      by (simp add: unat_word_ariths unsigned_of_nat take_bit_eq_mod)
    then show ?thesis using assms 3 by (simp add: or0 word_le_nat_alt)
  qed (use assms or0 in auto)
qed

lemma count_sel [simp]:
  "v32 (XXH32_count n s) = v32 s" "mem32 (XXH32_count n s) = mem32 s" "memsize32 (XXH32_count n s) = memsize32 s"
  by (simp_all add: XXH32_count_def Let_def)

lemma count_took:
  assumes "xxh32_took seed xs s"
  shows "total_len_32 (XXH32_count n s) = of_nat (length xs + n)"
    and "large_len (XXH32_count n s) \<noteq> 0 \<longleftrightarrow> 16 \<le> length xs + n"
proof -
  have s: "total_len_32 s = of_nat (length xs)" "large_len s \<noteq> 0 \<longleftrightarrow> 16 \<le> length xs"
    using assms unfolding xxh32_took_def by blast+
  show "total_len_32 (XXH32_count n s) = of_nat (length xs + n)"
    by (simp add: XXH32_count_def Let_def s(1))
  have "large_len (XXH32_count n s) =
      large_len s OR of_bool (16 \<le> n \<or> 16 \<le> (of_nat (length xs) + of_nat n :: uint32))"
    by (simp add: XXH32_count_def Let_def s(1))
  then show "large_len (XXH32_count n s) \<noteq> 0 \<longleftrightarrow> 16 \<le> length xs + n"
    using large_len_update [OF s(2), of n] by (simp only:)
qed

lemma update32_took:
  assumes "xxh32_took seed xs s" shows "xxh32_took seed (xs @ ys) (snd (XXH32_update s (Some ys)))"
proof -
  obtain lanes arr m where out: "buffer_input 16 (XXH32_stripe XXH_unaligned) (XXH32_loop XXH_unaligned) ys
      (v32 s, mem32 s, unat (memsize32 s)) = (lanes, arr, m)"
    by (metis surj_pair)
  have "xxh32.holds XXH_unaligned (XXH32_init seed) xs (v32 s, mem32 s, unat (memsize32 s))"
    using assms by (simp add: xxh32_took_def)
  from xxh32.holds_input [OF this, of ys]
  have holds: "xxh32.holds XXH_unaligned (XXH32_init seed) (xs @ ys) (lanes, arr, m)" by (simp add: out)
  then have "m < 16" by (simp add: xxh32.holds_def)
  then have "unat (of_nat m :: uint32) = m" by (simp add: unsigned_of_nat take_bit_nat_eq_self)
  then show ?thesis
    using holds count_took [OF assms, of "length ys"] by (simp add: xxh32_took_def XXH32_update_def Let_def out)
qed

lemma digest32_took:
  assumes "xxh32_took seed xs s"
  shows "XXH32_digest endjmp s = XXH32_endian_align endjmp' xs seed align"
proof -
  define k where "k = length xs mod 16"
  define tl where "tl = drop (16 * (length xs div 16)) xs"
  have tot: "total_len_32 s = of_nat (length xs)" "large_len s \<noteq> 0 \<longleftrightarrow> 16 \<le> length xs"
    and k: "unat (memsize32 s) = k" and buf: "take k (mem32 s) = tl"
    and v: "v32 s = absorb 16 (XXH32_stripe XXH_unaligned) (length xs div 16) (XXH32_init seed) xs"
    using assms unfolding xxh32_took_def xxh32.holds_def absorbed_def k_def tl_def case_prod_conv by metis+
  have tl: "length tl = k" by (simp add: k_def tl_def minus_mult_div_eq_mod)
  have fin: "XXH32_finalize endjmp h (mem32 s) k a = XXH32_finalize endjmp' h tl k align" for h a
    using finalize32_append [of k tl endjmp h "drop k (mem32 s)" a endjmp' align] tl
    by (simp flip: buf)
  have fin': "XXH32_finalize endjmp h (mem32 s) (length xs) a = XXH32_finalize endjmp' h xs (length xs) align"
    if "k = length xs" "tl = xs" for h a
    using fin [of h a] by (simp add: that)
  have "XXH32_loop align (XXH32_init seed) xs = (v32 s, tl)" if "16 \<le> length xs"
    using xxh32.loop_absorb [OF that] by (simp add: v tl_def XXH32_stripe_align [of align])
  moreover have "v32 s = XXH32_init seed" "tl = xs" "k = length xs" if "\<not> 16 \<le> length xs"
    using that by (simp_all add: v tl_def k_def)
  ultimately show ?thesis
    using tot k
    by (cases "16 \<le> length xs")
      (simp_all add: XXH32_digest_def XXH32_endian_align_def Let_def fin fin' XXH32_init_def flip: k_def)
qed

lemma took32_chunks:
  "xxh32_took seed (concat xss) (foldl (\<lambda>s chunk. snd (XXH32_update s (Some chunk))) (snd (XXH32_reset seed)) xss)"
  by (induction xss rule: rev_induct) (simp_all add: reset32_took update32_took)

text \<open>
  (C15) However the input is cut into chunks, the streaming interface gives the one-shot hash of
  their concatenation, whatever the switches of the build and the alignment of the buffer; a NULL
  chunk changes nothing.
\<close>

theorem XXH32_streaming:
  "XXH32_digest endjmp
      (foldl (\<lambda>s chunk. snd (XXH32_update s (Some chunk))) (snd (XXH32_reset seed)) chunks) =
    XXH32 endjmp' align_check p (concat chunks) seed \<and>
   XXH32_small endjmp input seed = XXH32 endjmp' align_check p input seed \<and>
   XXH32_update s None = (XXH_OK, s)"
proof (intro conjI)
  have one: "XXH32 endjmp' align_check p xs seed = XXH32_endian_align endjmp' xs seed XXH_unaligned" for xs
    using digest32_took [OF took32_chunks [of seed "[xs]"], of False endjmp'] by (simp add: XXH32_def)
  show "XXH32_digest endjmp
      (foldl (\<lambda>s chunk. snd (XXH32_update s (Some chunk))) (snd (XXH32_reset seed)) chunks) =
    XXH32 endjmp' align_check p (concat chunks) seed"
    unfolding one by (rule digest32_took [OF took32_chunks])
  show "XXH32_small endjmp input seed = XXH32 endjmp' align_check p input seed"
    unfolding one using digest32_took [OF took32_chunks [of seed "[input]"], of endjmp endjmp'] 
    by (simp add: XXH32_small_def case_prod_unfold)
  show "XXH32_update s None = (XXH_OK, s)" by (simp add: XXH32_update_def)
qed

section \<open>Canonical form and test values\<close>

lemma XXH32_canonical:
  "XXH32_hashFromCanonical (XXH32_canonicalFromHash h) = h"
  "XXH32_canonicalFromHash h = to_bytes (vsc_native_to_e B h)"
proof -
  show c: "XXH32_canonicalFromHash h = to_bytes (vsc_native_to_e B h)"
    by (simp add: XXH32_canonicalFromHash_def vsc_native_to_e_def vsc_swap_def XXH_swap32_vsc)
  have "length (to_bytes (vsc_native_to_e B h)) = 4" by (simp add: sizeof_word_def)
  then show "XXH32_hashFromCanonical (XXH32_canonicalFromHash h) = h"
    by (simp add: XXH32_hashFromCanonical_def c readBE32 vsc_native_to_e_def to_bytes_swap of_to_bytes)
qed

lemma XXH32_empty: "XXH32 False False 0 [] 0 = 0x02CC5D05"
  by code_simp

lemma XXH32_a: "XXH32 False False 0 [0x61] 0 = 0x550D7456"
  by code_simp

end
