(* ===== verification/Xxh64.thy ===== *)
theory Xxh64
  imports Xxh32
begin

text \<open>
  XXH64 (\<open>xxhash.h\<close>), one-shot, streaming and canonical form. XXH3 takes its primes and its
  avalanche from here.
\<close>

section \<open>Rounds\<close>

definition XXH_PRIME64_1 :: uint64 where "XXH_PRIME64_1 = 0x9E3779B185EBCA87"
definition XXH_PRIME64_2 :: uint64 where "XXH_PRIME64_2 = 0xC2B2AE3D27D4EB4F"
definition XXH_PRIME64_3 :: uint64 where "XXH_PRIME64_3 = 0x165667B19E3779F9"
definition XXH_PRIME64_4 :: uint64 where "XXH_PRIME64_4 = 0x85EBCA77C2B2AE63"
definition XXH_PRIME64_5 :: uint64 where "XXH_PRIME64_5 = 0x27D4EB2F165667C5"

definition XXH64_round :: "uint64 \<Rightarrow> uint64 \<Rightarrow> uint64" where
  "XXH64_round acc input =
     (let acc = acc + input * XXH_PRIME64_2;
          acc = XXH_rotl64 acc 31
      in acc * XXH_PRIME64_1)"

definition XXH64_mergeRound :: "uint64 \<Rightarrow> uint64 \<Rightarrow> uint64" where
  "XXH64_mergeRound acc val =
     (let val = XXH64_round 0 val;
          acc = acc XOR val
      in acc * XXH_PRIME64_1 + XXH_PRIME64_4)"

definition XXH64_avalanche :: "uint64 \<Rightarrow> uint64" where
  "XXH64_avalanche hash =
     (let hash = hash XOR drop_bit 33 hash;
          hash = hash * XXH_PRIME64_2;
          hash = hash XOR drop_bit 29 hash;
          hash = hash * XXH_PRIME64_3
      in hash XOR drop_bit 32 hash)"

section \<open>The tail\<close>

text \<open>The loop over 8 bytes, the step over 4, the loop over single bytes: hash, pointer and length.\<close>

function finalize64_8s :: "XXH_alignment \<Rightarrow> uint64 \<Rightarrow> byte list \<Rightarrow> nat \<Rightarrow> uint64 \<times> byte list \<times> nat" where
  "finalize64_8s align hash ptr n =
     (if 8 \<le> n
      then let k1 = XXH64_round 0 (XXH_readLE64_align ptr align);
               hash = hash XOR k1;
               hash = XXH_rotl64 hash 27 * XXH_PRIME64_1 + XXH_PRIME64_4
           in finalize64_8s align hash (drop 8 ptr) (n - 8)
      else (hash, ptr, n))"
  by pat_completeness auto
termination by (relation "measure (\<lambda>(_, _, _, n). n)") auto

definition finalize64_4 :: "XXH_alignment \<Rightarrow> uint64 \<times> byte list \<times> nat \<Rightarrow> uint64 \<times> byte list \<times> nat" where
  "finalize64_4 align = (\<lambda>(hash, ptr, n).
     if 4 \<le> n
     then let hash = hash XOR ucast (XXH_readLE32_align ptr align) * XXH_PRIME64_1;
              hash = XXH_rotl64 hash 23 * XXH_PRIME64_2 + XXH_PRIME64_3
          in (hash, drop 4 ptr, n - 4)
     else (hash, ptr, n))"

fun finalize64_1s :: "uint64 \<times> byte list \<times> nat \<Rightarrow> uint64" where
  "finalize64_1s (hash, ptr, 0) = hash"
| "finalize64_1s (hash, ptr, Suc n) =
     (let hash = hash XOR ucast (ptr ! 0) * XXH_PRIME64_5
      in finalize64_1s (XXH_rotl64 hash 11 * XXH_PRIME64_1, drop 1 ptr, n))"

definition XXH64_finalize :: "uint64 \<Rightarrow> byte list \<Rightarrow> nat \<Rightarrow> XXH_alignment \<Rightarrow> uint64" where
  "XXH64_finalize hash ptr n align =
     XXH64_avalanche (finalize64_1s (finalize64_4 align (finalize64_8s align hash ptr (n mod 32))))"

section \<open>One shot\<close>

type_synonym lanes64 = "uint64 \<times> uint64 \<times> uint64 \<times> uint64"

definition XXH64_init :: "uint64 \<Rightarrow> lanes64" where
  "XXH64_init seed =
     (seed + XXH_PRIME64_1 + XXH_PRIME64_2, seed + XXH_PRIME64_2, seed + 0, seed - XXH_PRIME64_1)"

fun XXH64_stripe :: "XXH_alignment \<Rightarrow> lanes64 \<Rightarrow> byte list \<Rightarrow> lanes64" where
  "XXH64_stripe align (v1, v2, v3, v4) input =
     (XXH64_round v1 (XXH_readLE64_align input align),
      XXH64_round v2 (XXH_readLE64_align (drop 8 input) align),
      XXH64_round v3 (XXH_readLE64_align (drop 16 input) align),
      XXH64_round v4 (XXH_readLE64_align (drop 24 input) align))"

function XXH64_loop :: "XXH_alignment \<Rightarrow> lanes64 \<Rightarrow> byte list \<Rightarrow> lanes64 \<times> byte list" where
  "XXH64_loop align lanes input =
     (let lanes = XXH64_stripe align lanes input;
          input = drop 32 input
      in if 32 \<le> length input then XXH64_loop align lanes input else (lanes, input))"
  by pat_completeness auto
termination by (relation "measure (\<lambda>(_, _, input). length input)") auto

declare XXH64_loop.simps [simp del] finalize64_8s.simps [simp del]

fun XXH64_merge :: "lanes64 \<Rightarrow> uint64" where
  "XXH64_merge (v1, v2, v3, v4) =
     (let h64 = XXH_rotl64 v1 1 + XXH_rotl64 v2 7 + XXH_rotl64 v3 12 + XXH_rotl64 v4 18;
          h64 = XXH64_mergeRound h64 v1;
          h64 = XXH64_mergeRound h64 v2;
          h64 = XXH64_mergeRound h64 v3
      in XXH64_mergeRound h64 v4)"

definition XXH64_endian_align :: "byte list \<Rightarrow> uint64 \<Rightarrow> XXH_alignment \<Rightarrow> uint64" where
  "XXH64_endian_align input seed align =
     (let n = length input;
          (h64, input) =
            (if 32 \<le> n
             then let (lanes, input) = XXH64_loop align (XXH64_init seed) input in (XXH64_merge lanes, input)
             else (seed + XXH_PRIME64_5, input));
          h64 = h64 + of_nat n
      in XXH64_finalize h64 input n align)"

definition XXH64 :: "bool \<Rightarrow> addr \<Rightarrow> byte list \<Rightarrow> uint64 \<Rightarrow> uint64" where
  "XXH64 align_check p input seed =
     (if align_check \<and> p AND 7 = 0 then XXH64_endian_align input seed XXH_aligned
      else XXH64_endian_align input seed XXH_unaligned)"

section \<open>Streaming\<close>

record XXH64_state =
  total_len :: uint64
  v64 :: lanes64
  mem64 :: "byte list"
  memsize64 :: uint32

definition XXH64_reset :: "uint64 \<Rightarrow> XXH_errorcode \<times> XXH64_state" where
  "XXH64_reset seed =
     (XXH_OK, \<lparr>total_len = 0, v64 = XXH64_init seed, mem64 = replicate 32 0, memsize64 = 0\<rparr>)"

definition XXH64_update :: "XXH64_state \<Rightarrow> byte list option \<Rightarrow> XXH_errorcode \<times> XXH64_state" where
  "XXH64_update state input =
     (case input of
        None \<Rightarrow> (XXH_OK, state)
      | Some p \<Rightarrow>
          let state = state\<lparr>total_len := total_len state + of_nat (length p)\<rparr>;
              (lanes, arr, m) =
                buffer_input 32 (XXH64_stripe XXH_unaligned) (XXH64_loop XXH_unaligned) p
                  (v64 state, mem64 state, unat (memsize64 state))
          in (XXH_OK, state\<lparr>v64 := lanes, mem64 := arr, memsize64 := of_nat m\<rparr>))"

definition XXH64_digest :: "XXH64_state \<Rightarrow> uint64" where
  "XXH64_digest state =
     (let h64 = (if 32 \<le> total_len state then XXH64_merge (v64 state)
                 else fst (snd (snd (v64 state))) + XXH_PRIME64_5);
          h64 = h64 + total_len state
      in XXH64_finalize h64 (mem64 state) (unat (total_len state)) XXH_aligned)"

definition XXH64_small :: "byte list \<Rightarrow> uint64 \<Rightarrow> uint64" where
  "XXH64_small input seed =
     (let (_, state) = XXH64_reset seed;
          (_, state) = XXH64_update state (Some input)
      in XXH64_digest state)"

section \<open>Canonical form\<close>

definition XXH64_canonicalFromHash :: "uint64 \<Rightarrow> byte list" where
  "XXH64_canonicalFromHash hash = to_bytes (if XXH_isLittleEndian then XXH_swap64 hash else hash)"

definition XXH64_hashFromCanonical :: "byte list \<Rightarrow> uint64" where
  "XXH64_hashFromCanonical src = XXH_readBE64 src"

section \<open>The tail\<close>

lemma finalize64_8s_append:
  assumes "n \<le> length p"
  shows "finalize64_8s align h (p @ q) n =
    (let (h', p', m) = finalize64_8s align' h p n in (h', p' @ q, m)) \<and>
    (case finalize64_8s align' h p n of (h', p', m) \<Rightarrow> m \<le> length p')"
  using assms
proof (induction n arbitrary: h p rule: less_induct)
  case (less n)
  show ?case
  proof (cases "8 \<le> n")
    case True
    have "n - 8 < n" "n - 8 \<le> length (drop 8 p)" using True less.prems by simp_all
    note IH = less.IH [OF this]
    have "drop 8 (p @ q) = drop 8 p @ q" "8 \<le> length p" using True less.prems by simp_all
    then show ?thesis
      using True IH by (simp add: finalize64_8s.simps [of _ _ _ n] Let_def del: drop_append)
  qed (use less.prems in \<open>simp add: finalize64_8s.simps\<close>)
qed

lemma finalize64_1s_append:
  "n \<le> length p \<Longrightarrow> finalize64_1s (h, p @ q, n) = finalize64_1s (h, p, n)"
proof (induction n arbitrary: h p)
  case (Suc n)
  then have "p \<noteq> []" by auto
  then show ?case using Suc by (auto simp: nth_append Let_def)
qed simp

lemma finalize64_append:
  assumes "n mod 32 \<le> length p"
  shows "XXH64_finalize h (p @ q) n align = XXH64_finalize h p n align'"
proof -
  obtain h' p' m where eq: "finalize64_8s align' h p (n mod 32) = (h', p', m)" by (metis surj_pair)
  with finalize64_8s_append [OF assms, of align h q align']
  have "finalize64_8s align h (p @ q) (n mod 32) = (h', p' @ q, m)" "m \<le> length p'" by simp_all
  then show ?thesis
    by (simp add: XXH64_finalize_def eq finalize64_4_def finalize64_1s_append Let_def)
qed

section \<open>Streaming is hashing the concatenation\<close>

interpretation xxh64: stripes 32 "XXH64_stripe align" "XXH64_loop align" for align
proof
  show "XXH64_stripe align v (p @ q) = XXH64_stripe align v p" if "32 \<le> length p" for v p q
    using that by (cases v) simp
  show "XXH64_loop align v p = (if 32 \<le> length (drop 32 p) then XXH64_loop align (XXH64_stripe align v p) (drop 32 p)
      else (XXH64_stripe align v p, drop 32 p))" for v p
    by (subst XXH64_loop.simps) (simp add: Let_def)
qed simp

lemma XXH64_stripe_align: "XXH64_stripe align = XXH64_stripe XXH_unaligned"
  by (intro ext) (simp add: case_prod_unfold split_paired_all)

text \<open>What a state that has taken in \<open>xs\<close> holds.\<close>

definition xxh64_took :: "uint64 \<Rightarrow> byte list \<Rightarrow> XXH64_state \<Rightarrow> bool" where
  "xxh64_took seed xs s =
     (total_len s = of_nat (length xs) \<and>
      xxh64.holds XXH_unaligned (XXH64_init seed) xs (v64 s, mem64 s, unat (memsize64 s)))"

lemma reset64_took: "xxh64_took seed [] (snd (XXH64_reset seed))"
  by (simp add: xxh64_took_def XXH64_reset_def xxh64.holds_init)

lemma update64_took:
  assumes "xxh64_took seed xs s" shows "xxh64_took seed (xs @ ys) (snd (XXH64_update s (Some ys)))"
proof -
  obtain lanes arr m where out: "buffer_input 32 (XXH64_stripe XXH_unaligned) (XXH64_loop XXH_unaligned) ys
      (v64 s, mem64 s, unat (memsize64 s)) = (lanes, arr, m)"
    by (metis surj_pair)
  have "xxh64.holds XXH_unaligned (XXH64_init seed) xs (v64 s, mem64 s, unat (memsize64 s))"
    using assms by (simp add: xxh64_took_def)
  from xxh64.holds_input [OF this, of ys]
  have holds: "xxh64.holds XXH_unaligned (XXH64_init seed) (xs @ ys) (lanes, arr, m)" by (simp add: out)
  then have "m < 32" by (simp add: xxh64.holds_def)
  then have "unat (of_nat m :: uint32) = m" by (simp add: unsigned_of_nat take_bit_nat_eq_self)
  then show ?thesis
    using holds assms by (simp add: xxh64_took_def XXH64_update_def Let_def out)
qed

text \<open>The digest reads the length modulo \<open>2 ^ 64\<close>, so it is right only for inputs shorter than that.\<close>

lemma digest64_took:
  assumes "xxh64_took seed xs s" "length xs < 2 ^ 64"
  shows "XXH64_digest s = XXH64_endian_align xs seed align"
proof -
  define k where "k = length xs"
  define tl where "tl = drop (32 * (k div 32)) xs"
  have tot: "total_len s = of_nat k" and buf: "take (unat (memsize64 s)) (mem64 s) = tl"
    and v: "v64 s = absorb 32 (XXH64_stripe XXH_unaligned) (k div 32) (XXH64_init seed) xs"
    using assms unfolding xxh64_took_def xxh64.holds_def absorbed_def k_def tl_def case_prod_conv by metis+
  have u: "unat (of_nat k :: uint64) = k" using assms(2) by (simp add: unat_of_nat64 k_def)
  then have le: "32 \<le> (of_nat k :: uint64) \<longleftrightarrow> 32 \<le> k" by (simp add: word_le_nat_alt)
  have tl: "length tl = k mod 32" by (simp add: k_def tl_def minus_mult_div_eq_mod)
  have fin: "XXH64_finalize h (mem64 s) k a = XXH64_finalize h tl k align" for h a
  proof -
    have "mem64 s = tl @ drop (unat (memsize64 s)) (mem64 s)" by (simp flip: buf)
    moreover have "XXH64_finalize h (tl @ q) k a = XXH64_finalize h tl k align" for q
      using tl by (intro finalize64_append) simp
    ultimately show ?thesis by metis
  qed
  have "XXH64_loop align (XXH64_init seed) xs = (v64 s, tl)" if "32 \<le> k"
    using xxh64.loop_absorb that by (simp add: v tl_def k_def XXH64_stripe_align [of align])
  moreover have "v64 s = XXH64_init seed" "tl = xs" if "\<not> 32 \<le> k"
    using that by (simp_all add: v tl_def k_def)
  ultimately show ?thesis
    using tot
    by (cases "32 \<le> k")
      (simp_all add: XXH64_digest_def XXH64_endian_align_def Let_def fin u le XXH64_init_def flip: k_def)
qed

lemma took64_chunks:
  "xxh64_took seed (concat xss) (foldl (\<lambda>s chunk. snd (XXH64_update s (Some chunk))) (snd (XXH64_reset seed)) xss)"
  by (induction xss rule: rev_induct) (simp_all add: reset64_took update64_took)

text \<open>
  (C16) However an input of less than \<open>2 ^ 64\<close> bytes is cut into chunks, the streaming interface of
  XXH64 gives the one-shot hash of their concatenation, whatever the alignment of the buffer.
\<close>

theorem XXH64_streaming:
  assumes "length (concat chunks) < 2 ^ 64"
  shows "XXH64_digest
      (foldl (\<lambda>s chunk. snd (XXH64_update s (Some chunk))) (snd (XXH64_reset seed)) chunks) =
    XXH64 align_check p (concat chunks) seed"
  using digest64_took [OF took64_chunks assms] by (simp add: XXH64_def)

lemma XXH64_streaming_witness:
  "XXH64_digest
      (foldl (\<lambda>s chunk. snd (XXH64_update s (Some chunk))) (snd (XXH64_reset 0)) [[0x61], [], replicate 40 0x62]) =
    XXH64 True 16 (0x61 # replicate 40 0x62) 0"
  using XXH64_streaming [of "[[0x61], [], replicate 40 0x62]" 0 True 16] by simp

lemma XXH64_small_eq:
  assumes "length input < 2 ^ 64" shows "XXH64_small input seed = XXH64 align_check p input seed"
  using digest64_took [OF took64_chunks [of seed "[input]"]] assms
  by (simp add: XXH64_def XXH64_small_def case_prod_unfold)

section \<open>Canonical form and test values\<close>

lemma XXH64_canonical:
  "XXH64_hashFromCanonical (XXH64_canonicalFromHash h) = h"
  "XXH64_canonicalFromHash h = to_bytes (vsc_native_to_e B h)"
proof -
  show c: "XXH64_canonicalFromHash h = to_bytes (vsc_native_to_e B h)"
    by (simp add: XXH64_canonicalFromHash_def vsc_native_to_e_def vsc_swap_def XXH_swap64_vsc)
  have "length (to_bytes (vsc_native_to_e B h)) = 8" by (simp add: sizeof_word_def)
  then show "XXH64_hashFromCanonical (XXH64_canonicalFromHash h) = h"
    by (simp add: XXH64_hashFromCanonical_def c readBE64 vsc_native_to_e_def to_bytes_swap of_to_bytes)
qed

lemma XXH64_empty: "XXH64 False 0 [] 0 = 0xEF46DB3751D8E999"
  by code_simp

lemma XXH64_a: "XXH64 False 0 [0x61] 0 = 0xD24EC4F1A98C6E5B"
  by code_simp

end
