(* ===== verification/Xxh3.thy ===== *)
theory Xxh3
  imports Xxh64
begin

text \<open>
  XXH3 with 64 bits (\<open>xxhash.h\<close>), one-shot: \<open>vsc_hash\<close> on the platform that is modelled. The
  portable scalar kernels are modelled; the functions over whole inputs take the kernels as
  arguments, as in the code. A secret is the list of its bytes, so its length is not passed
  beside it. \<open>XXH_SIZE_OPT\<close> is an argument where the code depends on it.
\<close>

section \<open>Constants and mixing\<close>

definition XXH3_SECRET_SIZE_MIN :: nat where "XXH3_SECRET_SIZE_MIN = 136"
definition XXH_SECRET_DEFAULT_SIZE :: nat where "XXH_SECRET_DEFAULT_SIZE = 192"
definition XXH3_MIDSIZE_MAX :: nat where "XXH3_MIDSIZE_MAX = 240"
definition XXH3_MIDSIZE_STARTOFFSET :: nat where "XXH3_MIDSIZE_STARTOFFSET = 3"
definition XXH3_MIDSIZE_LASTOFFSET :: nat where "XXH3_MIDSIZE_LASTOFFSET = 17"
definition XXH_STRIPE_LEN :: nat where "XXH_STRIPE_LEN = 64"
definition XXH_SECRET_CONSUME_RATE :: nat where "XXH_SECRET_CONSUME_RATE = 8"
definition XXH_ACC_NB :: nat where "XXH_ACC_NB = XXH_STRIPE_LEN div 8"
definition XXH_SECRET_LASTACC_START :: nat where "XXH_SECRET_LASTACC_START = 7"
definition XXH_SECRET_MERGEACCS_START :: nat where "XXH_SECRET_MERGEACCS_START = 11"

definition XXH3_kSecret :: "byte list" where
  "XXH3_kSecret =
    [0xb8, 0xfe, 0x6c, 0x39, 0x23, 0xa4, 0x4b, 0xbe, 0x7c, 0x01, 0x81, 0x2c, 0xf7, 0x21, 0xad, 0x1c,
     0xde, 0xd4, 0x6d, 0xe9, 0x83, 0x90, 0x97, 0xdb, 0x72, 0x40, 0xa4, 0xa4, 0xb7, 0xb3, 0x67, 0x1f,
     0xcb, 0x79, 0xe6, 0x4e, 0xcc, 0xc0, 0xe5, 0x78, 0x82, 0x5a, 0xd0, 0x7d, 0xcc, 0xff, 0x72, 0x21,
     0xb8, 0x08, 0x46, 0x74, 0xf7, 0x43, 0x24, 0x8e, 0xe0, 0x35, 0x90, 0xe6, 0x81, 0x3a, 0x26, 0x4c,
     0x3c, 0x28, 0x52, 0xbb, 0x91, 0xc3, 0x00, 0xcb, 0x88, 0xd0, 0x65, 0x8b, 0x1b, 0x53, 0x2e, 0xa3,
     0x71, 0x64, 0x48, 0x97, 0xa2, 0x0d, 0xf9, 0x4e, 0x38, 0x19, 0xef, 0x46, 0xa9, 0xde, 0xac, 0xd8,
     0xa8, 0xfa, 0x76, 0x3f, 0xe3, 0x9c, 0x34, 0x3f, 0xf9, 0xdc, 0xbb, 0xc7, 0xc7, 0x0b, 0x4f, 0x1d,
     0x8a, 0x51, 0xe0, 0x4b, 0xcd, 0xb4, 0x59, 0x31, 0xc8, 0x9f, 0x7e, 0xc9, 0xd9, 0x78, 0x73, 0x64,
     0xea, 0xc5, 0xac, 0x83, 0x34, 0xd3, 0xeb, 0xc3, 0xc5, 0x81, 0xa0, 0xff, 0xfa, 0x13, 0x63, 0xeb,
     0x17, 0x0d, 0xdd, 0x51, 0xb7, 0xf0, 0xda, 0x49, 0xd3, 0x16, 0x55, 0x26, 0x29, 0xd4, 0x68, 0x9e,
     0x2b, 0x16, 0xbe, 0x58, 0x7d, 0x47, 0xa1, 0xfc, 0x8f, 0xf8, 0xb8, 0xd1, 0x7a, 0xd0, 0x31, 0xce,
     0x45, 0xcb, 0x3a, 0x8f, 0x95, 0x16, 0x04, 0x28, 0xaf, 0xd7, 0xfb, 0xca, 0xbb, 0x4b, 0x40, 0x7e]"

definition XXH_mult32to64 :: "uint64 \<Rightarrow> uint64 \<Rightarrow> uint64" where
  "XXH_mult32to64 x y = ucast (ucast x :: uint32) * ucast (ucast y :: uint32)"

record XXH128_hash =
  low64 :: uint64
  high64 :: uint64

text \<open>The product with a 128-bit type, and the portable one.\<close>

definition XXH_mult64to128 :: "uint64 \<Rightarrow> uint64 \<Rightarrow> XXH128_hash" where
  "XXH_mult64to128 lhs rhs =
     (let product = (ucast lhs :: 128 word) * ucast rhs
      in \<lparr>low64 = ucast product, high64 = ucast (drop_bit 64 product)\<rparr>)"

definition XXH_mult64to128_portable :: "uint64 \<Rightarrow> uint64 \<Rightarrow> XXH128_hash" where
  "XXH_mult64to128_portable lhs rhs =
     (let lo_lo = XXH_mult32to64 (lhs AND 0xFFFFFFFF) (rhs AND 0xFFFFFFFF);
          hi_lo = XXH_mult32to64 (drop_bit 32 lhs) (rhs AND 0xFFFFFFFF);
          lo_hi = XXH_mult32to64 (lhs AND 0xFFFFFFFF) (drop_bit 32 rhs);
          hi_hi = XXH_mult32to64 (drop_bit 32 lhs) (drop_bit 32 rhs);
          cross = drop_bit 32 lo_lo + (hi_lo AND 0xFFFFFFFF) + lo_hi;
          upper = drop_bit 32 hi_lo + drop_bit 32 cross + hi_hi;
          lower = push_bit 32 cross OR (lo_lo AND 0xFFFFFFFF)
      in \<lparr>low64 = lower, high64 = upper\<rparr>)"

definition XXH3_mul128_fold64 :: "uint64 \<Rightarrow> uint64 \<Rightarrow> uint64" where
  "XXH3_mul128_fold64 lhs rhs = (let product = XXH_mult64to128 lhs rhs in low64 product XOR high64 product)"

definition XXH_xorshift64 :: "uint64 \<Rightarrow> nat \<Rightarrow> uint64" where
  "XXH_xorshift64 v shift = v XOR drop_bit shift v"

definition XXH3_avalanche :: "uint64 \<Rightarrow> uint64" where
  "XXH3_avalanche h64 =
     (let h64 = XXH_xorshift64 h64 37;
          h64 = h64 * 0x165667919E3779F9
      in XXH_xorshift64 h64 32)"

definition XXH3_rrmxmx :: "uint64 \<Rightarrow> uint64 \<Rightarrow> uint64" where
  "XXH3_rrmxmx h64 n =
     (let h64 = h64 XOR (XXH_rotl64 h64 49 XOR XXH_rotl64 h64 24);
          h64 = h64 * 0x9FB21C651E98DF25;
          h64 = h64 XOR (drop_bit 35 h64 + n);
          h64 = h64 * 0x9FB21C651E98DF25
      in XXH_xorshift64 h64 28)"

section \<open>Up to 240 bytes\<close>

definition XXH3_len_1to3_64b :: "byte list \<Rightarrow> byte list \<Rightarrow> uint64 \<Rightarrow> uint64" where
  "XXH3_len_1to3_64b input secret seed =
     (let n = length input;
          c1 = input ! 0; c2 = input ! (n div 2); c3 = input ! (n - 1);
          combined = push_bit 16 (ucast c1) OR push_bit 24 (ucast c2) OR push_bit 0 (ucast c3) OR
                     push_bit 8 (of_nat n :: uint32);
          bitflip = ucast (XXH_readLE32 secret XOR XXH_readLE32 (drop 4 secret)) + seed;
          keyed = ucast combined XOR bitflip
      in XXH64_avalanche keyed)"

definition XXH3_len_4to8_64b :: "byte list \<Rightarrow> byte list \<Rightarrow> uint64 \<Rightarrow> uint64" where
  "XXH3_len_4to8_64b input secret seed =
     (let n = length input;
          seed = seed XOR push_bit 32 (ucast (XXH_swap32 (ucast seed)));
          input1 = XXH_readLE32 input;
          input2 = XXH_readLE32 (drop (n - 4) input);
          bitflip = (XXH_readLE64 (drop 8 secret) XOR XXH_readLE64 (drop 16 secret)) - seed;
          input64 = ucast input2 + push_bit 32 (ucast input1);
          keyed = input64 XOR bitflip
      in XXH3_rrmxmx keyed (of_nat n))"

definition XXH3_len_9to16_64b :: "byte list \<Rightarrow> byte list \<Rightarrow> uint64 \<Rightarrow> uint64" where
  "XXH3_len_9to16_64b input secret seed =
     (let n = length input;
          bitflip1 = (XXH_readLE64 (drop 24 secret) XOR XXH_readLE64 (drop 32 secret)) + seed;
          bitflip2 = (XXH_readLE64 (drop 40 secret) XOR XXH_readLE64 (drop 48 secret)) - seed;
          input_lo = XXH_readLE64 input XOR bitflip1;
          input_hi = XXH_readLE64 (drop (n - 8) input) XOR bitflip2;
          acc = of_nat n + XXH_swap64 input_lo + input_hi + XXH3_mul128_fold64 input_lo input_hi
      in XXH3_avalanche acc)"

definition XXH3_len_0to16_64b :: "byte list \<Rightarrow> byte list \<Rightarrow> uint64 \<Rightarrow> uint64" where
  "XXH3_len_0to16_64b input secret seed =
     (let n = length input
      in if 8 < n then XXH3_len_9to16_64b input secret seed
         else if 4 \<le> n then XXH3_len_4to8_64b input secret seed
         else if n \<noteq> 0 then XXH3_len_1to3_64b input secret seed
         else XXH64_avalanche (seed XOR (XXH_readLE64 (drop 56 secret) XOR XXH_readLE64 (drop 64 secret))))"

definition XXH3_mix16B :: "byte list \<Rightarrow> byte list \<Rightarrow> uint64 \<Rightarrow> uint64" where
  "XXH3_mix16B input secret seed64 =
     (let input_lo = XXH_readLE64 input;
          input_hi = XXH_readLE64 (drop 8 input)
      in XXH3_mul128_fold64
           (input_lo XOR (XXH_readLE64 secret + seed64))
           (input_hi XOR (XXH_readLE64 (drop 8 secret) - seed64)))"

text \<open>The loop of the small build counts \<open>i\<close> down to 0.\<close>

primrec len_17to128_loop :: "byte list \<Rightarrow> byte list \<Rightarrow> uint64 \<Rightarrow> nat \<Rightarrow> uint64 \<Rightarrow> uint64" where
  "len_17to128_loop input secret seed 0 acc =
     acc + XXH3_mix16B input secret seed
         + XXH3_mix16B (drop (length input - 16) input) (drop 16 secret) seed"
| "len_17to128_loop input secret seed (Suc k) acc =
     (let i = Suc k
      in len_17to128_loop input secret seed k
           (acc + XXH3_mix16B (drop (16 * i) input) (drop (32 * i) secret) seed
                + XXH3_mix16B (drop (length input - 16 * (i + 1)) input) (drop (32 * i + 16) secret) seed))"

definition XXH3_len_17to128_64b :: "nat \<Rightarrow> byte list \<Rightarrow> byte list \<Rightarrow> uint64 \<Rightarrow> uint64" where
  "XXH3_len_17to128_64b size_opt input secret seed =
     (let n = length input;
          mix = (\<lambda>i s. XXH3_mix16B (drop i input) (drop s secret) seed);
          acc = of_nat n * XXH_PRIME64_1;
          acc =
            (if 1 \<le> size_opt then len_17to128_loop input secret seed ((n - 1) div 32) acc
             else
               let acc =
                     (if 32 < n
                      then
                        let acc =
                              (if 64 < n
                               then
                                 let acc = (if 96 < n then acc + mix 48 96 + mix (n - 64) 112 else acc)
                                 in acc + mix 32 64 + mix (n - 48) 80
                               else acc)
                        in acc + mix 16 32 + mix (n - 32) 48
                      else acc)
               in acc + mix 0 0 + mix (n - 16) 16)
      in XXH3_avalanche acc)"

definition XXH3_len_129to240_64b :: "byte list \<Rightarrow> byte list \<Rightarrow> uint64 \<Rightarrow> uint64" where
  "XXH3_len_129to240_64b input secret seed =
     (let n = length input;
          acc = of_nat n * XXH_PRIME64_1;
          nbRounds = n div 16;
          acc = foldl (\<lambda>acc i. acc + XXH3_mix16B (drop (16 * i) input) (drop (16 * i) secret) seed) acc [0..<8];
          acc = XXH3_avalanche acc;
          acc = foldl (\<lambda>acc i. acc +
                  XXH3_mix16B (drop (16 * i) input) (drop (16 * (i - 8) + XXH3_MIDSIZE_STARTOFFSET) secret) seed)
                acc [8..<nbRounds];
          acc = acc + XXH3_mix16B (drop (n - 16) input)
                        (drop (XXH3_SECRET_SIZE_MIN - XXH3_MIDSIZE_LASTOFFSET) secret) seed
      in XXH3_avalanche acc)"

section \<open>The scalar kernels\<close>

type_synonym accs = "uint64 list"
type_synonym f_accumulate_512 = "accs \<Rightarrow> byte list \<Rightarrow> byte list \<Rightarrow> accs"
type_synonym f_scrambleAcc = "accs \<Rightarrow> byte list \<Rightarrow> accs"
type_synonym f_initCustomSecret = "uint64 \<Rightarrow> byte list"

definition XXH_writeLE64 :: "byte list \<Rightarrow> nat \<Rightarrow> uint64 \<Rightarrow> byte list" where
  "XXH_writeLE64 dst off v =
     (let v = (if \<not> XXH_isLittleEndian then XXH_swap64 v else v) in XXH_memcpy dst off (to_bytes v))"

definition XXH3_scalarRound :: "accs \<Rightarrow> byte list \<Rightarrow> byte list \<Rightarrow> nat \<Rightarrow> accs" where
  "XXH3_scalarRound acc input secret lane =
     (let data_val = XXH_readLE64 (drop (lane * 8) input);
          data_key = data_val XOR XXH_readLE64 (drop (lane * 8) secret);
          acc = acc[lane XOR 1 := acc ! (lane XOR 1) + data_val]
      in acc[lane := acc ! lane + XXH_mult32to64 (data_key AND 0xFFFFFFFF) (drop_bit 32 data_key)])"

definition XXH3_accumulate_512_scalar :: f_accumulate_512 where
  "XXH3_accumulate_512_scalar acc input secret =
     foldl (\<lambda>acc i. XXH3_scalarRound acc input secret i) acc [0..<XXH_ACC_NB]"

definition XXH3_scalarScrambleRound :: "accs \<Rightarrow> byte list \<Rightarrow> nat \<Rightarrow> accs" where
  "XXH3_scalarScrambleRound acc secret lane =
     (let key64 = XXH_readLE64 (drop (lane * 8) secret);
          acc64 = acc ! lane;
          acc64 = XXH_xorshift64 acc64 47;
          acc64 = acc64 XOR key64;
          acc64 = acc64 * ucast XXH_PRIME32_1
      in acc[lane := acc64])"

definition XXH3_scrambleAcc_scalar :: f_scrambleAcc where
  "XXH3_scrambleAcc_scalar acc secret = foldl (\<lambda>acc i. XXH3_scalarScrambleRound acc secret i) acc [0..<XXH_ACC_NB]"

text \<open>Every byte of the array that is given is overwritten; it is started as zeros.\<close>

definition XXH3_initCustomSecret_scalar :: f_initCustomSecret where
  "XXH3_initCustomSecret_scalar seed64 =
     foldl (\<lambda>customSecret i.
       let lo = XXH_readLE64 (drop (16 * i) XXH3_kSecret) + seed64;
           hi = XXH_readLE64 (drop (16 * i + 8) XXH3_kSecret) - seed64;
           customSecret = XXH_writeLE64 customSecret (16 * i) lo
       in XXH_writeLE64 customSecret (16 * i + 8) hi)
     (replicate XXH_SECRET_DEFAULT_SIZE 0) [0..<XXH_SECRET_DEFAULT_SIZE div 16]"

section \<open>Long inputs\<close>

definition XXH3_accumulate :: "accs \<Rightarrow> byte list \<Rightarrow> byte list \<Rightarrow> nat \<Rightarrow> f_accumulate_512 \<Rightarrow> accs" where
  "XXH3_accumulate acc input secret nbStripes f_acc512 =
     foldl (\<lambda>acc n. f_acc512 acc (drop (n * XXH_STRIPE_LEN) input) (drop (n * XXH_SECRET_CONSUME_RATE) secret))
       acc [0..<nbStripes]"

definition XXH3_hashLong_internal_loop ::
  "accs \<Rightarrow> byte list \<Rightarrow> byte list \<Rightarrow> f_accumulate_512 \<Rightarrow> f_scrambleAcc \<Rightarrow> accs" where
  "XXH3_hashLong_internal_loop acc input secret f_acc512 f_scramble =
     (let nbStripesPerBlock = (length secret - XXH_STRIPE_LEN) div XXH_SECRET_CONSUME_RATE;
          block_len = XXH_STRIPE_LEN * nbStripesPerBlock;
          nb_blocks = (length input - 1) div block_len;
          acc = foldl (\<lambda>acc n.
                  let acc = XXH3_accumulate acc (drop (n * block_len) input) secret nbStripesPerBlock f_acc512
                  in f_scramble acc (drop (length secret - XXH_STRIPE_LEN) secret))
                acc [0..<nb_blocks];
          nbStripes = ((length input - 1) - block_len * nb_blocks) div XXH_STRIPE_LEN;
          acc = XXH3_accumulate acc (drop (nb_blocks * block_len) input) secret nbStripes f_acc512;
          p = drop (length input - XXH_STRIPE_LEN) input
      in f_acc512 acc p (drop (length secret - XXH_STRIPE_LEN - XXH_SECRET_LASTACC_START) secret))"

definition XXH3_mix2Accs :: "accs \<Rightarrow> byte list \<Rightarrow> uint64" where
  "XXH3_mix2Accs acc secret =
     XXH3_mul128_fold64 (acc ! 0 XOR XXH_readLE64 secret) (acc ! 1 XOR XXH_readLE64 (drop 8 secret))"

definition XXH3_mergeAccs :: "accs \<Rightarrow> byte list \<Rightarrow> uint64 \<Rightarrow> uint64" where
  "XXH3_mergeAccs acc secret start =
     XXH3_avalanche
       (foldl (\<lambda>result64 i. result64 + XXH3_mix2Accs (drop (2 * i) acc) (drop (16 * i) secret)) start [0..<4])"

definition XXH3_INIT_ACC :: accs where
  "XXH3_INIT_ACC =
     [ucast XXH_PRIME32_3, XXH_PRIME64_1, XXH_PRIME64_2, XXH_PRIME64_3,
      XXH_PRIME64_4, ucast XXH_PRIME32_2, XXH_PRIME64_5, ucast XXH_PRIME32_1]"

definition XXH3_hashLong_64b_internal ::
  "byte list \<Rightarrow> byte list \<Rightarrow> f_accumulate_512 \<Rightarrow> f_scrambleAcc \<Rightarrow> uint64" where
  "XXH3_hashLong_64b_internal input secret f_acc512 f_scramble =
     (let acc = XXH3_hashLong_internal_loop XXH3_INIT_ACC input secret f_acc512 f_scramble
      in XXH3_mergeAccs acc (drop XXH_SECRET_MERGEACCS_START secret) (of_nat (length input) * XXH_PRIME64_1))"

definition XXH3_hashLong_64b_withSecret :: "byte list \<Rightarrow> uint64 \<Rightarrow> byte list \<Rightarrow> uint64" where
  "XXH3_hashLong_64b_withSecret input seed64 secret =
     XXH3_hashLong_64b_internal input secret XXH3_accumulate_512_scalar XXH3_scrambleAcc_scalar"

definition XXH3_hashLong_64b_default :: "byte list \<Rightarrow> uint64 \<Rightarrow> byte list \<Rightarrow> uint64" where
  "XXH3_hashLong_64b_default input seed64 secret =
     XXH3_hashLong_64b_internal input XXH3_kSecret XXH3_accumulate_512_scalar XXH3_scrambleAcc_scalar"

definition XXH3_hashLong_64b_withSeed_internal ::
  "nat \<Rightarrow> byte list \<Rightarrow> uint64 \<Rightarrow> f_accumulate_512 \<Rightarrow> f_scrambleAcc \<Rightarrow> f_initCustomSecret \<Rightarrow> uint64" where
  "XXH3_hashLong_64b_withSeed_internal size_opt input seed f_acc512 f_scramble f_initSec =
     (if size_opt \<le> 0 \<and> seed = 0
      then XXH3_hashLong_64b_internal input XXH3_kSecret f_acc512 f_scramble
      else let secret = f_initSec seed in XXH3_hashLong_64b_internal input secret f_acc512 f_scramble)"

definition XXH3_hashLong_64b_withSeed :: "nat \<Rightarrow> byte list \<Rightarrow> uint64 \<Rightarrow> byte list \<Rightarrow> uint64" where
  "XXH3_hashLong_64b_withSeed size_opt input seed secret =
     XXH3_hashLong_64b_withSeed_internal size_opt input seed
       XXH3_accumulate_512_scalar XXH3_scrambleAcc_scalar XXH3_initCustomSecret_scalar"

definition XXH3_64bits_internal ::
  "nat \<Rightarrow> byte list \<Rightarrow> uint64 \<Rightarrow> byte list \<Rightarrow> (byte list \<Rightarrow> uint64 \<Rightarrow> byte list \<Rightarrow> uint64) \<Rightarrow> uint64" where
  "XXH3_64bits_internal size_opt input seed64 secret f_hashLong =
     (if length input \<le> 16 then XXH3_len_0to16_64b input secret seed64
      else if length input \<le> 128 then XXH3_len_17to128_64b size_opt input secret seed64
      else if length input \<le> XXH3_MIDSIZE_MAX then XXH3_len_129to240_64b input secret seed64
      else f_hashLong input seed64 secret)"

section \<open>Entry points\<close>

definition XXH3_64bits :: "nat \<Rightarrow> byte list \<Rightarrow> uint64" where
  "XXH3_64bits size_opt input = XXH3_64bits_internal size_opt input 0 XXH3_kSecret XXH3_hashLong_64b_default"

definition XXH3_64bits_withSecret :: "nat \<Rightarrow> byte list \<Rightarrow> byte list \<Rightarrow> uint64" where
  "XXH3_64bits_withSecret size_opt input secret =
     XXH3_64bits_internal size_opt input 0 secret XXH3_hashLong_64b_withSecret"

definition XXH3_64bits_withSeed :: "nat \<Rightarrow> byte list \<Rightarrow> uint64 \<Rightarrow> uint64" where
  "XXH3_64bits_withSeed size_opt input seed =
     XXH3_64bits_internal size_opt input seed XXH3_kSecret (XXH3_hashLong_64b_withSeed size_opt)"

text \<open>The short paths do not use the function for long inputs, NULL in the code.\<close>

definition XXH3_64bits_withSecretandSeed :: "nat \<Rightarrow> byte list \<Rightarrow> byte list \<Rightarrow> uint64 \<Rightarrow> uint64" where
  "XXH3_64bits_withSecretandSeed size_opt input secret seed =
     (if length input \<le> XXH3_MIDSIZE_MAX
      then XXH3_64bits_internal size_opt input seed XXH3_kSecret (\<lambda>_ _ _. 0)
      else XXH3_hashLong_64b_withSecret input seed secret)"

section \<open>Test values\<close>

lemma XXH3_empty: "XXH3_64bits 0 [] = 0x2D06800538D394C2"
  by code_simp

lemma XXH3_a: "XXH3_64bits_withSeed 0 [0x61] 0 = 0xE6C632B61E964E1F"
  by code_simp

end
