(* ===== verification/Hashmap.thy ===== *)
theory Hashmap
  imports Memory "HOL-Library.Multiset"
begin

text \<open>
  \<open>hashmapdef.h\<close> and \<open>hashmap.c\<close>: the open-addressing hash map. The bucket array is owned by
  the map and is kept as a list of buckets beside the pointer the allocator returned for it; its
  length is the number of buckets allocated, which after a failed redistribution is more than
  \<open>num_buckets\<close>. The callbacks are functions of the key pointers: what they read behind the
  pointers is constant while a key is in the map. \<open>'s\<close> is the allocator's state.
\<close>

section \<open>State (hashmapdef.h, hashmap.c)\<close>

datatype VscHashMapResizePolicy = VSC_HASHMAP_RESIZE_LOAD_FACTOR | VSC_HASHMAP_RESIZE_NONE

record VscHashMapBucket =
  hash :: vsc_hash_t
  key :: addr
  val :: addr

type_synonym VscHashMapHashProc = "addr \<Rightarrow> vsc_hash_t"
type_synonym VscHashMapCompareProc = "addr \<Rightarrow> addr \<Rightarrow> int"
type_synonym 'u VscHashMapEnumProc = "addr \<Rightarrow> addr \<Rightarrow> vsc_hash_t \<Rightarrow> 'u \<Rightarrow> int \<times> 'u"

record 's VscHashMap =
  nitems :: size_t
  num_buckets :: size_t
  buckets_ptr :: addr
  buckets :: "VscHashMapBucket list"
  resize_policy :: VscHashMapResizePolicy
  load_min_num :: uint16
  load_min_den :: uint16
  load_max_num :: uint16
  load_max_den :: uint16
  hash_proc :: VscHashMapHashProc
  compare_proc :: VscHashMapCompareProc
  allocator :: "'s VscAllocator"

definition sizeof_bucket :: size_t where
  "sizeof_bucket = 24"

definition sizeof_hashmap :: size_t where
  "sizeof_hashmap = 64"

definition VSC_HASHMAP_MIN_BUCKET_AUTO_ALLOCATION :: size_t where
  "VSC_HASHMAP_MIN_BUCKET_AUTO_ALLOCATION = 16"

text \<open>
  The product of two \<open>uint16_t\<close>, which C promotes to \<open>int\<close>: \<open>None\<close> when it does not fit, where
  the behaviour is undefined.
\<close>

definition int_product :: "uint16 \<Rightarrow> uint16 \<Rightarrow> int option" where
  "int_product a b = (if uint a * uint b < 2 ^ 31 then Some (uint a * uint b) else None)"

text \<open>Whether the assertions of \<open>validate\<close> in debug builds hold, one after the other.\<close>

definition validate :: "'s VscHashMap \<Rightarrow> bool option" where
  "validate hm =
     (if nitems hm \<le> num_buckets hm \<and>
         load_min_den hm > 0 \<and> load_min_num hm < load_min_den hm \<and>
         load_max_den hm > 0 \<and> load_max_num hm < load_max_den hm
      then case int_product (load_min_num hm) (load_max_den hm) of
             None \<Rightarrow> None
           | Some p \<Rightarrow> (case int_product (load_max_num hm) (load_max_den hm) of
               None \<Rightarrow> None
             | Some q \<Rightarrow> Some (p \<le> q))
      else Some False)"

definition reset_bucket :: "VscHashMapBucket \<Rightarrow> VscHashMapBucket" where
  "reset_bucket bkt = bkt\<lparr>hash := VSC_INVALID_HASH, key := NULL, val := NULL\<rparr>"

text \<open>\<open>for(i = i; k more times; ++i) reset_bucket(buckets + i)\<close>\<close>

fun reset_loop :: "nat \<Rightarrow> nat \<Rightarrow> VscHashMapBucket list \<Rightarrow> VscHashMapBucket list" where
  "reset_loop 0 i bs = bs"
| "reset_loop (Suc k) i bs = reset_loop k (Suc i) (bs[i := reset_bucket (bs ! i)])"

section \<open>Life cycle\<close>

definition vsc_hashmap_hash :: "'s VscHashMap \<Rightarrow> addr \<Rightarrow> vsc_hash_t" where
  "vsc_hashmap_hash hm k = hash_proc hm k"

definition vsc_hashmap_compare :: "'s VscHashMap \<Rightarrow> addr \<Rightarrow> addr \<Rightarrow> int" where
  "vsc_hashmap_compare hm a b = (if compare_proc hm a b \<noteq> 0 then 1 else 0)"

definition new_hashmap :: "VscHashMapHashProc \<Rightarrow> VscHashMapCompareProc \<Rightarrow> 's VscAllocator \<Rightarrow> 's VscHashMap" where
  "new_hashmap hp cp a =
     \<lparr>nitems = 0, num_buckets = 0, buckets_ptr = NULL, buckets = [],
      resize_policy = VSC_HASHMAP_RESIZE_LOAD_FACTOR,
      load_min_num = 1, load_min_den = 2, load_max_num = 3, load_max_den = 4,
      hash_proc = hp, compare_proc = cp, allocator = a\<rparr>"

text \<open>The address of the map and the map stored there, or NULL and nothing.\<close>

definition vsc_hashmap_alloca ::
  "VscHashMapHashProc \<Rightarrow> VscHashMapCompareProc \<Rightarrow> 's VscAllocator \<Rightarrow> 's world \<Rightarrow>
   (addr \<times> 's VscHashMap option \<times> 's world) option" where
  "vsc_hashmap_alloca hp cp a w =
     (case vsc_xalloc a sizeof_hashmap w of
        None \<Rightarrow> None
      | Some (p, w) \<Rightarrow> if p = NULL then Some (NULL, None, w) else Some (p, Some (new_hashmap hp cp a), w))"

definition vsc_hashmap_reset :: "'s VscHashMap \<Rightarrow> 's world \<Rightarrow> 's VscHashMap \<times> 's world" where
  "vsc_hashmap_reset hm w =
     (let w = vsc_xfree (allocator hm) (buckets_ptr hm) w
      in (hm\<lparr>num_buckets := 0, buckets_ptr := NULL, buckets := []\<rparr>, w))"

text \<open>\<open>self\<close> is the address of the map.\<close>

definition vsc_hashmap_free :: "addr \<Rightarrow> 's VscHashMap \<Rightarrow> 's world \<Rightarrow> 's world" where
  "vsc_hashmap_free self hm w =
     (let (hm, w) = vsc_hashmap_reset hm w in vsc_xfree (allocator hm) self w)"

definition vsc_hashmap_clear :: "'s VscHashMap \<Rightarrow> int \<times> 's VscHashMap" where
  "vsc_hashmap_clear hm =
     (let hm = hm\<lparr>nitems := 0\<rparr>
      in (0, hm\<lparr>buckets := reset_loop (unat (num_buckets hm)) 0 (buckets hm)\<rparr>))"

text \<open>
  The cross products are computed in \<open>int\<close> and stored in \<open>uint32_t\<close> variables. \<open>None\<close> is the
  undefined behaviour of a product that does not fit into an \<open>int\<close>.
\<close>

definition vsc_hashmap_configure ::
  "'s VscHashMap \<Rightarrow> uint16 \<Rightarrow> uint16 \<Rightarrow> uint16 \<Rightarrow> uint16 \<Rightarrow> (int \<times> 's VscHashMap) option" where
  "vsc_hashmap_configure hm min_num min_den max_num max_den =
     (if min_num = 0 \<or> min_den = 0 \<or> min_num \<ge> min_den then Some (VSC_ERROR EINVAL, hm)
      else if max_num = 0 \<or> max_den = 0 \<or> max_num \<ge> max_den then Some (VSC_ERROR EINVAL, hm)
      else case int_product min_num max_den of
        None \<Rightarrow> None
      | Some p \<Rightarrow> (case int_product max_num min_den of
          None \<Rightarrow> None
        | Some q \<Rightarrow>
            let numa = word_of_int p :: uint32; numb = word_of_int q :: uint32
            in if numa > numb then Some (VSC_ERROR EINVAL, hm)
               else Some (0, hm\<lparr>load_min_num := min_num, load_min_den := min_den,
                                load_max_num := max_num, load_max_den := max_den\<rparr>)))"

section \<open>Probing\<close>

text \<open>
  \<open>LOOP_BUCKETS(hm, index, start)\<close> with \<open>k\<close> iterations to go. The result is the index of the
  bucket written (\<open>None\<close> for NULL), the buckets and \<open>*added\<close>.
\<close>

fun add_loop ::
  "'s VscHashMap \<Rightarrow> VscHashMapBucket \<Rightarrow> nat \<Rightarrow> size_t \<Rightarrow> VscHashMapBucket list \<Rightarrow>
   size_t option \<times> VscHashMapBucket list \<times> int" where
  "add_loop hm bkt 0 index bs = (None, bs, 0)"
| "add_loop hm bkt (Suc k) index bs =
     (let b = bs ! unat index; next_index = (index + 1) mod num_buckets hm
      in if hash b = VSC_INVALID_HASH then (Some index, bs[unat index := bkt], 1)
         else if hash b \<noteq> hash bkt then add_loop hm bkt k next_index bs
         else if vsc_hashmap_compare hm (key bkt) (key b) \<noteq> 0 then (Some index, bs[unat index := bkt], 0)
         else add_loop hm bkt k next_index bs)"

definition add_or_replace_bucket ::
  "'s VscHashMap \<Rightarrow> VscHashMapBucket list \<Rightarrow> size_t \<Rightarrow> VscHashMapBucket \<Rightarrow> int \<Rightarrow>
   size_t option \<times> VscHashMapBucket list \<times> int" where
  "add_or_replace_bucket hm bs n bkt added =
     (if n = 0 then (None, bs, added)
      else add_loop hm bkt (unat (num_buckets hm)) (hash bkt mod n mod num_buckets hm) bs)"

fun find_loop :: "'s VscHashMap \<Rightarrow> vsc_hash_t \<Rightarrow> addr \<Rightarrow> nat \<Rightarrow> size_t \<Rightarrow> size_t option" where
  "find_loop hm h k 0 index = None"
| "find_loop hm h k (Suc n) index =
     (let bkt = buckets hm ! unat index; next_index = (index + 1) mod num_buckets hm
      in if hash bkt = VSC_INVALID_HASH then None
         else if hash bkt \<noteq> h then find_loop hm h k n next_index
         else if vsc_hashmap_compare hm k (key bkt) = 0 then find_loop hm h k n next_index
         else Some index)"

text \<open>The index of the bucket found, which is the pointer returned and \<open>*outindex\<close>.\<close>

definition find_bucket :: "'s VscHashMap \<Rightarrow> addr \<Rightarrow> size_t option" where
  "find_bucket hm k =
     (let h = vsc_hashmap_hash hm k
      in if num_buckets hm = 0 then None
         else find_loop hm h k (unat (num_buckets hm)) (h mod num_buckets hm mod num_buckets hm))"

fun find_hash_loop :: "'s VscHashMap \<Rightarrow> vsc_hash_t \<Rightarrow> nat \<Rightarrow> size_t \<Rightarrow> addr" where
  "find_hash_loop hm h 0 index = NULL"
| "find_hash_loop hm h (Suc n) index =
     (let bkt = buckets hm ! unat index
      in if hash bkt = VSC_INVALID_HASH then NULL
         else if hash bkt = h then val bkt
         else find_hash_loop hm h n ((index + 1) mod num_buckets hm))"

definition vsc_hashmap_find_by_hash :: "'s VscHashMap \<Rightarrow> vsc_hash_t \<Rightarrow> addr" where
  "vsc_hashmap_find_by_hash hm h =
     (if h = VSC_INVALID_HASH then NULL
      else if num_buckets hm = 0 then NULL
      else find_hash_loop hm h (unat (num_buckets hm)) (h mod num_buckets hm mod num_buckets hm))"

section \<open>Resizing\<close>

text \<open>The second loop of \<open>vsc_hashmap_resize\<close>, over the buckets still to redistribute.\<close>

fun redistribute ::
  "'s VscHashMap \<Rightarrow> size_t \<Rightarrow> VscHashMapBucket list \<Rightarrow> VscHashMapBucket list \<Rightarrow> VscHashMapBucket list" where
  "redistribute hm nelem [] tmp = tmp"
| "redistribute hm nelem (bkt # rest) tmp =
     (if hash bkt = VSC_INVALID_HASH then redistribute hm nelem rest tmp
      else let (_, tmp, _) = add_or_replace_bucket hm tmp nelem bkt 0 in redistribute hm nelem rest tmp)"

definition zero_bucket :: VscHashMapBucket where
  "zero_bucket = \<lparr>hash = 0, key = 0, val = 0\<rparr>"

text \<open>
  What a successful \<open>realloc\<close> makes of the array: the old contents up to the smaller size. The
  rest of a larger block is unspecified in C, zero here; the code resets it before it reads it.
\<close>

definition realloc_buckets :: "nat \<Rightarrow> VscHashMapBucket list \<Rightarrow> VscHashMapBucket list" where
  "realloc_buckets n bs = take n bs @ replicate (n - length bs) zero_bucket"

definition vsc_hashmap_resize ::
  "'s VscHashMap \<Rightarrow> size_t \<Rightarrow> 's world \<Rightarrow> (int \<times> 's VscHashMap \<times> 's world) option" where
  "vsc_hashmap_resize hm nelem w =
     (if nelem = 0 \<or> nelem < nitems hm then Some (VSC_ERROR EINVAL, hm, w)
      else if nelem = nitems hm then Some (0, hm, w)
      else if nelem \<ge> SIZE_MAX div sizeof_bucket then Some (VSC_ERROR ERANGE, hm, w)
      else
        (case vsc_xrealloc (allocator hm) (buckets_ptr hm) (sizeof_bucket * nelem) w of
           None \<Rightarrow> None
         | Some (bkts, w) \<Rightarrow>
             if bkts = NULL then Some (VSC_ERROR ENOMEM, hm, w)
             else
               let bs = realloc_buckets (unat nelem) (buckets hm);
                   bs = reset_loop (unat nelem - unat (num_buckets hm)) (unat (num_buckets hm)) bs;
                   hm = hm\<lparr>buckets_ptr := bkts, buckets := bs\<rparr>
               in if nitems hm = 0 then Some (0, hm\<lparr>num_buckets := nelem\<rparr>, w)
                  else
                    (case vsc_xcalloc (allocator hm) nelem sizeof_bucket w of
                       None \<Rightarrow> None
                     | Some (tmp, w) \<Rightarrow>
                         if tmp = NULL then Some (VSC_ERROR ENOMEM, hm, w)
                         else
                           let hm = hm\<lparr>num_buckets := nelem\<rparr>;
                               tmpbkts = reset_loop (unat nelem) 0 (replicate (unat nelem) zero_bucket);
                               tmpbkts = redistribute hm nelem (buckets hm) tmpbkts
                           in Some (0, hm\<lparr>buckets := tmpbkts\<rparr>, vsc_xfree (allocator hm) tmp w))))"

text \<open>The status, and \<open>*result\<close>.\<close>

definition intceil :: "size_t \<Rightarrow> size_t \<Rightarrow> int \<times> size_t" where
  "intceil num den = (0, num div den + (if num mod den \<noteq> 0 then 1 else 0))"

definition maybe_resize :: "'s VscHashMap \<Rightarrow> 's world \<Rightarrow> (int \<times> 's VscHashMap \<times> 's world) option" where
  "maybe_resize hm w =
     (let (r, tmp) = intceil SIZE_MAX (ucast (load_max_num hm))
      in if r < 0 then Some (r, hm, w)
         else if num_buckets hm \<ge> tmp then Some (VSC_ERROR ERANGE, hm, w)
         else
           let (r, thresh) = intceil (num_buckets hm * ucast (load_max_num hm)) (ucast (load_max_den hm))
           in if r < 0 then Some (r, hm, w)
              else if nitems hm < thresh then Some (0, hm, w)
              else if resize_policy hm = VSC_HASHMAP_RESIZE_NONE then Some (VSC_ERROR EPERM, hm, w)
              else
                let (r, tmp) = intceil SIZE_MAX (ucast (load_max_den hm))
                in if r < 0 then Some (r, hm, w)
                   else if nitems hm + 1 \<ge> tmp then Some (VSC_ERROR ERANGE, hm, w)
                   else
                     let (r, minreq) = intceil ((nitems hm + 1) * ucast (load_min_den hm)) (ucast (load_min_num hm))
                     in if r < 0 then Some (r, hm, w)
                        else vsc_hashmap_resize hm (VSC_MAX minreq VSC_HASHMAP_MIN_BUCKET_AUTO_ALLOCATION) w)"

section \<open>Insertion, lookup, update\<close>

definition vsc_hashmap_insert ::
  "'s VscHashMap \<Rightarrow> addr \<Rightarrow> addr \<Rightarrow> 's world \<Rightarrow> (int \<times> 's VscHashMap \<times> 's world) option" where
  "vsc_hashmap_insert hm k v w =
     (let tmpbkt = \<lparr>hash = vsc_hashmap_hash hm k, key = k, val = v\<rparr>
      in if hash tmpbkt = VSC_INVALID_HASH then Some (VSC_ERROR ERANGE, hm, w)
         else
           (case maybe_resize hm w of
              None \<Rightarrow> None
            | Some (r, hm, w) \<Rightarrow>
                if r < 0 \<and> r \<noteq> VSC_ERROR EPERM then Some (r, hm, w)
                else
                  let (b, bs, added) = add_or_replace_bucket hm (buckets hm) (num_buckets hm) tmpbkt 0
                  in if b = None then Some (VSC_ERROR ENOSPC, hm\<lparr>buckets := bs\<rparr>, w)
                     else Some (0, hm\<lparr>buckets := bs, nitems := (if added \<noteq> 0 then nitems hm + 1 else nitems hm)\<rparr>, w)))"

definition vsc_hashmap_find :: "'s VscHashMap \<Rightarrow> addr \<Rightarrow> addr" where
  "vsc_hashmap_find hm k =
     (case find_bucket hm k of None \<Rightarrow> NULL | Some i \<Rightarrow> val (buckets hm ! unat i))"

definition vsc_hashmap_update :: "'s VscHashMap \<Rightarrow> addr \<Rightarrow> addr \<Rightarrow> int \<times> 's VscHashMap" where
  "vsc_hashmap_update hm k v =
     (case find_bucket hm k of
        None \<Rightarrow> (1, hm)
      | Some i \<Rightarrow> (0, hm\<lparr>buckets := (buckets hm)[unat i := (buckets hm ! unat i)\<lparr>val := v\<rparr>]\<rparr>))"

section \<open>Removal\<close>

text \<open>The loop that fills the gap at \<open>index\<close>, with \<open>k\<close> iterations to go.\<close>

fun remove_loop :: "'s VscHashMap \<Rightarrow> nat \<Rightarrow> size_t \<Rightarrow> size_t \<Rightarrow> VscHashMapBucket list \<Rightarrow> VscHashMapBucket list" where
  "remove_loop hm 0 index cidx bs = bs"
| "remove_loop hm (Suc k) index cidx bs =
     (let bkt2 = bs ! unat cidx; next_cidx = (cidx + 1) mod num_buckets hm
      in if hash bkt2 = VSC_INVALID_HASH then bs
         else
           let nidx = hash bkt2 mod num_buckets hm
           in if nidx \<le> index
              then remove_loop hm k cidx next_cidx (bs[unat index := bkt2, unat cidx := reset_bucket bkt2])
              else remove_loop hm k index next_cidx bs)"

definition vsc_hashmap_remove :: "'s VscHashMap \<Rightarrow> addr \<Rightarrow> addr \<times> 's VscHashMap" where
  "vsc_hashmap_remove hm k =
     (case find_bucket hm k of
        None \<Rightarrow> (NULL, hm)
      | Some index \<Rightarrow>
          let v = val (buckets hm ! unat index);
              bs = (buckets hm)[unat index := reset_bucket (buckets hm ! unat index)];
              bs = remove_loop hm (unat (num_buckets hm)) index ((index + 1) mod num_buckets hm) bs
          in (v, hm\<lparr>buckets := bs, nitems := nitems hm - 1\<rparr>))"

section \<open>Queries\<close>

definition vsc_hashmap_size :: "'s VscHashMap \<Rightarrow> size_t" where
  "vsc_hashmap_size hm = nitems hm"

definition vsc_hashmap_capacity :: "'s VscHashMap \<Rightarrow> size_t" where
  "vsc_hashmap_capacity hm = num_buckets hm"

definition vsc_hashmap_resize_policy :: "'s VscHashMap \<Rightarrow> VscHashMapResizePolicy" where
  "vsc_hashmap_resize_policy hm = resize_policy hm"

definition vsc_hashmap_set_resize_policy ::
  "'s VscHashMap \<Rightarrow> VscHashMapResizePolicy \<Rightarrow> VscHashMapResizePolicy \<times> 's VscHashMap" where
  "vsc_hashmap_set_resize_policy hm policy = (resize_policy hm, hm\<lparr>resize_policy := policy\<rparr>)"

definition vsc_hashmap_first :: "'s VscHashMap \<Rightarrow> addr" where
  "vsc_hashmap_first hm = (if nitems hm = 0 then NULL else buckets_ptr hm)"

fun enumerate_loop :: "'u VscHashMapEnumProc \<Rightarrow> VscHashMapBucket list \<Rightarrow> 'u \<Rightarrow> int \<times> 'u" where
  "enumerate_loop f [] u = (0, u)"
| "enumerate_loop f (bkt # rest) u =
     (if hash bkt = VSC_INVALID_HASH then enumerate_loop f rest u
      else let (r, u) = f (key bkt) (val bkt) (hash bkt) u
           in if r \<noteq> 0 then (r, u) else enumerate_loop f rest u)"

definition vsc_hashmap_enumerate :: "'s VscHashMap \<Rightarrow> 'u VscHashMapEnumProc \<Rightarrow> 'u \<Rightarrow> int \<times> 'u" where
  "vsc_hashmap_enumerate hm f u = enumerate_loop f (take (unat (num_buckets hm)) (buckets hm)) u"

section \<open>The default callbacks\<close>

definition vsc_hashmap_default_hash :: VscHashMapHashProc where
  "vsc_hashmap_default_hash k = k"

definition vsc_hashmap_default_compare :: VscHashMapCompareProc where
  "vsc_hashmap_default_compare a b = (if a = b then 1 else 0)"

end
