(* ===== verification/HashmapCorrect.thy ===== *)
theory HashmapCorrect
  imports Hashmap
begin

text \<open>
  Correctness of the hash map of \<open>Hashmap\<close>. The probing loops are first read as one search
  \<open>scan\<close> over natural numbers. The invariant \<open>buckets_ok\<close> says that every stored key can be
  reached from its home bucket over occupied buckets and is stored once; \<open>hashmap_abs\<close> is the
  finite map a hash map stands for. The lemmas on the callbacks' contract are in the locale
  \<open>key_procs\<close>, which the default callbacks satisfy.
\<close>

section \<open>Probing as a search\<close>

fun scan :: "(nat \<Rightarrow> bool) \<Rightarrow> nat \<Rightarrow> nat \<Rightarrow> nat \<Rightarrow> nat option" where
  "scan P n 0 i = None"
| "scan P n (Suc k) i = (if P i then Some i else scan P n k ((i + 1) mod n))"

lemma scan_Some:
  assumes "scan P n k i = Some r" and "i < n"
  shows "\<exists>j. r = (i + j) mod n \<and> P r \<and> r < n \<and> (\<forall>j'<j. \<not> P ((i + j') mod n))"
  using assms
proof (induction k arbitrary: i)
  case (Suc k)
  show ?case
  proof (cases "P i")
    case True
    then show ?thesis using Suc.prems by (auto intro!: exI [of _ 0])
  next
    case False
    have "(i + 1) mod n < n" using Suc.prems by simp
    then obtain j where j: "r = ((i + 1) mod n + j) mod n" "P r" "r < n" "\<forall>j'<j. \<not> P (((i + 1) mod n + j') mod n)"
      using Suc.IH [of "(i + 1) mod n"] Suc.prems False by auto
    have "\<not> P ((i + j') mod n)" if "j' < Suc j" for j'
      using that False Suc.prems j(4) [rule_format, of "j' - 1"]
      by (cases j') (auto simp: mod_simps)
    then show ?thesis using j by (intro exI [of _ "Suc j"]) (auto simp: mod_simps)
  qed
qed simp

lemma scan_None:
  assumes "scan P n k i = None" and "i < n" and "j < k"
  shows "\<not> P ((i + j) mod n)"
  using assms
proof (induction k arbitrary: i j)
  case (Suc k)
  then have P: "\<not> P i" "scan P n k ((i + 1) mod n) = None" by (auto split: if_splits)
  show ?case
  proof (cases j)
    case 0
    then show ?thesis using P Suc.prems by simp
  next
    case (Suc l)
    have "\<not> P (((i + 1) mod n + l) mod n)"
      using Suc.IH [OF P(2), of l] Suc.prems Suc by simp
    then show ?thesis using Suc by (simp add: mod_simps)
  qed
qed simp

lemma probe_reaches: "i < n \<Longrightarrow> r < n \<Longrightarrow> \<exists>j<n. (i + j) mod (n :: nat) = r"
  by (cases "i \<le> r") (auto intro: exI [of _ "r - i"] exI [of _ "n + r - i"])

lemma scan_None_all: "scan P n n i = None \<Longrightarrow> i < n \<Longrightarrow> r < n \<Longrightarrow> \<not> P r"
  using probe_reaches [of i n r] scan_None [of P n n i] by auto

lemma unat_next_index:
  assumes "unat idx < unat (n :: size_t)"
  shows "unat ((idx + 1) mod n) = (unat idx + 1) mod unat n"
proof -
  have "unat idx + unat (1 :: size_t) < 2 ^ 64" using assms unat_bound64 [of n] by simp
  then show ?thesis by (simp add: unat_mod unat_add64)
qed

definition occupied :: "VscHashMapBucket \<Rightarrow> bool" where
  "occupied b \<longleftrightarrow> hash b \<noteq> VSC_INVALID_HASH"

lemma reset_bucket_empty [simp]: "\<not> occupied (reset_bucket b)"
  by (simp add: occupied_def reset_bucket_def)

definition holds_key :: "VscHashMapCompareProc \<Rightarrow> vsc_hash_t \<Rightarrow> addr \<Rightarrow> VscHashMapBucket \<Rightarrow> bool" where
  "holds_key cp h k b \<longleftrightarrow> hash b = h \<and> cp k (key b) \<noteq> 0"

definition stops :: "VscHashMapCompareProc \<Rightarrow> vsc_hash_t \<Rightarrow> addr \<Rightarrow> VscHashMapBucket \<Rightarrow> bool" where
  "stops cp h k b \<longleftrightarrow> \<not> occupied b \<or> holds_key cp h k b"

lemma find_loop_scan:
  assumes "unat idx < unat (num_buckets hm)"
  shows "find_loop hm h k m idx =
    (case scan (\<lambda>i. stops (compare_proc hm) h k (buckets hm ! i)) (unat (num_buckets hm)) m (unat idx) of
       None \<Rightarrow> None
     | Some i \<Rightarrow> if occupied (buckets hm ! i) then Some (of_nat i) else None)"
  using assms
proof (induction m arbitrary: idx)
  case (Suc m)
  have "(unat idx + 1) mod unat (num_buckets hm) < unat (num_buckets hm)" using Suc.prems by simp
  then show ?case
    using Suc by (auto simp: Let_def stops_def holds_key_def occupied_def vsc_hashmap_compare_def unat_next_index)
qed simp

lemma add_loop_scan:
  assumes "unat idx < unat (num_buckets hm)"
  shows "add_loop hm bkt m idx bs =
    (case scan (\<lambda>i. stops (compare_proc hm) (hash bkt) (key bkt) (bs ! i)) (unat (num_buckets hm)) m (unat idx) of
       None \<Rightarrow> (None, bs, 0)
     | Some i \<Rightarrow> (Some (of_nat i), bs[i := bkt], if occupied (bs ! i) then 0 else 1))"
  using assms
proof (induction m arbitrary: idx)
  case (Suc m)
  have "(unat idx + 1) mod unat (num_buckets hm) < unat (num_buckets hm)" using Suc.prems by simp
  then show ?case
    using Suc by (auto simp: Let_def stops_def holds_key_def occupied_def vsc_hashmap_compare_def unat_next_index)
qed simp

section \<open>The contents of a bucket array\<close>

definition items :: "nat \<Rightarrow> VscHashMapBucket list \<Rightarrow> VscHashMapBucket list" where
  "items n bs = filter occupied (take n bs)"

lemma set_items: "n \<le> length bs \<Longrightarrow> b \<in> set (items n bs) \<longleftrightarrow> (\<exists>i<n. bs ! i = b \<and> occupied b)"
  by (auto simp: items_def in_set_conv_nth)

lemma length_items_le: "length (items n bs) \<le> n"
proof -
  have "length (items n bs) \<le> length (take n bs)" unfolding items_def by (rule length_filter_le)
  then show ?thesis by simp
qed

lemma mset_filter_update:
  assumes "i < length xs"
  shows "mset (filter P (xs[i := y])) + (if P (xs ! i) then {#xs ! i#} else {#}) =
    mset (filter P xs) + (if P y then {#y#} else {#})"
proof -
  have "mset (filter P xs) = mset (filter P (take i xs @ xs ! i # drop (Suc i) xs))"
    using assms by (simp add: id_take_nth_drop [symmetric])
  then show ?thesis using assms by (simp add: upd_conv_take_nth_drop)
qed

lemma mset_items_update:
  assumes "i < n" and "n \<le> length bs"
  shows "mset (items n (bs[i := y])) + (if occupied (bs ! i) then {#bs ! i#} else {#}) =
    mset (items n bs) + (if occupied y then {#y#} else {#})"
proof -
  have "i < length (take n bs)" using assms by simp
  from mset_filter_update [OF this, of occupied y] show ?thesis
    unfolding items_def take_update_swap nth_take [OF assms(1)] .
qed

lemma free_bucket:
  assumes "length (items n bs) < n" and "n \<le> length bs"
  shows "\<exists>i<n. \<not> occupied (bs ! i)"
proof (rule ccontr)
  assume "\<not> ?thesis"
  then have "\<forall>x\<in>set (take n bs). occupied x" using assms(2) by (auto simp: in_set_conv_nth)
  then have "items n bs = take n bs" by (simp add: items_def filter_id_conv)
  then show False using assms by simp
qed

definition home :: "nat \<Rightarrow> VscHashMapBucket \<Rightarrow> nat" where
  "home n b = unat (hash b) mod n"

text \<open>Every bucket probed for the key at \<open>i\<close> before \<open>i\<close> is occupied.\<close>

definition reachable_at :: "nat \<Rightarrow> VscHashMapBucket list \<Rightarrow> nat \<Rightarrow> bool" where
  "reachable_at n bs i \<longleftrightarrow>
     (\<forall>j<n. (\<forall>j'\<le>j. (home n (bs ! i) + j') mod n \<noteq> i) \<longrightarrow> occupied (bs ! ((home n (bs ! i) + j) mod n)))"

definition buckets_ok :: "VscHashMapHashProc \<Rightarrow> VscHashMapCompareProc \<Rightarrow> nat \<Rightarrow> VscHashMapBucket list \<Rightarrow> bool" where
  "buckets_ok hp cp n bs \<longleftrightarrow> n \<le> length bs \<and>
     (\<forall>i<n. occupied (bs ! i) \<longrightarrow> hash (bs ! i) = hp (key (bs ! i)) \<and> reachable_at n bs i) \<and>
     (\<forall>i<n. \<forall>j<n. occupied (bs ! i) \<and> occupied (bs ! j) \<and> cp (key (bs ! i)) (key (bs ! j)) \<noteq> 0 \<longrightarrow> i = j)"

lemma buckets_okD:
  assumes "buckets_ok hp cp n bs"
  shows buckets_ok_length: "n \<le> length bs"
    and buckets_ok_hash: "i < n \<Longrightarrow> occupied (bs ! i) \<Longrightarrow> hash (bs ! i) = hp (key (bs ! i))"
    and buckets_ok_reach: "i < n \<Longrightarrow> occupied (bs ! i) \<Longrightarrow> reachable_at n bs i"
    and buckets_ok_once: "i < n \<Longrightarrow> j < n \<Longrightarrow> occupied (bs ! i) \<Longrightarrow> occupied (bs ! j) \<Longrightarrow>
      cp (key (bs ! i)) (key (bs ! j)) \<noteq> 0 \<Longrightarrow> i = j"
  using assms by (auto simp: buckets_ok_def)

definition lookup :: "VscHashMapCompareProc \<Rightarrow> VscHashMapBucket list \<Rightarrow> addr \<Rightarrow> addr option" where
  "lookup cp xs k = map_option val (find (\<lambda>b. cp k (key b) \<noteq> 0) xs)"

lemma scan_stops_not_before:
  assumes "buckets_ok hp cp' n bs" and "i < n" and "holds_key cp h k (bs ! i)" and "h \<noteq> VSC_INVALID_HASH"
    and "scan (\<lambda>i. stops cp h k (bs ! i)) n n (unat h mod n) = Some r"
  shows "occupied (bs ! r) \<and> holds_key cp h k (bs ! r)"
proof -
  have hi: "hash (bs ! i) = h" and oi: "occupied (bs ! i)"
    using assms(3,4) by (auto simp: holds_key_def occupied_def)
  have "unat h mod n < n" using assms(2) by simp
  then obtain j where r: "r = (unat h mod n + j) mod n" "stops cp h k (bs ! r)" "r < n"
    and before: "\<forall>j'<j. \<not> stops cp h k (bs ! ((unat h mod n + j') mod n))"
    using scan_Some [OF assms(5)] by auto
  show ?thesis
  proof (cases "occupied (bs ! r)")
    case True
    then show ?thesis using r(2) by (simp add: stops_def)
  next
    case False
    have not_i: "(unat h mod n + j') mod n \<noteq> i" if "j' \<le> j" for j'
    proof
      assume eq: "(unat h mod n + j') mod n = i"
      show False
      proof (cases "j' = j")
        case True
        then show False using eq r(1) oi False by simp
      next
        case False
        then show False using before [rule_format, of j'] that eq assms(3) by (simp add: stops_def)
      qed
    qed
    obtain m where m: "m < n" "(unat h mod n + m) mod n = i"
      using probe_reaches [of "unat h mod n" n i] assms(2) by auto
    have "j < m" using m not_i [of m] by (cases "m \<le> j") auto
    then have "occupied (bs ! ((unat h mod n + j) mod n))"
      using buckets_ok_reach [OF assms(1,2) oi] not_i m(1) hi
      by (simp add: reachable_at_def home_def)
    then show ?thesis using False r(1) by simp
  qed
qed

section \<open>The callbacks' contract\<close>

text \<open>
  What the map relies on: the comparison is an equivalence and the hash respects it.
\<close>

locale key_procs =
  fixes hp :: VscHashMapHashProc and cp :: VscHashMapCompareProc
  assumes compare_refl: "cp k k \<noteq> 0"
    and compare_sym: "cp a b \<noteq> 0 \<Longrightarrow> cp b a \<noteq> 0"
    and compare_trans: "cp a b \<noteq> 0 \<Longrightarrow> cp b c \<noteq> 0 \<Longrightarrow> cp a c \<noteq> 0"
    and hash_respects: "cp a b \<noteq> 0 \<Longrightarrow> hp a = hp b"
begin

lemma lookup_iff:
  assumes "buckets_ok hp cp n bs"
  shows "lookup cp (items n bs) k = Some v \<longleftrightarrow> (\<exists>i<n. occupied (bs ! i) \<and> cp k (key (bs ! i)) \<noteq> 0 \<and> val (bs ! i) = v)"
    (is "?L \<longleftrightarrow> ?R")
proof
  assume ?L
  then obtain b where "find (\<lambda>b. cp k (key b) \<noteq> 0) (items n bs) = Some b" "val b = v"
    by (auto simp: lookup_def)
  then have "b \<in> set (items n bs)" "cp k (key b) \<noteq> 0" "val b = v"
    by (auto simp: find_Some_iff)
  then show ?R using set_items [OF buckets_ok_length [OF assms]] by auto
next
  assume ?R
  then obtain i where i: "i < n" "occupied (bs ! i)" "cp k (key (bs ! i)) \<noteq> 0" "val (bs ! i) = v" by auto
  have "bs ! i \<in> set (items n bs)" using i set_items [OF buckets_ok_length [OF assms]] by auto
  then obtain b where b: "find (\<lambda>b. cp k (key b) \<noteq> 0) (items n bs) = Some b"
    using i(3) by (cases "find (\<lambda>b. cp k (key b) \<noteq> 0) (items n bs)") (auto simp: find_None_iff)
  then have "b \<in> set (items n bs)" "cp k (key b) \<noteq> 0" by (auto simp: find_Some_iff)
  then obtain j where j: "j < n" "bs ! j = b" "occupied b" using set_items [OF buckets_ok_length [OF assms]] by auto
  have "cp (key (bs ! i)) (key (bs ! j)) \<noteq> 0"
    using i(3) j(2) \<open>cp k (key b) \<noteq> 0\<close> compare_sym compare_trans by blast
  then have "i = j" using buckets_ok_once [OF assms i(1) j(1) i(2)] j by simp
  then show ?L using b i j by (simp add: lookup_def)
qed

lemma lookup_None_iff:
  assumes "buckets_ok hp cp n bs"
  shows "lookup cp (items n bs) k = None \<longleftrightarrow> (\<forall>i<n. occupied (bs ! i) \<longrightarrow> cp k (key (bs ! i)) = 0)"
  using set_items [OF buckets_ok_length [OF assms]] by (auto simp: lookup_def find_None_iff)

lemma lookup_set:
  assumes "buckets_ok hp cp n bs"
  shows "lookup cp (items n bs) k = Some v \<longleftrightarrow> (\<exists>b\<in>set (items n bs). cp k (key b) \<noteq> 0 \<and> val b = v)"
  unfolding lookup_iff [OF assms] Bex_def set_items [OF buckets_ok_length [OF assms]] by auto

lemma lookup_cong:
  assumes "buckets_ok hp cp n bs" and "buckets_ok hp cp m cs" and "set (items n bs) = set (items m cs)"
  shows "lookup cp (items n bs) = lookup cp (items m cs)"
proof
  fix k
  have "lookup cp (items n bs) k = Some v \<longleftrightarrow> lookup cp (items m cs) k = Some v" for v
    unfolding lookup_set [OF assms(1)] lookup_set [OF assms(2)] assms(3) ..
  then show "lookup cp (items n bs) k = lookup cp (items m cs) k"
    by (metis option.exhaust)
qed

text \<open>The search for a key finds the bucket that holds it, or none holds it.\<close>

lemma scan_lookup:
  assumes "buckets_ok hp cp n bs" and "0 < n"
  shows "lookup cp (items n bs) k =
    (case scan (\<lambda>i. stops cp (hp k) k (bs ! i)) n n (unat (hp k) mod n) of
       None \<Rightarrow> None | Some i \<Rightarrow> if occupied (bs ! i) then Some (val (bs ! i)) else None)"
proof (cases "\<exists>i<n. occupied (bs ! i) \<and> cp k (key (bs ! i)) \<noteq> 0")
  case True
  then obtain i where i: "i < n" "occupied (bs ! i)" "cp k (key (bs ! i)) \<noteq> 0" by auto
  have hi: "hash (bs ! i) = hp k"
    using buckets_ok_hash [OF assms(1) i(1,2)] hash_respects [OF i(3)] by simp
  have held: "holds_key cp (hp k) k (bs ! i)" using hi i by (simp add: holds_key_def)
  have valid: "hp k \<noteq> VSC_INVALID_HASH" using hi i(2) by (simp add: occupied_def)
  have st: "unat (hp k) mod n < n" using assms(2) by simp
  have "scan (\<lambda>i. stops cp (hp k) k (bs ! i)) n n (unat (hp k) mod n) \<noteq> None"
    using scan_None_all [OF _ st i(1)] held by (auto simp: stops_def)
  then obtain r where r: "scan (\<lambda>i. stops cp (hp k) k (bs ! i)) n n (unat (hp k) mod n) = Some r" by auto
  have rn: "r < n" using scan_Some [OF r st] by auto
  have o: "occupied (bs ! r) \<and> holds_key cp (hp k) k (bs ! r)"
    by (rule scan_stops_not_before [OF assms(1) i(1) held valid r])
  then have "lookup cp (items n bs) k = Some (val (bs ! r))"
    unfolding lookup_iff [OF assms(1)] using rn by (auto simp: holds_key_def)
  then show ?thesis using r o by simp
next
  case False
  then have none: "lookup cp (items n bs) k = None" unfolding lookup_None_iff [OF assms(1)] by auto
  have st: "unat (hp k) mod n < n" using assms(2) by simp
  have "\<not> occupied (bs ! r)" if "scan (\<lambda>i. stops cp (hp k) k (bs ! i)) n n (unat (hp k) mod n) = Some r" for r
    using scan_Some [OF that st] False by (auto simp: stops_def holds_key_def)
  then show ?thesis using none by (auto split: option.split)
qed

text \<open>
  Writing a bucket where the search for its key stops. Only the bucket overwritten can hold an
  equal key.
\<close>

definition add_spot :: "nat \<Rightarrow> VscHashMapBucket list \<Rightarrow> VscHashMapBucket \<Rightarrow> nat \<Rightarrow> bool" where
  "add_spot n bs b r \<longleftrightarrow> buckets_ok hp cp n bs \<and> 0 < n \<and> occupied b \<and> hash b = hp (key b) \<and>
     scan (\<lambda>i. stops cp (hash b) (key b) (bs ! i)) n n (home n b) = Some r"

lemma add_spot_range:
  assumes "add_spot n bs b r" shows "r < n" and "r < length bs"
proof -
  have "home n b < n" using assms by (simp add: add_spot_def home_def)
  then show "r < n" using assms scan_Some by (fastforce simp: add_spot_def)
  then show "r < length bs" using assms buckets_ok_length by (fastforce simp: add_spot_def)
qed

lemma add_spot_same:
  assumes "add_spot n bs b r" and i: "i < n" "occupied (bs ! i)" "cp (key b) (key (bs ! i)) \<noteq> 0"
  shows "i = r"
proof -
  have ok: "buckets_ok hp cp n bs" and b: "occupied b" "hash b = hp (key b)"
    and scan: "scan (\<lambda>i. stops cp (hash b) (key b) (bs ! i)) n n (unat (hash b) mod n) = Some r"
    using assms(1) by (auto simp: add_spot_def home_def)
  have hi: "hash (bs ! i) = hash b"
    using buckets_ok_hash [OF ok i(1,2)] hash_respects [OF i(3)] b(2) by simp
  have "occupied (bs ! r) \<and> holds_key cp (hash b) (key b) (bs ! r)"
    by (rule scan_stops_not_before [OF ok i(1) _ _ scan])
      (use hi i b in \<open>simp_all add: holds_key_def occupied_def\<close>)
  then have "cp (key (bs ! i)) (key (bs ! r)) \<noteq> 0" "occupied (bs ! r)"
    using compare_trans [OF compare_sym [OF i(3)]] by (auto simp: holds_key_def)
  then show "i = r" using buckets_ok_once [OF ok i(1) add_spot_range(1) [OF assms(1)] i(2)] by simp
qed

lemma add_spot_holds:
  assumes "add_spot n bs b r" and "occupied (bs ! r)" shows "cp (key b) (key (bs ! r)) \<noteq> 0"
proof -
  have "home n b < n" using assms by (simp add: add_spot_def home_def)
  then have "stops cp (hash b) (key b) (bs ! r)" using assms scan_Some by (fastforce simp: add_spot_def)
  then show ?thesis using assms(2) by (simp add: stops_def holds_key_def)
qed

lemma add_spot_occupied: "add_spot n bs b r \<Longrightarrow> occupied (bs ! i) \<Longrightarrow> occupied (bs[r := b] ! i)"
  using add_spot_range(2) [of n bs b r] by (cases "i = r") (auto simp: add_spot_def)

lemma add_spot_reach:
  assumes "add_spot n bs b r" and i: "i < n" "occupied (bs[r := b] ! i)"
  shows "reachable_at n (bs[r := b]) i"
proof (cases "i = r")
  case False
  then have "reachable_at n bs i" using i assms(1) by (auto simp: add_spot_def buckets_ok_def)
  then show ?thesis using False add_spot_occupied [OF assms(1)] by (auto simp: reachable_at_def)
next
  case True
  have "home n b < n" using assms by (simp add: add_spot_def home_def)
  then obtain j0 where j0: "r = (home n b + j0) mod n"
    and before: "\<forall>j'<j0. \<not> stops cp (hash b) (key b) (bs ! ((home n b + j') mod n))"
    using assms(1) scan_Some by (fastforce simp: add_spot_def)
  have new: "bs[r := b] ! r = b" using add_spot_range(2) [OF assms(1)] by simp
  show ?thesis
    unfolding reachable_at_def True new
  proof (intro allI impI)
    fix j assume *: "\<forall>j'\<le>j. (home n b + j') mod n \<noteq> r"
    have "j < j0" using j0 * by (metis linorder_not_less)
    then have "occupied (bs ! ((home n b + j) mod n))" using before by (simp add: stops_def)
    then show "occupied (bs[r := b] ! ((home n b + j) mod n))" by (rule add_spot_occupied [OF assms(1)])
  qed
qed

lemma add_spot_once:
  assumes "add_spot n bs b r" and "i < n" "j < n" "occupied (bs[r := b] ! i)" "occupied (bs[r := b] ! j)"
    and "cp (key (bs[r := b] ! i)) (key (bs[r := b] ! j)) \<noteq> 0"
  shows "i = j"
proof -
  have r: "bs[r := b] ! r = b" using add_spot_range(2) [OF assms(1)] by simp
  have ok: "buckets_ok hp cp n bs" using assms(1) by (simp add: add_spot_def)
  consider "i = r" "j = r" | "i = r" "j \<noteq> r" | "i \<noteq> r" "j = r" | "i \<noteq> r" "j \<noteq> r" by blast
  then show ?thesis
  proof cases
    case 2
    then show ?thesis using add_spot_same [OF assms(1,3)] assms(5,6) r by simp
  next
    case 3
    then show ?thesis using add_spot_same [OF assms(1,2)] assms(4,6) r compare_sym by simp
  next
    case 4
    then show ?thesis using buckets_ok_once [OF ok assms(2,3)] assms(4-6) by simp
  qed simp
qed

lemma add_spot_ok:
  assumes "add_spot n bs b r" shows "buckets_ok hp cp n (bs[r := b])"
proof -
  have "hash (bs[r := b] ! i) = hp (key (bs[r := b] ! i))" if "i < n" "occupied (bs[r := b] ! i)" for i
    using that assms add_spot_range(2) [OF assms] by (cases "i = r") (auto simp: add_spot_def buckets_ok_def)
  moreover have "n \<le> length bs" using assms by (auto simp: add_spot_def buckets_ok_def)
  ultimately show ?thesis
    unfolding buckets_ok_def using add_spot_reach [OF assms] add_spot_once [OF assms] by simp
qed

lemma add_spot_mset:
  assumes "add_spot n bs b r"
  shows "mset (items n (bs[r := b])) + (if occupied (bs ! r) then {#bs ! r#} else {#}) = add_mset b (mset (items n bs))"
  using mset_items_update [OF add_spot_range(1) [OF assms], of bs b] assms by (simp add: add_spot_def buckets_ok_def)

lemma add_spot_lookup:
  assumes a: "add_spot n bs b r"
  shows "lookup cp (items n (bs[r := b])) k = (if cp k (key b) \<noteq> 0 then Some (val b) else lookup cp (items n bs) k)"
proof -
  note r = add_spot_range [OF a] and ok' = add_spot_ok [OF a]
  have ok: "buckets_ok hp cp n bs" and b: "occupied b" using a by (auto simp: add_spot_def)
  show ?thesis
  proof (cases "cp k (key b) \<noteq> 0")
    case True
    then have "lookup cp (items n (bs[r := b])) k = Some (val b)"
      unfolding lookup_iff [OF ok'] using r b by (intro exI [of _ r]) simp
    then show ?thesis using True by simp
  next
    case False
    have new: "cp k (key (bs[r := b] ! r)) = 0" using False r by simp
    have old: "cp k (key (bs ! r)) = 0" if "occupied (bs ! r)"
      using add_spot_holds [OF a that] False compare_sym compare_trans by blast
    have "(occupied (bs[r := b] ! i) \<and> cp k (key (bs[r := b] ! i)) \<noteq> 0 \<and> val (bs[r := b] ! i) = v) \<longleftrightarrow>
      (occupied (bs ! i) \<and> cp k (key (bs ! i)) \<noteq> 0 \<and> val (bs ! i) = v)" for i v
      using new old by (cases "i = r") auto
    then have "lookup cp (items n (bs[r := b])) k = Some v \<longleftrightarrow> lookup cp (items n bs) k = Some v" for v
      unfolding lookup_iff [OF ok'] lookup_iff [OF ok] by simp
    then show ?thesis using False by (metis option.exhaust)
  qed
qed

lemma sorted_wrt_items:
  assumes "buckets_ok hp cp n bs"
  shows "sorted_wrt (\<lambda>a b. cp (key a) (key b) = 0) (items n bs)"
proof -
  have "sorted_wrt (\<lambda>a b. occupied a \<and> occupied b \<longrightarrow> cp (key a) (key b) = 0) (take n bs)"
    unfolding sorted_wrt_iff_nth_less
  proof (intro allI impI)
    fix i j assume "i < j" "j < length (take n bs)" "occupied (take n bs ! i) \<and> occupied (take n bs ! j)"
    then show "cp (key (take n bs ! i)) (key (take n bs ! j)) = 0"
      using buckets_ok_once [OF assms, of i j] by (cases "cp (key (bs ! i)) (key (bs ! j)) = 0") auto
  qed
  then have "sorted_wrt (\<lambda>a b. occupied a \<and> occupied b \<longrightarrow> cp (key a) (key b) = 0) (items n bs)"
    unfolding items_def by (rule sorted_wrt_filter)
  then show ?thesis by (rule sorted_wrt_mono_rel [rotated]) (auto simp: items_def)
qed

lemma scan_full:
  assumes "buckets_ok hp cp n bs" and "0 < n" and "length (items n bs) < n" and "i < n"
  shows "scan (\<lambda>i. stops cp h k (bs ! i)) n n i \<noteq> None"
proof
  assume none: "scan (\<lambda>i. stops cp h k (bs ! i)) n n i = None"
  obtain r where "r < n" "\<not> occupied (bs ! r)"
    using free_bucket [OF assms(3) buckets_ok_length [OF assms(1)]] by auto
  then show False using scan_None_all [OF none assms(4)] by (auto simp: stops_def)
qed

end

section \<open>The operations as searches\<close>

abbreviation capacity :: "'s VscHashMap \<Rightarrow> nat" where
  "capacity hm \<equiv> unat (num_buckets hm)"

definition stored :: "'s VscHashMap \<Rightarrow> VscHashMapBucket list" where
  "stored hm = items (capacity hm) (buckets hm)"

definition hashmap_abs :: "'s VscHashMap \<Rightarrow> addr \<Rightarrow> addr option" where
  "hashmap_abs hm = lookup (compare_proc hm) (stored hm)"

definition load_ok :: "'s VscHashMap \<Rightarrow> bool" where
  "load_ok hm \<longleftrightarrow>
     0 < unat (load_min_num hm) \<and> unat (load_min_num hm) < unat (load_min_den hm) \<and>
     0 < unat (load_max_num hm) \<and> unat (load_max_num hm) < unat (load_max_den hm) \<and>
     unat (load_min_num hm) * unat (load_max_den hm) \<le> unat (load_max_num hm) * unat (load_min_den hm)"

definition hashmap_ok :: "'s VscHashMap \<Rightarrow> bool" where
  "hashmap_ok hm \<longleftrightarrow>
     buckets_ok (hash_proc hm) (compare_proc hm) (capacity hm) (buckets hm) \<and>
     unat (nitems hm) = length (stored hm) \<and> load_ok hm"

lemma nitems_le: "hashmap_ok hm \<Longrightarrow> unat (nitems hm) \<le> capacity hm"
  using length_items_le by (auto simp: hashmap_ok_def stored_def)

lemma num_buckets_pos: "0 < capacity hm \<Longrightarrow> num_buckets hm \<noteq> 0"
  by auto

lemma find_bucket_scan:
  assumes "0 < capacity hm"
  shows "find_bucket hm k =
    (case scan (\<lambda>i. stops (compare_proc hm) (hash_proc hm k) k (buckets hm ! i)) (capacity hm) (capacity hm)
        (unat (hash_proc hm k) mod capacity hm) of
       None \<Rightarrow> None
     | Some i \<Rightarrow> if occupied (buckets hm ! i) then Some (of_nat i) else None)"
proof -
  have "unat (hash_proc hm k mod num_buckets hm) = unat (hash_proc hm k) mod capacity hm"
    by (simp add: unat_mod)
  then show ?thesis
    using assms num_buckets_pos [OF assms]
    by (simp add: find_bucket_def Let_def vsc_hashmap_hash_def find_loop_scan unat_mod)
qed

lemma add_or_replace_scan:
  assumes "0 < capacity hm"
  shows "add_or_replace_bucket hm bs (num_buckets hm) b a =
    (case scan (\<lambda>i. stops (compare_proc hm) (hash b) (key b) (bs ! i)) (capacity hm) (capacity hm) (home (capacity hm) b) of
       None \<Rightarrow> (None, bs, 0)
     | Some i \<Rightarrow> (Some (of_nat i), bs[i := b], if occupied (bs ! i) then 0 else 1))"
proof -
  have "unat (hash b mod num_buckets hm) = unat (hash b) mod capacity hm"
    by (simp add: unat_mod)
  then show ?thesis
    using assms num_buckets_pos [OF assms]
    by (simp add: add_or_replace_bucket_def add_loop_scan unat_mod home_def)
qed

lemma empty_map: "capacity hm = 0 \<Longrightarrow> hashmap_abs hm = (\<lambda>_. None)"
  by (auto simp: hashmap_abs_def stored_def items_def lookup_def)

lemma find_bucket_abs:
  assumes "key_procs (hash_proc hm) (compare_proc hm)" and "hashmap_ok hm"
  shows "hashmap_abs hm k = map_option (\<lambda>i. val (buckets hm ! unat i)) (find_bucket hm k)"
proof (cases "capacity hm = 0")
  case True
  then show ?thesis by (simp add: empty_map find_bucket_def Let_def unat_eq_zero)
next
  case False
  then have n: "0 < capacity hm" by simp
  have ok: "buckets_ok (hash_proc hm) (compare_proc hm) (capacity hm) (buckets hm)"
    using assms(2) by (simp add: hashmap_ok_def)
  have st: "unat (hash_proc hm k) mod capacity hm < capacity hm" using n by simp
  have idx: "unat (of_nat i :: size_t) = i" if "i < capacity hm" for i
    using that unat_bound64 [of "num_buckets hm"] by (intro unat_of_nat64) simp
  show ?thesis
  proof (cases "scan (\<lambda>i. stops (compare_proc hm) (hash_proc hm k) k (buckets hm ! i)) (capacity hm) (capacity hm)
      (unat (hash_proc hm k) mod capacity hm)")
    case None
    then show ?thesis
      by (simp add: hashmap_abs_def stored_def key_procs.scan_lookup [OF assms(1) ok n] find_bucket_scan [OF n])
  next
    case (Some r)
    then have "r < capacity hm" using scan_Some [OF _ st] by auto
    then show ?thesis
      using Some idx [of r]
      by (simp add: hashmap_abs_def stored_def key_procs.scan_lookup [OF assms(1) ok n] find_bucket_scan [OF n])
  qed
qed

section \<open>Reallocation and redistribution\<close>

definition empty_bucket :: VscHashMapBucket where
  "empty_bucket = \<lparr>hash = VSC_INVALID_HASH, key = NULL, val = NULL\<rparr>"

lemma reset_bucket_eq: "reset_bucket b = empty_bucket"
  by (cases b) (simp add: reset_bucket_def empty_bucket_def)

lemma empty_bucket_empty [simp]: "\<not> occupied empty_bucket"
  by (simp add: occupied_def empty_bucket_def)

lemma reset_loop_eq:
  "i + k \<le> length bs \<Longrightarrow> reset_loop k i bs = take i bs @ replicate k empty_bucket @ drop (i + k) bs"
proof (induction k arbitrary: i bs)
  case (Suc k)
  then have "reset_loop (Suc k) i bs = take (Suc i) (bs[i := empty_bucket]) @ replicate k empty_bucket @ drop (Suc i + k) (bs[i := empty_bucket])"
    by (simp add: reset_bucket_eq)
  moreover have "take (Suc i) (bs[i := empty_bucket]) = take i bs @ [empty_bucket]"
    using Suc.prems by (simp add: take_Suc_conv_app_nth)
  ultimately show ?case using Suc.prems by simp
qed simp

text \<open>The array after the reallocation of a map that does not shrink, and its reset.\<close>

lemma grown_buckets:
  assumes "n \<le> m" and "n \<le> length bs"
  shows "reset_loop (m - n) n (realloc_buckets m bs) = take n bs @ replicate (m - n) empty_bucket"
proof -
  have "length (realloc_buckets m bs) = m" by (simp add: realloc_buckets_def)
  moreover have "take n (realloc_buckets m bs) = take n bs" using assms by (simp add: realloc_buckets_def min_def)
  ultimately show ?thesis using assms by (simp add: reset_loop_eq)
qed

lemma items_grown: "n \<le> length bs \<Longrightarrow> items m (take n bs @ replicate (m - n) empty_bucket) = (if n \<le> m then items n bs else items m bs)"
  by (auto simp: items_def min_def)

lemma buckets_ok_take:
  assumes "buckets_ok hp cp n bs" and "take n bs = take n cs" and "n \<le> length cs"
  shows "buckets_ok hp cp n cs"
proof -
  have eq: "cs ! i = bs ! i" if "i < n" for i using that assms(2) by (metis nth_take)
  have "reachable_at n cs i \<longleftrightarrow> reachable_at n bs i" if "i < n" for i
    using that eq by (auto simp: reachable_at_def)
  then show ?thesis using assms eq by (simp add: buckets_ok_def)
qed

lemma buckets_ok_empty: "n \<le> length bs \<Longrightarrow> items n bs = [] \<Longrightarrow> buckets_ok hp cp n bs"
proof -
  assume "n \<le> length bs" "items n bs = []"
  then have "\<not> occupied (bs ! i)" if "i < n" for i using that set_items [of n bs "bs ! i"] by auto
  then show ?thesis using \<open>n \<le> length bs\<close> by (simp add: buckets_ok_def)
qed

context key_procs
begin

lemma redistribute_ok:
  assumes procs: "hash_proc hm = hp" "compare_proc hm = cp" and n: "0 < capacity hm"
    and "buckets_ok hp cp (capacity hm) tmp" and "length tmp = capacity hm"
    and "\<forall>b\<in>set rest. occupied b \<longrightarrow> hash b = hp (key b)"
    and "sorted_wrt (\<lambda>a b. cp (key a) (key b) = 0) (filter occupied rest)"
    and "\<forall>a\<in>set (items (capacity hm) tmp). \<forall>b\<in>set (filter occupied rest). cp (key a) (key b) = 0"
    and "length (items (capacity hm) tmp) + length (filter occupied rest) \<le> capacity hm"
  shows "buckets_ok hp cp (capacity hm) (redistribute hm (num_buckets hm) rest tmp) \<and>
    mset (items (capacity hm) (redistribute hm (num_buckets hm) rest tmp)) =
      mset (items (capacity hm) tmp) + mset (filter occupied rest)"
  using assms(4-)
proof (induction rest arbitrary: tmp)
  case (Cons b rest)
  let ?n = "capacity hm"
  show ?case
  proof (cases "occupied b")
    case False
    then have "redistribute hm (num_buckets hm) (b # rest) tmp = redistribute hm (num_buckets hm) rest tmp"
      by (simp add: occupied_def)
    moreover have "buckets_ok hp cp ?n (redistribute hm (num_buckets hm) rest tmp) \<and>
      mset (items ?n (redistribute hm (num_buckets hm) rest tmp)) = mset (items ?n tmp) + mset (filter occupied rest)"
      by (rule Cons.IH) (use Cons.prems False in simp_all)
    ultimately show ?thesis using False by simp
  next
    case True
    have st: "home ?n b < ?n" using n by (simp add: home_def)
    have "length (items ?n tmp) < ?n" using Cons.prems(6) True by simp
    then obtain r where scan: "scan (\<lambda>i. stops cp (hash b) (key b) (tmp ! i)) ?n ?n (home ?n b) = Some r"
      using scan_full [OF Cons.prems(1) n _ st] by blast
    have "hash b = hp (key b)" using Cons.prems(3) True by simp
    then have spot: "add_spot ?n tmp b r" using Cons.prems(1) n True scan by (simp add: add_spot_def)
    have "\<not> occupied (tmp ! r)"
    proof
      assume o: "occupied (tmp ! r)"
      then have "tmp ! r \<in> set (items ?n tmp)"
        using add_spot_range(1) [OF spot] Cons.prems(2) by (auto simp: set_items)
      then have "cp (key (tmp ! r)) (key b) = 0" using Cons.prems(5) True by simp
      then show False using compare_sym [OF add_spot_holds [OF spot o]] by simp
    qed
    then have M: "mset (items ?n (tmp[r := b])) = add_mset b (mset (items ?n tmp))"
      using add_spot_mset [OF spot] by simp
    have S: "set (items ?n (tmp[r := b])) = insert b (set (items ?n tmp))"
      using arg_cong [OF M, of set_mset] by simp
    have L: "length (items ?n (tmp[r := b])) = Suc (length (items ?n tmp))"
      using arg_cong [OF M, of size] by simp
    have "buckets_ok hp cp ?n (redistribute hm (num_buckets hm) rest (tmp[r := b])) \<and>
      mset (items ?n (redistribute hm (num_buckets hm) rest (tmp[r := b]))) =
      mset (items ?n (tmp[r := b])) + mset (filter occupied rest)"
    proof (rule Cons.IH)
      show "sorted_wrt (\<lambda>a b. cp (key a) (key b) = 0) (filter occupied rest)"
        using Cons.prems(4) True by simp
      show "\<forall>a\<in>set (items ?n (tmp[r := b])). \<forall>b\<in>set (filter occupied rest). cp (key a) (key b) = 0"
        using Cons.prems(4,5) True unfolding S by simp
      show "length (items ?n (tmp[r := b])) + length (filter occupied rest) \<le> ?n"
        using Cons.prems(6) True unfolding L by simp
    qed (use Cons.prems(2,3) add_spot_ok [OF spot] in simp_all)
    moreover have "redistribute hm (num_buckets hm) (b # rest) tmp = redistribute hm (num_buckets hm) rest (tmp[r := b])"
      using True scan procs by (simp add: add_or_replace_scan [OF n] occupied_def)
    ultimately show ?thesis using M True by simp
  qed
qed simp

lemma redistribute_all:
  assumes "hash_proc hm = hp" and "compare_proc hm = cp" and n: "0 < capacity hm"
    and ok: "buckets_ok hp cp n0 bs"
    and "filter occupied rest = items n0 bs" and "length (items n0 bs) \<le> capacity hm"
  defines "tmp \<equiv> redistribute hm (num_buckets hm) rest (replicate (capacity hm) empty_bucket)"
  shows "buckets_ok hp cp (capacity hm) tmp" and "mset (items (capacity hm) tmp) = mset (items n0 bs)"
proof -
  let ?e = "replicate (capacity hm) empty_bucket"
  have E: "items (capacity hm) ?e = []" by (simp add: items_def)
  have H: "\<forall>b\<in>set rest. occupied b \<longrightarrow> hash b = hp (key b)"
  proof (intro ballI impI)
    fix b assume "b \<in> set rest" "occupied b"
    then have "b \<in> set (items n0 bs)" by (simp flip: assms(5))
    then show "hash b = hp (key b)"
      using ok by (auto simp: set_items [OF buckets_ok_length [OF ok]] buckets_ok_def)
  qed
  have "buckets_ok hp cp (capacity hm) tmp \<and>
    mset (items (capacity hm) tmp) = mset (items (capacity hm) ?e) + mset (filter occupied rest)"
    unfolding tmp_def
  proof (rule redistribute_ok [OF assms(1,2) n _ _ H])
    show "buckets_ok hp cp (capacity hm) ?e" by (rule buckets_ok_empty) (simp_all add: E)
    show "sorted_wrt (\<lambda>a b. cp (key a) (key b) = 0) (filter occupied rest)"
      unfolding assms(5) by (rule sorted_wrt_items [OF ok])
  qed (use assms(5,6) E in simp_all)
  then show "buckets_ok hp cp (capacity hm) tmp" and "mset (items (capacity hm) tmp) = mset (items n0 bs)"
    unfolding E using assms(5) by simp_all
qed

end

text \<open>The two maps differ in their bucket arrays only.\<close>

definition reshaped :: "'s VscHashMap \<Rightarrow> 's VscHashMap \<Rightarrow> bool" where
  "reshaped hm hm' \<longleftrightarrow>
     hm' = hm\<lparr>buckets := buckets hm', buckets_ptr := buckets_ptr hm', num_buckets := num_buckets hm'\<rparr>"

lemma reshaped_refl: "reshaped hm hm"
  by (simp add: reshaped_def)

lemma reshaped_fields:
  assumes "reshaped hm hm'"
  shows "nitems hm' = nitems hm" and "hash_proc hm' = hash_proc hm" and "compare_proc hm' = compare_proc hm"
    and "resize_policy hm' = resize_policy hm" and "allocator hm' = allocator hm" and "load_ok hm' = load_ok hm"
    and "load_min_num hm' = load_min_num hm" and "load_min_den hm' = load_min_den hm"
    and "load_max_num hm' = load_max_num hm" and "load_max_den hm' = load_max_den hm"
  using assms unfolding reshaped_def load_ok_def by (cases hm; cases hm'; simp)+

lemma hashmap_okI:
  assumes "hashmap_ok hm" and "reshaped hm hm'"
    and "buckets_ok (hash_proc hm) (compare_proc hm) (capacity hm') (buckets hm')"
    and "mset (stored hm') = mset (stored hm)"
  shows "hashmap_ok hm'"
proof -
  have "length (stored hm') = length (stored hm)" using assms(4) by (rule mset_eq_length)
  then show ?thesis using assms reshaped_fields [OF assms(2)] by (simp add: hashmap_ok_def)
qed

lemma hashmap_abs_cong:
  assumes "key_procs (hash_proc hm) (compare_proc hm)" and "hashmap_ok hm" and "hashmap_ok hm'"
    and "hash_proc hm' = hash_proc hm" and "compare_proc hm' = compare_proc hm"
    and "mset (stored hm') = mset (stored hm)"
  shows "hashmap_abs hm' = hashmap_abs hm"
proof -
  have "set (stored hm') = set (stored hm)" using assms(6) by (rule mset_eq_setD)
  then show ?thesis
    using key_procs.lookup_cong [OF assms(1), of "capacity hm'" "buckets hm'" "capacity hm" "buckets hm"] assms(2-5)
    by (simp add: hashmap_abs_def stored_def hashmap_ok_def)
qed

definition grown :: "'s VscHashMap \<Rightarrow> size_t \<Rightarrow> VscHashMapBucket list" where
  "grown hm nelem = take (capacity hm) (buckets hm) @ replicate (unat nelem - capacity hm) empty_bucket"

lemma items_grown_map:
  assumes "hashmap_ok hm" and "num_buckets hm \<le> nelem"
  shows "reset_loop (unat nelem - capacity hm) (capacity hm) (realloc_buckets (unat nelem) (buckets hm)) = grown hm nelem"
    and "items (unat nelem) (grown hm nelem) = stored hm" and "items (capacity hm) (grown hm nelem) = stored hm"
    and "filter occupied (grown hm nelem) = stored hm" and "length (grown hm nelem) = unat nelem"
    and "buckets_ok (hash_proc hm) (compare_proc hm) (capacity hm) (grown hm nelem)"
proof -
  have ok: "buckets_ok (hash_proc hm) (compare_proc hm) (capacity hm) (buckets hm)"
    using assms(1) by (simp add: hashmap_ok_def)
  have le: "capacity hm \<le> unat nelem" "capacity hm \<le> length (buckets hm)"
    using assms(2) buckets_ok_length [OF ok] by (simp_all add: word_le_nat_alt)
  show "reset_loop (unat nelem - capacity hm) (capacity hm) (realloc_buckets (unat nelem) (buckets hm)) = grown hm nelem"
    unfolding grown_def by (rule grown_buckets [OF le])
  show "items (unat nelem) (grown hm nelem) = stored hm" "items (capacity hm) (grown hm nelem) = stored hm"
    "filter occupied (grown hm nelem) = stored hm" "length (grown hm nelem) = unat nelem"
    using le by (simp_all add: grown_def stored_def items_def)
  show "buckets_ok (hash_proc hm) (compare_proc hm) (capacity hm) (grown hm nelem)"
    by (rule buckets_ok_take [OF ok]) (use le in \<open>simp_all add: grown_def\<close>)
qed

lemma grown_not_redistributed:
  assumes "hashmap_ok hm" and "num_buckets hm \<le> nelem"
  shows "hashmap_ok (hm\<lparr>buckets_ptr := p, buckets := grown hm nelem\<rparr>) \<and>
    mset (stored (hm\<lparr>buckets_ptr := p, buckets := grown hm nelem\<rparr>)) = mset (stored hm)"
  using assms(1) items_grown_map [OF assms] by (simp add: hashmap_ok_def load_ok_def stored_def)

lemma grown_empty:
  assumes "hashmap_ok hm" and "num_buckets hm \<le> nelem" and "nitems hm = 0"
  shows "hashmap_ok (hm\<lparr>buckets_ptr := p, buckets := grown hm nelem, num_buckets := nelem\<rparr>) \<and>
    mset (stored (hm\<lparr>buckets_ptr := p, buckets := grown hm nelem, num_buckets := nelem\<rparr>)) = mset (stored hm)"
proof -
  have "stored hm = []" using assms(1,3) by (simp add: hashmap_ok_def)
  then have "items (unat nelem) (grown hm nelem) = []" using items_grown_map [OF assms(1,2)] by simp
  moreover from this have "buckets_ok (hash_proc hm) (compare_proc hm) (unat nelem) (grown hm nelem)"
    using items_grown_map(5) [OF assms(1,2)] by (intro buckets_ok_empty) simp_all
  ultimately show ?thesis
    using assms(1,3) \<open>stored hm = []\<close> by (simp add: hashmap_ok_def load_ok_def stored_def)
qed

lemma grown_redistributed:
  assumes ok: "hashmap_ok hm" and "num_buckets hm \<le> nelem"
    and procs: "key_procs (hash_proc hm) (compare_proc hm)" and "nelem \<noteq> 0"
  defines "tmp p \<equiv> redistribute (hm\<lparr>buckets_ptr := p, buckets := grown hm nelem, num_buckets := nelem\<rparr>) nelem
    (grown hm nelem) (replicate (unat nelem) empty_bucket)"
  shows "hashmap_ok (hm\<lparr>buckets_ptr := p, buckets := tmp p, num_buckets := nelem\<rparr>) \<and>
    mset (stored (hm\<lparr>buckets_ptr := p, buckets := tmp p, num_buckets := nelem\<rparr>)) = mset (stored hm)"
proof -
  let ?h = "hm\<lparr>buckets_ptr := p, buckets := grown hm nelem, num_buckets := nelem\<rparr>"
  have bok: "buckets_ok (hash_proc hm) (compare_proc hm) (capacity hm) (buckets hm)"
    using ok by (simp add: hashmap_ok_def)
  have pos: "0 < capacity ?h" using assms(4) by (simp add: unat_gt_0)
  have "capacity hm \<le> capacity ?h" using assms(2) by (simp add: word_le_nat_alt)
  then have le: "length (items (capacity hm) (buckets hm)) \<le> capacity ?h"
    by (rule le_trans [OF length_items_le])
  have filter: "filter occupied (grown hm nelem) = items (capacity hm) (buckets hm)"
    using items_grown_map(4) [OF assms(1,2)] by (simp add: stored_def)
  have T: "buckets_ok (hash_proc hm) (compare_proc hm) (unat nelem) (tmp p)"
    and M: "mset (items (unat nelem) (tmp p)) = mset (stored hm)"
    using key_procs.redistribute_all [OF procs _ _ pos bok filter le] by (simp_all add: tmp_def stored_def)
  from M have "length (items (unat nelem) (tmp p)) = length (stored hm)" by (rule mset_eq_length)
  then show ?thesis using ok T M by (simp add: hashmap_ok_def load_ok_def stored_def)
qed

lemma resize_grow:
  assumes ok: "hashmap_ok hm" and grow: "num_buckets hm \<le> nelem"
    and procs: "key_procs (hash_proc hm) (compare_proc hm)"
    and run: "vsc_hashmap_resize hm nelem w = Some (r, hm', w')"
  shows "hashmap_ok hm' \<and> reshaped hm hm' \<and> mset (stored hm') = mset (stored hm) \<and>
    (if r = 0 then num_buckets hm' = nelem else r < 0 \<and> num_buckets hm' = num_buckets hm)"
proof -
  have R: "reset_loop (unat nelem) 0 (replicate (unat nelem) zero_bucket) = replicate (unat nelem) empty_bucket"
    by (simp add: reset_loop_eq)
  let ?h = "\<lambda>p. hm\<lparr>buckets_ptr := p, buckets := grown hm nelem\<rparr>"
  let ?t = "\<lambda>p. redistribute (hm\<lparr>buckets_ptr := p, buckets := grown hm nelem, num_buckets := nelem\<rparr>) nelem
    (grown hm nelem) (replicate (unat nelem) empty_bucket)"
  consider "hm' = hm" "r < 0" | "hm' = hm" "r = 0" "nelem = nitems hm"
    | p where "hm' = ?h p" "r < 0"
    | p where "hm' = (?h p)\<lparr>num_buckets := nelem\<rparr>" "r = 0" "nitems hm = 0"
    | p where "hm' = (?h p)\<lparr>num_buckets := nelem, buckets := ?t p\<rparr>" "r = 0" "nelem \<noteq> 0"
    using run unfolding vsc_hashmap_resize_def Let_def items_grown_map(1) [OF ok grow] R
    by (auto simp: items_grown_map(1) [OF ok grow] R split: if_splits option.splits prod.splits)
  then show ?thesis
  proof cases
    case 1
    then show ?thesis using ok by (simp add: reshaped_refl)
  next
    case 2
    then have "num_buckets hm = nelem"
      using grow nitems_le [OF ok] by (simp add: word_le_nat_alt word_eq_unatI)
    then show ?thesis using 2 ok by (simp add: reshaped_refl)
  next
    case (3 p)
    then show ?thesis using grown_not_redistributed [OF ok grow, of p] by (simp add: reshaped_def)
  next
    case (4 p)
    then show ?thesis using grown_empty [OF ok grow, of p] by (simp add: reshaped_def)
  next
    case (5 p)
    have "hm' = hm\<lparr>buckets_ptr := p, buckets := ?t p, num_buckets := nelem\<rparr>"
      using 5(1) by (cases hm) simp
    then show ?thesis using grown_redistributed [OF ok grow procs 5(3), of p] 5(2) by (simp add: reshaped_def)
  qed
qed

section \<open>The load factor\<close>

lemma unat_ucast16 [simp]: "unat (ucast (x :: uint16) :: size_t) = unat x"
proof -
  have "unat x < 2 ^ 16" using unsigned_less [of x] by simp
  also have "(2 :: nat) ^ 16 \<le> 2 ^ 64" by simp
  finally show ?thesis by (simp add: unsigned_ucast_eq take_bit_nat_eq_self)
qed

lemma unat_bound16: "unat (x :: uint16) < 2 ^ 16"
  using unsigned_less [of x] by simp

definition ceil_div :: "nat \<Rightarrow> nat \<Rightarrow> nat" where
  "ceil_div a b = a div b + (if a mod b \<noteq> 0 then 1 else 0)"

lemma ceil_div_ge: "0 < b \<Longrightarrow> a \<le> ceil_div a b * b"
proof -
  assume "0 < b"
  then have "a mod b < b" by simp
  then have le: "a \<le> a div b * b + b" using div_mult_mod_eq [of a b] by linarith
  show ?thesis
  proof (cases "a mod b = 0")
    case True
    then have "a div b * b = a" by auto
    then show ?thesis by (simp add: ceil_div_def)
  next
    case False
    then show ?thesis using le by (simp add: ceil_div_def add.commute)
  qed
qed

lemma less_ceil_div: "0 < b \<Longrightarrow> x < ceil_div a b \<longleftrightarrow> x * b < a"
proof -
  assume b: "0 < b"
  have "x * b < a \<longleftrightarrow> x < ceil_div a b"
  proof (cases "a mod b = 0")
    case True
    then obtain q where "a = b * q" by auto
    then show ?thesis using b by (simp add: ceil_div_def mult.commute)
  next
    case False
    have "x * b < a \<longleftrightarrow> x \<le> a div b"
      using b False by (metis div_mult_mod_eq less_add_same_cancel1 less_eq_div_iff_mult_less_eq linorder_not_less
          mod_0 neq0_conv le_eq_less_or_eq mod_mult_self2_is_0)
    then show ?thesis using False by (simp add: ceil_div_def less_Suc_eq_le)
  qed
  then show ?thesis by simp
qed

lemma intceil_ceil_div:
  assumes "0 < unat den" shows "fst (intceil num den) = 0" and "unat (snd (intceil num den)) = ceil_div (unat num) (unat den)"
proof -
  have "unat num div unat den + 1 < 2 ^ 64" if "unat num mod unat den \<noteq> 0"
  proof -
    have "2 \<le> unat den" using that assms by (cases "unat den = 1") auto
    then have "unat num div unat den \<le> unat num div 2" by (intro div_le_mono2) simp_all
    then show ?thesis using unat_bound64 [of num] by simp
  qed
  then have "unat (num div den) + unat (1 :: size_t) < 2 ^ 64" if "unat num mod unat den \<noteq> 0"
    using that by (simp add: unat_div)
  moreover have "num mod den \<noteq> 0 \<longleftrightarrow> unat num mod unat den \<noteq> 0"
    by (simp flip: unat_mod add: unat_eq_zero)
  ultimately show "fst (intceil num den) = 0" and "unat (snd (intceil num den)) = ceil_div (unat num) (unat den)"
    by (simp_all add: intceil_def ceil_div_def unat_add64 unat_div)
qed

lemma resize_status:
  "vsc_hashmap_resize hm nelem w = Some (r, hm', w') \<Longrightarrow> r \<in> {0, VSC_ERROR EINVAL, VSC_ERROR ERANGE, VSC_ERROR ENOMEM}"
  unfolding vsc_hashmap_resize_def Let_def by (auto split: if_splits option.splits prod.splits)

text \<open>Where the threshold is not reached a bucket is free; where it is, the new size is larger.\<close>

lemma below_threshold:
  assumes "load_ok hm" and "unat (nitems hm) < ceil_div (capacity hm * unat (load_max_num hm)) (unat (load_max_den hm))"
  shows "unat (nitems hm) < capacity hm"
proof -
  have "unat (nitems hm) * unat (load_max_den hm) < capacity hm * unat (load_max_num hm)"
    using assms less_ceil_div [of "unat (load_max_den hm)"] by (simp add: load_ok_def)
  also have "\<dots> \<le> capacity hm * unat (load_max_den hm)" using assms(1) by (simp add: load_ok_def)
  finally show ?thesis by simp
qed

lemma above_threshold:
  assumes "load_ok hm"
    and "\<not> unat (nitems hm) < ceil_div (capacity hm * unat (load_max_num hm)) (unat (load_max_den hm))"
    and "minreq = ceil_div ((unat (nitems hm) + 1) * unat (load_min_den hm)) (unat (load_min_num hm))"
  shows "capacity hm < minreq" and "unat (nitems hm) + 1 < minreq"
proof -
  let ?s = "unat (nitems hm)" and ?n = "capacity hm" and ?a = "unat (load_min_num hm)" and ?b = "unat (load_min_den hm)"
    and ?c = "unat (load_max_num hm)" and ?d = "unat (load_max_den hm)"
  have load: "0 < ?a" "?a < ?b" "0 < ?c" "?c < ?d" "?a * ?d \<le> ?c * ?b" using assms(1) by (simp_all add: load_ok_def)
  have req: "(?s + 1) * ?b \<le> minreq * ?a" unfolding assms(3) using load(1) by (rule ceil_div_ge)
  have full: "?n * ?c \<le> ?s * ?d" using assms(2) less_ceil_div [of ?d] load by (simp add: not_less)
  have "?n * ?a * ?c = ?n * ?c * ?a" by (simp only: mult.assoc mult.commute [of ?a])
  also have "\<dots> \<le> ?s * ?d * ?a" using full by (rule mult_le_mono1)
  also have "\<dots> = ?s * (?a * ?d)" by (simp only: mult.assoc mult.commute [of ?d])
  also have "\<dots> \<le> ?s * (?c * ?b)" using load(5) by (rule mult_le_mono2)
  finally have "?n * ?a * ?c \<le> ?s * ?b * ?c" by (simp only: mult.assoc mult.commute [of ?c])
  then have "?n * ?a \<le> ?s * ?b" using load(3) by simp
  also have "\<dots> < (?s + 1) * ?b" using load(1,2) by simp
  also have "\<dots> \<le> minreq * ?a" by (rule req)
  finally show "?n < minreq" by simp
  have "(?s + 1) * ?a < (?s + 1) * ?b" using load(2) by (intro mult_strict_left_mono) simp_all
  also have "\<dots> \<le> minreq * ?a" by (rule req)
  finally show "?s + 1 < minreq" by (simp only: mult_less_cancel2)
qed

lemma maybe_resize_cases:
  assumes load: "load_ok hm" and small: "(unat (nitems hm) + 1) * unat (load_min_den hm) < 2 ^ 64"
    and run: "maybe_resize hm w = Some (r, hm', w')"
  obtains "hm' = hm" "r = VSC_ERROR ERANGE"
  | "hm' = hm" "r = 0" "unat (nitems hm) < capacity hm"
  | "hm' = hm" "r = VSC_ERROR EPERM" "resize_policy hm = VSC_HASHMAP_RESIZE_NONE"
  | nelem where "vsc_hashmap_resize hm nelem w = Some (r, hm', w')" "num_buckets hm \<le> nelem" "unat (nitems hm) < unat nelem"
      "resize_policy hm \<noteq> VSC_HASHMAP_RESIZE_NONE"
proof -
  let ?c = "ucast (load_max_num hm) :: size_t" and ?d = "ucast (load_max_den hm) :: size_t"
  let ?lim = "snd (intceil SIZE_MAX ?c)" and ?thresh = "snd (intceil (num_buckets hm * ?c) ?d)"
    and ?lim2 = "snd (intceil SIZE_MAX ?d)"
    and ?req = "snd (intceil ((nitems hm + 1) * ucast (load_min_den hm)) (ucast (load_min_num hm)))"
  have pos: "0 < unat ?c" "0 < unat ?d" "0 < unat (ucast (load_min_num hm) :: size_t)" "0 < unat (load_min_den hm)"
    using load by (auto simp: load_ok_def)
  have "(unat (nitems hm) + 1) * 1 \<le> (unat (nitems hm) + 1) * unat (load_min_den hm)"
    using pos(4) by (intro mult_le_mono2) simp
  then have "unat (nitems hm) + unat (1 :: size_t) < 2 ^ 64" using small by simp
  then have s1: "unat (nitems hm + 1) = unat (nitems hm) + 1" by (subst unat_add64) simp_all
  have req: "unat ?req = ceil_div ((unat (nitems hm) + 1) * unat (load_min_den hm)) (unat (load_min_num hm))"
    using intceil_ceil_div(2) [OF pos(3)] small s1 by (simp add: unat_mult64)
  have thresh: "unat ?thresh = ceil_div (capacity hm * unat (load_max_num hm)) (unat (load_max_den hm))"
    if "\<not> num_buckets hm \<ge> ?lim"
  proof -
    have "capacity hm < ceil_div (2 ^ 64 - 1) (unat (load_max_num hm))"
      using that intceil_ceil_div(2) [OF pos(1), of SIZE_MAX] by (simp add: word_le_nat_alt unat_SIZE_MAX)
    then have "capacity hm * unat (load_max_num hm) < 2 ^ 64" using pos(1) by (simp add: less_ceil_div)
    then show ?thesis using intceil_ceil_div(2) [OF pos(2)] by (simp add: unat_mult64)
  qed
  have fst: "fst (intceil SIZE_MAX ?c) = 0" "fst (intceil (num_buckets hm * ?c) ?d) = 0" "fst (intceil SIZE_MAX ?d) = 0"
    "fst (intceil ((nitems hm + 1) * ucast (load_min_den hm)) (ucast (load_min_num hm))) = 0"
    by (simp_all add: intceil_def)
  note cases = run [unfolded maybe_resize_def Let_def case_prod_unfold fst]
  show thesis
  proof (cases "num_buckets hm \<ge> ?lim")
    case True
    then show thesis using cases that(1) by simp
  next
    case False
    note th = thresh [OF False]
    show thesis
    proof (cases "nitems hm < ?thresh")
      case True
      then have "unat (nitems hm) < capacity hm" using below_threshold [OF load] th by (simp add: word_less_nat_alt)
      then show thesis using cases False True that(2) by simp
    next
      case nb: False
      have "\<not> unat (nitems hm) < unat ?thresh" using nb by (simp add: word_less_nat_alt)
      note above = above_threshold [OF load this [unfolded th] req]
      have "num_buckets hm \<le> VSC_MAX ?req VSC_HASHMAP_MIN_BUCKET_AUTO_ALLOCATION"
        "unat (nitems hm) < unat (VSC_MAX ?req VSC_HASHMAP_MIN_BUCKET_AUTO_ALLOCATION)"
        using above by (auto simp: VSC_MAX_def word_le_nat_alt word_less_nat_alt)
      then show thesis using cases False nb that(1,3,4) by (auto split: if_splits)
    qed
  qed
qed

section \<open>Adding a bucket to a map\<close>

lemma unat_index:
  "i < capacity hm \<Longrightarrow> unat (of_nat i :: size_t) = i"
  using unat_bound64 [of "num_buckets hm"] by (intro unat_of_nat64) simp

lemma insert_bucket:
  assumes procs: "key_procs (hash_proc hm) (compare_proc hm)" and ok: "hashmap_ok hm"
    and b: "occupied b" "hash b = hash_proc hm (key b)"
    and add: "add_or_replace_bucket hm (buckets hm) (num_buckets hm) b 0 = (Some i, bs, added)"
  defines "hm' \<equiv> hm\<lparr>buckets := bs, nitems := (if added \<noteq> 0 then nitems hm + 1 else nitems hm)\<rparr>"
  shows "hashmap_ok hm'"
    and "hashmap_abs hm' = (\<lambda>k'. if compare_proc hm k' (key b) \<noteq> 0 then Some (val b) else hashmap_abs hm k')"
    and "unat (nitems hm') = unat (nitems hm) + (if hashmap_abs hm (key b) = None then 1 else 0)"
proof -
  let ?n = "capacity hm"
  have bok: "buckets_ok (hash_proc hm) (compare_proc hm) ?n (buckets hm)" using ok by (simp add: hashmap_ok_def)
  have "num_buckets hm \<noteq> 0" using add by (auto simp: add_or_replace_bucket_def)
  then have n: "0 < ?n" by (simp add: unat_gt_0)
  obtain r where scan: "scan (\<lambda>i. stops (compare_proc hm) (hash b) (key b) (buckets hm ! i)) ?n ?n (home ?n b) = Some r"
    and res: "bs = (buckets hm)[r := b]" "added = (if occupied (buckets hm ! r) then 0 else 1)"
    using add unfolding add_or_replace_scan [OF n] by (auto split: option.splits)
  have spot: "key_procs.add_spot (hash_proc hm) (compare_proc hm) ?n (buckets hm) b r"
    using bok n b scan by (simp add: key_procs.add_spot_def [OF procs])
  have ok': "buckets_ok (hash_proc hm) (compare_proc hm) ?n bs"
    unfolding res by (rule key_procs.add_spot_ok [OF procs spot])
  have M: "mset (items ?n bs) + (if occupied (buckets hm ! r) then {#buckets hm ! r#} else {#}) = add_mset b (mset (stored hm))"
    unfolding res stored_def by (rule key_procs.add_spot_mset [OF procs spot])
  have "length (items ?n bs) = length (stored hm) + (if occupied (buckets hm ! r) then 0 else 1)"
    using arg_cong [OF M, of size] by (auto split: if_splits)
  moreover have L: "unat (nitems hm) = length (stored hm)" using ok by (simp add: hashmap_ok_def)
  moreover have "unat (nitems hm + 1) = unat (nitems hm) + 1" if "\<not> occupied (buckets hm ! r)"
  proof -
    have "length (items ?n bs) \<le> ?n" by (rule length_items_le)
    then have "unat (nitems hm) + 1 \<le> ?n" using that calculation by simp
    then show ?thesis using unat_bound64 [of "num_buckets hm"] by (subst unat_add64) simp_all
  qed
  ultimately have sz: "unat (nitems hm') = length (items ?n bs)"
    and sz': "unat (nitems hm') = unat (nitems hm) + (if occupied (buckets hm ! r) then 0 else 1)"
    by (auto simp: hm'_def res)
  show "hashmap_ok hm'" using ok ok' sz by (simp add: hm'_def hashmap_ok_def stored_def load_ok_def)
  show "hashmap_abs hm' = (\<lambda>k'. if compare_proc hm k' (key b) \<noteq> 0 then Some (val b) else hashmap_abs hm k')"
    using key_procs.add_spot_lookup [OF procs spot] by (auto simp: hm'_def hashmap_abs_def stored_def res)
  have "hashmap_abs hm (key b) = None \<longleftrightarrow> \<not> occupied (buckets hm ! r)"
    using key_procs.scan_lookup [OF procs bok n, of "key b"] scan b(2)
    by (simp add: hashmap_abs_def stored_def home_def)
  then show "unat (nitems hm') = unat (nitems hm) + (if hashmap_abs hm (key b) = None then 1 else 0)"
    using sz' by simp
qed

lemma insert_bucket_full:
  assumes ok: "hashmap_ok hm" and add: "add_or_replace_bucket hm (buckets hm) (num_buckets hm) b 0 = (None, bs, added)"
  shows "bs = buckets hm" and "key_procs (hash_proc hm) (compare_proc hm) \<Longrightarrow> unat (nitems hm) = capacity hm"
proof -
  let ?n = "capacity hm"
  have bok: "buckets_ok (hash_proc hm) (compare_proc hm) ?n (buckets hm)" using ok by (simp add: hashmap_ok_def)
  show "bs = buckets hm"
  proof (cases "?n = 0")
    case False
    then show ?thesis using add add_or_replace_scan [of hm] by (auto split: option.splits)
  qed (use add in \<open>simp add: add_or_replace_bucket_def unat_eq_zero\<close>)
  show "unat (nitems hm) = ?n" if procs: "key_procs (hash_proc hm) (compare_proc hm)"
  proof (rule ccontr)
    assume "unat (nitems hm) \<noteq> ?n"
    then have less: "length (items ?n (buckets hm)) < ?n"
      using nitems_le [OF ok] ok by (simp add: hashmap_ok_def stored_def)
    then have n: "0 < ?n" by simp
    then have "home ?n b < ?n" by (simp add: home_def)
    from key_procs.scan_full [OF procs bok n less this, of "hash b" "key b"] show False
      using add unfolding add_or_replace_scan [OF n] by (auto split: option.splits)
  qed
qed

lemma maybe_resize_ok:
  assumes procs: "key_procs (hash_proc hm) (compare_proc hm)" and ok: "hashmap_ok hm"
    and small: "(unat (nitems hm) + 1) * unat (load_min_den hm) < 2 ^ 64"
    and run: "maybe_resize hm w = Some (r, hm', w')"
  shows "hashmap_ok hm' \<and> reshaped hm hm' \<and> hashmap_abs hm' = hashmap_abs hm"
    and "r = 0 \<Longrightarrow> unat (nitems hm') < capacity hm'"
    and "r \<in> {0, VSC_ERROR ERANGE, VSC_ERROR ENOMEM} \<or> r = VSC_ERROR EPERM \<and> resize_policy hm = VSC_HASHMAP_RESIZE_NONE"
proof -
  have load: "load_ok hm" using ok by (simp add: hashmap_ok_def)
  have "(hashmap_ok hm' \<and> reshaped hm hm' \<and> hashmap_abs hm' = hashmap_abs hm) \<and>
    (r = 0 \<longrightarrow> unat (nitems hm') < capacity hm') \<and>
    (r \<in> {0, VSC_ERROR ERANGE, VSC_ERROR ENOMEM} \<or> r = VSC_ERROR EPERM \<and> resize_policy hm = VSC_HASHMAP_RESIZE_NONE)"
    using load small run
  proof (cases rule: maybe_resize_cases)
    case (4 nelem)
    note grow = resize_grow [OF ok 4(2) procs 4(1)]
    then have "hashmap_abs hm' = hashmap_abs hm"
      using reshaped_fields by (intro hashmap_abs_cong [OF procs ok]) blast+
    moreover have "nelem \<noteq> 0" "nelem \<ge> nitems hm" using 4(3) by (auto simp: word_le_nat_alt)
    then have "r \<noteq> VSC_ERROR EINVAL"
      using 4(1) by (auto simp: vsc_hashmap_resize_def Let_def split: if_splits option.splits prod.splits)
    ultimately show ?thesis
      using grow resize_status [OF 4(1)] 4(3) reshaped_fields(1) [of hm hm'] by auto
  qed (use ok reshaped_refl in auto)
  then show "hashmap_ok hm' \<and> reshaped hm hm' \<and> hashmap_abs hm' = hashmap_abs hm"
    and "r = 0 \<Longrightarrow> unat (nitems hm') < capacity hm'"
    and "r \<in> {0, VSC_ERROR ERANGE, VSC_ERROR ENOMEM} \<or> r = VSC_ERROR EPERM \<and> resize_policy hm = VSC_HASHMAP_RESIZE_NONE"
    by blast+
qed

section \<open>Removal\<close>

text \<open>
  Without a probe path that wraps around the end of the array, reachability is linear.
\<close>

definition linear_at :: "nat \<Rightarrow> VscHashMapBucket list \<Rightarrow> nat \<Rightarrow> bool" where
  "linear_at n bs i \<longleftrightarrow> home n (bs ! i) \<le> i \<and> (\<forall>t. home n (bs ! i) \<le> t \<and> t < i \<longrightarrow> occupied (bs ! t))"

lemma linear_reachable:
  assumes "linear_at n bs i" and "i < n"
  shows "reachable_at n bs i"
  unfolding reachable_at_def
proof (intro allI impI)
  let ?h = "home n (bs ! i)"
  fix j assume "j < n" and *: "\<forall>j'\<le>j. (?h + j') mod n \<noteq> i"
  have le: "?h \<le> i" using assms(1) by (simp add: linear_at_def)
  have "?h + j < i"
  proof (rule ccontr)
    assume "\<not> ?h + j < i"
    then have "i - ?h \<le> j" by linarith
    then show False using * le assms(2) by auto
  qed
  then show "occupied (bs ! ((?h + j) mod n))" using assms by (simp add: linear_at_def)
qed

lemma reachable_linear:
  assumes reach: "reachable_at n bs i" and i: "i < n" "occupied (bs ! i)"
    and gap: "\<not> occupied (bs ! 0) \<or> \<not> occupied (bs ! (n - 1))"
  shows "linear_at n bs i"
proof -
  let ?h = "home n (bs ! i)"
  have hn: "?h < n" using i by (simp add: home_def)
  have path: "occupied (bs ! ((?h + j) mod n))" if "j < n" "\<And>j'. j' \<le> j \<Longrightarrow> (?h + j') mod n \<noteq> i" for j
    using reach that by (simp add: reachable_at_def)
  have le: "?h \<le> i"
  proof (rule ccontr)
    assume "\<not> ?h \<le> i"
    then have *: "(?h + j') mod n \<noteq> i" if "j' \<le> n - ?h" "0 < i \<or> j' < n - ?h" for j'
      using that hn by (cases "?h + j' < n") (auto simp: not_less mod_if)
    have "occupied (bs ! ((?h + (n - 1 - ?h)) mod n))"
      using hn by (intro path *) auto
    then have last: "occupied (bs ! (n - 1))" using hn by simp
    show False
    proof (cases "i = 0")
      case True
      then show False using gap last i(2) by simp
    next
      case False
      then have "0 < ?h" using \<open>\<not> ?h \<le> i\<close> by simp
      then have "occupied (bs ! ((?h + (n - ?h)) mod n))"
        using hn False by (intro path *) auto
      then show False using gap last hn by simp
    qed
  qed
  moreover have "occupied (bs ! t)" if t: "?h \<le> t" "t < i" for t
  proof -
    have "(?h + j') mod n \<noteq> i" if "j' \<le> t - ?h" for j' using that t i by simp
    then have "occupied (bs ! ((?h + (t - ?h)) mod n))" using t i by (intro path) simp_all
    then show ?thesis using t i by simp
  qed
  ultimately show ?thesis by (simp add: linear_at_def)
qed

text \<open>
  The invariant of the loop that fills the gap: \<open>hole\<close> is empty and the only bucket missing on
  the path of a stored key; the buckets already passed are occupied by keys at home behind it.
\<close>

definition gap_ok :: "VscHashMapHashProc \<Rightarrow> VscHashMapCompareProc \<Rightarrow> nat \<Rightarrow> VscHashMapBucket list \<Rightarrow> nat \<Rightarrow> nat \<Rightarrow> bool" where
  "gap_ok hp cp n bs hole c \<longleftrightarrow>
     n \<le> length bs \<and> hole < c \<and> c \<le> n \<and> \<not> occupied (bs ! hole) \<and>
     (\<forall>i<n. occupied (bs ! i) \<longrightarrow> hash (bs ! i) = hp (key (bs ! i))) \<and>
     (\<forall>i<n. \<forall>j<n. occupied (bs ! i) \<and> occupied (bs ! j) \<and> cp (key (bs ! i)) (key (bs ! j)) \<noteq> 0 \<longrightarrow> i = j) \<and>
     (\<forall>i<n. occupied (bs ! i) \<longrightarrow> home n (bs ! i) \<le> i \<and>
        (\<forall>t. home n (bs ! i) \<le> t \<and> t < i \<longrightarrow> occupied (bs ! t) \<or> t = hole)) \<and>
     (\<forall>i. hole < i \<and> i < c \<longrightarrow> occupied (bs ! i) \<and> hole < home n (bs ! i)) \<and>
     (\<not> occupied (bs ! 0) \<and> 0 < hole \<or> \<not> occupied (bs ! (n - 1)) \<and> hole < n - 1)"

lemma gap_ok_stop:
  assumes "gap_ok hp cp n bs hole c" and "c < n \<Longrightarrow> \<not> occupied (bs ! c)"
  shows "buckets_ok hp cp n bs"
proof -
  have "linear_at n bs i" if i: "i < n" "occupied (bs ! i)" for i
    unfolding linear_at_def
  proof (intro conjI allI impI)
    show "home n (bs ! i) \<le> i" using assms(1) i by (simp add: gap_ok_def)
    fix t assume t: "home n (bs ! i) \<le> t \<and> t < i"
    then have "occupied (bs ! t) \<or> t = hole" using assms(1) i by (simp add: gap_ok_def)
    moreover have False if "t = hole"
    proof -
      consider "i < c" | "i = c" | "c < i" by linarith
      then show False
      proof cases
        case 1
        then show False using assms(1) that t by (auto simp: gap_ok_def)
      next
        case 2
        then show False using assms(2) i by simp
      next
        case 3
        have path: "\<forall>t. home n (bs ! i) \<le> t \<and> t < i \<longrightarrow> occupied (bs ! t) \<or> t = hole"
          using assms(1) i by (simp add: gap_ok_def)
        have "hole < c" using assms(1) by (simp add: gap_ok_def)
        then show False using path [rule_format, of c] t that 3 i assms(2) by simp
      qed
    qed
    ultimately show "occupied (bs ! t)" by blast
  qed
  then show ?thesis using assms(1) linear_reachable by (auto simp: buckets_ok_def gap_ok_def)
qed

lemma gap_ok_keep:
  assumes "gap_ok hp cp n bs hole c" and "c < n" and "occupied (bs ! c)" and "hole < home n (bs ! c)"
  shows "gap_ok hp cp n bs hole (Suc c)"
  using assms by (auto simp: gap_ok_def less_Suc_eq)

lemma gap_ok_move:
  assumes gap: "gap_ok hp cp n bs hole c" and c: "c < n" "occupied (bs ! c)" and "home n (bs ! c) \<le> hole"
  shows "gap_ok hp cp n (bs[hole := bs ! c, c := reset_bucket (bs ! c)]) c (Suc c)" (is "gap_ok hp cp n ?bs c _")
    and "mset (items n (bs[hole := bs ! c, c := reset_bucket (bs ! c)])) = mset (items n bs)"
proof -
  have len: "n \<le> length bs" "hole < c" "\<not> occupied (bs ! hole)" using gap by (simp_all add: gap_ok_def)
  have at: "?bs ! c = reset_bucket (bs ! c)" "?bs ! hole = bs ! c" "\<And>i. i \<noteq> c \<Longrightarrow> i \<noteq> hole \<Longrightarrow> ?bs ! i = bs ! i"
    using len c by simp_all
  show M: "mset (items n ?bs) = mset (items n bs)"
    using mset_items_update [of hole n bs "bs ! c"]
      mset_items_update [of c n "bs[hole := bs ! c]" "reset_bucket (bs ! c)"] len c by simp
  define f where "f i = (if i = hole then c else i)" for i
  have empty: "\<not> occupied (?bs ! c)" unfolding at(1) by simp
  have nth: "?bs ! i = bs ! f i" if "occupied (?bs ! i)" for i
  proof -
    have "i \<noteq> c" using that empty by auto
    then show ?thesis using at(2,3) by (auto simp: f_def)
  qed
  have f: "f i < n" "occupied (bs ! f i)" "i \<noteq> c" if "i < n" "occupied (?bs ! i)" for i
  proof -
    show "i \<noteq> c" using that empty by auto
    show "f i < n" using that c by (simp add: f_def)
    show "occupied (bs ! f i)" using that(2) unfolding nth [OF that(2)] .
  qed
  have hash: "hash (?bs ! i) = hp (key (?bs ! i))" if "i < n" "occupied (?bs ! i)" for i
    using gap f [OF that] nth [OF that(2)] by (simp add: gap_ok_def)
  have once: "i = j" if "i < n" "occupied (?bs ! i)" "j < n" "occupied (?bs ! j)" "cp (key (?bs ! i)) (key (?bs ! j)) \<noteq> 0" for i j
  proof -
    have "f i = f j"
      using gap f [OF that(1,2)] f [OF that(3,4)] that(5) unfolding nth [OF that(2)] nth [OF that(4)]
      by (simp add: gap_ok_def)
    then show "i = j" using f(3) [OF that(1,2)] f(3) [OF that(3,4)] by (auto simp: f_def split: if_splits)
  qed
  have path: "home n (?bs ! i) \<le> i \<and> (\<forall>t. home n (?bs ! i) \<le> t \<and> t < i \<longrightarrow> occupied (?bs ! t) \<or> t = c)"
    if i: "i < n" "occupied (?bs ! i)" for i
  proof -
    have old: "home n (?bs ! i) \<le> f i" "\<forall>t. home n (?bs ! i) \<le> t \<and> t < f i \<longrightarrow> occupied (bs ! t) \<or> t = hole"
      using gap f [OF i] unfolding nth [OF i(2)] by (simp_all add: gap_ok_def)
    have occ: "occupied (?bs ! t) \<or> t = c" if "occupied (bs ! t) \<or> t = hole" for t
      using that at c by (cases "t = c"; cases "t = hole") auto
    show ?thesis
    proof (cases "i = hole")
      case True
      then have "f i = c" "home n (?bs ! i) \<le> hole" using assms(4) at(2) by (simp_all add: f_def)
      then show ?thesis using old(2) occ True len(2) by auto
    next
      case False
      then show ?thesis using old occ by (auto simp: f_def)
    qed
  qed
  have edge: "\<not> occupied (?bs ! 0) \<and> 0 < c \<or> \<not> occupied (?bs ! (n - 1)) \<and> c < n - 1"
  proof (cases "\<not> occupied (bs ! 0) \<and> 0 < hole")
    case True
    then show ?thesis using at(3) [of 0] len by auto
  next
    case False
    then have last: "\<not> occupied (bs ! (n - 1))" "hole < n - 1" using gap by (auto simp: gap_ok_def)
    then have "c < n - 1" using c by (cases "c = n - 1") auto
    then show ?thesis using at(3) [of "n - 1"] last by auto
  qed
  show "gap_ok hp cp n ?bs c (Suc c)"
    unfolding gap_ok_def
  proof (intro conjI)
    show "\<forall>i<n. occupied (?bs ! i) \<longrightarrow> hash (?bs ! i) = hp (key (?bs ! i))" using hash by blast
    show "\<forall>i<n. \<forall>j<n. occupied (?bs ! i) \<and> occupied (?bs ! j) \<and> cp (key (?bs ! i)) (key (?bs ! j)) \<noteq> 0 \<longrightarrow> i = j"
      using once by blast
    show "\<forall>i<n. occupied (?bs ! i) \<longrightarrow> home n (?bs ! i) \<le> i \<and>
        (\<forall>t. home n (?bs ! i) \<le> t \<and> t < i \<longrightarrow> occupied (?bs ! t) \<or> t = c)" using path by blast
    show "\<not> occupied (?bs ! 0) \<and> 0 < c \<or> \<not> occupied (?bs ! (n - 1)) \<and> c < n - 1" by (rule edge)
    show "\<forall>i. c < i \<and> i < Suc c \<longrightarrow> occupied (?bs ! i) \<and> c < home n (?bs ! i)" by linarith
    show "\<not> occupied (?bs ! c)" by (rule empty)
  qed (use len c in simp_all)
qed

lemma remove_loop_ok:
  assumes "gap_ok hp cp (capacity hm) bs (unat hole) c" and "unat cidx = c mod capacity hm"
    and "capacity hm - c < k"
  shows "buckets_ok hp cp (capacity hm) (remove_loop hm k hole cidx bs) \<and>
    mset (items (capacity hm) (remove_loop hm k hole cidx bs)) = mset (items (capacity hm) bs)"
  using assms
proof (induction k arbitrary: bs hole cidx c)
  case (Suc k)
  let ?n = "capacity hm"
  have n: "0 < ?n" and cn: "c \<le> ?n" using Suc.prems(1) by (auto simp: gap_ok_def)
  show ?case
  proof (cases "c < ?n \<and> occupied (bs ! c)")
    case False
    have "\<not> occupied (bs ! unat cidx)"
    proof (cases "c = ?n")
      case True
      then have "unat cidx = 0" using Suc.prems(2) by simp
      moreover have "\<not> occupied (bs ! 0)"
        using Suc.prems(1) True by (auto simp: gap_ok_def)
      ultimately show ?thesis by simp
    qed (use False cn Suc.prems(2) in auto)
    moreover have "buckets_ok hp cp ?n bs"
      using False by (intro gap_ok_stop [OF Suc.prems(1)]) auto
    ultimately show ?thesis by (simp add: occupied_def Let_def)
  next
    case True
    have ci: "unat cidx = c" using Suc.prems(2) True by simp
    have next_c: "unat ((cidx + 1) mod num_buckets hm) = Suc c mod ?n"
      using unat_next_index [of cidx "num_buckets hm"] ci True by simp
    have h: "hash (bs ! c) mod num_buckets hm \<le> hole \<longleftrightarrow> home ?n (bs ! c) \<le> unat hole"
      by (simp add: word_le_nat_alt home_def unat_mod)
    have k: "?n - Suc c < k" using Suc.prems(3) True by linarith
    show ?thesis
    proof (cases "home ?n (bs ! c) \<le> unat hole")
      case le: True
      have "remove_loop hm (Suc k) hole cidx bs =
        remove_loop hm k cidx ((cidx + 1) mod num_buckets hm) (bs[unat hole := bs ! c, c := reset_bucket (bs ! c)])"
        using True le h ci by (simp add: Let_def occupied_def)
      then show ?thesis
        using Suc.IH [of _ cidx "Suc c" "(cidx + 1) mod num_buckets hm"] gap_ok_move [OF Suc.prems(1) _ _ le] True ci next_c
          k by (simp del: remove_loop.simps)
    next
      case False
      have "remove_loop hm (Suc k) hole cidx bs = remove_loop hm k hole ((cidx + 1) mod num_buckets hm) bs"
        using True False h ci by (simp add: Let_def occupied_def)
      then show ?thesis
        using Suc.IH [of bs hole "Suc c" "(cidx + 1) mod num_buckets hm"] gap_ok_keep [OF Suc.prems(1)] True False next_c
          k by (simp del: remove_loop.simps)
    qed
  qed
qed simp

lemma gap_ok_start:
  assumes ok: "buckets_ok hp cp n bs" and i: "i < n" "occupied (bs ! i)"
    and gap: "\<not> occupied (bs ! 0) \<or> \<not> occupied (bs ! (n - 1))"
  shows "gap_ok hp cp n (bs[i := reset_bucket (bs ! i)]) i (Suc i)" (is "gap_ok hp cp n ?bs i _")
proof -
  have len: "i < length bs" using i(1) buckets_ok_length [OF ok] by simp
  have occ: "occupied (?bs ! j) \<longleftrightarrow> j \<noteq> i \<and> occupied (bs ! j)" for j
    using len by (cases "j = i") simp_all
  have nth: "?bs ! j = bs ! j" if "occupied (?bs ! j)" for j using that occ by simp
  have lin: "linear_at n bs j" if "j < n" "occupied (bs ! j)" for j
    using buckets_ok_reach [OF ok that] that gap by (rule reachable_linear)
  show ?thesis
    unfolding gap_ok_def
  proof (intro conjI)
    show "\<forall>j<n. occupied (?bs ! j) \<longrightarrow> home n (?bs ! j) \<le> j \<and>
        (\<forall>t. home n (?bs ! j) \<le> t \<and> t < j \<longrightarrow> occupied (?bs ! t) \<or> t = i)"
    proof (intro allI impI)
      fix j assume j: "j < n" "occupied (?bs ! j)"
      then have "linear_at n bs j" using occ lin by blast
      then show "home n (?bs ! j) \<le> j \<and> (\<forall>t. home n (?bs ! j) \<le> t \<and> t < j \<longrightarrow> occupied (?bs ! t) \<or> t = i)"
        unfolding nth [OF j(2)] linear_at_def using occ by blast
    qed
    show "\<not> occupied (?bs ! 0) \<and> 0 < i \<or> \<not> occupied (?bs ! (n - 1)) \<and> i < n - 1"
    proof (cases "occupied (bs ! 0)")
      case True
      then have last: "\<not> occupied (bs ! (n - 1))" using gap by blast
      then have "i \<noteq> n - 1" using i(2) by metis
      then have "i < n - 1" using i(1) by linarith
      then show ?thesis using last occ by blast
    next
      case False
      then have "0 < i" using i(2) by (cases i) auto
      then show ?thesis using False occ by blast
    qed
    show "\<forall>j<n. occupied (?bs ! j) \<longrightarrow> hash (?bs ! j) = hp (key (?bs ! j))"
    proof (intro allI impI)
      fix j assume j: "j < n" "occupied (?bs ! j)"
      show "hash (?bs ! j) = hp (key (?bs ! j))"
        unfolding nth [OF j(2)] using j occ by (intro buckets_ok_hash [OF ok]) blast+
    qed
    show "\<forall>j<n. \<forall>l<n. occupied (?bs ! j) \<and> occupied (?bs ! l) \<and> cp (key (?bs ! j)) (key (?bs ! l)) \<noteq> 0 \<longrightarrow> j = l"
    proof (intro allI impI, elim conjE)
      fix j l assume "j < n" "l < n" and o: "occupied (?bs ! j)" "occupied (?bs ! l)"
        and "cp (key (?bs ! j)) (key (?bs ! l)) \<noteq> 0"
      then show "j = l"
        unfolding nth [OF o(1)] nth [OF o(2)] using occ by (intro buckets_ok_once [OF ok]) blast+
    qed
    show "\<forall>j. i < j \<and> j < Suc i \<longrightarrow> occupied (?bs ! j) \<and> i < home n (?bs ! j)" by linarith
  qed (use i len buckets_ok_length [OF ok] in simp_all)
qed

lemma find_bucket_Some:
  assumes "hashmap_ok hm" and "find_bucket hm k = Some i"
  shows "unat i < capacity hm" and "occupied (buckets hm ! unat i)" and "compare_proc hm k (key (buckets hm ! unat i)) \<noteq> 0"
proof -
  have n: "0 < capacity hm" using assms(2) by (auto simp: find_bucket_def Let_def unat_gt_0 split: if_splits)
  have st: "unat (hash_proc hm k) mod capacity hm < capacity hm" using n by simp
  from assms(2) obtain r where r: "scan (\<lambda>i. stops (compare_proc hm) (hash_proc hm k) k (buckets hm ! i)) (capacity hm) (capacity hm)
      (unat (hash_proc hm k) mod capacity hm) = Some r" and i: "i = of_nat r" "occupied (buckets hm ! r)"
    unfolding find_bucket_scan [OF n] by (auto split: option.splits if_splits)
  have "r < capacity hm" "stops (compare_proc hm) (hash_proc hm k) k (buckets hm ! r)"
    using scan_Some [OF r st] by auto
  then show "unat i < capacity hm" "occupied (buckets hm ! unat i)" "compare_proc hm k (key (buckets hm ! unat i)) \<noteq> 0"
    using i unat_index [of r hm] by (auto simp: stops_def holds_key_def)
qed

lemma sorted_wrt_remove1:
  assumes "sorted_wrt R xs" and "mset xs = add_mset b M" and "c \<in># M" and "\<And>a b. R a b \<Longrightarrow> R b a"
  shows "R b c"
proof -
  have "b \<in> set xs" using arg_cong [OF assms(2), of set_mset] by simp
  then obtain ys zs where xs: "xs = ys @ b # zs" by (meson split_list)
  then have "M = mset (ys @ zs)" using assms(2) by simp
  then have "c \<in> set ys \<or> c \<in> set zs" using assms(3) by auto
  then show ?thesis using assms(1,4) unfolding xs by (auto simp: sorted_wrt_append)
qed

lemma remove_found:
  assumes procs: "key_procs (hash_proc hm) (compare_proc hm)" and ok: "hashmap_ok hm"
    and gap: "\<not> occupied (buckets hm ! 0) \<or> \<not> occupied (buckets hm ! (capacity hm - 1))"
    and found: "find_bucket hm k = Some i"
  defines "bs \<equiv> remove_loop hm (capacity hm) i ((i + 1) mod num_buckets hm)
    ((buckets hm)[unat i := reset_bucket (buckets hm ! unat i)])"
  defines "hm' \<equiv> hm\<lparr>buckets := bs, nitems := nitems hm - 1\<rparr>"
  shows "hashmap_ok hm' \<and> hashmap_abs hm' = (\<lambda>k'. if compare_proc hm k' k \<noteq> 0 then None else hashmap_abs hm k') \<and>
    unat (nitems hm') = unat (nitems hm) - 1"
proof -
  let ?n = "capacity hm" and ?b = "buckets hm ! unat i"
  have bok: "buckets_ok (hash_proc hm) (compare_proc hm) ?n (buckets hm)" using ok by (simp add: hashmap_ok_def)
  note i = find_bucket_Some [OF ok found]
  have start: "gap_ok (hash_proc hm) (compare_proc hm) ?n ((buckets hm)[unat i := reset_bucket ?b]) (unat i) (Suc (unat i))"
    by (rule gap_ok_start [OF bok i(1,2) gap])
  have "unat ((i + 1) mod num_buckets hm) = Suc (unat i) mod ?n" using unat_next_index [OF i(1)] by simp
  from remove_loop_ok [OF start this] i(1)
  have ok': "buckets_ok (hash_proc hm) (compare_proc hm) ?n bs"
    and "mset (items ?n bs) = mset (items ?n ((buckets hm)[unat i := reset_bucket ?b]))"
    by (simp_all add: bs_def)
  then have M: "add_mset ?b (mset (items ?n bs)) = mset (stored hm)"
    using mset_items_update [OF i(1) buckets_ok_length [OF bok], of "reset_bucket ?b"] i(2) by (simp add: stored_def)
  have L: "length (stored hm) = Suc (length (items ?n bs))" using arg_cong [OF M, of size] by simp
  have S: "set (stored hm) = insert ?b (set (items ?n bs))" using arg_cong [OF M, of set_mset] by simp
  have sz: "unat (nitems hm - 1) = length (items ?n bs)" "unat (nitems hm) = Suc (length (items ?n bs))"
    using ok L by (simp_all add: hashmap_ok_def unat_sub64)
  then have "hashmap_ok hm'" using ok ok' by (simp add: hm'_def hashmap_ok_def stored_def load_ok_def)
  moreover have "hashmap_abs hm' k' = (if compare_proc hm k' k \<noteq> 0 then None else hashmap_abs hm k')" for k'
  proof -
    have sym: "compare_proc hm (key a) (key b) = 0 \<Longrightarrow> compare_proc hm (key b) (key a) = 0" for a b
      using key_procs.compare_sym [OF procs] by blast
    have once: "compare_proc hm (key ?b) (key c) = 0" if c: "c \<in> set (items ?n bs)" for c
    proof -
      have "c \<in># mset (items ?n bs)" using c by simp
      from sorted_wrt_remove1 [OF key_procs.sorted_wrt_items [OF procs bok] M [symmetric, unfolded stored_def] this]
      show ?thesis using sym by blast
    qed
    have same: "compare_proc hm k' (key ?b) \<noteq> 0 \<longleftrightarrow> compare_proc hm k' k \<noteq> 0"
      using i(3) key_procs.compare_sym [OF procs] key_procs.compare_trans [OF procs] by blast
    have abs': "hashmap_abs hm' k' = Some v \<longleftrightarrow> (\<exists>c\<in>set (items ?n bs). compare_proc hm k' (key c) \<noteq> 0 \<and> val c = v)" for v
      using key_procs.lookup_set [OF procs ok'] by (simp add: hashmap_abs_def stored_def hm'_def)
    have abs: "hashmap_abs hm k' = Some v \<longleftrightarrow> (\<exists>c\<in>set (stored hm). compare_proc hm k' (key c) \<noteq> 0 \<and> val c = v)" for v
      using key_procs.lookup_set [OF procs bok] by (simp add: hashmap_abs_def stored_def)
    show ?thesis
    proof (cases "compare_proc hm k' k \<noteq> 0")
      case True
      have "compare_proc hm k' (key c) = 0" if "c \<in> set (items ?n bs)" for c
        using once [OF that] same True key_procs.compare_sym [OF procs] key_procs.compare_trans [OF procs] by blast
      then have "hashmap_abs hm' k' \<noteq> Some v" for v unfolding abs' by blast
      then have "hashmap_abs hm' k' = None" by (meson option.exhaust)
      then show ?thesis using True by simp
    next
      case False
      then have "hashmap_abs hm' k' = Some v \<longleftrightarrow> hashmap_abs hm k' = Some v" for v
        unfolding abs' abs S using same by blast
      then have "hashmap_abs hm' k' = hashmap_abs hm k'" by (metis option.exhaust)
      then show ?thesis using False by simp
    qed
  qed
  ultimately show ?thesis using sz by (auto simp: hm'_def)
qed

lemma resize_no_abort: "vsc_hashmap_resize hm nelem w \<noteq> None"
  by (auto simp: vsc_hashmap_resize_def Let_def vsc_xrealloc_no_abort vsc_xcalloc_no_abort simp del: not_None_eq
      split: option.split prod.split)

lemma maybe_resize_no_abort: "maybe_resize hm w \<noteq> None"
  by (auto simp: maybe_resize_def Let_def resize_no_abort simp del: not_None_eq split: prod.split)

end
