(* ===== verification/HashmapSpec.thy ===== *)
theory HashmapSpec
  imports HashmapCorrect
begin

text \<open>
  The properties of the hash map, stated for the finite map \<open>hashmap_abs\<close> it implements, with
  witnesses on small maps over the default callbacks and the inputs on which the code departs
  from its documentation.
\<close>

section \<open>The default callbacks satisfy the contract\<close>

interpretation default_procs: key_procs vsc_hashmap_default_hash vsc_hashmap_default_compare
  by unfold_locales (auto simp: vsc_hashmap_default_hash_def vsc_hashmap_default_compare_def split: if_splits)

lemma default_procs: "key_procs vsc_hashmap_default_hash vsc_hashmap_default_compare"
  by (rule default_procs.key_procs_axioms)

section \<open>Properties\<close>

text \<open>
  (C5) Lookup. In a map that satisfies the invariant \<open>hashmap_ok\<close>, with callbacks that satisfy
  the contract \<open>key_procs\<close>, \<open>vsc_hashmap_find\<close> returns the value the abstract map holds for the
  key, and NULL exactly when it holds none or holds NULL.
\<close>

theorem vsc_hashmap_find_correct:
  assumes "key_procs (hash_proc hm) (compare_proc hm)" and "hashmap_ok hm"
  shows "vsc_hashmap_find hm k = (case hashmap_abs hm k of None \<Rightarrow> NULL | Some v \<Rightarrow> v)"
  using find_bucket_abs [OF assms, of k] by (auto simp: vsc_hashmap_find_def split: option.split)

lemma insert_spec:
  assumes procs: "key_procs (hash_proc hm) (compare_proc hm)" and ok: "hashmap_ok hm"
    and small: "(unat (nitems hm) + 1) * unat (load_min_den hm) < 2 ^ 64"
    and run: "vsc_hashmap_insert hm k v w = Some (r, hm', w')"
  shows "hashmap_ok hm' \<and>
    (if r = 0 then
       hashmap_abs hm' = (\<lambda>k'. if compare_proc hm k' k \<noteq> 0 then Some v else hashmap_abs hm k') \<and>
       unat (vsc_hashmap_size hm') = unat (vsc_hashmap_size hm) + (if hashmap_abs hm k = None then 1 else 0)
     else r < 0 \<and> hashmap_abs hm' = hashmap_abs hm \<and> vsc_hashmap_size hm' = vsc_hashmap_size hm)"
proof (cases "hash_proc hm k = VSC_INVALID_HASH")
  case True
  then show ?thesis using run ok by (simp add: vsc_hashmap_insert_def vsc_hashmap_hash_def)
next
  case False
  let ?b = "\<lparr>hash = hash_proc hm k, key = k, val = v\<rparr>"
  obtain r1 hm1 w1 where mr: "maybe_resize hm w = Some (r1, hm1, w1)"
    using run False by (auto simp: vsc_hashmap_insert_def vsc_hashmap_hash_def split: option.splits)
  note mr_ok = maybe_resize_ok [OF procs ok small mr]
  have fields: "nitems hm1 = nitems hm" "hash_proc hm1 = hash_proc hm" "compare_proc hm1 = compare_proc hm"
    using mr_ok(1) reshaped_fields by blast+
  show ?thesis
  proof (cases "r1 < 0 \<and> r1 \<noteq> VSC_ERROR EPERM")
    case True
    then show ?thesis
      using run False mr mr_ok(1) fields(1) by (auto simp: vsc_hashmap_insert_def vsc_hashmap_hash_def vsc_hashmap_size_def)
  next
    case go: False
    obtain i bs added where add: "add_or_replace_bucket hm1 (buckets hm1) (num_buckets hm1) ?b 0 = (i, bs, added)"
      by (metis prod_cases3)
    have res: "(r, hm', w') = (if i = None then (VSC_ERROR ENOSPC, hm1\<lparr>buckets := bs\<rparr>, w1)
      else (0, hm1\<lparr>buckets := bs, nitems := (if added \<noteq> 0 then nitems hm1 + 1 else nitems hm1)\<rparr>, w1))"
      using run False mr go add by (auto simp: vsc_hashmap_insert_def vsc_hashmap_hash_def)
    show ?thesis
    proof (cases i)
      case None
      then have "bs = buckets hm1" using insert_bucket_full(1) mr_ok(1) add by blast
      then show ?thesis using res None mr_ok(1) fields(1) by (simp add: vsc_hashmap_size_def)
    next
      case (Some i)
      have "key_procs (hash_proc hm1) (compare_proc hm1)" using procs fields by simp
      note ins = insert_bucket [OF this, of ?b i bs added]
      then show ?thesis
        using res Some mr_ok(1) fields add False by (simp add: occupied_def vsc_hashmap_size_def fun_eq_iff)
    qed
  qed
qed

text \<open>
  (C4) Insertion. \<open>vsc_hashmap_insert\<close> keeps the invariant. When it returns 0 the abstract map
  maps the key, and every key the comparison identifies with it, to the value, all other keys
  are untouched, whatever resize took place, and the item count grew by one exactly for a new
  key. When it fails the map holds what it held.
\<close>

theorem vsc_hashmap_insert_correct:
  assumes procs: "key_procs (hash_proc hm) (compare_proc hm)" and ok: "hashmap_ok hm"
    and small: "(unat (nitems hm) + 1) * unat (load_min_den hm) < 2 ^ 64"
    and run: "vsc_hashmap_insert hm k v w = Some (r, hm', w')"
  shows "hashmap_ok hm' \<and>
    (if r = 0 then
       hashmap_abs hm' = (\<lambda>k'. if compare_proc hm k' k \<noteq> 0 then Some v else hashmap_abs hm k') \<and>
       unat (vsc_hashmap_size hm') = unat (vsc_hashmap_size hm) + (if hashmap_abs hm k = None then 1 else 0)
     else r < 0 \<and> hashmap_abs hm' = hashmap_abs hm \<and> vsc_hashmap_size hm' = vsc_hashmap_size hm)"
  using assms by (rule insert_spec)

text \<open>
  (C28) Insertion under the load-factor policy never runs out of buckets and never aborts: it
  returns 0, or ERANGE or ENOMEM; ENOSPC is left to the policy \<open>VSC_HASHMAP_RESIZE_NONE\<close>.
\<close>

theorem vsc_hashmap_insert_status:
  assumes procs: "key_procs (hash_proc hm) (compare_proc hm)" and ok: "hashmap_ok hm"
    and small: "(unat (nitems hm) + 1) * unat (load_min_den hm) < 2 ^ 64"
    and "resize_policy hm = VSC_HASHMAP_RESIZE_LOAD_FACTOR"
  shows "\<exists>r hm' w'. vsc_hashmap_insert hm k v w = Some (r, hm', w') \<and> r \<in> {0, VSC_ERROR ERANGE, VSC_ERROR ENOMEM}"
proof (cases "hash_proc hm k = VSC_INVALID_HASH")
  case False
  let ?b = "\<lparr>hash = hash_proc hm k, key = k, val = v\<rparr>"
  obtain r1 hm1 w1 where mr: "maybe_resize hm w = Some (r1, hm1, w1)"
    using maybe_resize_no_abort [of hm w] by auto
  note mr_ok = maybe_resize_ok [OF procs ok small mr]
  have r1: "r1 \<in> {0, VSC_ERROR ERANGE, VSC_ERROR ENOMEM}" using mr_ok(3) assms(4) by auto
  have procs1: "key_procs (hash_proc hm1) (compare_proc hm1)" using procs mr_ok(1) reshaped_fields(2,3) [of hm hm1] by simp
  obtain i bs added where add: "add_or_replace_bucket hm1 (buckets hm1) (num_buckets hm1) ?b 0 = (i, bs, added)"
    by (metis prod_cases3)
  have "i \<noteq> None" if "r1 = 0"
  proof
    assume "i = None"
    then have "unat (nitems hm1) = unat (num_buckets hm1)"
      using insert_bucket_full(2) [OF _ _ procs1] mr_ok(1) add by blast
    then show False using mr_ok(2) [OF that] by simp
  qed
  then show ?thesis
    using False mr r1 add by (auto simp: vsc_hashmap_insert_def vsc_hashmap_hash_def)
qed (simp add: vsc_hashmap_insert_def vsc_hashmap_hash_def)

lemma remove_spec:
  assumes procs: "key_procs (hash_proc hm) (compare_proc hm)" and ok: "hashmap_ok hm"
    and gap: "\<not> occupied (buckets hm ! 0) \<or> \<not> occupied (buckets hm ! (unat (num_buckets hm) - 1))"
    and run: "vsc_hashmap_remove hm k = (v, hm')"
  shows "hashmap_ok hm' \<and>
    v = (case hashmap_abs hm k of None \<Rightarrow> NULL | Some v \<Rightarrow> v) \<and>
    hashmap_abs hm' = (\<lambda>k'. if compare_proc hm k' k \<noteq> 0 then None else hashmap_abs hm k') \<and>
    unat (vsc_hashmap_size hm') = unat (vsc_hashmap_size hm) - (if hashmap_abs hm k = None then 0 else 1)"
proof (cases "find_bucket hm k")
  case None
  then have none: "hashmap_abs hm k = None" using find_bucket_abs [OF procs ok, of k] by simp
  have bok: "buckets_ok (hash_proc hm) (compare_proc hm) (capacity hm) (buckets hm)" using ok by (simp add: hashmap_ok_def)
  have "hashmap_abs hm k' = None" if "compare_proc hm k' k \<noteq> 0" for k'
    using that none key_procs.compare_trans [OF procs] key_procs.compare_sym [OF procs]
    unfolding hashmap_abs_def stored_def key_procs.lookup_None_iff [OF procs bok] by blast
  then show ?thesis using run None ok none by (auto simp: vsc_hashmap_remove_def fun_eq_iff)
next
  case (Some i)
  show ?thesis
    using remove_found [OF procs ok gap Some] find_bucket_abs [OF procs ok, of k] run Some
    by (auto simp: vsc_hashmap_remove_def Let_def vsc_hashmap_size_def)
qed

text \<open>
  (C6) Removal. If no probe path wraps around the end of the array, which is the case when the
  first or the last bucket is empty, \<open>vsc_hashmap_remove\<close> keeps the invariant, returns the value
  of the key (NULL when it is absent), and takes exactly this key out of the abstract map.
\<close>

theorem vsc_hashmap_remove_correct:
  assumes procs: "key_procs (hash_proc hm) (compare_proc hm)" and ok: "hashmap_ok hm"
    and gap: "\<not> occupied (buckets hm ! 0) \<or> \<not> occupied (buckets hm ! (unat (num_buckets hm) - 1))"
    and run: "vsc_hashmap_remove hm k = (v, hm')"
  shows "hashmap_ok hm' \<and>
    v = (case hashmap_abs hm k of None \<Rightarrow> NULL | Some v \<Rightarrow> v) \<and>
    hashmap_abs hm' = (\<lambda>k'. if compare_proc hm k' k \<noteq> 0 then None else hashmap_abs hm k') \<and>
    unat (vsc_hashmap_size hm') = unat (vsc_hashmap_size hm) - (if hashmap_abs hm k = None then 0 else 1)"
  using assms by (rule remove_spec)


lemma resize_spec:
  assumes procs: "key_procs (hash_proc hm) (compare_proc hm)" and ok: "hashmap_ok hm"
    and grow: "vsc_hashmap_capacity hm \<le> nelem"
    and run: "vsc_hashmap_resize hm nelem w = Some (r, hm', w')"
  shows "hashmap_ok hm' \<and> hashmap_abs hm' = hashmap_abs hm \<and> vsc_hashmap_size hm' = vsc_hashmap_size hm \<and>
    (if r = 0 then vsc_hashmap_capacity hm' = nelem else r < 0 \<and> vsc_hashmap_capacity hm' = vsc_hashmap_capacity hm)"
proof -
  note g = resize_grow [OF ok grow [unfolded vsc_hashmap_capacity_def] procs run]
  then have "hashmap_abs hm' = hashmap_abs hm"
    using reshaped_fields by (intro hashmap_abs_cong [OF procs ok]) blast+
  then show ?thesis using g reshaped_fields(1) [of hm hm'] by (simp add: vsc_hashmap_size_def vsc_hashmap_capacity_def)
qed

text \<open>
  Growing. A resize to at least the current number of buckets keeps the invariant, the
  abstract map and the size; on success the capacity is the number asked for, on failure it is
  what it was, also when only the temporary array could not be allocated.
\<close>

theorem vsc_hashmap_resize_correct:
  assumes procs: "key_procs (hash_proc hm) (compare_proc hm)" and ok: "hashmap_ok hm"
    and grow: "vsc_hashmap_capacity hm \<le> nelem"
    and run: "vsc_hashmap_resize hm nelem w = Some (r, hm', w')"
  shows "hashmap_ok hm' \<and> hashmap_abs hm' = hashmap_abs hm \<and> vsc_hashmap_size hm' = vsc_hashmap_size hm \<and>
    (if r = 0 then vsc_hashmap_capacity hm' = nelem else r < 0 \<and> vsc_hashmap_capacity hm' = vsc_hashmap_capacity hm)"
  using assms by (rule resize_spec)

lemma buckets_ok_vals:
  assumes "buckets_ok hp cp n bs" and "length cs = length bs"
    and "\<And>i. i < n \<Longrightarrow> hash (cs ! i) = hash (bs ! i) \<and> key (cs ! i) = key (bs ! i)"
  shows "buckets_ok hp cp n cs"
proof -
  have occ: "occupied (cs ! i) = occupied (bs ! i)" if "i < n" for i
    using assms(3) [OF that] by (simp add: occupied_def)
  have "reachable_at n cs i = reachable_at n bs i" if "i < n" for i
    using assms(3) [OF that] occ that by (auto simp: reachable_at_def home_def)
  then show ?thesis using assms occ by (simp add: buckets_ok_def)
qed

text \<open>
  Update. \<open>vsc_hashmap_update\<close> sets the value of a key that is present and changes nothing
  else, nor the size; an absent key is left absent. Its status is 0 for a key it updated and 1
  for an absent one, the reverse of what \<open>hashmap.h\<close> documents.
\<close>

theorem vsc_hashmap_update_correct:
  assumes procs: "key_procs (hash_proc hm) (compare_proc hm)" and ok: "hashmap_ok hm"
    and run: "vsc_hashmap_update hm k v = (r, hm')"
  shows "hashmap_ok hm' \<and> vsc_hashmap_size hm' = vsc_hashmap_size hm \<and>
    (if hashmap_abs hm k = None then r = 1 \<and> hm' = hm
     else r = 0 \<and> hashmap_abs hm' = (\<lambda>k'. if compare_proc hm k' k \<noteq> 0 then Some v else hashmap_abs hm k'))"
proof (cases "find_bucket hm k")
  case None
  then show ?thesis using run ok find_bucket_abs [OF procs ok, of k] by (simp add: vsc_hashmap_update_def)
next
  case (Some i)
  let ?n = "capacity hm" and ?bs = "buckets hm" and ?b = "buckets hm ! unat i"
  let ?cs = "?bs[unat i := ?b\<lparr>val := v\<rparr>]"
  have bok: "buckets_ok (hash_proc hm) (compare_proc hm) ?n ?bs" using ok by (simp add: hashmap_ok_def)
  note i = find_bucket_Some [OF ok Some]
  have il: "unat i < length ?bs" using i(1) buckets_ok_length [OF bok] by simp
  have same: "hash (?cs ! j) = hash (?bs ! j) \<and> key (?cs ! j) = key (?bs ! j)" for j
    using il by (cases "j = unat i") simp_all
  have cok: "buckets_ok (hash_proc hm) (compare_proc hm) ?n ?cs"
    by (rule buckets_ok_vals [OF bok]) (use same in simp_all)
  have "length (items ?n ?cs) = length (items ?n ?bs)"
    using arg_cong [OF mset_items_update [OF i(1) buckets_ok_length [OF bok], of "?b\<lparr>val := v\<rparr>"], of size] i(2)
    by (simp add: occupied_def)
  then have ok': "hashmap_ok (hm\<lparr>buckets := ?cs\<rparr>)"
    using ok cok by (simp add: hashmap_ok_def stored_def load_ok_def)
  have occ: "occupied (?cs ! j) = occupied (?bs ! j)" for j using same [of j] by (simp add: occupied_def)
  have hit: "compare_proc hm k' (key ?b) \<noteq> 0 \<longleftrightarrow> compare_proc hm k' k \<noteq> 0" for k'
    using i(3) key_procs.compare_sym [OF procs] key_procs.compare_trans [OF procs] by blast
  have "hashmap_abs (hm\<lparr>buckets := ?cs\<rparr>) k' = (if compare_proc hm k' k \<noteq> 0 then Some v else hashmap_abs hm k')" for k'
  proof (cases "compare_proc hm k' k \<noteq> 0")
    case True
    have "\<exists>j<?n. occupied (?cs ! j) \<and> compare_proc hm k' (key (?cs ! j)) \<noteq> 0 \<and> val (?cs ! j) = v"
      using i occ [of "unat i"] same [of "unat i"] hit True il by (intro exI [of _ "unat i"]) simp
    then show ?thesis
      using True key_procs.lookup_iff [OF procs cok] by (simp add: hashmap_abs_def stored_def)
  next
    case False
    have "val (?cs ! j) = val (?bs ! j)" if "compare_proc hm k' (key (?bs ! j)) \<noteq> 0" for j
      using that hit False by (cases "j = unat i") auto
    then have "hashmap_abs (hm\<lparr>buckets := ?cs\<rparr>) k' = Some u \<longleftrightarrow> hashmap_abs hm k' = Some u" for u
      using key_procs.lookup_iff [OF procs cok] key_procs.lookup_iff [OF procs bok] occ same
      by (auto simp: hashmap_abs_def stored_def)
    then have "hashmap_abs (hm\<lparr>buckets := ?cs\<rparr>) k' = hashmap_abs hm k'" by (metis option.exhaust)
    then show ?thesis using False by simp
  qed
  then show ?thesis
    using run Some ok' find_bucket_abs [OF procs ok, of k]
    by (auto simp: vsc_hashmap_update_def vsc_hashmap_size_def fun_eq_iff)
qed

text \<open>
  Clearing and creation. A map fresh from \<open>vsc_hashmap_alloca\<close> satisfies the invariant and
  is empty, and \<open>vsc_hashmap_clear\<close> empties any map without changing its capacity.
\<close>

theorem vsc_hashmap_clear_correct:
  "(hashmap_ok (new_hashmap hp cp a) \<and> hashmap_abs (new_hashmap hp cp a) = (\<lambda>_. None)) \<and>
   (hashmap_ok hm \<longrightarrow>
      (\<exists>hm'. vsc_hashmap_clear hm = (0, hm') \<and> hashmap_ok hm' \<and> hashmap_abs hm' = (\<lambda>_. None) \<and>
        vsc_hashmap_size hm' = 0 \<and> vsc_hashmap_capacity hm' = vsc_hashmap_capacity hm))"
proof (intro conjI impI)
  show "hashmap_ok (new_hashmap hp cp a)"
    by (simp add: hashmap_ok_def new_hashmap_def stored_def items_def load_ok_def buckets_ok_def)
  show "hashmap_abs (new_hashmap hp cp a) = (\<lambda>_. None)"
    by (rule empty_map) (simp add: new_hashmap_def)
  assume ok: "hashmap_ok hm"
  let ?bs = "reset_loop (capacity hm) 0 (buckets hm)"
  have "capacity hm \<le> length (buckets hm)" using ok by (simp add: hashmap_ok_def buckets_ok_def)
  then have bs: "?bs = replicate (capacity hm) empty_bucket @ drop (capacity hm) (buckets hm)"
    by (simp add: reset_loop_eq)
  have it: "items (capacity hm) ?bs = []" by (simp add: bs items_def)
  have "buckets_ok (hash_proc hm) (compare_proc hm) (capacity hm) ?bs"
    by (rule buckets_ok_empty [OF _ it]) (simp add: bs)
  then show "\<exists>hm'. vsc_hashmap_clear hm = (0, hm') \<and> hashmap_ok hm' \<and> hashmap_abs hm' = (\<lambda>_. None) \<and>
      vsc_hashmap_size hm' = 0 \<and> vsc_hashmap_capacity hm' = vsc_hashmap_capacity hm"
    using ok it by (auto simp: vsc_hashmap_clear_def Let_def hashmap_ok_def stored_def load_ok_def hashmap_abs_def
        lookup_def vsc_hashmap_size_def vsc_hashmap_capacity_def)
qed

lemma enumerate_loop_filter: "enumerate_loop f bs u = enumerate_loop f (filter occupied bs) u"
  by (induction bs arbitrary: u) (auto simp: occupied_def split: prod.split)

lemma enumerate_collect:
  "\<forall>b\<in>set bs. occupied b \<Longrightarrow>
   enumerate_loop (\<lambda>k v h acc. (0, acc @ [(k, v)])) bs acc = (0, acc @ map (\<lambda>b. (key b, val b)) bs)"
  by (induction bs arbitrary: acc) (auto simp: occupied_def)

lemma enumerate_spec:
  assumes procs: "key_procs (hash_proc hm) (compare_proc hm)" and ok: "hashmap_ok hm"
  shows "\<exists>kvs. vsc_hashmap_enumerate hm (\<lambda>k v h acc. (0, acc @ [(k, v)])) [] = (0, kvs) \<and>
    length kvs = unat (vsc_hashmap_size hm) \<and>
    sorted_wrt (\<lambda>a b. compare_proc hm (fst a) (fst b) = 0) kvs \<and>
    (\<forall>k v. hashmap_abs hm k = Some v \<longleftrightarrow> (\<exists>k'. (k', v) \<in> set kvs \<and> compare_proc hm k k' \<noteq> 0))"
proof -
  let ?kvs = "map (\<lambda>b. (key b, val b)) (stored hm)"
  have bok: "buckets_ok (hash_proc hm) (compare_proc hm) (capacity hm) (buckets hm)" using ok by (simp add: hashmap_ok_def)
  have "enumerate_loop (\<lambda>k v h acc. (0, acc @ [(k, v)])) (stored hm) [] = (0, [] @ ?kvs)"
    by (rule enumerate_collect) (simp add: stored_def items_def)
  then have run: "vsc_hashmap_enumerate hm (\<lambda>k v h acc. (0, acc @ [(k, v)])) [] = (0, ?kvs)"
    by (simp add: vsc_hashmap_enumerate_def enumerate_loop_filter [of _ "take _ _"] stored_def items_def)
  have "sorted_wrt (\<lambda>a b. compare_proc hm (fst a) (fst b) = 0) ?kvs"
    using key_procs.sorted_wrt_items [OF procs bok] by (simp add: sorted_wrt_map stored_def)
  moreover have "hashmap_abs hm k = Some v \<longleftrightarrow> (\<exists>k'. (k', v) \<in> set ?kvs \<and> compare_proc hm k k' \<noteq> 0)" for k v
    using key_procs.lookup_set [OF procs bok] by (auto simp: hashmap_abs_def stored_def)
  ultimately show ?thesis using run ok by (intro exI [of _ ?kvs]) (simp add: vsc_hashmap_size_def hashmap_ok_def)
qed

text \<open>
  (C32) Enumeration. The callback is called once for every association of the abstract map: a
  callback that collects its arguments ends with \<open>vsc_hashmap_size\<close> pairs, the pairs are those
  the abstract map holds, and no two of them have equal keys.
\<close>

theorem vsc_hashmap_enumerate_complete:
  assumes procs: "key_procs (hash_proc hm) (compare_proc hm)" and ok: "hashmap_ok hm"
  shows "\<exists>kvs. vsc_hashmap_enumerate hm (\<lambda>k v h acc. (0, acc @ [(k, v)])) [] = (0, kvs) \<and>
    length kvs = unat (vsc_hashmap_size hm) \<and>
    sorted_wrt (\<lambda>a b. compare_proc hm (fst a) (fst b) = 0) kvs \<and>
    (\<forall>k v. hashmap_abs hm k = Some v \<longleftrightarrow> (\<exists>k'. (k', v) \<in> set kvs \<and> compare_proc hm k k' \<noteq> 0))"
  using assms by (rule enumerate_spec)

lemma uint32_product:
  "unat (word_of_int (uint (a :: uint16) * uint (b :: uint16)) :: uint32) = unat a * unat b"
proof -
  have "uint a < 2 ^ 16" "uint b < 2 ^ 16" using unsigned_less [of a] unsigned_less [of b] by simp_all
  then have "uint a * uint b < 2 ^ 16 * 2 ^ 16" by (intro mult_strict_mono) simp_all
  then have "uint (word_of_int (uint a * uint b) :: uint32) = uint a * uint b"
    by (simp only: uint_word_of_int) simp
  then show ?thesis by (simp only: unat_eq_nat_uint nat_mult_distrib [OF uint_ge_0])
qed

lemma int_product_unat: "int_product a b = (if unat a * unat b < 2 ^ 31 then Some (uint a * uint b) else None)"
proof -
  have "uint a * uint b = int (unat a * unat b)" by simp
  moreover have "int (unat a * unat b) < 2 ^ 31 \<longleftrightarrow> unat a * unat b < 2 ^ 31"
    using of_nat_less_iff [of "unat a * unat b" "2 ^ 31", where 'a = int] by (simp del: of_nat_mult)
  ultimately show ?thesis by (simp only: int_product_def)
qed

text \<open>
  The load factors \<open>a / b\<close> and \<open>c / d\<close> are proper, positive fractions; and their cross products
  fit into an \<open>int\<close>.
\<close>

definition proper_factors :: "uint16 \<Rightarrow> uint16 \<Rightarrow> uint16 \<Rightarrow> uint16 \<Rightarrow> bool" where
  "proper_factors a b c d \<longleftrightarrow> 0 < unat a \<and> unat a < unat b \<and> 0 < unat c \<and> unat c < unat d"

definition products_fit :: "uint16 \<Rightarrow> uint16 \<Rightarrow> uint16 \<Rightarrow> uint16 \<Rightarrow> bool" where
  "products_fit a b c d \<longleftrightarrow> unat a * unat d < 2 ^ 31 \<and> unat c * unat b < 2 ^ 31"

lemma configure_spec:
  "vsc_hashmap_configure (hm :: 's VscHashMap) a b c d =
     (if \<not> proper_factors a b c d then Some (VSC_ERROR EINVAL, hm)
      else if \<not> products_fit a b c d then None
      else if unat a * unat d \<le> unat c * unat b
      then Some (0, hm\<lparr>load_min_num := a, load_min_den := b, load_max_num := c, load_max_den := d\<rparr>)
      else Some (VSC_ERROR EINVAL, hm)) \<and>
   (hashmap_ok hm \<longrightarrow> (\<forall>r hm'. vsc_hashmap_configure hm a b c d = Some (r, hm') \<longrightarrow> hashmap_ok hm'))"
proof -
  have cmp: "(word_of_int (uint a * uint d) :: uint32) > word_of_int (uint c * uint b) \<longleftrightarrow>
      \<not> unat a * unat d \<le> unat c * unat b"
    unfolding word_less_nat_alt uint32_product by linarith
  have improper: "(x = 0 \<or> y = 0 \<or> x \<ge> y) = (\<not> (0 < unat x \<and> unat x < unat y))" for x y :: uint16
    by (auto simp: word_le_nat_alt not_less unat_gt_0)
  have tidy: "(if \<not> (p1 \<and> p2) then e else if \<not> (p3 \<and> p4) then e else if r then if s then if \<not> t then e else f else n else n) =
      (if \<not> (p1 \<and> p2 \<and> p3 \<and> p4) then e else if \<not> (r \<and> s) then n else if t then f else e)"
    for p1 p2 p3 p4 r s t and e f n :: "(int \<times> 's VscHashMap) option"
    by simp
  have eq: "vsc_hashmap_configure hm a b c d =
     (if \<not> proper_factors a b c d then Some (VSC_ERROR EINVAL, hm)
      else if \<not> products_fit a b c d then None
      else if unat a * unat d \<le> unat c * unat b
      then Some (0, hm\<lparr>load_min_num := a, load_min_den := b, load_max_num := c, load_max_den := d\<rparr>)
      else Some (VSC_ERROR EINVAL, hm))"
    unfolding vsc_hashmap_configure_def Let_def int_product_unat proper_factors_def products_fit_def improper cmp
      if_distrib [of "case_option _ _"] option.case
    by (rule tidy)
  then show ?thesis by (auto simp: hashmap_ok_def stored_def load_ok_def proper_factors_def split: if_splits)
qed

text \<open>
  (C33) Configuration. \<open>vsc_hashmap_configure\<close> refuses improper or zero fractions with EINVAL; of
  the others it stores those with the minimum not above the maximum, compared as exact cross
  products, and refuses the rest with EINVAL, changing nothing, so it keeps the invariant. The
  comparison is undefined for fractions with a cross product of \<open>2 ^ 31\<close> or more, which overflows
  an \<open>int\<close>. Debug builds assert a different relation between the stored factors:
  \<open>vsc_hashmap_validate_violations\<close>.
\<close>

theorem vsc_hashmap_configure_correct:
  "vsc_hashmap_configure hm a b c d =
     (if \<not> proper_factors a b c d then Some (VSC_ERROR EINVAL, hm)
      else if \<not> products_fit a b c d then None
      else if unat a * unat d \<le> unat c * unat b
      then Some (0, hm\<lparr>load_min_num := a, load_min_den := b, load_max_num := c, load_max_den := d\<rparr>)
      else Some (VSC_ERROR EINVAL, hm)) \<and>
   (hashmap_ok hm \<longrightarrow> (\<forall>r hm'. vsc_hashmap_configure hm a b c d = Some (r, hm') \<longrightarrow> hashmap_ok hm'))"
  by (rule configure_spec)

lemma find_hash_loop_scan:
  assumes "unat idx < unat (num_buckets hm)"
  shows "find_hash_loop hm h m idx =
    (case scan (\<lambda>i. \<not> occupied (buckets hm ! i) \<or> hash (buckets hm ! i) = h) (unat (num_buckets hm)) m (unat idx) of
       None \<Rightarrow> NULL
     | Some i \<Rightarrow> if occupied (buckets hm ! i) then val (buckets hm ! i) else NULL)"
  using assms
proof (induction m arbitrary: idx)
  case (Suc m)
  have "(unat idx + 1) mod unat (num_buckets hm) < unat (num_buckets hm)" using Suc.prems by simp
  then show ?case using Suc by (auto simp: Let_def occupied_def unat_next_index)
qed simp

text \<open>
  Lookup by hash returns the value of some association whose key has the hash, and NULL when
  the map holds no key with that hash.
\<close>

theorem vsc_hashmap_find_by_hash_correct:
  assumes "hashmap_ok hm"
  shows "(\<exists>b\<in>set (stored hm). hash b = h \<and> vsc_hashmap_find_by_hash hm h = val b) \<or>
    (\<forall>b\<in>set (stored hm). hash b \<noteq> h) \<and> vsc_hashmap_find_by_hash hm h = NULL"
proof (cases "h = VSC_INVALID_HASH \<or> num_buckets hm = 0")
  case True
  then show ?thesis by (auto simp: vsc_hashmap_find_by_hash_def stored_def items_def occupied_def)
next
  case False
  let ?n = "capacity hm" and ?bs = "buckets hm"
  let ?r = "scan (\<lambda>i. stops (\<lambda>_ _. 1) h 0 (?bs ! i)) ?n ?n (unat h mod ?n)"
  have bok: "buckets_ok (hash_proc hm) (compare_proc hm) ?n ?bs" using assms by (simp add: hashmap_ok_def)
  have n: "0 < ?n" using False by (simp add: unat_gt_0)
  then have st: "unat h mod ?n < ?n" by simp
  have mem: "b \<in> set (stored hm) \<longleftrightarrow> (\<exists>i<?n. ?bs ! i = b \<and> occupied b)" for b
    unfolding stored_def by (rule set_items [OF buckets_ok_length [OF bok]])
  have "(\<lambda>i. \<not> occupied (?bs ! i) \<or> hash (?bs ! i) = h) = (\<lambda>i. stops (\<lambda>_ _. 1) h 0 (?bs ! i))"
    by (simp add: stops_def holds_key_def)
  then have run: "vsc_hashmap_find_by_hash hm h =
      (case ?r of None \<Rightarrow> NULL | Some i \<Rightarrow> if occupied (?bs ! i) then val (?bs ! i) else NULL)"
    using False st find_hash_loop_scan [of "h mod num_buckets hm mod num_buckets hm" hm h]
    by (simp add: vsc_hashmap_find_by_hash_def unat_mod)
  have hit: "\<exists>r. ?r = Some r \<and> occupied (?bs ! r)" if "i < ?n" "hash (?bs ! i) = h" for i
  proof -
    have held: "holds_key (\<lambda>_ _. 1) h 0 (?bs ! i)" using that(2) by (simp add: holds_key_def)
    then have "?r \<noteq> None" using scan_None_all [OF _ st that(1)] by (auto simp: stops_def)
    then obtain r where "?r = Some r" by blast
    then show ?thesis using scan_stops_not_before [OF bok that(1) held] False by blast
  qed
  show ?thesis
  proof (cases "\<exists>r. ?r = Some r \<and> occupied (?bs ! r)")
    case True
    then obtain r where r: "?r = Some r" "occupied (?bs ! r)" by blast
    then have "r < ?n" "hash (?bs ! r) = h" using scan_Some [OF r(1) st] by (auto simp: stops_def holds_key_def)
    then show ?thesis using r run mem by auto
  next
    case False
    have "hash b \<noteq> h" if "b \<in> set (stored hm)" for b
    proof -
      have "\<exists>i<?n. ?bs ! i = b \<and> occupied b" using that unfolding mem .
      then obtain i where i: "i < ?n" "?bs ! i = b" by blast
      show ?thesis
      proof
        assume "hash b = h"
        then show False using hit [OF i(1)] i(2) False by simp
      qed
    qed
    moreover have "vsc_hashmap_find_by_hash hm h = NULL" using False run by (auto split: option.split)
    ultimately show ?thesis by blast
  qed
qed

text \<open>No operation changes the callbacks.\<close>

lemma resize_keeps_procs:
  assumes "vsc_hashmap_resize hm n w = Some (r, hm', w')"
  shows "hash_proc hm' = hash_proc hm \<and> compare_proc hm' = compare_proc hm"
  using assms by (auto simp: vsc_hashmap_resize_def Let_def split: if_splits option.splits prod.splits)

lemma insert_keeps_procs:
  assumes "vsc_hashmap_insert hm k v w = Some (r, hm', w')"
  shows "hash_proc hm' = hash_proc hm \<and> compare_proc hm' = compare_proc hm"
proof -
  have "hash_proc hm2 = hash_proc hm \<and> compare_proc hm2 = compare_proc hm" if "maybe_resize hm w = Some (r1, hm2, w2)" for r1 hm2 w2
    using that by (auto simp: maybe_resize_def intceil_def Let_def dest!: resize_keeps_procs split: if_splits)
  then show ?thesis
    using assms by (auto simp: vsc_hashmap_insert_def Let_def split: if_splits option.splits prod.splits)
qed

section \<open>Witnesses\<close>

text \<open>Four buckets, with the colliding keys 5 and 1, at home in bucket 1, in buckets 1 and 2.\<close>

definition sample_map :: "unit VscHashMap" where
  "sample_map = (new_hashmap vsc_hashmap_default_hash vsc_hashmap_default_compare (fixed_allocator 0x1000 0 16))
     \<lparr>nitems := 2, num_buckets := 4, buckets_ptr := 0x2000,
      buckets := [empty_bucket, \<lparr>hash = 5, key = 5, val = 50\<rparr>, \<lparr>hash = 1, key = 1, val = 10\<rparr>, empty_bucket]\<rparr>"

lemmas sample_defs = sample_map_def new_hashmap_def vsc_hashmap_default_hash_def vsc_hashmap_default_compare_def

lemma all_less_4: "(\<forall>i<4. P i) \<longleftrightarrow> P 0 \<and> P 1 \<and> P 2 \<and> P (3 :: nat)"
  by (auto simp: numeral_eq_Suc less_Suc_eq)

lemma ex_le_3: "(\<exists>i\<le>3. P i) \<longleftrightarrow> P 0 \<or> P 1 \<or> P 2 \<or> P (3 :: nat)"
  by (auto simp: numeral_eq_Suc le_Suc_eq)

lemma ex_le_2: "(\<exists>i\<le>2. P i) \<longleftrightarrow> P 0 \<or> P 1 \<or> P (2 :: nat)"
  by (auto simp: numeral_eq_Suc le_Suc_eq)

lemma sample_procs: "key_procs (hash_proc sample_map) (compare_proc sample_map)"
  using default_procs by (simp add: sample_map_def new_hashmap_def)

lemma sample_ok: "hashmap_ok sample_map"
  by (simp add: hashmap_ok_def buckets_ok_def reachable_at_def sample_defs load_ok_def stored_def items_def
      all_less_4 ex_le_3 occupied_def empty_bucket_def home_def VSC_INVALID_HASH_def)

text \<open>What the samples' abstract maps hold.\<close>

lemma sample_abs: "hashmap_abs sample_map = (\<lambda>k. if k = 5 then Some 50 else if k = 1 then Some 10 else None)"
  by (auto simp: hashmap_abs_def lookup_def stored_def items_def sample_defs occupied_def empty_bucket_def
      VSC_INVALID_HASH_def)

lemma sample_fields:
  "nitems sample_map = 2" "num_buckets sample_map = 4" "load_min_den sample_map = 2"
  "resize_policy sample_map = VSC_HASHMAP_RESIZE_LOAD_FACTOR"
  "compare_proc sample_map a b = (if a = b then 1 else 0)" "buckets sample_map ! 0 = empty_bucket"
  by (simp_all add: sample_defs)

theorem vsc_hashmap_find_correct_witness:
  "vsc_hashmap_find sample_map 1 = 10 \<and> hashmap_abs sample_map 1 = Some 10"
  using vsc_hashmap_find_correct [OF sample_procs sample_ok, of 1]
  by (simp add: hashmap_abs_def lookup_def stored_def items_def sample_defs occupied_def empty_bucket_def VSC_INVALID_HASH_def)


text \<open>The loops at a numeral number of iterations.\<close>

lemmas loop_numerals =
  add_loop.simps(2) [of _ _ "pred_numeral n" for n, folded numeral_eq_Suc]
  find_loop.simps(2) [of _ _ _ "pred_numeral n" for n, folded numeral_eq_Suc]
  find_hash_loop.simps(2) [of _ _ "pred_numeral n" for n, folded numeral_eq_Suc]
  remove_loop.simps(2) [of _ "pred_numeral n" for n, folded numeral_eq_Suc]

theorem vsc_hashmap_find_by_hash_correct_witness:
  "vsc_hashmap_find_by_hash sample_map 1 = 10 \<or> vsc_hashmap_find_by_hash sample_map 1 = NULL"
  using vsc_hashmap_find_by_hash_correct [OF sample_ok, of 1]
  by (auto simp: stored_def items_def sample_defs occupied_def empty_bucket_def VSC_INVALID_HASH_def)

theorem vsc_hashmap_clear_correct_witness:
  "\<exists>hm'. vsc_hashmap_clear sample_map = (0, hm') \<and> vsc_hashmap_size hm' = 0 \<and> vsc_hashmap_capacity hm' = 4"
  using vsc_hashmap_clear_correct [of vsc_hashmap_default_hash vsc_hashmap_default_compare "allocator sample_map" sample_map]
    sample_ok
  by (auto simp: vsc_hashmap_capacity_def sample_fields)

theorem vsc_hashmap_configure_correct_witness:
  "\<exists>hm'. vsc_hashmap_configure sample_map 1 4 2 3 = Some (0, hm') \<and> hashmap_ok hm' \<and> load_max_num hm' = 2 \<and>
    vsc_hashmap_configure sample_map 50000 50001 50000 60000 = None"
  using vsc_hashmap_configure_correct [of sample_map 1 4 2 3] vsc_hashmap_configure_correct [of sample_map 50000 50001 50000 60000]
    sample_ok
  by (auto simp: proper_factors_def products_fit_def)

theorem vsc_hashmap_enumerate_complete_witness:
  "\<exists>kvs. vsc_hashmap_enumerate sample_map (\<lambda>k v h acc. (0, acc @ [(k, v)])) [] = (0, kvs) \<and> length kvs = 2"
  using vsc_hashmap_enumerate_complete [OF sample_procs sample_ok]
  by (auto simp: vsc_hashmap_size_def sample_map_def)

lemma sample_insert:
  "vsc_hashmap_insert sample_map 9 90 w = Some (0, sample_map\<lparr>nitems := 3,
     buckets := [empty_bucket, \<lparr>hash = 5, key = 5, val = 50\<rparr>, \<lparr>hash = 1, key = 1, val = 10\<rparr>,
       \<lparr>hash = 9, key = 9, val = 90\<rparr>]\<rparr>, w)"
  by (simp add: vsc_hashmap_insert_def maybe_resize_def intceil_def sample_defs add_or_replace_bucket_def
      vsc_hashmap_hash_def vsc_hashmap_compare_def empty_bucket_def VSC_INVALID_HASH_def Let_def loop_numerals)

lemma sample_remove:
  "vsc_hashmap_remove sample_map 5 = (50, sample_map\<lparr>nitems := 1,
     buckets := [empty_bucket, \<lparr>hash = 1, key = 1, val = 10\<rparr>, empty_bucket, empty_bucket]\<rparr>)"
  by (simp add: vsc_hashmap_remove_def find_bucket_def reset_bucket_def sample_defs
      vsc_hashmap_hash_def vsc_hashmap_compare_def empty_bucket_def VSC_INVALID_HASH_def Let_def loop_numerals)

theorem vsc_hashmap_insert_correct_witness:
  "\<exists>hm'. vsc_hashmap_insert sample_map 9 90 sample_world = Some (0, hm', sample_world) \<and> hashmap_ok hm' \<and>
    hashmap_abs hm' 9 = Some 90 \<and> hashmap_abs hm' 1 = Some 10 \<and> unat (vsc_hashmap_size hm') = 3"
  using vsc_hashmap_insert_correct [OF sample_procs sample_ok _ sample_insert]
  by (simp add: sample_insert sample_fields sample_abs vsc_hashmap_size_def)

theorem vsc_hashmap_insert_status_witness:
  "\<exists>r hm' w'. vsc_hashmap_insert sample_map 9 90 sample_world = Some (r, hm', w') \<and> r \<in> {0, VSC_ERROR ERANGE, VSC_ERROR ENOMEM}"
  by (rule vsc_hashmap_insert_status [OF sample_procs sample_ok]) (simp_all add: sample_fields)

theorem vsc_hashmap_remove_correct_witness:
  "\<exists>hm'. vsc_hashmap_remove sample_map 5 = (50, hm') \<and> hashmap_ok hm' \<and>
    hashmap_abs hm' 5 = None \<and> hashmap_abs hm' 1 = Some 10"
  using vsc_hashmap_remove_correct [OF sample_procs sample_ok _ sample_remove]
  by (simp add: sample_remove sample_fields sample_abs)

theorem vsc_hashmap_update_correct_witness:
  "\<exists>hm'. vsc_hashmap_update sample_map 1 11 = (0, hm') \<and> hashmap_abs hm' 1 = Some 11 \<and> hashmap_abs hm' 5 = Some 50"
  using vsc_hashmap_update_correct [OF sample_procs sample_ok, of 1 11]
  by (cases "vsc_hashmap_update sample_map 1 11") (simp add: sample_fields sample_abs)

theorem vsc_hashmap_resize_correct_witness:
  "\<exists>r hm' w'. vsc_hashmap_resize sample_map 8 sample_world = Some (r, hm', w') \<and> hashmap_abs hm' 5 = Some 50"
proof -
  obtain r hm' w' where run: "vsc_hashmap_resize sample_map 8 sample_world = Some (r, hm', w')"
    using resize_no_abort [of sample_map 8 sample_world] by auto
  then show ?thesis
    using vsc_hashmap_resize_correct [OF sample_procs sample_ok _ run]
    by (simp add: vsc_hashmap_capacity_def sample_fields sample_abs)
qed

section \<open>Where the code departs from its documentation\<close>

text \<open>Four buckets with key 3 at home in the last bucket and key 4 at home in the first.\<close>

definition full_edges_map :: "unit VscHashMap" where
  "full_edges_map = sample_map
     \<lparr>buckets := [\<lparr>hash = 4, key = 4, val = 40\<rparr>, empty_bucket, empty_bucket, \<lparr>hash = 3, key = 3, val = 30\<rparr>]\<rparr>"

lemma full_edges_ok: "hashmap_ok full_edges_map"
  by (simp add: hashmap_ok_def buckets_ok_def reachable_at_def full_edges_map_def sample_defs load_ok_def stored_def
      items_def all_less_4 ex_le_3 ex_le_2 occupied_def empty_bucket_def home_def VSC_INVALID_HASH_def)

lemma full_edges_find: "vsc_hashmap_find full_edges_map 4 = 40" "vsc_hashmap_find full_edges_map 3 = 30"
  by (simp_all add: vsc_hashmap_find_def find_bucket_def full_edges_map_def sample_defs vsc_hashmap_hash_def
      vsc_hashmap_compare_def empty_bucket_def VSC_INVALID_HASH_def Let_def loop_numerals)

text \<open>The removal of a key from the last bucket when the first bucket is in use and the second is not.\<close>

lemma remove_last_bucket:
  assumes "find_bucket hm k = Some i" and "unat i = capacity hm - 1" and "3 \<le> capacity hm" and "capacity hm \<le> length (buckets hm)"
    and "occupied (buckets hm ! 0)" and "home (capacity hm) (buckets hm ! 0) = 0" and "\<not> occupied (buckets hm ! 1)"
  shows "vsc_hashmap_remove hm k = (val (buckets hm ! (capacity hm - 1)),
    hm\<lparr>buckets := (buckets hm)[capacity hm - 1 := buckets hm ! 0, 0 := reset_bucket (buckets hm ! 0)],
       nitems := nitems hm - 1\<rparr>)"
proof -
  obtain m where n: "capacity hm = Suc (Suc m)" using assms(3) by (cases "capacity hm"; cases "capacity hm - 1") auto
  have "unat (num_buckets hm - 1) = unat i" using assms(2,3) by (subst unat_minus_one) auto
  then have "i = num_buckets hm - 1" by (simp add: word_unat_eq_iff)
  then have i: "(i + 1) mod num_buckets hm = 0" by simp
  have "unat ((1 :: size_t) mod num_buckets hm) = 1" using assms(3) by (simp only: unat_mod unat_1 mod_less)
  then have one: "(1 :: size_t) mod num_buckets hm = 1" by (simp only: word_unat_eq_iff unat_1)
  have one_less: "num_buckets hm \<noteq> 1" using assms(3) by auto
  have "unat (hash (buckets hm ! 0) mod num_buckets hm) = 0" using assms(6) by (simp add: home_def unat_mod)
  then have h: "hash (buckets hm ! 0) mod num_buckets hm = 0" by (simp add: unat_eq_zero)
  show ?thesis
    using assms(2-5,7) one_less unfolding vsc_hashmap_remove_def assms(1) n
    by (simp add: i one h Let_def occupied_def nth_list_update)
qed

text \<open>
  (C38) Removal across the end of the array loses another key. In any map with three or more
  buckets, when the key removed is in the last bucket, the first bucket holds a key in its home
  and the second is empty, the code moves the key of the first bucket into the last one, because
  the test \<open>nidx <= index\<close> does not take the wrap-around into account. Nothing else changes, the
  removal answers as usual, and the size, less one, still counts the moved key; but the lookup of
  that key, which the map held, now finds nothing.
\<close>

theorem vsc_hashmap_remove_wrap_loses_key:
  assumes "key_procs (hash_proc hm) (compare_proc hm)" and "hashmap_ok hm" and "3 \<le> capacity hm"
    and "find_bucket hm k = Some i" and "unat i = capacity hm - 1"
    and "occupied (buckets hm ! 0)" and "home (capacity hm) (buckets hm ! 0) = 0" and "\<not> occupied (buckets hm ! 1)"
    and "vsc_hashmap_remove hm k = (v, hm')"
  shows "v = val (buckets hm ! (capacity hm - 1)) \<and>
    buckets hm' = (buckets hm)[capacity hm - 1 := buckets hm ! 0, 0 := reset_bucket (buckets hm ! 0)] \<and>
    vsc_hashmap_size hm' = vsc_hashmap_size hm - 1 \<and>
    hashmap_abs hm (key (buckets hm ! 0)) = Some (val (buckets hm ! 0)) \<and>
    vsc_hashmap_find hm' (key (buckets hm ! 0)) = NULL"
proof -
  let ?b = "buckets hm ! 0"
  let ?bs = "(buckets hm)[capacity hm - 1 := ?b, 0 := reset_bucket ?b]"
  have ok: "buckets_ok (hash_proc hm) (compare_proc hm) (capacity hm) (buckets hm)"
    using assms(2) by (simp add: hashmap_ok_def)
  note len = buckets_ok_length [OF ok]
  note remove = remove_last_bucket [OF assms(4,5,3) len assms(6-8)]
  have hash: "hash ?b = hash_proc hm (key ?b)" using buckets_ok_hash [OF ok, of 0] assms(3,6) by simp
  have held: "hashmap_abs hm (key ?b) = Some (val ?b)"
    using key_procs.lookup_iff [OF assms(1) ok, of "key ?b" "val ?b"] key_procs.compare_refl [OF assms(1), of "key ?b"] assms(3,6)
    unfolding hashmap_abs_def stored_def by (metis less_le_trans zero_less_numeral)
  have "unat (hash_proc hm (key ?b) mod num_buckets hm) = 0"
    using assms(7) hash by (simp add: home_def unat_mod)
  then have at: "hash_proc hm (key ?b) mod num_buckets hm = 0" by (simp add: unat_eq_zero)
  have "buckets hm \<noteq> []" using len assms(3) by auto
  then have gap: "\<not> occupied (?bs ! 0)" by simp
  obtain m where "capacity hm = Suc m" using assms(3) by (cases "capacity hm") auto
  then have "find_bucket (hm\<lparr>buckets := ?bs, nitems := n\<rparr>) (key ?b) = None" for n
    using gap at by (simp add: find_bucket_def vsc_hashmap_hash_def occupied_def Let_def)
  then show ?thesis using remove assms(9) held by (auto simp: vsc_hashmap_size_def vsc_hashmap_find_def)
qed

lemma full_edges_fields:
  "key_procs (hash_proc full_edges_map) (compare_proc full_edges_map)" "num_buckets full_edges_map = 4"
  "buckets full_edges_map = [\<lparr>hash = 4, key = 4, val = 40\<rparr>, empty_bucket, empty_bucket, \<lparr>hash = 3, key = 3, val = 30\<rparr>]"
  "nitems full_edges_map = 2"
  using default_procs by (simp_all add: full_edges_map_def sample_map_def new_hashmap_def)

lemma full_edges_bucket: "find_bucket full_edges_map 3 = Some 3"
  by (simp add: find_bucket_def full_edges_map_def sample_defs vsc_hashmap_hash_def
      vsc_hashmap_compare_def empty_bucket_def VSC_INVALID_HASH_def Let_def loop_numerals)

theorem vsc_hashmap_remove_wrap_loses_key_witness:
  "\<exists>hm'. vsc_hashmap_remove full_edges_map 3 = (30, hm') \<and> hashmap_abs full_edges_map 4 = Some 40 \<and>
    vsc_hashmap_find hm' 4 = NULL \<and> vsc_hashmap_size hm' = 1"
proof -
  obtain v hm' where run: "vsc_hashmap_remove full_edges_map 3 = (v, hm')" by (cases "vsc_hashmap_remove full_edges_map 3")
  then show ?thesis
    using vsc_hashmap_remove_wrap_loses_key [OF full_edges_fields(1) full_edges_ok _ full_edges_bucket _ _ _ _ run]
    by (simp add: full_edges_fields occupied_def home_def empty_bucket_def VSC_INVALID_HASH_def vsc_hashmap_size_def)
qed

text \<open>
  Shrinking loses keys. The documentation only requires the new number of buckets to be at
  least the number of elements, but the array is reallocated before its elements are moved: a
  resize of a map of two elements from four buckets to three succeeds and drops the key in the
  fourth bucket, which is still counted.
\<close>

theorem vsc_hashmap_resize_shrink_loses_key:
  "hashmap_ok full_edges_map \<and> vsc_hashmap_find full_edges_map 3 = 30 \<and>
   (\<exists>hm' w'. vsc_hashmap_resize full_edges_map 3 w = Some (0, hm', w') \<and>
      vsc_hashmap_find hm' 3 = NULL \<and> vsc_hashmap_size hm' = 2)"
  using full_edges_ok full_edges_find
  by (simp add: vsc_hashmap_resize_def sizeof_bucket_def full_edges_map_def sample_defs vsc_xrealloc_def vsc_xalloc_ex_def
      vsc_xcalloc_def fixed_allocator_def alloc_flags realloc_buckets_def reset_loop_eq
      vsc_hashmap_find_def find_bucket_def add_or_replace_bucket_def empty_bucket_def zero_bucket_def
      vsc_hashmap_hash_def vsc_hashmap_compare_def vsc_hashmap_size_def VSC_INVALID_HASH_def Let_def loop_numerals)

text \<open>
  \<open>vsc_hashmap_reset\<close> does not take the map back to its initial state: it releases the
  buckets but keeps the element count, so that a map that was not empty violates the first
  assertion of \<open>validate\<close> afterwards; and \<open>vsc_hashmap_configure\<close> accepts load factors, such as
  5/10 and 3/4, that the last assertion of \<open>validate\<close> rejects, because it scales both
  numerators by the maximum's denominator.
\<close>

theorem vsc_hashmap_validate_violations:
  "vsc_hashmap_size (fst (vsc_hashmap_reset hm w)) = vsc_hashmap_size hm \<and>
   vsc_hashmap_capacity (fst (vsc_hashmap_reset hm w)) = 0 \<and>
   (vsc_hashmap_size hm \<noteq> 0 \<longrightarrow> validate (fst (vsc_hashmap_reset hm w)) = Some False) \<and>
   (\<exists>hm'. vsc_hashmap_configure hm 5 10 3 4 = Some (0, hm') \<and> validate hm' = Some False)"
  by (simp add: vsc_hashmap_reset_def vsc_hashmap_configure_def vsc_hashmap_size_def vsc_hashmap_capacity_def
      validate_def int_product_def Let_def)

end
