(* ===== verification/Allocator.thy ===== *)
theory Allocator
  imports ByteIO
begin

text \<open>
  \<open>allocator.cpp\<close>, \<open>allocator_internal.h\<close>, the POSIX branches of \<open>sysmem.c\<close>, and the entry
  points of \<open>memory.c\<close> that use the system allocator.

  The C library's heap is a list of live blocks. Where it puts a block is a parameter of the
  model, \<open>place\<close>, and so is what fresh memory holds, \<open>junk\<close>; the rest of \<open>realloc\<close> and \<open>free\<close>
  is what the C standard says of them. \<open>places_ok\<close> is the standard's promise about \<open>place\<close>.
\<close>

section \<open>The heap of the C library\<close>

type_synonym heap = "(addr \<times> nat) list"

record libc =
  place :: "heap \<Rightarrow> addr \<Rightarrow> size_t \<Rightarrow> addr"
  junk :: "addr \<Rightarrow> byte"

definition block_len :: "heap \<Rightarrow> addr \<Rightarrow> nat" where
  "block_len h p = (case map_of h p of None \<Rightarrow> 0 | Some n \<Rightarrow> n)"

definition heap_drop :: "addr \<Rightarrow> heap \<Rightarrow> heap" where
  "heap_drop p h = filter (\<lambda>b. fst b \<noteq> p) h"

definition c_realloc :: "libc \<Rightarrow> addr \<Rightarrow> size_t \<Rightarrow> heap world \<Rightarrow> addr \<times> heap world" where
  "c_realloc c p n w =
     (let q = place c (os w) p n; old = block_len (os w) p
      in if q = NULL then (NULL, w)
         else (q, \<lparr>mem = (\<lambda>x. if x - q < n then if unat (x - q) < old then mem w (p + (x - q)) else junk c x
                             else mem w x),
                   os = (q, unat n) # heap_drop p (os w)\<rparr>))"

definition c_free :: "addr \<Rightarrow> heap world \<Rightarrow> heap world" where
  "c_free p w = (if p = NULL then w else w\<lparr>os := heap_drop p (os w)\<rparr>)"

definition memmove :: "addr \<Rightarrow> addr \<Rightarrow> size_t \<Rightarrow> (addr \<Rightarrow> byte) \<Rightarrow> addr \<Rightarrow> byte" where
  "memmove dst src n m = (\<lambda>x. if x - dst < n then m (src + (x - dst)) else m x)"

definition memset :: "addr \<Rightarrow> byte \<Rightarrow> size_t \<Rightarrow> (addr \<Rightarrow> byte) \<Rightarrow> addr \<Rightarrow> byte" where
  "memset p v n m = (\<lambda>x. if x - p < n then v else m x)"

section \<open>sysmem.c\<close>

definition vsc_sys_realloc :: "libc \<Rightarrow> addr \<Rightarrow> size_t \<Rightarrow> heap world \<Rightarrow> addr \<times> heap world" where
  "vsc_sys_realloc c ptr sz w = c_realloc c ptr sz w"

definition vsc_sys_malloc :: "libc \<Rightarrow> size_t \<Rightarrow> heap world \<Rightarrow> addr \<times> heap world" where
  "vsc_sys_malloc c sz w = c_realloc c NULL sz w"

definition vsc_sys_calloc :: "libc \<Rightarrow> size_t \<Rightarrow> size_t \<Rightarrow> heap world \<Rightarrow> addr \<times> heap world" where
  "vsc_sys_calloc c nmemb sz w =
     (if 2 ^ 64 \<le> unat nmemb * unat sz then (NULL, w)
      else
        let (p, w) = c_realloc c NULL (nmemb * sz) w
        in if p = NULL then (NULL, w) else (p, w\<lparr>mem := memset p 0 (nmemb * sz) (mem w)\<rparr>))"

definition vsc_sys_free :: "addr \<Rightarrow> heap world \<Rightarrow> heap world" where
  "vsc_sys_free p w = c_free p w"

section \<open>The header of a block (allocator_internal.h)\<close>

text \<open>Three words: the size, the bit field \<open>align_power\<close>/\<open>reserved\<close>, the signature.\<close>

definition VSC__MEMHDR_SIG :: uint64 where
  "VSC__MEMHDR_SIG = 0xFEED5EEDFEED5EED"

definition sizeof_MemHeader :: size_t where
  "sizeof_MemHeader = 24"

definition hdr_size :: "(addr \<Rightarrow> byte) \<Rightarrow> addr \<Rightarrow> size_t" where
  "hdr_size m hdr = load64 m hdr"

definition hdr_align_power :: "(addr \<Rightarrow> byte) \<Rightarrow> addr \<Rightarrow> byte" where
  "hdr_align_power m hdr = ucast (load64 m (hdr + 8))"

definition hdr_sig :: "(addr \<Rightarrow> byte) \<Rightarrow> addr \<Rightarrow> uint64" where
  "hdr_sig m hdr = load64 m (hdr + 16)"

definition store_hdr :: "addr \<Rightarrow> size_t \<Rightarrow> byte \<Rightarrow> (addr \<Rightarrow> byte) \<Rightarrow> addr \<Rightarrow> byte" where
  "store_hdr hdr sz align_power m =
     store64 (hdr + 16) VSC__MEMHDR_SIG (store64 (hdr + 8) (ucast align_power) (store64 hdr sz m))"

section \<open>The system allocator (allocator.cpp)\<close>

text \<open>The code's \<open>malloc_\<close>, \<open>free_\<close> and \<open>size_\<close> have the prefix \<open>allocator_\<close> here.\<close>

definition vsc__allocator_mem2hdr :: "(addr \<Rightarrow> byte) \<Rightarrow> addr \<Rightarrow> addr" where
  "vsc__allocator_mem2hdr m p =
     (let pend = VSC_ALIGN_DOWN p 8
      in if load64 m (pend - 8) = VSC__MEMHDR_SIG then pend - sizeof_MemHeader
         else load64 m (pend - 8))"

definition vsc__allocator_hdr2mem :: "addr \<Rightarrow> size_t \<Rightarrow> addr" where
  "vsc__allocator_hdr2mem hdr align = vsc_align_up (hdr + sizeof_MemHeader) align"

text \<open>
  The shift \<open>1u << hdr->align_power\<close> is on 32 bits; C leaves it undefined from 32 on, where the
  model has 0.
\<close>

definition allocator_malloc ::
  "libc \<Rightarrow> addr \<Rightarrow> size_t \<Rightarrow> size_t \<Rightarrow> uint32 \<Rightarrow> addr \<Rightarrow> heap world \<Rightarrow> int \<times> addr \<times> heap world" where
  "allocator_malloc c ptr sz align flags usr w =
     (let align = (if align < 8 then 8 else align);
          flags = (if ptr = NULL then flags AND NOT VSC_ALLOC_REALLOC else flags);
          reqsize = sizeof_MemHeader + sz + align;
          re = (flags AND VSC_ALLOC_REALLOC \<noteq> 0);
          hdr = (if re then vsc__allocator_mem2hdr (mem w) ptr else NULL);
          oldsize = (if re then hdr_size (mem w) hdr else 0);
          shift = (if re then ptr - hdr else 0)
      in if re \<and> align < ucast (push_bit (unat (hdr_align_power (mem w) hdr)) (1 :: uint32))
         then (VSC_ERROR EINVAL, ptr, w)
         else
           let (nhdr, w) = vsc_sys_realloc c hdr reqsize w
           in if nhdr = NULL then (VSC_ERROR ENOMEM, ptr, w)
              else
                let p = vsc__allocator_hdr2mem nhdr align;
                    m = (if nhdr + sizeof_MemHeader \<noteq> p then store64 (p - 8) nhdr (mem w) else mem w);
                    m = store_hdr nhdr sz (vsc_ctz align) m;
                    m = (if re \<and> shift \<noteq> p - nhdr then memmove p (nhdr + shift) oldsize m else m);
                    m = (if flags AND VSC_ALLOC_ZERO \<noteq> 0 \<and> sz > oldsize
                         then memset (p + oldsize) 0 (sz - oldsize) m else m)
                in (0, p, w\<lparr>mem := m\<rparr>))"

definition allocator_free :: "addr \<Rightarrow> addr \<Rightarrow> heap world \<Rightarrow> heap world" where
  "allocator_free p usr w = (if p = NULL then w else vsc_sys_free (vsc__allocator_mem2hdr (mem w) p) w)"

definition allocator_size :: "addr \<Rightarrow> addr \<Rightarrow> heap world \<Rightarrow> size_t" where
  "allocator_size p usr w = (if p = NULL then 0 else hdr_size (mem w) (vsc__allocator_mem2hdr (mem w) p))"

definition vsclib_system_allocator :: "libc \<Rightarrow> heap VscAllocator" where
  "vsclib_system_allocator c =
     \<lparr>alloc_proc = allocator_malloc c, free_proc = allocator_free, size_proc = allocator_size, alignment = 16, user = NULL\<rparr>"

section \<open>The entry points on the system allocator (memory.c)\<close>

definition vsc_malloc :: "libc \<Rightarrow> size_t \<Rightarrow> heap world \<Rightarrow> (addr \<times> heap world) option" where
  "vsc_malloc c sz w = vsc_xalloc (vsclib_system_allocator c) sz w"

definition vsc_calloc :: "libc \<Rightarrow> size_t \<Rightarrow> size_t \<Rightarrow> heap world \<Rightarrow> (addr \<times> heap world) option" where
  "vsc_calloc c nmemb sz w = vsc_xcalloc (vsclib_system_allocator c) nmemb sz w"

definition vsc_free :: "libc \<Rightarrow> addr \<Rightarrow> heap world \<Rightarrow> heap world" where
  "vsc_free c p w = vsc_xfree (vsclib_system_allocator c) p w"

definition vsc_realloc :: "libc \<Rightarrow> addr \<Rightarrow> size_t \<Rightarrow> heap world \<Rightarrow> (addr \<times> heap world) option" where
  "vsc_realloc c ptr sz w = vsc_xrealloc (vsclib_system_allocator c) ptr sz w"

definition vsc_aligned_malloc :: "libc \<Rightarrow> size_t \<Rightarrow> size_t \<Rightarrow> heap world \<Rightarrow> (addr \<times> heap world) option" where
  "vsc_aligned_malloc c sz align w =
     map_option null_on_error (vsc_xalloc_ex (vsclib_system_allocator c) NULL sz 0 align w)"

definition vsc_aligned_free :: "libc \<Rightarrow> addr \<Rightarrow> heap world \<Rightarrow> heap world" where
  "vsc_aligned_free c ptr w = vsc_xfree (vsclib_system_allocator c) ptr w"

definition vsc_block_alloc ::
  "libc \<Rightarrow> addr list option \<Rightarrow> VscBlockAllocInfo list option \<Rightarrow> uint32 \<Rightarrow> heap world \<Rightarrow>
   (int \<times> addr list option \<times> heap world) option" where
  "vsc_block_alloc c ptr blockinfo flags w =
     vsc_block_xalloc (Some (vsclib_system_allocator c)) ptr blockinfo flags w"

section \<open>Words in memory\<close>

lemma word_rcat_of_bytes: "word_rcat (rev bs) = (of_bytes bs :: 'a::len word)"
proof -
  have "word_of_int (horner_sum uint 256 bs) = (of_bytes bs :: 'a word)"
  proof (induction bs)
    case (Cons b bs)
    have "(ucast b OR push_bit 8 (of_bytes bs) :: 'a word) = ucast b + push_bit 8 (of_bytes bs)"
      by (rule disjunctive_add [symmetric])
        (auto simp: bit_push_bit_iff bit_unsigned_iff dest: bit_imp_le_length)
    with Cons show ?case by (simp add: push_bit_eq_mult mult.commute)
  qed simp
  then show ?thesis by (simp add: word_rcat_def)
qed

lemma load64_bytes: "load64 m p = of_bytes (map (\<lambda>i. m (p + of_nat i)) [0..<8])"
  unfolding load64_def rev_map [symmetric] by (rule word_rcat_of_bytes)

lemma load64_cong:
  assumes "\<And>i. i < 8 \<Longrightarrow> m (p + of_nat i) = m' (p + of_nat i)" shows "load64 m p = load64 m' p"
  unfolding load64_bytes by (rule arg_cong [where f=of_bytes]) (use assms in auto)

lemma load64_store64 [simp]: "load64 (store64 p v m) p = v"
proof -
  have "map (\<lambda>i. store64 p v m (p + of_nat i)) [0..<8] = to_bytes v"
    by (simp add: store64_def to_bytes_def sizeof_word_def word_less_nat_alt unat_of_nat64)
  then show ?thesis by (simp add: load64_bytes of_to_bytes)
qed

text \<open>Where a range of addresses does not wrap, membership is a matter of \<open>nat\<close>.\<close>

lemma in_range_iff:
  assumes "unat q + unat n \<le> 2 ^ 64"
  shows "x - q < n \<longleftrightarrow> unat q \<le> unat x \<and> unat x < unat q + unat (n :: 64 word)"
proof (cases "unat q \<le> unat x")
  case True
  then show ?thesis by (auto simp: word_less_nat_alt unat_sub64)
next
  case False
  have "unat (x - q) = unat x + 2 ^ 64 - unat q"
    using False unat_bound64 [of q] by (simp add: unat_sub_if_size word_size)
  then show ?thesis using False assms by (simp add: word_less_nat_alt)
qed

lemma store64_outside:
  assumes "unat p + 8 \<le> 2 ^ 64" "unat x < unat p \<or> unat p + 8 \<le> unat x" shows "store64 p v m x = m x"
  using assms in_range_iff [of p 8 x] by (auto simp: store64_def)

lemma load64_outside:
  assumes "unat q + 8 \<le> 2 ^ 64" "\<And>x. unat q \<le> unat x \<Longrightarrow> unat x < unat q + 8 \<Longrightarrow> m x = m' x"
  shows "load64 m q = load64 m' q"
  using assms by (intro load64_cong) (simp add: unat_add64 unat_of_nat64)

lemma load64_store64_other:
  assumes "unat p + 8 \<le> 2 ^ 64" "unat q + 8 \<le> 2 ^ 64" "unat q + 8 \<le> unat p \<or> unat p + 8 \<le> unat q"
  shows "load64 (store64 p v m) q = load64 m q"
  using assms(2) by (rule load64_outside) (use assms in \<open>auto intro!: store64_outside\<close>)

end
