(* ===== verification/Strings.thy ===== *)
theory Strings
  imports Allocator
begin

text \<open>
  \<open>string.c\<close>, \<open>stpcpy.c\<close>, \<open>strcpy.c\<close>, \<open>strdup.c\<close>, \<open>strdupr.c\<close>, \<open>strjoin.c\<close> and \<open>for_each.c\<close>.
  A C string is the list of its bytes without the terminating NUL, none of which is 0 (\<open>cstring\<close>).
  A buffer a function writes to is a list of bytes and a position in it; \<open>None\<close> is a write past
  its end or a call of \<open>abort()\<close>. \<open>char\<close> is a signed byte.
\<close>

section \<open>Characters (string.c)\<close>

definition vsc_isdigit :: "int \<Rightarrow> bool" where
  "vsc_isdigit c \<longleftrightarrow> c \<ge> 48 \<and> c \<le> 57"

definition vsc_isxdigit :: "int \<Rightarrow> bool" where
  "vsc_isxdigit c \<longleftrightarrow>
     (if vsc_isdigit c then True else (c \<ge> 97 \<and> c \<le> 102) \<or> (c \<ge> 65 \<and> c \<le> 70))"

section \<open>C strings and buffers\<close>

definition cstring :: "byte list \<Rightarrow> bool" where
  "cstring s \<longleftrightarrow> 0 \<notin> set s"

definition strlen :: "byte list \<Rightarrow> size_t" where
  "strlen s = of_nat (length s)"

fun strcmp :: "byte list \<Rightarrow> byte list \<Rightarrow> int" where
  "strcmp [] [] = 0"
| "strcmp [] (b # bs) = - uint b"
| "strcmp (a # as) [] = uint a"
| "strcmp (a # as) (b # bs) = (if a = b then strcmp as bs else uint a - uint b)"

text \<open>\<open>*dst = c\<close> at position \<open>i\<close> of a buffer.\<close>

definition poke :: "byte list \<Rightarrow> nat \<Rightarrow> byte \<Rightarrow> byte list option" where
  "poke buf i c = (if i < length buf then Some (buf[i := c]) else None)"

section \<open>Copying (stpcpy.c, strcpy.c)\<close>

text \<open>
  The portable loop of \<open>vsc_stpcpy\<close>, over the bytes of the source still to copy with the NUL at
  their end. The result is the position of the NUL written.
\<close>

fun stpcpy_loop :: "byte list \<Rightarrow> nat \<Rightarrow> byte list \<Rightarrow> (nat \<times> byte list) option" where
  "stpcpy_loop buf dst [] = None"
| "stpcpy_loop buf dst (c # src) =
     (case poke buf dst c of
        None \<Rightarrow> None
      | Some buf \<Rightarrow> if c = 0 then Some (dst, buf) else stpcpy_loop buf (dst + 1) src)"

definition vsc_stpcpy :: "byte list \<Rightarrow> nat \<Rightarrow> byte list \<Rightarrow> (nat \<times> byte list) option" where
  "vsc_stpcpy buf dst src = stpcpy_loop buf dst (src @ [0])"

definition vsc_strcpy :: "byte list \<Rightarrow> nat \<Rightarrow> byte list \<Rightarrow> (nat \<times> byte list) option" where
  "vsc_strcpy buf dst src = map_option (\<lambda>(_, buf). (dst, buf)) (vsc_stpcpy buf dst src)"

section \<open>Duplicating (strdup.c, strdupr.c)\<close>

text \<open>
  The block of \<open>vsc_xcalloc\<close> is all zero; its contents are the list beside the pointer. The
  range \<open>start\<close>, \<open>end\<close> is the list of the bytes between the two pointers.
\<close>

definition vsc_strdupra :: "byte list \<Rightarrow> 's VscAllocator \<Rightarrow> 's world \<Rightarrow> (addr \<times> byte list \<times> 's world) option" where
  "vsc_strdupra rng a w =
     (let len = strlen rng
      in case vsc_xcalloc a (len + 1) 1 w of
           None \<Rightarrow> None
         | Some (p, w) \<Rightarrow>
             if p = NULL then Some (NULL, [], w)
             else
               let buf = replicate (unat (len + 1)) 0;
                   buf = rng @ drop (length rng) buf
               in map_option (\<lambda>buf. (p, buf, w)) (poke buf (unat len) 0))"

definition vsc_strdupa :: "byte list \<Rightarrow> 's VscAllocator \<Rightarrow> 's world \<Rightarrow> (addr \<times> byte list \<times> 's world) option" where
  "vsc_strdupa s a w = vsc_strdupra s a w"

section \<open>Joining (strjoin.c)\<close>

text \<open>The loop that sums the lengths; \<open>None\<close> is a NULL element.\<close>

fun strnjoin_nreq :: "size_t \<Rightarrow> byte list option list \<Rightarrow> size_t option" where
  "strnjoin_nreq nreq [] = Some nreq"
| "strnjoin_nreq nreq (e # elems) =
     (case e of None \<Rightarrow> None | Some s \<Rightarrow> strnjoin_nreq (nreq + strlen s) elems)"

text \<open>The copying loop, from element \<open>i\<close> on.\<close>

fun join_loop :: "byte list \<Rightarrow> nat \<Rightarrow> byte list \<Rightarrow> nat \<Rightarrow> nat \<Rightarrow> byte list list \<Rightarrow> byte list option" where
  "join_loop buf nxt delim nelem i [] = Some buf"
| "join_loop buf nxt delim nelem i (e # elems) =
     (case vsc_stpcpy buf nxt e of
        None \<Rightarrow> None
      | Some (nxt, buf) \<Rightarrow>
          if i \<noteq> nelem - 1 then
            (case vsc_stpcpy buf nxt delim of
               None \<Rightarrow> None
             | Some (nxt, buf) \<Rightarrow> join_loop buf nxt delim nelem (i + 1) elems)
          else join_loop buf nxt delim nelem (i + 1) elems)"

definition vsc_strnjoina ::
  "'s VscAllocator \<Rightarrow> byte list option \<Rightarrow> byte list option list \<Rightarrow> 's world \<Rightarrow> (addr \<times> byte list \<times> 's world) option" where
  "vsc_strnjoina a delim elems w =
     (case delim of
        None \<Rightarrow> Some (NULL, [], w)
      | Some delim \<Rightarrow>
          (let dlen = strlen delim; nelem = of_nat (length elems) :: size_t
           in case strnjoin_nreq 0 elems of
                None \<Rightarrow> Some (NULL, [], w)
              | Some nreq \<Rightarrow>
                  let nreq = (if nelem > 0 then nreq + (nelem - 1) * dlen else nreq);
                      nreq = nreq + 1
                  in case vsc_xcalloc a nreq 1 w of
                       None \<Rightarrow> None
                     | Some (p, w) \<Rightarrow>
                         if p = NULL then Some (NULL, [], w)
                         else map_option (\<lambda>buf. (p, buf, w))
                                (join_loop (replicate (unat nreq) 0) 0 delim (length elems) 0 (map the elems))))"

text \<open>
  \<open>vsc_vstrjoina\<close> reads its elements from a \<open>va_list\<close> up to the first NULL: here the arguments,
  of which the last read is the first \<open>None\<close>; \<open>None\<close> of the first pass is a read past them.
\<close>

fun vstrjoin_pass1 :: "nat \<Rightarrow> size_t \<Rightarrow> byte list option list \<Rightarrow> (nat \<times> size_t) option" where
  "vstrjoin_pass1 n nreq [] = None"
| "vstrjoin_pass1 n nreq (arg # ap) =
     (case arg of None \<Rightarrow> Some (n, nreq) | Some elem \<Rightarrow> vstrjoin_pass1 (n + 1) (nreq + strlen elem) ap)"

definition vsc_vstrjoina ::
  "'s VscAllocator \<Rightarrow> byte list option \<Rightarrow> byte list option list \<Rightarrow> 's world \<Rightarrow> (addr \<times> byte list \<times> 's world) option" where
  "vsc_vstrjoina a delim ap w =
     (case delim of
        None \<Rightarrow> Some (NULL, [], w)
      | Some delim \<Rightarrow>
          (let dlen = strlen delim
           in case vstrjoin_pass1 0 0 ap of
                None \<Rightarrow> None
              | Some (n, nreq) \<Rightarrow>
                  let nreq = (if n > 0 then nreq + (of_nat n - 1) * dlen else nreq);
                      nreq = nreq + 1
                  in case vsc_xcalloc a nreq 1 w of
                       None \<Rightarrow> None
                     | Some (p, w) \<Rightarrow>
                         if p = NULL then Some (NULL, [], w)
                         else map_option (\<lambda>buf. (p, buf, w))
                                (join_loop (replicate (unat nreq) 0) 0 delim n 0 (map the (take n ap)))))"

section \<open>The functions on the system allocator\<close>

definition vsc_strdup :: "libc \<Rightarrow> byte list \<Rightarrow> heap world \<Rightarrow> (addr \<times> byte list \<times> heap world) option" where
  "vsc_strdup c s w = vsc_strdupa s (vsclib_system_allocator c) w"

definition vsc_strdupr :: "libc \<Rightarrow> byte list \<Rightarrow> heap world \<Rightarrow> (addr \<times> byte list \<times> heap world) option" where
  "vsc_strdupr c rng w = vsc_strdupra rng (vsclib_system_allocator c) w"

definition vsc_strjoina ::
  "'s VscAllocator \<Rightarrow> byte list option \<Rightarrow> byte list option list \<Rightarrow> 's world \<Rightarrow> (addr \<times> byte list \<times> 's world) option" where
  "vsc_strjoina a delim ap w = vsc_vstrjoina a delim ap w"

definition vsc_strjoin ::
  "libc \<Rightarrow> byte list option \<Rightarrow> byte list option list \<Rightarrow> heap world \<Rightarrow> (addr \<times> byte list \<times> heap world) option" where
  "vsc_strjoin c delim ap w = vsc_vstrjoina (vsclib_system_allocator c) delim ap w"

definition vsc_vstrjoin ::
  "libc \<Rightarrow> byte list option \<Rightarrow> byte list option list \<Rightarrow> heap world \<Rightarrow> (addr \<times> byte list \<times> heap world) option" where
  "vsc_vstrjoin c delim ap w = vsc_vstrjoina (vsclib_system_allocator c) delim ap w"

definition vsc_strnjoin ::
  "libc \<Rightarrow> byte list option \<Rightarrow> byte list option list \<Rightarrow> heap world \<Rightarrow> (addr \<times> byte list \<times> heap world) option" where
  "vsc_strnjoin c delim elems w = vsc_strnjoina (vsclib_system_allocator c) delim elems w"

section \<open>Splitting (for_each.c)\<close>

text \<open>
  \<open>memchr\<close> over the bytes from \<open>start\<close> to \<open>end\<close>: the distance to the first \<open>c\<close>.
\<close>

fun memchr :: "byte list \<Rightarrow> byte \<Rightarrow> nat option" where
  "memchr [] c = None"
| "memchr (x # xs) c = (if x = c then Some 0 else map_option Suc (memchr xs c))"

text \<open>
  The callback gets the bytes between its two pointers, and its private state is threaded. The
  loop variable is the bytes from \<open>start\<close> to \<open>end\<close>.
\<close>

type_synonym 'u VscForEachDelimProc = "byte list \<Rightarrow> 'u \<Rightarrow> int \<times> 'u"

lemma memchr_le: "memchr xs c = Some n \<Longrightarrow> n < length xs"
  by (induction xs arbitrary: n) (auto split: if_splits)

function for_each_loop :: "byte list \<Rightarrow> byte \<Rightarrow> 'u VscForEachDelimProc \<Rightarrow> 'u \<Rightarrow> int \<times> 'u" where
  "for_each_loop rest delim f u =
     (if rest = [] then (0, u)
      else
        let nxt = (case memchr rest delim of None \<Rightarrow> length rest | Some n \<Rightarrow> n);
            (r, u) = f (take nxt rest) u
        in if r \<noteq> 0 then (r, u)
           else for_each_loop (drop (if nxt \<noteq> length rest then nxt + 1 else nxt) rest) delim f u)"
  by pat_completeness auto
termination
  by (relation "measure (\<lambda>(rest, _). length rest)") (auto split: option.splits dest: memchr_le)

declare for_each_loop.simps [simp del]

text \<open>\<open>begin > end\<close> is the error \<open>EINVAL\<close>, here a missing range.\<close>

definition vsc_for_each_delim :: "byte list option \<Rightarrow> byte \<Rightarrow> 'u VscForEachDelimProc \<Rightarrow> 'u \<Rightarrow> int \<times> 'u" where
  "vsc_for_each_delim rng delim f u =
     (case rng of
        None \<Rightarrow> (VSC_ERROR EINVAL, u)
      | Some s \<Rightarrow>
          let (r, u) = for_each_loop s delim f u
          in if r \<noteq> 0 then (r, u)
             else if s \<noteq> [] \<and> last s = delim then f [] u
             else (0, u))"

section \<open>Facts\<close>

lemma strcmp_eq: "cstring s \<Longrightarrow> cstring t \<Longrightarrow> strcmp s t = 0 \<longleftrightarrow> s = t"
  by (induction s t rule: strcmp.induct) (auto simp: cstring_def uint_0_iff dest: word_uint_eqI)

lemma unat_strlen: "length s < 2 ^ 64 \<Longrightarrow> unat (strlen s) = length s"
  unfolding strlen_def by (rule unat_of_nat64)

lemma cstring_append [simp]: "cstring (a @ b) \<longleftrightarrow> cstring a \<and> cstring b"
  by (simp add: cstring_def)

text \<open>Copying writes the string and its NUL, exactly when they fit.\<close>

lemma vsc_stpcpy_fits:
  assumes "cstring src" and "dst + length src < length buf"
  shows "vsc_stpcpy buf dst src = Some (dst + length src, take dst buf @ src @ 0 # drop (dst + length src + 1) buf)"
  using assms
proof (induction src arbitrary: buf dst)
  case Nil
  then show ?case by (simp add: vsc_stpcpy_def poke_def upd_conv_take_nth_drop)
next
  case (Cons c src)
  then have "vsc_stpcpy (buf[dst := c]) (dst + 1) src =
    Some (dst + 1 + length src, take (dst + 1) (buf[dst := c]) @ src @ 0 # drop (dst + 1 + length src + 1) (buf[dst := c]))"
    by (intro Cons.IH) (auto simp: cstring_def)
  moreover have "take (dst + 1) (buf[dst := c]) = take dst buf @ [c]"
    using Cons.prems by (simp add: take_Suc_conv_app_nth)
  ultimately show ?case using Cons.prems by (simp add: vsc_stpcpy_def poke_def cstring_def)
qed

fun intersperse_str :: "byte list \<Rightarrow> byte list list \<Rightarrow> byte list" where
  "intersperse_str d [] = []"
| "intersperse_str d [x] = x"
| "intersperse_str d (x # y # ys) = x @ d @ intersperse_str d (y # ys)"

lemma cstring_intersperse: "cstring d \<Longrightarrow> \<forall>e\<in>set es. cstring e \<Longrightarrow> cstring (intersperse_str d es)"
  by (induction d es rule: intersperse_str.induct) (auto simp: cstring_def)

lemma length_intersperse:
  "length (intersperse_str d es) = sum_list (map length es) + (length es - 1) * length d"
  by (induction d es rule: intersperse_str.induct) auto

lemma join_loop_joins:
  assumes "cstring d" and "\<forall>e\<in>set es. cstring e" and "es \<noteq> []" and "i + length es = nelem"
    and "nxt + length (intersperse_str d es) < length buf"
  shows "join_loop buf nxt d nelem i es =
    Some (take nxt buf @ intersperse_str d es @ 0 # drop (nxt + length (intersperse_str d es) + 1) buf)"
  using assms
proof (induction d es arbitrary: buf nxt i rule: intersperse_str.induct)
  case (2 d x)
  then show ?case by (simp add: vsc_stpcpy_fits)
next
  case (3 d x y ys)
  let ?rest = "intersperse_str d (y # ys)"
  define b1 where "b1 = take nxt buf @ x @ 0 # drop (nxt + length x + 1) buf"
  define b2 where "b2 = take (nxt + length x) b1 @ d @ 0 # drop (nxt + length x + length d + 1) b1"
  have len: "nxt + length x + length d + length ?rest < length buf" using 3(6) by simp
  have s1: "vsc_stpcpy buf nxt x = Some (nxt + length x, b1)"
    unfolding b1_def using 3(3) len by (intro vsc_stpcpy_fits) simp_all
  have l1: "length b1 = length buf" using len by (simp add: b1_def)
  have s2: "vsc_stpcpy b1 (nxt + length x) d = Some (nxt + length x + length d, b2)"
    unfolding b2_def using 3(2) len l1 by (intro vsc_stpcpy_fits) simp_all
  have l2: "length b2 = length buf" using len l1 by (simp add: b2_def)
  have "join_loop b2 (nxt + length x + length d) d nelem (i + 1) (y # ys) =
    Some (take (nxt + length x + length d) b2 @ ?rest @ 0 # drop (nxt + length x + length d + length ?rest + 1) b2)"
    using 3(2,3,5) len l2 by (intro 3(1)) simp_all
  moreover have "take (nxt + length x + length d) b2 = take nxt buf @ x @ d"
    using len by (simp add: b2_def b1_def)
  moreover have "drop (nxt + length x + length d + length ?rest + 1) b2 = drop (nxt + length x + length d + length ?rest + 1) buf"
    using len l1 by (simp add: b2_def b1_def ac_simps)
  moreover have "i \<noteq> nelem - 1" using 3(5) by simp
  ultimately show ?case using s1 s2 by (simp add: add.assoc)
qed simp

lemma strnjoin_nreq_sum:
  "strnjoin_nreq n (map Some es) = Some (n + of_nat (sum_list (map length es)))"
  by (induction es arbitrary: n) (simp_all add: strlen_def add.assoc)

lemma vstrjoin_pass1_sum:
  "vstrjoin_pass1 k n (map Some es @ None # ap) = Some (k + length es, n + of_nat (sum_list (map length es)))"
  by (induction es arbitrary: k n) (simp_all add: strlen_def add.assoc)

text \<open>The size both joins compute.\<close>

lemma join_nreq:
  assumes "es \<noteq> []"
  shows "of_nat (sum_list (map length es)) + (of_nat (length es) - 1) * strlen d + 1 =
    (of_nat (length (intersperse_str d es) + 1) :: size_t)"
proof -
  have "(of_nat (length es) - 1 :: size_t) = of_nat (length es - 1)"
    using assms by (simp add: of_nat_diff Suc_le_eq)
  then show ?thesis by (simp add: length_intersperse strlen_def)
qed

section \<open>Splitting at a delimiter\<close>

text \<open>The fields of a range, and a callback run over them until it returns a non-zero status.\<close>

fun split_fields :: "byte \<Rightarrow> byte list \<Rightarrow> byte list list" where
  "split_fields c [] = [[]]"
| "split_fields c (x # xs) = (if x = c then [] # split_fields c xs else (x # hd (split_fields c xs)) # tl (split_fields c xs))"

fun run_fields :: "'u VscForEachDelimProc \<Rightarrow> byte list list \<Rightarrow> 'u \<Rightarrow> int \<times> 'u" where
  "run_fields f [] u = (0, u)"
| "run_fields f (x # xs) u = (let (r, u) = f x u in if r \<noteq> 0 then (r, u) else run_fields f xs u)"

lemma fields_nonempty [simp]: "split_fields c xs \<noteq> []"
  by (induction xs) auto

lemma fields_memchr:
  "split_fields c xs = (case memchr xs c of None \<Rightarrow> [xs] | Some n \<Rightarrow> take n xs # split_fields c (drop (n + 1) xs))"
  by (induction xs) (auto split: option.splits)

lemma fields_join: "intersperse_str [c] (split_fields c xs) = xs"
proof (induction xs)
  case (Cons x xs)
  then show ?case by (cases "split_fields c xs"; cases "tl (split_fields c xs)") auto
qed simp

lemma fields_no_delim: "f \<in> set (split_fields c xs) \<Longrightarrow> c \<notin> set f"
proof (induction xs arbitrary: f)
  case (Cons x xs)
  then show ?case by (cases "split_fields c xs") (auto split: if_splits)
qed simp

lemma last_fields: "xs \<noteq> [] \<Longrightarrow> last (split_fields c xs) = [] \<longleftrightarrow> last xs = c"
proof (induction xs)
  case (Cons x xs)
  obtain g gs where g: "split_fields c xs = g # gs" by (cases "split_fields c xs") auto
  have "g \<noteq> []" if "xs \<noteq> []" "gs = []"
    using fields_join [of c xs] that g by auto
  then show ?case using Cons g by (cases "xs = []") auto
qed simp

lemma run_fields_append:
  "run_fields f (xs @ ys) u = (let (r, u) = run_fields f xs u in if r \<noteq> 0 then (r, u) else run_fields f ys u)"
  by (induction xs arbitrary: u) (auto split: prod.split)

text \<open>The loop visits all fields but an empty last one.\<close>

lemma for_each_loop_fields:
  "for_each_loop xs c f u = run_fields f (if last (split_fields c xs) = [] then butlast (split_fields c xs) else split_fields c xs) u"
proof (induction xs c f u rule: for_each_loop.induct)
  case (1 xs c f u)
  show ?case
  proof (cases "xs = []")
    case False
    show ?thesis
    proof (cases "memchr xs c")
      case None
      then show ?thesis using False
        by (subst for_each_loop.simps) (simp add: for_each_loop.simps [of "[]"] fields_memchr [of c xs] Let_def split: prod.split)
    next
      case (Some n)
      then have n: "n < length xs" by (rule memchr_le)
      have "for_each_loop (drop (n + 1) xs) c f v = run_fields f (if last (split_fields c (drop (n + 1) xs)) = []
          then butlast (split_fields c (drop (n + 1) xs)) else split_fields c (drop (n + 1) xs)) v"
        if "f (take n xs) u = (0, v)" for v
        using 1 [OF False refl _ refl, of 0 v] that Some n by simp
      then show ?thesis using False Some n
        by (subst for_each_loop.simps) (auto simp: fields_memchr [of c xs] Let_def split: prod.split)
    qed
  qed (simp add: for_each_loop.simps [of "[]"])
qed

section \<open>Properties\<close>

text \<open>
  (C30) Joining. For C strings whose joined length leaves room for the NUL in a \<open>size_t\<close>,
  \<open>vsc_strnjoina\<close> asks the allocator for exactly the joined length and one, never writes past
  that block, and fills it exactly with the elements, the delimiter between each two of them,
  and the NUL; it returns NULL only when the allocator does.
\<close>

theorem vsc_strnjoina_joins:
  assumes "cstring d" and "\<forall>e\<in>set es. cstring e" and "length (intersperse_str d es) + 1 < 2 ^ 64"
    and "length es < 2 ^ 64"
    and alloc: "vsc_xcalloc a (of_nat (length (intersperse_str d es) + 1)) 1 w = Some (p, w')"
  shows "vsc_strnjoina a (Some d) (map Some es) w =
    (if p = NULL then Some (NULL, [], w') else Some (p, intersperse_str d es @ [0], w'))"
proof (cases "es = []")
  case True
  then show ?thesis using alloc by (simp add: vsc_strnjoina_def)
next
  case False
  let ?n = "length (intersperse_str d es)"
  have pos: "(of_nat (length es) :: size_t) > 0"
    using False assms(4) by (simp add: word_less_nat_alt unat_of_nat64)
  have un: "unat (of_nat (?n + 1) :: size_t) = ?n + 1" using assms(3) by (rule unat_of_nat64)
  have "join_loop (replicate (?n + 1) 0) 0 d (length es) 0 es = Some (intersperse_str d es @ [0])"
    using join_loop_joins [OF assms(1,2) False, of 0 "length es" 0 "replicate (?n + 1) 0"] by simp
  then show ?thesis
    using alloc False pos un join_nreq [OF False, of d]
    by (auto simp: vsc_strnjoina_def strnjoin_nreq_sum Let_def o_def simp del: of_nat_Suc of_nat_add replicate.simps)
qed

text \<open>
  The variadic join is the array join of its arguments up to the first NULL.
\<close>

theorem vsc_vstrjoina_is_strnjoina:
  assumes "length es < 2 ^ 64"
  shows "vsc_vstrjoina a d (map Some es @ None # ap) w = vsc_strnjoina a d (map Some es) w"
proof -
  have "(of_nat (length es) :: size_t) > 0 \<longleftrightarrow> 0 < length es"
    using assms by (simp add: word_less_nat_alt unat_of_nat64)
  then show ?thesis
    by (auto simp: vsc_vstrjoina_def vsc_strnjoina_def vstrjoin_pass1_sum strnjoin_nreq_sum Let_def split: option.split)
qed

text \<open>
  (C31) Splitting. \<open>vsc_for_each_delim\<close> calls its callback for the fields between delimiters, in
  order, until one returns a non-zero status, which is then the result. A trailing delimiter
  counts an empty last field, an empty range no field at all. The fields hold no delimiter, and
  joining them with it gives the range back.
\<close>

theorem vsc_for_each_delim_fields:
  "vsc_for_each_delim (Some s) c f u = (if s = [] then (0, u) else run_fields f (split_fields c s) u) \<and>
   intersperse_str [c] (split_fields c s) = s \<and> \<not> (\<exists>x\<in>set (split_fields c s). c \<in> set x)"
proof (intro conjI)
  show "vsc_for_each_delim (Some s) c f u = (if s = [] then (0, u) else run_fields f (split_fields c s) u)"
  proof (cases "s = [] \<or> last s \<noteq> c")
    case True
    then show ?thesis
      by (auto simp: vsc_for_each_delim_def for_each_loop_fields last_fields split: prod.split)
  next
    case False
    then have "split_fields c s = butlast (split_fields c s) @ [[]]"
      by (metis append_butlast_last_id fields_nonempty last_fields)
    then have "run_fields f (split_fields c s) u = run_fields f (butlast (split_fields c s) @ [[]]) u"
      by (rule arg_cong)
    then show ?thesis
      using False by (auto simp: vsc_for_each_delim_def for_each_loop_fields last_fields run_fields_append Let_def split: prod.split)
  qed
qed (auto simp: fields_join dest: fields_no_delim)

text \<open>
  Duplicating. The copy of a C string is the string and its NUL in a block of exactly that
  size, or NULL when the allocator returns NULL.
\<close>

theorem vsc_strdupa_copies:
  assumes "length s + 1 < 2 ^ 64" and "vsc_xcalloc a (of_nat (length s + 1)) 1 w = Some (p, w')"
  shows "vsc_strdupa s a w = (if p = NULL then Some (NULL, [], w') else Some (p, s @ [0], w'))"
proof -
  have "unat (strlen s) = length s" using assms(1) by (intro unat_strlen) simp
  moreover have "unat (strlen s + 1) = length s + 1"
    using assms(1) unat_of_nat64 [of "length s + 1"] by (simp add: strlen_def add.commute)
  moreover have "drop (length s) (replicate (length s + 1) 0) = [0 :: byte]"
    unfolding drop_replicate by simp
  ultimately show ?thesis
    using assms(2)
    by (simp add: vsc_strdupa_def vsc_strdupra_def Let_def strlen_def poke_def add.commute list_update_append
        del: replicate_Suc)
qed

lemma fixed_xcalloc:
  "p \<noteq> 0 \<Longrightarrow> n < 2 ^ 64 \<Longrightarrow> vsc_xcalloc (fixed_allocator p m al) (of_nat n) 1 w = Some (p, w)"
  by (simp add: vsc_xcalloc_def fixed_allocator_def vsc_xalloc_ex_def alloc_flags not_less Let_def)

theorem vsc_strnjoina_joins_witness:
  "vsc_strnjoina (fixed_allocator 0x1000 0 16) (Some [44, 32]) (map Some [[97], [98, 99], []]) sample_world =
    Some (0x1000, [97, 44, 32, 98, 99, 44, 32, 0], sample_world)"
  using vsc_strnjoina_joins [OF _ _ _ _ fixed_xcalloc, of "[44, 32]" "[[97], [98, 99], []]" "0x1000"]
  by (simp add: cstring_def)

theorem vsc_vstrjoina_is_strnjoina_witness:
  "vsc_vstrjoina (fixed_allocator 0x1000 0 16) (Some [44]) (map Some [[97], [98]] @ None # [Some [99]]) sample_world =
    vsc_strnjoina (fixed_allocator 0x1000 0 16) (Some [44]) (map Some [[97], [98]]) sample_world"
  by (rule vsc_vstrjoina_is_strnjoina) simp

theorem vsc_strdupa_copies_witness:
  "vsc_strdupa [104, 105] (fixed_allocator 0x1000 0 16) sample_world = Some (0x1000, [104, 105, 0], sample_world)"
  using vsc_strdupa_copies [OF _ fixed_xcalloc, of "[104, 105]" "0x1000"] by simp

end
