(* ===== verification/Hash.thy ===== *)
theory Hash
  imports Xxh3 HashmapSpec Strings Allocator
begin

text \<open>
  \<open>hash.c\<close>, and what of \<open>hashmap.c\<close> rests on it: the string callbacks, and the map on the system
  allocator. The callbacks read strings through pointers: \<open>strs\<close> gives the C string at an address.
  \<open>size_t\<close> has 64 bits, so \<open>vsc_hash\<close> is the branch with XXH3.
\<close>

section \<open>Hashing (hash.c)\<close>

text \<open>\<open>None\<close> is the pointer NULL. The library is built for speed, with \<open>XXH_SIZE_OPT\<close> 0.\<close>

definition vsc_hash :: "byte list option \<Rightarrow> size_t \<Rightarrow> vsc_hash_t" where
  "vsc_hash data sz =
     (case data of
        None \<Rightarrow> if sz \<noteq> 0 then VSC_INVALID_HASH else XXH3_64bits_withSeed 0 [] 0
      | Some bs \<Rightarrow> XXH3_64bits_withSeed 0 (take (unat sz) bs) 0)"

definition vsc_hash_string :: "byte list option \<Rightarrow> vsc_hash_t" where
  "vsc_hash_string s =
     (case s of None \<Rightarrow> VSC_INVALID_HASH | Some bs \<Rightarrow> vsc_hash (Some bs) (strlen bs))"

section \<open>The string callbacks and the default allocator (hashmap.c)\<close>

definition vsc_hashmap_string_hash :: "(addr \<Rightarrow> byte list) \<Rightarrow> VscHashMapHashProc" where
  "vsc_hashmap_string_hash strs s = vsc_hash_string (if s = NULL then None else Some (strs s))"

definition vsc_hashmap_string_compare :: "(addr \<Rightarrow> byte list) \<Rightarrow> VscHashMapCompareProc" where
  "vsc_hashmap_string_compare strs a b =
     (if a = b then 0
      else if a = NULL \<or> b = NULL then 0
      else if strcmp (strs a) (strs b) = 0 then 1 else 0)"

definition vsc_hashmap_alloc ::
  "libc \<Rightarrow> VscHashMapHashProc \<Rightarrow> VscHashMapCompareProc \<Rightarrow> heap world \<Rightarrow>
   (addr \<times> heap VscHashMap option \<times> heap world) option" where
  "vsc_hashmap_alloc c hp cp w = vsc_hashmap_alloca hp cp (vsclib_system_allocator c) w"

section \<open>Properties\<close>

text \<open>
  Strings at different addresses are compared by their contents, and equal ones hash alike.
\<close>

lemma string_compare_contents:
  assumes "a \<noteq> b" "a \<noteq> NULL" "b \<noteq> NULL" "cstring (strs a)" "cstring (strs b)"
  shows "vsc_hashmap_string_compare strs a b \<noteq> 0 \<longleftrightarrow> strs a = strs b"
    and "strs a = strs b \<Longrightarrow> vsc_hashmap_string_hash strs a = vsc_hashmap_string_hash strs b"
  using assms by (simp_all add: vsc_hashmap_string_compare_def vsc_hashmap_string_hash_def strcmp_eq)

lemma find_loop_none:
  "(\<And>b. b \<in> set (buckets hm) \<Longrightarrow> vsc_hashmap_compare hm k (key b) = 0) \<Longrightarrow>
   unat (num_buckets hm) = length (buckets hm) \<Longrightarrow> unat i < length (buckets hm) \<Longrightarrow>
   find_loop hm h k n i = None"
proof (induction n arbitrary: i)
  case (Suc n)
  have "unat ((i + 1) mod num_buckets hm) < length (buckets hm)"
    using Suc.prems(2,3) by (metis gr_zeroI less_nat_zero_code mod_less_divisor unat_mod_distrib)
  with Suc show ?case by (simp add: Let_def)
qed simp

text \<open>
  A map of strings does not find a key by the pointer it was inserted with: the comparison of
  a pointer with itself is 0, "not equal". Whatever a map with the string callbacks holds, if every
  key stored is the pointer \<open>k\<close> itself, NULL or another string, looking \<open>k\<close> up gives NULL.
\<close>

theorem string_map_misses_own_key:
  assumes "compare_proc hm = vsc_hashmap_string_compare strs"
    and "unat (num_buckets hm) = length (buckets hm)"
    and "\<And>b. b \<in> set (buckets hm) \<Longrightarrow> key b = k \<or> key b = NULL \<or> strcmp (strs k) (strs (key b)) \<noteq> 0"
  shows "vsc_hashmap_find hm k = NULL"
proof -
  have "vsc_hashmap_compare hm k (key b) = 0" if "b \<in> set (buckets hm)" for b
    using assms(3) [OF that] by (auto simp: vsc_hashmap_compare_def assms(1) vsc_hashmap_string_compare_def)
  note none = find_loop_none [OF this assms(2)]
  have "find_bucket hm k = None"
  proof (cases "num_buckets hm = 0")
    case False
    then have "unat (x mod num_buckets hm) < length (buckets hm)" for x
      using assms(2) by (metis bot_nat_0.not_eq_extremum mod_less_divisor unat_eq_zero unat_mod_distrib)
    then show ?thesis using False none by (simp add: find_bucket_def Let_def)
  qed (simp add: find_bucket_def Let_def)
  then show ?thesis by (simp add: vsc_hashmap_find_def)
qed

definition sample_strings :: "addr \<Rightarrow> byte list" where
  "sample_strings p = (if p = 0x100 then [0x61] else [])"

definition string_map :: "unit VscHashMap" where
  "string_map = new_hashmap (vsc_hashmap_string_hash sample_strings) (vsc_hashmap_string_compare sample_strings)
     (fixed_allocator 0x2000 0 16)"

theorem string_map_misses_own_key_witness:
  "\<exists>hm w. vsc_hashmap_insert string_map 0x100 7 sample_world = Some (0, hm, w) \<and>
     vsc_hashmap_size hm = 1 \<and> vsc_hashmap_find hm 0x100 = NULL"
proof -
  have "map_option (\<lambda>(r, hm, w). (r, num_buckets hm, length (buckets hm), nitems hm, filter (\<lambda>k. k \<noteq> 0) (map key (buckets hm))))
     (vsc_hashmap_insert string_map 0x100 7 sample_world) = Some (0, 16, 16, 1, [0x100])"
    by code_simp
  then obtain hm w where hm: "vsc_hashmap_insert string_map 0x100 7 sample_world = Some (0, hm, w)"
    "num_buckets hm = 16" "length (buckets hm) = 16" "nitems hm = 1" "filter (\<lambda>k. k \<noteq> 0) (map key (buckets hm)) = [0x100]"
    by auto
  have "key b = 0x100 \<or> key b = NULL" if "b \<in> set (buckets hm)" for b
  proof (rule disjCI)
    assume "key b \<noteq> NULL"
    then have "key b \<in> set (filter (\<lambda>k. k \<noteq> 0) (map key (buckets hm)))" using that by simp
    then show "key b = 0x100" unfolding hm(5) by simp
  qed
  then have "vsc_hashmap_find hm 0x100 = NULL"
    using insert_keeps_procs [OF hm(1)] hm(2,3)
    by (intro string_map_misses_own_key [of hm sample_strings]) (auto simp: string_map_def new_hashmap_def)
  then show ?thesis using hm by (auto simp: vsc_hashmap_size_def)
qed

end
