(* ===== verification/Runs.thy ===== *)
theory Runs
  imports Prelude
begin

text \<open>
  Runs of a client over a component: sequences of calls with their answers, as a step relation
  admits them, and the specification of a component as a machine over an abstract state. The
  locale \<open>contract\<close> carries one step of a refinement over to whole runs.
\<close>

inductive run :: "('s \<Rightarrow> 'e \<Rightarrow> 's \<Rightarrow> bool) \<Rightarrow> 's \<Rightarrow> 'e list \<Rightarrow> 's \<Rightarrow> bool" for step where
  none: "run step s [] s"
| more: "step s e s' \<Longrightarrow> run step s' es s'' \<Longrightarrow> run step s (e # es) s''"

inductive_cases run_none: "run step s [] s'"
inductive_cases run_more: "run step s (e # es) s'"

lemma run_appendI: "run step s es s' \<Longrightarrow> run step s' fs s'' \<Longrightarrow> run step s (es @ fs) s''"
  by (induction rule: run.induct) (auto intro: run.more)

lemma run_mono: "run step s es s' \<Longrightarrow> (\<And>s e s'. step s e s' \<Longrightarrow> step' s e s') \<Longrightarrow> run step' s es s'"
  by (induction rule: run.induct) (auto intro: run.intros)

text \<open>\<open>along ok eff a es\<close>: each event satisfies \<open>ok\<close> in the abstract state that those before it lead to.\<close>

primrec along :: "('a \<Rightarrow> 'e \<Rightarrow> bool) \<Rightarrow> ('a \<Rightarrow> 'e \<Rightarrow> 'a) \<Rightarrow> 'a \<Rightarrow> 'e list \<Rightarrow> bool" where
  "along ok eff a [] \<longleftrightarrow> True"
| "along ok eff a (e # es) \<longleftrightarrow> ok a e \<and> along ok eff (eff a e) es"

lemma along_append: "along ok eff a (es @ fs) \<longleftrightarrow> along ok eff a es \<and> along ok eff (foldl eff a es) fs"
  by (induction es arbitrary: a) auto

text \<open>
  The contract of a component with the steps \<open>step\<close>: a client that makes only calls that are
  \<open>legal\<close> in the abstract state gets answers that are \<open>sound\<close> in it, and \<open>rel\<close> is kept.
\<close>

locale contract =
  fixes step :: "'s \<Rightarrow> 'e \<Rightarrow> 's \<Rightarrow> bool" and rel :: "'s \<Rightarrow> 'a \<Rightarrow> bool"
    and legal sound :: "'a \<Rightarrow> 'e \<Rightarrow> bool" and eff :: "'a \<Rightarrow> 'e \<Rightarrow> 'a"
  assumes answers: "rel s a \<Longrightarrow> legal a e \<Longrightarrow> step s e s' \<Longrightarrow> sound a e"
    and follows: "rel s a \<Longrightarrow> legal a e \<Longrightarrow> step s e s' \<Longrightarrow> rel s' (eff a e)"

context contract begin

lemma run_refines:
  assumes "run step s es s'" "rel s a" "along legal eff a es"
  shows "along sound eff a es \<and> rel s' (foldl eff a es)"
  using assms
proof (induction arbitrary: a rule: run.induct)
  case (more s e s' es s'')
  then show ?case using answers [of s a e s'] follows [of s a e s'] by simp
qed simp

lemma run_rel: "run step s es s' \<Longrightarrow> rel s a \<Longrightarrow> along legal eff a es \<Longrightarrow> rel s' (foldl eff a es)"
  using run_refines by blast

end

end
