(* ===== verification/HashmapRun.thy ===== *)
theory HashmapRun
  imports HashmapSpec Runs
begin

text \<open>
  Clients of a hash map: sequences of calls of its operations with their answers. Whatever the
  sequence, the answers are those of a finite map with a count of its elements.
\<close>

section \<open>The calls\<close>

text \<open>One constructor per operation: the arguments and, last, the answer.\<close>

datatype hashmap_event =
    Insert addr addr int
  | Find addr addr
  | Update addr addr int
  | Remove addr addr
  | Clear int
  | Resize size_t int
  | Configure uint16 uint16 uint16 uint16 int
  | Set_policy VscHashMapResizePolicy VscHashMapResizePolicy
  | Size size_t
  | Enumerate "(addr \<times> addr) list"

inductive hashmap_step ::
  "'s VscHashMap \<times> 's world \<Rightarrow> hashmap_event \<Rightarrow> 's VscHashMap \<times> 's world \<Rightarrow> bool" where
  insert_call: "vsc_hashmap_insert hm k v w = Some (r, hm', w') \<Longrightarrow> hashmap_step (hm, w) (Insert k v r) (hm', w')"
| find_call: "hashmap_step (hm, w) (Find k (vsc_hashmap_find hm k)) (hm, w)"
| update_call: "vsc_hashmap_update hm k v = (r, hm') \<Longrightarrow> hashmap_step (hm, w) (Update k v r) (hm', w)"
| remove_call: "vsc_hashmap_remove hm k = (v, hm') \<Longrightarrow> hashmap_step (hm, w) (Remove k v) (hm', w)"
| clear_call: "vsc_hashmap_clear hm = (r, hm') \<Longrightarrow> hashmap_step (hm, w) (Clear r) (hm', w)"
| resize_call: "vsc_hashmap_resize hm n w = Some (r, hm', w') \<Longrightarrow> hashmap_step (hm, w) (Resize n r) (hm', w')"
| configure_call: "vsc_hashmap_configure hm a b c d = Some (r, hm') \<Longrightarrow> hashmap_step (hm, w) (Configure a b c d r) (hm', w)"
| policy_call: "vsc_hashmap_set_resize_policy hm p = (q, hm') \<Longrightarrow> hashmap_step (hm, w) (Set_policy p q) (hm', w)"
| size_call: "hashmap_step (hm, w) (Size (vsc_hashmap_size hm)) (hm, w)"
| enumerate_call: "vsc_hashmap_enumerate hm (\<lambda>k v h acc. (0, acc @ [(k, v)])) [] = (0, kvs) \<Longrightarrow>
    hashmap_step (hm, w) (Enumerate kvs) (hm, w)"

inductive_cases insert_step: "hashmap_step s (Insert k v r) s'"
inductive_cases remove_step: "hashmap_step s (Remove k v) s'"

text \<open>
  A configuration whose products overflow has no step. The two calls that lose elements, a removal
  across the end of the array and a resize to fewer buckets, are left out by \<open>careful\<close>: it
  forbids removals while both the first and the last bucket are in use, and shrinking.
\<close>

fun careful :: "'s VscHashMap \<Rightarrow> hashmap_event \<Rightarrow> bool" where
  "careful hm (Remove k v) \<longleftrightarrow>
     \<not> occupied (buckets hm ! 0) \<or> \<not> occupied (buckets hm ! (unat (num_buckets hm) - 1))"
| "careful hm (Resize n r) \<longleftrightarrow> vsc_hashmap_capacity hm \<le> n"
| "careful hm e \<longleftrightarrow> True"

definition careful_step ::
  "'s VscHashMap \<times> 's world \<Rightarrow> hashmap_event \<Rightarrow> 's VscHashMap \<times> 's world \<Rightarrow> bool" where
  "careful_step s e s' \<longleftrightarrow> hashmap_step s e s' \<and> careful (fst s) e"

section \<open>The specification\<close>

text \<open>
  A finite map and its number of elements, under the equivalence \<open>cp\<close> of keys. A client may
  insert as long as there are fewer than \<open>2 ^ 47\<close> elements.
\<close>

type_synonym finite_map = "(addr \<Rightarrow> addr option) \<times> nat"

fun map_legal :: "finite_map \<Rightarrow> hashmap_event \<Rightarrow> bool" where
  "map_legal (m, n) (Insert k v r) \<longleftrightarrow> n < 2 ^ 47"
| "map_legal _ _ \<longleftrightarrow> True"

definition value_of :: "addr option \<Rightarrow> addr" where
  "value_of x = (case x of None \<Rightarrow> NULL | Some v \<Rightarrow> v)"

fun map_sound :: "VscHashMapCompareProc \<Rightarrow> finite_map \<Rightarrow> hashmap_event \<Rightarrow> bool" where
  "map_sound cp (m, n) (Insert k v r) \<longleftrightarrow> r \<le> 0"
| "map_sound cp (m, n) (Find k v) \<longleftrightarrow> v = value_of (m k)"
| "map_sound cp (m, n) (Update k v r) \<longleftrightarrow> r = (if m k = None then 1 else 0)"
| "map_sound cp (m, n) (Remove k v) \<longleftrightarrow> v = value_of (m k)"
| "map_sound cp (m, n) (Clear r) \<longleftrightarrow> r = 0"
| "map_sound cp (m, n) (Resize sz r) \<longleftrightarrow> r \<le> 0"
| "map_sound cp (m, n) (Configure a b c d r) \<longleftrightarrow>
     r = (if proper_factors a b c d \<and> unat a * unat d \<le> unat c * unat b then 0 else VSC_ERROR EINVAL)"
| "map_sound cp (m, n) (Set_policy p q) \<longleftrightarrow> True"
| "map_sound cp (m, n) (Size sz) \<longleftrightarrow> unat sz = n"
| "map_sound cp (m, n) (Enumerate kvs) \<longleftrightarrow>
     length kvs = n \<and> sorted_wrt (\<lambda>a b. cp (fst a) (fst b) = 0) kvs \<and>
     (\<forall>k v. m k = Some v \<longleftrightarrow> (\<exists>k'. (k', v) \<in> set kvs \<and> cp k k' \<noteq> 0))"

text \<open>All keys that \<open>cp\<close> identifies with \<open>k\<close> go to \<open>x\<close>.\<close>

definition assign :: "VscHashMapCompareProc \<Rightarrow> (addr \<Rightarrow> addr option) \<Rightarrow> addr \<Rightarrow> addr option \<Rightarrow> addr \<Rightarrow> addr option" where
  "assign cp m k x = (\<lambda>k'. if cp k' k \<noteq> 0 then x else m k')"

fun map_effect :: "VscHashMapCompareProc \<Rightarrow> finite_map \<Rightarrow> hashmap_event \<Rightarrow> finite_map" where
  "map_effect cp (m, n) (Insert k v r) =
     (if r = 0 then (assign cp m k (Some v), if m k = None then n + 1 else n) else (m, n))"
| "map_effect cp (m, n) (Update k v r) = (if m k = None then (m, n) else (assign cp m k (Some v), n))"
| "map_effect cp (m, n) (Remove k v) = (assign cp m k None, if m k = None then n else n - 1)"
| "map_effect cp (m, n) (Clear r) = (\<lambda>_. None, 0)"
| "map_effect cp a e = a"

section \<open>The map refines it\<close>

definition map_rel ::
  "VscHashMapHashProc \<Rightarrow> VscHashMapCompareProc \<Rightarrow> 's VscHashMap \<times> 's world \<Rightarrow> finite_map \<Rightarrow> bool" where
  "map_rel hp cp s a \<longleftrightarrow> key_procs hp cp \<and> hash_proc (fst s) = hp \<and> compare_proc (fst s) = cp \<and>
     hashmap_ok (fst s) \<and> hashmap_abs (fst s) = fst a \<and> unat (vsc_hashmap_size (fst s)) = snd a"

lemma map_relD:
  assumes "map_rel hp cp (hm, w) (m, n)"
  shows "key_procs (hash_proc hm) (compare_proc hm)" "hash_proc hm = hp" "compare_proc hm = cp" "hashmap_ok hm"
    "m = hashmap_abs hm" "n = unat (vsc_hashmap_size hm)"
  using assms by (auto simp: map_rel_def)

lemma rel_insert:
  assumes "map_rel hp cp (hm, w) (m, n)" "n < 2 ^ 47" "vsc_hashmap_insert hm k v w = Some (r, hm', w')"
  shows "r \<le> 0 \<and> map_rel hp cp (hm', w') (map_effect cp (m, n) (Insert k v r))"
proof -
  note rel = map_relD [OF assms(1)]
  have "unat (load_min_den hm) < 2 ^ 16" using unsigned_less [of "load_min_den hm"] by simp
  then have "(unat (nitems hm) + 1) * unat (load_min_den hm) \<le> 2 ^ 47 * 2 ^ 16"
    using rel(6) assms(2) by (intro mult_le_mono) (simp_all add: vsc_hashmap_size_def)
  then have small: "(unat (nitems hm) + 1) * unat (load_min_den hm) < 2 ^ 64" by simp
  note spec = insert_spec [OF rel(1,4) small assms(3)]
  note procs = insert_keeps_procs [OF assms(3)]
  show ?thesis using spec procs rel by (cases "r = 0") (simp_all add: map_rel_def assign_def)
qed

lemma rel_remove:
  assumes "map_rel hp cp (hm, w) (m, n)" "careful hm (Remove k v)" "vsc_hashmap_remove hm k = (v, hm')"
  shows "v = value_of (m k) \<and> map_rel hp cp (hm', w) (map_effect cp (m, n) (Remove k v))"
proof -
  note rel = map_relD [OF assms(1)]
  have "hash_proc hm' = hash_proc hm \<and> compare_proc hm' = compare_proc hm"
    using assms(3) by (auto simp: vsc_hashmap_remove_def Let_def split: option.splits)
  then show ?thesis
    using remove_spec [OF rel(1,4) _ assms(3)] assms(2) rel by (simp add: map_rel_def assign_def value_of_def)
qed

lemma rel_update:
  assumes "map_rel hp cp (hm, w) (m, n)" "vsc_hashmap_update hm k v = (r, hm')"
  shows "r = (if m k = None then 1 else 0) \<and> map_rel hp cp (hm', w) (map_effect cp (m, n) (Update k v r))"
proof -
  note rel = map_relD [OF assms(1)]
  have "hash_proc hm' = hash_proc hm \<and> compare_proc hm' = compare_proc hm"
    using assms(2) by (auto simp: vsc_hashmap_update_def split: option.splits)
  then show ?thesis
    using vsc_hashmap_update_correct [OF rel(1,4) assms(2)] rel by (cases "m k") (simp_all add: map_rel_def assign_def)
qed

lemma rel_resize:
  assumes "map_rel hp cp (hm, w) (m, n)" "careful hm (Resize sz r)" "vsc_hashmap_resize hm sz w = Some (r, hm', w')"
  shows "r \<le> 0 \<and> map_rel hp cp (hm', w') (m, n)"
proof -
  note rel = map_relD [OF assms(1)]
  show ?thesis
    using resize_spec [OF rel(1,4) _ assms(3)] resize_keeps_procs [OF assms(3)] assms(2) rel
    by (cases "r = 0") (simp_all add: map_rel_def)
qed

lemma rel_clear:
  assumes "map_rel hp cp (hm, w) (m, n)" "vsc_hashmap_clear hm = (r, hm')"
  shows "r = 0 \<and> map_rel hp cp (hm', w) (\<lambda>_. None, 0)"
proof -
  note rel = map_relD [OF assms(1)]
  have "hash_proc hm' = hash_proc hm \<and> compare_proc hm' = compare_proc hm"
    using assms(2) by (auto simp: vsc_hashmap_clear_def Let_def)
  then show ?thesis using conjunct2 [OF vsc_hashmap_clear_correct, of hm] assms(2) rel by (simp add: map_rel_def)
qed

lemma rel_configure:
  assumes "map_rel hp cp (hm, w) (m, n)" "vsc_hashmap_configure hm a b c d = Some (r, hm')"
  shows "map_sound cp (m, n) (Configure a b c d r) \<and> map_rel hp cp (hm', w) (m, n)"
proof -
  note rel = map_relD [OF assms(1)]
  have ok: "hashmap_ok hm'" using configure_spec [of hm a b c d] assms(2) rel(4) by blast
  have "(r, hm') = (if proper_factors a b c d \<and> unat a * unat d \<le> unat c * unat b
      then (0, hm\<lparr>load_min_num := a, load_min_den := b, load_max_num := c, load_max_den := d\<rparr>)
      else (VSC_ERROR EINVAL, hm))"
    using conjunct1 [OF configure_spec [of hm a b c d]] assms(2) by (auto split: if_splits)
  then show ?thesis
    using rel ok by (auto simp: map_rel_def hashmap_abs_def stored_def vsc_hashmap_size_def split: if_splits)
qed

lemma rel_policy:
  assumes "map_rel hp cp (hm, w) (m, n)" "vsc_hashmap_set_resize_policy hm p = (q, hm')"
  shows "map_rel hp cp (hm', w) (m, n)"
  using assms
  by (auto simp: map_rel_def vsc_hashmap_set_resize_policy_def hashmap_ok_def hashmap_abs_def stored_def load_ok_def vsc_hashmap_size_def)

lemma rel_find:
  assumes "map_rel hp cp (hm, w) (m, n)"
  shows "vsc_hashmap_find hm k = value_of (m k)"
  using find_bucket_abs [OF map_relD(1,4) [OF assms], of k] map_relD(5) [OF assms]
  by (auto simp: vsc_hashmap_find_def value_of_def split: option.splits)

lemma rel_enumerate:
  assumes "map_rel hp cp (hm, w) (m, n)" "vsc_hashmap_enumerate hm (\<lambda>k v h acc. (0, acc @ [(k, v)])) [] = (0, kvs)"
  shows "map_sound cp (m, n) (Enumerate kvs)"
  using enumerate_spec [OF map_relD(1,4) [OF assms(1)]] assms(2) map_relD [OF assms(1)] by auto

interpretation hashmap: contract careful_step "map_rel hp cp" map_legal "map_sound cp" "map_effect cp" for hp cp
proof -
  have "map_sound cp a e \<and> map_rel hp cp s' (map_effect cp a e)"
    if "map_rel hp cp s a" "map_legal a e" "careful_step s e s'"
    for s s' :: "'s VscHashMap \<times> 's world" and a e
  proof -
    obtain m n where a: "a = (m, n)" by (cases a)
    note rel = that(1) [unfolded a]
    from that(3) have step: "hashmap_step s e s'" and careful: "careful (fst s) e" by (simp_all add: careful_step_def)
    from step show ?thesis
    proof cases
      case (insert_call hm k v w r hm' w')
      then show ?thesis using rel_insert [of hp cp hm w m n k v r hm' w'] rel that(2) by (simp add: a)
    next
      case (find_call hm w k)
      then show ?thesis using rel_find [of hp cp hm w m n k] rel by (simp add: a)
    next
      case (update_call hm k v r hm' w)
      then show ?thesis using rel_update [of hp cp hm w m n k v r hm'] rel by (simp add: a)
    next
      case (remove_call hm k v hm' w)
      then show ?thesis using rel_remove [of hp cp hm w m n k v hm'] rel careful by (simp add: a)
    next
      case (clear_call hm r hm' w)
      then show ?thesis using rel_clear [of hp cp hm w m n r hm'] rel by (simp add: a)
    next
      case (resize_call hm sz w r hm' w')
      then show ?thesis using rel_resize [of hp cp hm w m n sz r hm' w'] rel careful by (simp add: a)
    next
      case (configure_call hm b c d f r hm' w)
      then show ?thesis using rel_configure [of hp cp hm w m n b c d f r hm'] rel by (simp add: a)
    next
      case (policy_call hm p q hm' w)
      then show ?thesis using rel_policy [of hp cp hm w m n p q hm'] rel by (simp add: a)
    next
      case (size_call hm w)
      then show ?thesis using map_relD(6) [of hp cp hm w m n] rel by (simp add: a)
    next
      case (enumerate_call hm kvs w)
      then show ?thesis using rel_enumerate [of hp cp hm w m n kvs] rel by (simp add: a)
    qed
  qed
  then show "contract careful_step (map_rel hp cp) map_legal (map_sound cp) (map_effect cp)"
    by unfold_locales blast+
qed

section \<open>Properties\<close>

lemma legal_if_short:
  assumes "n + length es \<le> 2 ^ 47"
  shows "along map_legal (map_effect cp) (m, n) es"
  using assms
proof (induction es arbitrary: m n)
  case (Cons e es)
  obtain m' n' where eff: "map_effect cp (m, n) e = (m', n')" by (cases "map_effect cp (m, n) e")
  then have "n' \<le> n + 1" by (cases e) (auto split: if_splits)
  then have "along map_legal (map_effect cp) (m', n') es" using Cons.prems by (intro Cons.IH) simp
  then show ?case using Cons.prems eff by (cases e) auto
qed simp

lemma new_map_rel: "key_procs hp cp \<Longrightarrow> map_rel hp cp (new_hashmap hp cp a, w) (\<lambda>_. None, 0)"
  using conjunct1 [OF vsc_hashmap_clear_correct] by (simp add: map_rel_def new_hashmap_def vsc_hashmap_size_def)

text \<open>No call aborts: every operation of a map is answered in every state.\<close>

lemma hashmap_insert_answers: "\<exists>r s'. hashmap_step (hm, w) (Insert k v r) s'"
proof -
  obtain r1 hm1 w1 where mr: "maybe_resize hm w = Some (r1, hm1, w1)" using maybe_resize_no_abort [of hm w] by auto
  then have "vsc_hashmap_insert hm k v w \<noteq> None"
    by (auto simp: vsc_hashmap_insert_def Let_def split: prod.split)
  then obtain r hm' w' where "vsc_hashmap_insert hm k v w = Some (r, hm', w')" by auto
  then show ?thesis by (blast intro: insert_call)
qed

text \<open>
  (C1) Careful clients of the map. Take any sequence of up to \<open>2 ^ 47\<close> calls on a new map,
  insertions, lookups, updates, removals, clearing, growing, configuration and enumeration in any
  order, with allocations failing or not, in which no key is removed while both the first and the
  last bucket are in use, the map is never resized to fewer buckets than it has, and no
  configuration has a product of \<open>2 ^ 31\<close> or more. Then every answer is that of a finite map from
  the classes of equal keys to values, and at the end the map represents that finite map and its
  size. The answer of an update is 0 when the key was there and 1 when it was not, as the code
  has it; the documentation has them the other way round.
\<close>

theorem hashmap_run_refines:
  assumes "key_procs hp cp" and "run careful_step (new_hashmap hp cp a, w) es (hm, w')" and "length es \<le> 2 ^ 47"
  shows "along (map_sound cp) (map_effect cp) (\<lambda>_. None, 0) es \<and>
    (hashmap_abs hm, unat (vsc_hashmap_size hm)) = foldl (map_effect cp) (\<lambda>_. None, 0) es \<and> hashmap_ok hm"
proof -
  have "along map_legal (map_effect cp) (\<lambda>_. None, 0) es" using assms(3) by (intro legal_if_short) simp
  note refines = hashmap.run_refines [OF assms(2) new_map_rel [OF assms(1)] this]
  then show ?thesis by (simp add: map_rel_def prod_eq_iff)
qed

text \<open>The keys 5 and 21 are at home in the same bucket.\<close>

definition small_map :: "unit VscHashMap" where
  "small_map = new_hashmap vsc_hashmap_default_hash vsc_hashmap_default_compare (fixed_allocator 0x2000 0 16)"

theorem hashmap_run_refines_witness:
  "\<exists>s u v x n. run careful_step (small_map, sample_world)
      [Insert 5 50 0, Insert 21 30 0, Find 5 u, Remove 5 v, Find 21 x, Size n] s \<and> u = 50 \<and> v = 50 \<and> x = 30 \<and> n = 1"
proof -
  have "map_option (\<lambda>(r, hm, w). (r, map_option (\<lambda>(r, hm, w). (r, occupied (buckets hm ! 0))) (vsc_hashmap_insert hm 21 30 w)))
      (vsc_hashmap_insert small_map 5 50 sample_world) = Some (0, Some (0, False))"
    by code_simp
  then obtain hm w hm1 w1 where ins: "vsc_hashmap_insert small_map 5 50 sample_world = Some (0, hm, w)"
    "vsc_hashmap_insert hm 21 30 w = Some (0, hm1, w1)" "\<not> occupied (buckets hm1 ! 0)"
    by auto
  obtain v hm2 where rem: "vsc_hashmap_remove hm1 5 = (v, hm2)" by (cases "vsc_hashmap_remove hm1 5")
  define es where "es = [Insert 5 50 0, Insert 21 30 0, Find 5 (vsc_hashmap_find hm1 5), Remove 5 v,
    Find 21 (vsc_hashmap_find hm2 21), Size (vsc_hashmap_size hm2)]"
  have run: "run careful_step (small_map, sample_world) es (hm2, w1)"
    unfolding es_def careful_step_def using ins rem by (intro run.intros) (auto intro: hashmap_step.intros run.none)
  then have "along (map_sound vsc_hashmap_default_compare) (map_effect vsc_hashmap_default_compare) (\<lambda>_. None, 0) es"
    using hashmap_run_refines [OF default_procs, of "fixed_allocator 0x2000 0 16" sample_world es hm2 w1, folded small_map_def]
    by (simp add: es_def)
  then have "vsc_hashmap_find hm1 5 = 50 \<and> v = 50 \<and> vsc_hashmap_find hm2 21 = 30 \<and> vsc_hashmap_size hm2 = 1"
    by (simp add: es_def assign_def value_of_def vsc_hashmap_default_compare_def word_eq_unatI)
  then show ?thesis using run unfolding es_def by blast
qed

end
