(* ===== verification/AllocatorCorrect.thy ===== *)
theory AllocatorCorrect
  imports Allocator
begin

text \<open>
  The system allocator implements a finite map from the pointers it handed out to the contents
  of their blocks, for every placement the C library may choose. The contract is the locale
  \<open>block_store\<close>, for blocks of any alignment, and \<open>block_allocator\<close>, which adds the reallocation of every
  block; their client lemmas are about the entry points of \<open>memory.c\<close>.
\<close>

section \<open>The C library's heap\<close>

definition apart :: "nat \<Rightarrow> nat \<Rightarrow> nat \<Rightarrow> nat \<Rightarrow> bool" where
  "apart a n b m \<longleftrightarrow> a + n \<le> b \<or> b + m \<le> a"

definition heap_ok :: "heap \<Rightarrow> bool" where
  "heap_ok h \<longleftrightarrow> distinct (map fst h) \<and> (\<forall>b n. (b, n) \<in> set h \<longrightarrow>
     b \<noteq> NULL \<and> 16 dvd unat b \<and> unat b + n \<le> 2 ^ 64 \<and>
     (\<forall>b' n'. (b', n') \<in> set h \<longrightarrow> b \<noteq> b' \<longrightarrow> apart (unat b) n (unat b') n'))"

text \<open>
  The standard's promise: a block that is not NULL is suitably aligned, lies in the address
  space and apart from every live block but the one it replaces.
\<close>

definition places_ok :: "libc \<Rightarrow> bool" where
  "places_ok c \<longleftrightarrow> (\<forall>h p n. let q = place c h p n in
     q \<noteq> NULL \<longrightarrow> 16 dvd unat q \<and> unat q + unat n \<le> 2 ^ 64 \<and>
       (\<forall>b k. (b, k) \<in> set h \<longrightarrow> b \<noteq> p \<longrightarrow> b \<noteq> q \<and> apart (unat b) k (unat q) (unat n)))"

lemma heap_okD:
  assumes "heap_ok h" "(b, n) \<in> set h"
  shows "b \<noteq> NULL" "16 dvd unat b" "unat b + n \<le> 2 ^ 64"
    "(b, n') \<in> set h \<Longrightarrow> n' = n" "(b', n') \<in> set h \<Longrightarrow> b \<noteq> b' \<Longrightarrow> apart (unat b) n (unat b') n'"
proof -
  note h = assms(1) [unfolded heap_ok_def, THEN conjunct2, rule_format, OF assms(2)]
  then show "b \<noteq> NULL" "16 dvd unat b" "unat b + n \<le> 2 ^ 64" by simp_all
  show "n' = n" if "(b, n') \<in> set h" using that assms by (auto simp: heap_ok_def dest: eq_key_imp_eq_value)
  show "apart (unat b) n (unat b') n'" if "(b', n') \<in> set h" "b \<noteq> b'" using h that by auto
qed

lemma apart_sym: "apart a n b m = apart b m a n"
  by (auto simp: apart_def)

lemma heap_drop_set [simp]: "(b, n) \<in> set (heap_drop p h) \<longleftrightarrow> (b, n) \<in> set h \<and> b \<noteq> p"
  by (auto simp: heap_drop_def)

lemma heap_ok_drop: "heap_ok h \<Longrightarrow> heap_ok (heap_drop p h)"
  by (subst heap_ok_def) (auto simp: heap_ok_def heap_drop_def distinct_map_filter)

lemma block_len_live: "heap_ok h \<Longrightarrow> (b, n) \<in> set h \<Longrightarrow> block_len h b = n"
  by (cases "map_of h b") (force simp: block_len_def map_of_eq_None_iff, auto simp: block_len_def dest: map_of_SomeD heap_okD(4))

lemma block_len_none: "heap_ok h \<Longrightarrow> block_len h NULL = 0"
  by (cases "map_of h NULL") (auto simp: block_len_def dest!: map_of_SomeD heap_okD(1))

lemma c_realloc_ok:
  assumes c: "places_ok c" and h: "heap_ok (os w)" and r: "c_realloc c p n w = (q, w')" and q: "q \<noteq> NULL"
  shows "16 dvd unat q" "unat q + unat n \<le> 2 ^ 64" "os w' = (q, unat n) # heap_drop p (os w)" "heap_ok (os w')"
    "\<And>x. unat x < unat q \<or> unat q + unat n \<le> unat x \<Longrightarrow> mem w' x = mem w x"
    "\<And>i. i < unat n \<Longrightarrow> i < block_len (os w) p \<Longrightarrow> mem w' (q + of_nat i) = mem w (p + of_nat i)"
proof -
  have "place c (os w) p n = q" using r q by (auto simp: c_realloc_def Let_def split: if_splits)
  then have pl: "16 dvd unat q" "unat q + unat n \<le> 2 ^ 64"
    "\<And>b k. (b, k) \<in> set (os w) \<Longrightarrow> b \<noteq> p \<Longrightarrow> b \<noteq> q \<and> apart (unat b) k (unat q) (unat n)"
    using c [unfolded places_ok_def Let_def, rule_format, of "os w" p n] q by simp_all
  then show "16 dvd unat q" "unat q + unat n \<le> 2 ^ 64" by simp_all
  have w': "os w' = (q, unat n) # heap_drop p (os w)"
    "mem w' = (\<lambda>x. if x - q < n then if unat (x - q) < block_len (os w) p then mem w (p + (x - q)) else junk c x
       else mem w x)"
    using r q by (auto simp: c_realloc_def Let_def split: if_splits)
  then show "os w' = (q, unat n) # heap_drop p (os w)" by simp
  show "heap_ok (os w')"
    unfolding w' heap_ok_def
  proof (intro conjI allI impI)
    have "distinct (map fst (heap_drop p (os w)))" using h by (simp add: heap_ok_def heap_drop_def distinct_map_filter)
    then show "distinct (map fst ((q, unat n) # heap_drop p (os w)))" using pl(3) by force
  qed (use pl q heap_okD [OF h] in \<open>auto simp: apart_sym [of "unat q"]\<close>)
  show "mem w' x = mem w x" if "unat x < unat q \<or> unat q + unat n \<le> unat x" for x
    using that in_range_iff [OF pl(2), of x] by (auto simp: w')
  show "mem w' (q + of_nat i) = mem w (p + of_nat i)" if "i < unat n" "i < block_len (os w) p" for i
    using that unat_bound64 [of n] by (simp add: w' word_less_nat_alt unat_of_nat64)
qed

section \<open>A block with its header\<close>

definition block_at :: "heap world \<Rightarrow> addr \<Rightarrow> addr \<Rightarrow> nat \<Rightarrow> nat \<Rightarrow> bool" where
  "block_at w hdr p n k \<longleftrightarrow>
     3 \<le> k \<and> k < 32 \<and> (hdr, 24 + n + 2 ^ k) \<in> set (os w) \<and> p = vsc__allocator_hdr2mem hdr (2 ^ k) \<and>
     hdr_size (mem w) hdr = of_nat n \<and> hdr_align_power (mem w) hdr = of_nat k \<and>
     hdr_sig (mem w) hdr = VSC__MEMHDR_SIG \<and> (p \<noteq> hdr + 24 \<longrightarrow> load64 (mem w) (p - 8) = hdr)"

text \<open>The geometry of a block, from the libc block that holds it.\<close>

lemma hdr2mem_bounds:
  assumes "16 dvd unat hdr" "3 \<le> k" "k < 32" "unat hdr + (24 + n + 2 ^ k) \<le> 2 ^ 64"
    and p: "p = vsc__allocator_hdr2mem hdr (2 ^ k)"
  shows "unat (hdr + 24) = unat hdr + 24" "unat hdr + 24 \<le> unat p" "unat p + n < unat hdr + (24 + n + 2 ^ k)"
    "2 ^ k dvd unat p" "8 dvd unat p" "p = hdr + 24 \<or> unat hdr + 32 \<le> unat p"
proof -
  have "(0 :: nat) < 2 ^ k" by simp
  then have "unat hdr + 24 < 2 ^ 64" using assms(4) by linarith
  then show h24: "unat (hdr + 24) = unat hdr + 24" by (simp add: unat_add64)
  have "unat p = (unat (hdr + 24) + 2 ^ k - 1) div 2 ^ k * 2 ^ k"
    unfolding p vsc__allocator_hdr2mem_def vsc_align_up_def sizeof_MemHeader_def
    by (rule unat_align_up) (use assms h24 in auto)
  then have u: "unat p = round_up (2 ^ k) (unat hdr + 24)" by (simp add: round_up_def h24)
  show ge: "unat hdr + 24 \<le> unat p" by (simp add: u round_up_ge)
  show "unat p + n < unat hdr + (24 + n + 2 ^ k)" using round_up_less [of "2 ^ k" "unat hdr + 24"] by (simp add: u)
  show "2 ^ k dvd unat p" by (simp add: u round_up_dvd)
  moreover have "(8 :: nat) dvd 2 ^ k" using assms(2) le_imp_power_dvd [of 3 k "2 :: nat"] by simp
  ultimately show d8: "8 dvd unat p" by (rule dvd_trans [rotated])
  show "p = hdr + 24 \<or> unat hdr + 32 \<le> unat p"
  proof (cases "unat p = unat hdr + 24")
    case True
    then show ?thesis using h24 by (intro disjI1 word_eq_unatI) simp
  next
    case False
    moreover obtain a b where "unat hdr = 16 * a" "unat p = 8 * b" using assms(1) d8 by (elim dvdE)
    ultimately have "unat hdr + 32 \<le> unat p" using ge by presburger
    then show ?thesis ..
  qed
qed

lemma block_at_bounds:
  assumes "heap_ok (os w)" "block_at w hdr p n k"
  shows "unat hdr + (24 + n + 2 ^ k) \<le> 2 ^ 64" "16 dvd unat hdr" "hdr \<noteq> NULL"
    "unat (hdr + 24) = unat hdr + 24" "unat hdr + 24 \<le> unat p" "unat p + n < unat hdr + (24 + n + 2 ^ k)"
    "2 ^ k dvd unat p" "8 dvd unat p" "p = hdr + 24 \<or> unat hdr + 32 \<le> unat p" "p \<noteq> NULL"
proof -
  have k: "3 \<le> k" "k < 32" "p = vsc__allocator_hdr2mem hdr (2 ^ k)" "(hdr, 24 + n + 2 ^ k) \<in> set (os w)"
    using assms(2) by (simp_all add: block_at_def)
  note live = heap_okD [OF assms(1) k(4)]
  show "unat hdr + (24 + n + 2 ^ k) \<le> 2 ^ 64" "16 dvd unat hdr" "hdr \<noteq> NULL" using live by simp_all
  note b = hdr2mem_bounds [OF live(2) k(1,2) live(3) k(3)]
  then show "unat (hdr + 24) = unat hdr + 24" "unat hdr + 24 \<le> unat p" "unat p + n < unat hdr + (24 + n + 2 ^ k)"
    "2 ^ k dvd unat p" "8 dvd unat p" "p = hdr + 24 \<or> unat hdr + 32 \<le> unat p" by simp_all
  show "p \<noteq> NULL" using b(2) by auto
qed

lemma align_down_8: "8 dvd unat p \<Longrightarrow> VSC_ALIGN_DOWN p 8 = p"
  using unat_align_down [of p 3] by (intro word_eq_unatI) (simp add: dvd_eq_mod_eq_0)

lemma mem2hdr_block:
  assumes "heap_ok (os w)" "block_at w hdr p n k"
  shows "vsc__allocator_mem2hdr (mem w) p = hdr"
proof -
  note b = block_at_bounds [OF assms]
  note unfold = vsc__allocator_mem2hdr_def align_down_8 [OF b(8)] sizeof_MemHeader_def Let_def
  show ?thesis
  proof (cases "p = hdr + 24")
    case True
    then have "p - 8 = hdr + 16" "p - 24 = hdr" by simp_all
    moreover have "hdr_sig (mem w) hdr = VSC__MEMHDR_SIG" using assms(2) by (simp add: block_at_def)
    ultimately show ?thesis by (simp only: unfold hdr_sig_def simp_thms if_True)
  next
    case False
    then have "load64 (mem w) (p - 8) = hdr" using assms(2) unfolding block_at_def by blast
    moreover have "hdr \<noteq> VSC__MEMHDR_SIG" using b(2) by (auto simp: VSC__MEMHDR_SIG_def)
    ultimately show ?thesis by (simp only: unfold simp_thms if_False)
  qed
qed

lemma block_at_cong:
  assumes "heap_ok (os w)" "block_at w hdr p n k" "(hdr, 24 + n + 2 ^ k) \<in> set (os w')"
    and eq: "\<And>x. unat hdr \<le> unat x \<Longrightarrow> unat x < unat p \<Longrightarrow> mem w' x = mem w x"
  shows "block_at w' hdr p n k"
proof -
  note b = block_at_bounds [OF assms(1,2)]
  have u: "unat (hdr + 8) = unat hdr + 8" "unat (hdr + 16) = unat hdr + 16" using b(1) by (simp_all add: unat_add64)
  have "load64 (mem w') q = load64 (mem w) q" if "unat hdr \<le> unat q" "unat q + 8 \<le> unat p" for q
    using that b(1,6) by (intro load64_outside eq) auto
  then have "load64 (mem w') hdr = load64 (mem w) hdr" "load64 (mem w') (hdr + 8) = load64 (mem w) (hdr + 8)"
    "load64 (mem w') (hdr + 16) = load64 (mem w) (hdr + 16)"
    "p \<noteq> hdr + 24 \<Longrightarrow> load64 (mem w') (p - 8) = load64 (mem w) (p - 8)"
    using b(5,9) by (simp_all add: u unat_sub64)
  then show ?thesis using assms(2,3) by (auto simp: block_at_def hdr_size_def hdr_align_power_def hdr_sig_def)
qed

text \<open>What the allocator stores around a fresh block.\<close>

definition stamp :: "addr \<Rightarrow> addr \<Rightarrow> size_t \<Rightarrow> byte \<Rightarrow> (addr \<Rightarrow> byte) \<Rightarrow> addr \<Rightarrow> byte" where
  "stamp nhdr p sz ap m =
     store_hdr nhdr sz ap (if nhdr + sizeof_MemHeader \<noteq> p then store64 (p - 8) nhdr m else m)"

lemma stamp_block:
  assumes "16 dvd unat q" "3 \<le> k" "k < 32" "unat q + (24 + n + 2 ^ k) \<le> 2 ^ 64"
    and p: "p = vsc__allocator_hdr2mem q (2 ^ k)" and live: "(q, 24 + n + 2 ^ k) \<in> set (os w)"
  shows "block_at (w\<lparr>mem := stamp q p (of_nat n) (of_nat k) m\<rparr>) q p n k"
    and "\<And>x. unat x < unat q \<or> unat p \<le> unat x \<Longrightarrow> stamp q p (of_nat n) (of_nat k) m x = m x"
proof -
  note b = hdr2mem_bounds [OF assms(1-4) p]
  have u: "unat (q + 8) = unat q + 8" "unat (q + 16) = unat q + 16" and le: "unat q + 24 \<le> 2 ^ 64"
    using b(1) assms(4) by (simp_all add: unat_add64)
  have u8: "unat (p - 8) = unat p - 8" using b(2) by (simp add: unat_sub64)
  have up: "unat p \<le> 2 ^ 64" using unat_bound64 [of p] by simp
  note other = load64_store64_other
  define m0 where "m0 = (if q + 24 \<noteq> p then store64 (p - 8) q m else m)"
  have st: "stamp q p (of_nat n) (of_nat k) m =
      store64 (q + 16) VSC__MEMHDR_SIG (store64 (q + 8) (ucast (of_nat k :: byte)) (store64 q (of_nat n) m0))"
    by (simp add: stamp_def store_hdr_def m0_def sizeof_MemHeader_def)
  define S where "S = stamp q p (of_nat n) (of_nat k) m"
  have S: "load64 S q = of_nat n" "load64 S (q + 8) = ucast (of_nat k :: byte)" "load64 S (q + 16) = VSC__MEMHDR_SIG"
    using le by (simp_all add: S_def st other u)
  have link: "load64 S (p - 8) = q" if "p \<noteq> q + 24"
  proof -
    have "unat q + 32 \<le> unat p" using b(6) that by simp
    then have "load64 S (p - 8) = load64 m0 (p - 8)" using le up by (simp add: S_def st other u u8)
    then show ?thesis using that by (simp add: m0_def)
  qed
  have "(ucast (ucast (of_nat k :: byte) :: uint64) :: byte) = of_nat k"
    by (auto simp: bit_eq_iff bit_unsigned_iff dest: bit_imp_le_length)
  then show "block_at (w\<lparr>mem := stamp q p (of_nat n) (of_nat k) m\<rparr>) q p n k"
    using assms(2,3) live link
    unfolding block_at_def hdr_size_def hdr_align_power_def hdr_sig_def S_def [symmetric]
    by (intro conjI p) (simp_all add: S)
  show "stamp q p (of_nat n) (of_nat k) m x = m x" if "unat x < unat q \<or> unat p \<le> unat x" for x
  proof -
    have "m0 x = m x"
      using that b(2,6) up by (auto simp: m0_def u8 intro!: store64_outside)
    then show ?thesis using that b(2) le by (auto simp: st store64_outside u)
  qed
qed

section \<open>The allocator's operations\<close>

text \<open>The block as \<open>malloc_\<close> leaves it when the C library has granted the request.\<close>

lemma granted_block:
  assumes c: "places_ok c" "heap_ok (os w)" and k: "3 \<le> k" "k < 32" and n: "24 + n + 2 ^ k < 2 ^ 64"
    and r: "c_realloc c hdr (of_nat (24 + n + 2 ^ k)) w = (q, w1)" and q: "q \<noteq> NULL"
    and p: "p = vsc__allocator_hdr2mem q (2 ^ k)"
    and w2: "w2 = w1\<lparr>mem := if z \<and> old < n then memset (p + of_nat old) 0 (of_nat n - of_nat old)
                (stamp q p (of_nat n) (of_nat k) (mem w1)) else stamp q p (of_nat n) (of_nat k) (mem w1)\<rparr>"
  shows "heap_ok (os w2)" "os w2 = (q, 24 + n + 2 ^ k) # heap_drop hdr (os w)" "block_at w2 q p n k"
    "\<And>x. unat x < unat q \<or> unat q + (24 + n + 2 ^ k) \<le> unat x \<Longrightarrow> mem w2 x = mem w x"
    "\<And>i. i < n \<Longrightarrow> mem w2 (p + of_nat i) = (if z \<and> old \<le> i then 0 else mem w1 (p + of_nat i))"
proof -
  let ?S = "stamp q p (of_nat n) (of_nat k) (mem w1)"
  have un: "unat (of_nat (24 + n + 2 ^ k) :: size_t) = 24 + n + 2 ^ k" using n by (rule unat_of_nat64)
  note g = c_realloc_ok [OF c r q, unfolded un]
  show os2: "os w2 = (q, 24 + n + 2 ^ k) # heap_drop hdr (os w)" and h2: "heap_ok (os w2)" using g(3,4) by (simp_all add: w2)
  have live: "(q, 24 + n + 2 ^ k) \<in> set (os w1)" by (simp add: g(3))
  note st = stamp_block [OF g(1) k g(2) p live] and b = hdr2mem_bounds [OF g(1) k g(2) p]
  have up: "unat p + n < 2 ^ 64" using b(3) g(2) by linarith
  have zero: "mem w2 x = (if z \<and> unat p + old \<le> unat x \<and> unat x < unat p + n then 0 else ?S x)" for x
  proof (cases "z \<and> old < n")
    case True
    have u: "unat (p + of_nat old) = unat p + old" "unat (of_nat n - of_nat old :: size_t) = n - old"
      using True up by (simp_all add: unat_add64 unat_of_nat64 unat_sub64)
    have "x - (p + of_nat old) < of_nat n - of_nat old \<longleftrightarrow> unat p + old \<le> unat x \<and> unat x < unat p + n"
      using True up by (subst in_range_iff) (auto simp: u)
    then show ?thesis using True by (simp add: w2 memset_def)
  qed (auto simp: w2)
  have "mem w2 x = mem (w1\<lparr>mem := ?S\<rparr>) x" if "unat q \<le> unat x" "unat x < unat p" for x using that by (simp add: zero)
  moreover have "heap_ok (os (w1\<lparr>mem := ?S\<rparr>))" "os w2 = os w1" using g(4) by (simp_all add: w2)
  ultimately show "block_at w2 q p n k" using live by (intro block_at_cong [OF _ st(1)]) simp_all
  show "mem w2 x = mem w x" if "unat x < unat q \<or> unat q + (24 + n + 2 ^ k) \<le> unat x" for x
    using that b(2,3) g(5) by (auto simp: zero st(2))
  show "mem w2 (p + of_nat i) = (if z \<and> old \<le> i then 0 else mem w1 (p + of_nat i))" if i: "i < n" for i
  proof -
    have "unat (p + of_nat i) = unat p + i" using i up by (simp add: unat_add64 unat_of_nat64)
    then show ?thesis using i by (simp add: zero st(2))
  qed
qed

lemma align_pow2: "3 \<le> k \<Longrightarrow> k < 32 \<Longrightarrow> (if (2 ^ k :: size_t) < 8 then 8 else 2 ^ k) = (2 ^ k :: size_t)"
  using power_increasing [of 3 k "2 :: nat"] by (simp add: word_less_nat_alt unat_pow2)

lemma vsc_ctz_exp: "k < 32 \<Longrightarrow> vsc_ctz (2 ^ k) = of_nat k"
  by (simp add: vsc_ctz_def vsc_ctz_loop_pow2)

lemma reqsize_of_nat: "sizeof_MemHeader + of_nat n + 2 ^ k = of_nat (24 + n + 2 ^ k)"
  by (simp add: sizeof_MemHeader_def)

lemma heap_drop_NULL: "heap_ok h \<Longrightarrow> heap_drop NULL h = h"
  by (auto simp: heap_drop_def filter_id_conv dest: heap_okD(1))

lemma malloc_fresh:
  assumes c: "places_ok c" "heap_ok (os w)" and k: "3 \<le> k" "k < 32" and n: "24 + n + 2 ^ k < 2 ^ 64"
    and r: "allocator_malloc c NULL (of_nat n) (2 ^ k) flags usr w = (r, p, w')"
  shows "r = VSC_ERROR ENOMEM \<and> p = NULL \<and> w' = w \<or>
    r = 0 \<and> (\<exists>q. heap_ok (os w') \<and> os w' = (q, 24 + n + 2 ^ k) # os w \<and> block_at w' q p n k \<and>
      (\<forall>x. unat x < unat q \<or> unat q + (24 + n + 2 ^ k) \<le> unat x \<longrightarrow> mem w' x = mem w x) \<and>
      (flags AND VSC_ALLOC_ZERO \<noteq> 0 \<longrightarrow> (\<forall>i<n. mem w' (p + of_nat i) = 0)))"
proof -
  obtain q w1 where q: "c_realloc c NULL (of_nat (24 + n + 2 ^ k)) w = (q, w1)" by fastforce
  let ?z = "flags AND VSC_ALLOC_ZERO \<noteq> 0"
  have Z: "(flags AND NOT VSC_ALLOC_REALLOC) AND VSC_ALLOC_ZERO = flags AND VSC_ALLOC_ZERO"
    by (simp add: alloc_flags and.assoc)
  have pos: "0 < (of_nat n :: size_t) \<longleftrightarrow> 0 < n" using n by (simp add: word_less_nat_alt unat_of_nat64)
  have m: "allocator_malloc c NULL (of_nat n) (2 ^ k) flags usr w =
    (if q = NULL then (VSC_ERROR ENOMEM, NULL, w1)
     else (0, vsc__allocator_hdr2mem q (2 ^ k),
       w1\<lparr>mem := if ?z \<and> 0 < n
          then memset (vsc__allocator_hdr2mem q (2 ^ k) + of_nat 0) 0 (of_nat n - of_nat 0)
            (stamp q (vsc__allocator_hdr2mem q (2 ^ k)) (of_nat n) (of_nat k) (mem w1))
          else stamp q (vsc__allocator_hdr2mem q (2 ^ k)) (of_nat n) (of_nat k) (mem w1)\<rparr>))"
    by (simp add: allocator_malloc_def Let_def align_pow2 [OF k] vsc_sys_realloc_def q reqsize_of_nat Z
        vsc_ctz_exp [OF k(2)] pos flip: stamp_def del: of_nat_add)
  show ?thesis
  proof (cases "q = NULL")
    case True
    then have "w1 = w" using q by (auto simp: c_realloc_def Let_def split: if_splits)
    then show ?thesis using r True by (simp add: m)
  next
    case False
    then have "p = vsc__allocator_hdr2mem q (2 ^ k)" "r = 0" using r by (simp_all add: m)
    note b = granted_block [OF c k n q False this(1), of w' ?z 0] and this
    moreover have "w' = w1\<lparr>mem := if ?z \<and> 0 < n
       then memset (p + of_nat 0) 0 (of_nat n - of_nat 0) (stamp q p (of_nat n) (of_nat k) (mem w1))
       else stamp q p (of_nat n) (of_nat k) (mem w1)\<rparr>"
      using r False by (auto simp: m)
    ultimately show ?thesis using heap_drop_NULL [OF c(2)] by auto
  qed
qed

lemma hdr2mem_default:
  assumes "16 dvd unat hdr" "unat hdr + (40 + n) \<le> 2 ^ 64"
  shows "vsc__allocator_hdr2mem hdr 16 = hdr + 32"
proof (rule word_eq_unatI)
  have b: "unat hdr + 24 \<le> unat (vsc__allocator_hdr2mem hdr 16)" "unat (vsc__allocator_hdr2mem hdr 16) < unat hdr + 40"
    "16 dvd unat (vsc__allocator_hdr2mem hdr 16)"
    using hdr2mem_bounds(2,3,4) [of hdr 4 0 "vsc__allocator_hdr2mem hdr 16"] assms by simp_all
  obtain x y where "unat hdr = 16 * x" "unat (vsc__allocator_hdr2mem hdr 16) = 16 * y" using assms(1) b(3) by (elim dvdE)
  then have "unat (vsc__allocator_hdr2mem hdr 16) = unat hdr + 32" using b(1,2) by presburger
  moreover have "unat (hdr + 32) = unat hdr + 32" using assms(2) by (simp add: unat_add64)
  ultimately show "unat (vsc__allocator_hdr2mem hdr 16) = unat (hdr + 32)" by simp
qed

lemma block_at_default:
  assumes "heap_ok (os w)" "block_at w hdr p n 4" shows "p = hdr + 32"
  using hdr2mem_default [of hdr n] block_at_bounds(1,2) [OF assms] assms(2) by (simp add: block_at_def)

lemma realloc_refuses:
  assumes "heap_ok (os w)" "block_at w hdr p old k" "4 < k" "flags AND VSC_ALLOC_REALLOC \<noteq> 0"
  shows "allocator_malloc c p sz 16 flags usr w = (VSC_ERROR EINVAL, p, w)"
proof -
  note b = block_at_bounds(10) [OF assms(1,2)]
  have k: "k < 32" "hdr_align_power (mem w) hdr = of_nat k" using assms(2) by (simp_all add: block_at_def)
  have "(16 :: nat) < 2 ^ k" using assms(3) power_strict_increasing [of 4 k "2 :: nat"] by simp
  moreover have "(ucast (push_bit k 1 :: uint32) :: size_t) = 2 ^ k"
    by (rule bit_word_eqI) (use k(1) in \<open>auto simp: push_bit_eq_mult bit_unsigned_iff bit_exp_iff\<close>)
  ultimately have "(16 :: size_t) < ucast (push_bit k 1 :: uint32)" using k(1) by (simp add: word_less_nat_alt unat_pow2)
  moreover have "unat (of_nat k :: byte) = k" using k(1) by (simp add: unat_of_nat)
  ultimately show ?thesis
    using assms(4) b by (simp add: allocator_malloc_def mem2hdr_block [OF assms(1,2)] k Let_def)
qed

lemma realloc_default:
  assumes c: "places_ok c" "heap_ok (os w)" and b: "block_at w hdr p old 4" and n: "40 + n < 2 ^ 64"
    and re: "flags AND VSC_ALLOC_REALLOC \<noteq> 0"
    and r: "allocator_malloc c p (of_nat n) 16 flags usr w = (r, p', w')"
  shows "r = VSC_ERROR ENOMEM \<and> p' = p \<and> w' = w \<or>
    r = 0 \<and> (\<exists>q. heap_ok (os w') \<and> os w' = (q, 40 + n) # heap_drop hdr (os w) \<and> block_at w' q p' n 4 \<and>
      (\<forall>x. unat x < unat q \<or> unat q + (40 + n) \<le> unat x \<longrightarrow> mem w' x = mem w x) \<and>
      (\<forall>i<n. if i < old then mem w' (p' + of_nat i) = mem w (p + of_nat i)
            else flags AND VSC_ALLOC_ZERO \<noteq> 0 \<longrightarrow> mem w' (p' + of_nat i) = 0))"
proof -
  note bb = block_at_bounds [OF c(2) b] and p = block_at_default [OF c(2) b]
  have hdr: "hdr_size (mem w) hdr = of_nat old" "hdr_align_power (mem w) hdr = 4" "(hdr, 40 + old) \<in> set (os w)"
    using b by (simp_all add: block_at_def)
  have m2h: "vsc__allocator_mem2hdr (mem w) (hdr + 32) = hdr" using mem2hdr_block [OF c(2) b] by (simp only: p)
  have un: "unat (40 + of_nat n :: size_t) = 40 + n" using unat_of_nat64 [of "40 + n"] n by simp
  have total: "24 + n + 2 ^ 4 = 40 + n" by simp
  obtain q w1 where q: "c_realloc c hdr (of_nat (24 + n + 2 ^ 4)) w = (q, w1)" by fastforce
  let ?z = "flags AND VSC_ALLOC_ZERO \<noteq> 0"
  have old: "old < 2 ^ 64" using bb(1) by simp
  have lt: "of_nat old < (of_nat n :: size_t) \<longleftrightarrow> old < n" using n old by (simp add: word_less_nat_alt unat_of_nat64)
  have p': "vsc__allocator_hdr2mem q 16 = q + 32" if "q \<noteq> NULL"
    using c_realloc_ok(1,2) [OF c q that] n unat_of_nat64 [of "40 + n"] by (intro hdr2mem_default [of q n]) simp_all
  have m: "allocator_malloc c p (of_nat n) 16 flags usr w =
    (if q = NULL then (VSC_ERROR ENOMEM, p, w1)
     else (0, q + 32, w1\<lparr>mem := if ?z \<and> old < n
          then memset (q + 32 + of_nat old) 0 (of_nat n - of_nat old) (stamp q (q + 32) (of_nat n) (of_nat 4) (mem w1))
          else stamp q (q + 32) (of_nat n) (of_nat 4) (mem w1)\<rparr>))"
    using re bb(10) vsc_ctz_exp [of 4] p'
    by (simp add: allocator_malloc_def Let_def m2h hdr p vsc_sys_realloc_def lt q [unfolded total of_nat_add, simplified]
        sizeof_MemHeader_def stamp_def)
  show ?thesis
  proof (cases "q = NULL")
    case True
    then have "w1 = w" using q by (auto simp: c_realloc_def Let_def split: if_splits)
    then show ?thesis using r True by (simp add: m)
  next
    case False
    then have "p' = q + 32" "r = 0" using r by (simp_all add: m)
    moreover have "w' = w1\<lparr>mem := if ?z \<and> old < n
       then memset (p' + of_nat old) 0 (of_nat n - of_nat old) (stamp q p' (of_nat n) (of_nat 4) (mem w1))
       else stamp q p' (of_nat n) (of_nat 4) (mem w1)\<rparr>"
      using r False by (auto simp: m)
    moreover note g = granted_block [OF c _ _ _ q False _ this]
    moreover have "mem w1 (p' + of_nat i) = mem w (p + of_nat i)" if "i < n" "i < old" for i
      using c_realloc_ok(6) [OF c q False, of "32 + i"] that n block_len_live [OF c(2) hdr(3)]
      by (simp add: un p \<open>p' = q + 32\<close> add.assoc)
    ultimately show ?thesis using n p' [OF False] by auto
  qed
qed

section \<open>The contract of an allocator\<close>

text \<open>
  \<open>rep w H\<close>: in the world \<open>w\<close> the allocator has handed out the blocks \<open>H\<close>, a map from pointers
  to contents. Requests of \<open>limit\<close> bytes or more are outside the contract. The first locale has
  everything but reallocation.
\<close>

locale block_store =
  fixes a :: "'s VscAllocator" and rep :: "'s world \<Rightarrow> (addr \<Rightarrow> byte list option) \<Rightarrow> bool" and limit :: nat
  assumes null: "rep w H \<Longrightarrow> H NULL = None" and own_alignment: "alignment a \<noteq> 0"
    and sizeD: "rep w H \<Longrightarrow> H p = Some bs \<Longrightarrow> size_proc a p (user a) w = of_nat (length bs)"
    and freeD: "rep w H \<Longrightarrow> H p = Some bs \<Longrightarrow> rep (free_proc a p (user a) w) (H(p := None))"
    and allocD: "rep w H \<Longrightarrow> unat sz < limit \<Longrightarrow> flags AND VSC_ALLOC_REALLOC = 0 \<Longrightarrow>
      alloc_proc a NULL sz (alignment a) flags (user a) w = (r, p, w') \<Longrightarrow>
      r < 0 \<and> rep w' H \<or>
      r = 0 \<and> H p = None \<and> (\<exists>bs. length bs = unat sz \<and> rep w' (H(p \<mapsto> bs)) \<and>
        (flags AND VSC_ALLOC_ZERO \<noteq> 0 \<longrightarrow> bs = replicate (unat sz) 0))"
    and placed: "rep w H \<Longrightarrow> H p = Some bs \<Longrightarrow> unat p + length bs < 2 ^ 64"
    and loadD: "rep w H \<Longrightarrow> H p = Some bs \<Longrightarrow> i < length bs \<Longrightarrow> mem w (p + of_nat i) = bs ! i"
    and storeD: "rep w H \<Longrightarrow> H p = Some bs \<Longrightarrow> i < length bs \<Longrightarrow>
      rep (w\<lparr>mem := (mem w)(p + of_nat i := v)\<rparr>) (H(p \<mapsto> bs[i := v]))"

context block_store begin

lemma xfree_spec: "rep w H \<Longrightarrow> p \<in> dom H \<or> p = NULL \<Longrightarrow> rep (vsc_xfree a p w) (H(p := None))"
  using null [of w H] freeD by (auto simp: vsc_xfree_def fun_upd_idem)

lemma xalloc_ex_fresh:
  assumes "rep w H" "unat sz < limit" "flags AND VSC_ALLOC_NOFAIL = 0"
  shows "\<exists>r p w'. vsc_xalloc_ex a NULL sz flags (alignment a) w = Some (r, p, w') \<and>
    (r < 0 \<and> rep w' H \<or> r = 0 \<and> p \<noteq> NULL \<and> H p = None \<and>
      (\<exists>bs. length bs = unat sz \<and> rep w' (H(p \<mapsto> bs)) \<and>
        (flags AND VSC_ALLOC_ZERO \<noteq> 0 \<longrightarrow> bs = replicate (unat sz) 0)))"
proof -
  let ?f = "flags AND NOT VSC_ALLOC_REALLOC"
  obtain r p w' where r: "alloc_proc a NULL sz (alignment a) ?f (user a) w = (r, p, w')" by (metis prod_cases3)
  have f: "?f AND VSC_ALLOC_NOFAIL = 0" "?f AND VSC_ALLOC_ZERO = flags AND VSC_ALLOC_ZERO"
    using assms(3) by (simp_all add: alloc_flags and.assoc)
  have "vsc_xalloc_ex a NULL sz flags (alignment a) w = Some (if r < 0 then r else 0, p, w')"
    using r f by (simp add: vsc_xalloc_ex_def Let_def)
  moreover have "p \<noteq> NULL" if "rep w' (H(p \<mapsto> bs))" for bs using null [OF that] by auto
  ultimately show ?thesis using allocD [OF assms(1,2) _ r] f by (auto split: if_splits)
qed

lemma xalloc_spec:
  assumes "rep w H" "unat sz < limit"
  shows "\<exists>p w'. vsc_xalloc a sz w = Some (p, w') \<and>
    (p = NULL \<and> rep w' H \<or> p \<noteq> NULL \<and> H p = None \<and> (\<exists>bs. length bs = unat sz \<and> rep w' (H(p \<mapsto> bs))))"
  using xalloc_ex_fresh [OF assms, of 0] by (auto simp: vsc_xalloc_def)

lemma xcalloc_spec:
  assumes "rep w H" "unat nmemb * unat sz < limit" "limit \<le> 2 ^ 64"
  shows "\<exists>p w'. vsc_xcalloc a nmemb sz w = Some (p, w') \<and>
    (p = NULL \<and> rep w' H \<or> p \<noteq> NULL \<and> H p = None \<and> rep w' (H(p \<mapsto> replicate (unat nmemb * unat sz) 0)))"
proof -
  have u: "unat (sz * nmemb) = unat nmemb * unat sz" using assms(2,3) by (simp add: unat_mult64 mult.commute)
  have "vsc_xcalloc a nmemb sz w = map_option null_on_error (vsc_xalloc_ex a NULL (sz * nmemb) VSC_ALLOC_ZERO 0 w) \<or>
    vsc_xcalloc a nmemb sz w = Some (NULL, w)"
    by (simp add: vsc_xcalloc_def)
  moreover have "vsc_xalloc_ex a NULL (sz * nmemb) VSC_ALLOC_ZERO 0 w =
      vsc_xalloc_ex a NULL (sz * nmemb) VSC_ALLOC_ZERO (alignment a) w"
    by (simp add: vsc_xalloc_ex_def)
  ultimately show ?thesis
    using xalloc_ex_fresh [of w H "sz * nmemb" VSC_ALLOC_ZERO] assms by (auto simp: u alloc_flags)
qed

lemma xrealloc_fresh:
  assumes "rep w H" "unat sz < limit" "sz \<noteq> 0"
  shows "\<exists>p w'. vsc_xrealloc a NULL sz w = Some (p, w') \<and>
    (p = NULL \<and> rep w' H \<or> p \<noteq> NULL \<and> H p = None \<and> (\<exists>bs. length bs = unat sz \<and> rep w' (H(p \<mapsto> bs))))"
proof -
  have "vsc_xalloc_ex a NULL sz VSC_ALLOC_REALLOC 0 w = vsc_xalloc_ex a NULL sz VSC_ALLOC_REALLOC (alignment a) w"
    by (simp add: vsc_xalloc_ex_def)
  then show ?thesis
    using xalloc_ex_fresh [OF assms(1,2), of VSC_ALLOC_REALLOC] assms(3) by (auto simp: vsc_xrealloc_def alloc_flags)
qed

text \<open>The reallocation of a block, for which the allocator has an answer, at a \<open>good\<close> place if it moves.\<close>

lemma xrealloc_block:
  assumes "rep w H" "sz \<noteq> 0" "H p = Some bs"
    and answer: "\<And>r q w'. alloc_proc a p sz (alignment a) VSC_ALLOC_REALLOC (user a) w = (r, q, w') \<Longrightarrow>
      r < 0 \<and> r \<noteq> VSC_ERROR ENOTSUP \<and> rep w' H \<or>
      r = 0 \<and> (q = p \<or> H q = None) \<and> (\<exists>bs'. length bs' = unat sz \<and> rep w' ((H(p := None))(q \<mapsto> bs')) \<and>
        take (length bs) bs' = take (unat sz) bs) \<and> good q"
  shows "\<exists>q w'. vsc_xrealloc a p sz w = Some (q, w') \<and>
    (q = NULL \<and> rep w' H \<or> q \<noteq> NULL \<and> (q = p \<or> H q = None) \<and>
      (\<exists>bs'. length bs' = unat sz \<and> rep w' ((H(p := None))(q \<mapsto> bs')) \<and> take (length bs) bs' = take (unat sz) bs) \<and> good q)"
proof -
  obtain r q w' where r: "alloc_proc a p sz (alignment a) VSC_ALLOC_REALLOC (user a) w = (r, q, w')" by (metis prod_cases3)
  have p: "p \<noteq> NULL" using null [OF assms(1)] assms(3) by auto
  have f: "VSC_ALLOC_REALLOC AND VSC_ALLOC_NOFAIL = 0" "VSC_ALLOC_REALLOC \<noteq> 0"
    by (simp_all add: alloc_flags)
  note R = answer [OF r]
  then have "r \<noteq> VSC_ERROR ENOTSUP" by auto
  then have "vsc_xalloc_ex a p sz VSC_ALLOC_REALLOC 0 w = Some (if r < 0 then r else 0, q, w')"
    using r f p by (simp add: vsc_xalloc_ex_def Let_def)
  moreover have "r = 0 \<Longrightarrow> q \<noteq> NULL" using R null [of w'] by fastforce
  ultimately show ?thesis using R assms(2) by (auto simp: vsc_xrealloc_def split: if_splits)
qed

end

locale block_allocator = block_store a rep limit
  for a :: "'s VscAllocator" and rep :: "'s world \<Rightarrow> (addr \<Rightarrow> byte list option) \<Rightarrow> bool" and limit :: nat +
  assumes reallocD: "rep w H \<Longrightarrow> unat sz < limit \<Longrightarrow> flags AND VSC_ALLOC_REALLOC \<noteq> 0 \<Longrightarrow> H p = Some bs \<Longrightarrow>
      alloc_proc a p sz (alignment a) flags (user a) w = (r, q, w') \<Longrightarrow>
      r < 0 \<and> r \<noteq> VSC_ERROR ENOTSUP \<and> rep w' H \<or>
      r = 0 \<and> (q = p \<or> H q = None) \<and> (\<exists>bs'. length bs' = unat sz \<and> rep w' ((H(p := None))(q \<mapsto> bs')) \<and>
        take (length bs) bs' = take (unat sz) bs)"

context block_allocator begin

lemma xrealloc_spec:
  assumes "rep w H" "unat sz < limit" "sz \<noteq> 0" "H p = Some bs"
  shows "\<exists>q w'. vsc_xrealloc a p sz w = Some (q, w') \<and>
    (q = NULL \<and> rep w' H \<or> q \<noteq> NULL \<and> (q = p \<or> H q = None) \<and>
      (\<exists>bs'. length bs' = unat sz \<and> rep w' ((H(p := None))(q \<mapsto> bs')) \<and> take (length bs) bs' = take (unat sz) bs))"
proof -
  have "VSC_ALLOC_REALLOC AND VSC_ALLOC_REALLOC \<noteq> 0" by (simp add: alloc_flags)
  note reallocD [OF assms(1,2) this assms(4)]
  then show ?thesis using xrealloc_block [OF assms(1,3,4), of "\<lambda>_. True"] by simp
qed

end

section \<open>The system allocator meets the contract\<close>

definition sys_block :: "heap world \<Rightarrow> addr \<Rightarrow> addr \<Rightarrow> byte list \<Rightarrow> bool" where
  "sys_block w hdr p bs \<longleftrightarrow> (\<exists>k. block_at w hdr p (length bs) k) \<and> (\<forall>i<length bs. mem w (p + of_nat i) = bs ! i)"

text \<open>
  The blocks handed out, of any alignment below \<open>2 ^ 32\<close>, and the states in which all of them are
  aligned to 16 or more, as those of \<open>vsc_malloc\<close> are. A block of a smaller alignment lies 24 bytes
  behind its header, at no multiple of 16.
\<close>

definition sys_blocks :: "libc \<Rightarrow> heap world \<Rightarrow> (addr \<Rightarrow> byte list option) \<Rightarrow> bool" where
  "sys_blocks c w H \<longleftrightarrow> places_ok c \<and> heap_ok (os w) \<and> (\<forall>p bs. H p = Some bs \<longrightarrow> (\<exists>hdr. sys_block w hdr p bs))"

definition sys_rep :: "libc \<Rightarrow> heap world \<Rightarrow> (addr \<Rightarrow> byte list option) \<Rightarrow> bool" where
  "sys_rep c w H \<longleftrightarrow> sys_blocks c w H \<and> (\<forall>p\<in>dom H. 16 dvd unat p)"

lemma sys_rep_blocks: "sys_rep c w H \<Longrightarrow> sys_blocks c w H"
  by (simp add: sys_rep_def)

lemma sys_repD: "sys_rep c w H \<Longrightarrow> places_ok c" "sys_rep c w H \<Longrightarrow> heap_ok (os w)"
  by (simp_all add: sys_rep_def sys_blocks_def)

lemma sys_blocks_empty: "places_ok c \<Longrightarrow> heap_ok (os w) \<Longrightarrow> sys_blocks c w Map.empty"
  by (simp add: sys_blocks_def)

lemma sys_rep_update: "sys_rep c w H \<Longrightarrow> sys_blocks c w' (H(p \<mapsto> bs)) \<Longrightarrow> 16 dvd unat p \<Longrightarrow> sys_rep c w' (H(p \<mapsto> bs))"
  and sys_rep_drop: "sys_rep c w H \<Longrightarrow> sys_blocks c w' (H(p := None)) \<Longrightarrow> sys_rep c w' (H(p := None))"
  and sys_rep_same: "sys_rep c w H \<Longrightarrow> sys_blocks c w' H \<Longrightarrow> sys_rep c w' H"
  by (simp_all add: sys_rep_def)

lemma sys_blockD:
  assumes "heap_ok (os w)" "sys_block w hdr p bs"
  obtains n where "(hdr, n) \<in> set (os w)" "unat hdr + n \<le> 2 ^ 64" "unat hdr + 24 \<le> unat p"
    "unat p + length bs < unat hdr + n" "vsc__allocator_mem2hdr (mem w) p = hdr" "hdr_size (mem w) hdr = of_nat (length bs)"
    "p \<noteq> NULL"
proof -
  obtain k where k: "block_at w hdr p (length bs) k" using assms(2) by (auto simp: sys_block_def)
  note b = block_at_bounds [OF assms(1) k] and m = mem2hdr_block [OF assms(1) k]
  show thesis
    by (rule that [OF _ b(1,5,6) m _ b(10)]) (use k in \<open>auto simp: block_at_def\<close>)
qed

lemma sys_block_inj:
  assumes "heap_ok (os w)" "sys_block w hdr p bs" "sys_block w hdr p' bs'" shows "p = p'"
proof -
  obtain k k' where k: "block_at w hdr p (length bs) k" "block_at w hdr p' (length bs') k'"
    using assms(2,3) by (auto simp: sys_block_def)
  then have "(of_nat k :: byte) = of_nat k'" "k < 32" "k' < 32" by (auto simp: block_at_def)
  then have "unat (of_nat k :: byte) = unat (of_nat k' :: byte)" by simp
  then have "k = k'" using \<open>k < 32\<close> \<open>k' < 32\<close> by (simp add: unat_of_nat)
  then show ?thesis using k by (simp add: block_at_def)
qed

lemma sys_block_cong:
  assumes "heap_ok (os w)" "sys_block w hdr p bs"
    and "\<And>n. (hdr, n) \<in> set (os w) \<Longrightarrow> (hdr, n) \<in> set (os w')"
    and "\<And>n x. (hdr, n) \<in> set (os w) \<Longrightarrow> unat hdr \<le> unat x \<Longrightarrow> unat x < unat hdr + n \<Longrightarrow> mem w' x = mem w x"
  shows "sys_block w' hdr p bs"
proof -
  obtain k where k: "block_at w hdr p (length bs) k" using assms(2) by (auto simp: sys_block_def)
  note b = block_at_bounds [OF assms(1) k]
  have live: "(hdr, 24 + length bs + 2 ^ k) \<in> set (os w)" using k by (simp add: block_at_def)
  have "block_at w' hdr p (length bs) k"
    using b(5,6) by (intro block_at_cong [OF assms(1) k assms(3)] assms(4) [OF live] live) auto
  moreover have "mem w' (p + of_nat i) = mem w (p + of_nat i)" if "i < length bs" for i
  proof (rule assms(4) [OF live])
    have "unat (p + of_nat i) = unat p + i" using that b(1,6) by (simp add: unat_add64 unat_of_nat64)
    then show "unat hdr \<le> unat (p + of_nat i)" "unat (p + of_nat i) < unat hdr + (24 + length bs + 2 ^ k)"
      using that b(5,6) by simp_all
  qed
  ultimately show ?thesis using assms(2) by (auto simp: sys_block_def)
qed

text \<open>A block placed by the C library changes no other block.\<close>

lemma sys_block_kept:
  assumes ok: "heap_ok (os w)" "heap_ok (os w')" and os: "os w' = (q, n) # heap_drop hdr (os w)"
    and eq: "\<And>x. unat x < unat q \<or> unat q + n \<le> unat x \<Longrightarrow> mem w' x = mem w x"
    and b: "sys_block w hdr' p bs" "hdr' \<noteq> hdr"
  shows "sys_block w' hdr' p bs" "unat p < unat q \<or> unat q + n \<le> unat p"
proof -
  have live: "(hdr', m) \<in> set (os w')" if "(hdr', m) \<in> set (os w)" for m using that b(2) by (simp add: os)
  have sep: "apart (unat hdr') m (unat q) n" if "(hdr', m) \<in> set (os w)" for m
  proof (rule heap_okD(5) [OF ok(2) live [OF that]])
    show "(q, n) \<in> set (os w')" by (simp add: os)
    have "(hdr', m) \<in> set (heap_drop hdr (os w))" using that b(2) by simp
    moreover have "q \<notin> fst ` set (heap_drop hdr (os w))" using ok(2) by (simp add: heap_ok_def os)
    ultimately show "hdr' \<noteq> q" using rev_image_eqI [of "(hdr', m)" _ q fst] by auto
  qed
  show "sys_block w' hdr' p bs"
  proof (rule sys_block_cong [OF ok(1) b(1) live])
    fix m and x :: addr assume "(hdr', m) \<in> set (os w)" "unat hdr' \<le> unat x" "unat x < unat hdr' + m"
    then show "mem w' x = mem w x" using sep [of m] by (intro eq) (auto simp: apart_def)
  qed
  obtain m where "(hdr', m) \<in> set (os w)" "unat hdr' + 24 \<le> unat p" "unat p + length bs < unat hdr' + m"
    using sys_blockD [OF ok(1) b(1)] by metis
  then show "unat p < unat q \<or> unat q + n \<le> unat p" using sep [of m] by (auto simp: apart_def)
qed

lemma block_at_contents:
  "block_at w q p n k \<Longrightarrow> sys_block w q p (map (\<lambda>i. mem w (p + of_nat i)) [0..<n])"
  by (auto simp: sys_block_def)

lemma block_inside:
  "heap_ok (os w) \<Longrightarrow> block_at w q p n k \<Longrightarrow> unat q \<le> unat p \<and> unat p < unat q + (24 + n + 2 ^ k)"
  using block_at_bounds(5,6) [of w q p n k] by simp

lemma blocks_alloc:
  assumes rep: "sys_blocks c w H" and lim: "24 + unat sz + 2 ^ k < 2 ^ 64" and k: "3 \<le> k" "k < 32"
    and r: "allocator_malloc c NULL sz (2 ^ k) flags usr w = (r, p, w')"
  shows "r < 0 \<and> sys_blocks c w' H \<or>
      r = 0 \<and> H p = None \<and> 2 ^ k dvd unat p \<and> (\<exists>bs. length bs = unat sz \<and> sys_blocks c w' (H(p \<mapsto> bs)) \<and>
        (flags AND VSC_ALLOC_ZERO \<noteq> 0 \<longrightarrow> bs = replicate (unat sz) 0))"
proof -
  define n where "n = unat sz"
  have ok: "places_ok c" "heap_ok (os w)" and bl: "\<And>p bs. H p = Some bs \<Longrightarrow> \<exists>hdr. sys_block w hdr p bs"
    using rep by (auto simp: sys_blocks_def)
  have "allocator_malloc c NULL (of_nat n) (2 ^ k) flags usr w = (r, p, w')" using r by (simp add: n_def)
  note fresh = malloc_fresh [OF ok _ k(2) _ this]
  have "24 + n + 2 ^ k < 2 ^ 64" "3 \<le> k" using lim k by (simp_all add: n_def)
  then consider "r = VSC_ERROR ENOMEM" "w' = w"
    | q where "r = 0" "heap_ok (os w')" "os w' = (q, 24 + n + 2 ^ k) # os w" "block_at w' q p n k"
      "\<forall>x. (unat x < unat q \<longrightarrow> mem w' x = mem w x) \<and> (unat q + (24 + n + 2 ^ k) \<le> unat x \<longrightarrow> mem w' x = mem w x)"
      "flags AND VSC_ALLOC_ZERO \<noteq> 0 \<longrightarrow> (\<forall>i<n. mem w' (p + of_nat i) = 0)"
    using fresh by fastforce
  then show ?thesis
  proof cases
    case 2
    have kept: "\<exists>hdr. sys_block w' hdr p' bs" "p' \<noteq> p" if "H p' = Some bs" for p' bs
    proof -
      obtain hdr where hdr: "sys_block w hdr p' bs" using bl [OF \<open>H p' = Some bs\<close>] ..
      obtain m where "(hdr, m) \<in> set (os w)" using sys_blockD [OF ok(2) hdr] by metis
      then have "hdr \<noteq> NULL" using heap_okD(1) [OF ok(2)] by simp
      have fr: "mem w' x = mem w x" if "unat x < unat q \<or> unat q + (24 + n + 2 ^ k) \<le> unat x" for x using 2(5) that by auto
      have "os w' = (q, 24 + n + 2 ^ k) # heap_drop NULL (os w)" using 2(3) heap_drop_NULL [OF ok(2)] by simp
      note k = sys_block_kept [OF ok(2) 2(2) this fr hdr \<open>hdr \<noteq> NULL\<close>]
      show "\<exists>hdr. sys_block w' hdr p' bs" "p' \<noteq> p"
        using k block_inside [OF 2(2,4)] by auto
    qed
    let ?bs = "map (\<lambda>i. mem w' (p + of_nat i)) [0..<n]"
    have "sys_blocks c w' (H(p \<mapsto> ?bs))"
      using ok(1) 2(2) kept block_at_contents [OF 2(4)] by (auto simp: sys_blocks_def)
    moreover have "H p = None" using kept(2) [of p] by (cases "H p") auto
    moreover have "?bs = replicate n 0" if "flags AND VSC_ALLOC_ZERO \<noteq> 0"
      using 2(6) that by (auto intro: nth_equalityI)
    ultimately show ?thesis using 2(1) block_at_bounds(7) [OF 2(2,4)] by (auto simp: n_def intro!: exI [of _ ?bs])
  qed (use rep in simp)
qed

text \<open>A block at a multiple of 16 has an alignment of 16 or more.\<close>

lemma hdr2mem_8:
  assumes "16 dvd unat hdr" "unat hdr + (32 + n) \<le> 2 ^ 64" shows "vsc__allocator_hdr2mem hdr 8 = hdr + 24"
  using hdr2mem_bounds(2,3,5,6) [of hdr 3 0 "vsc__allocator_hdr2mem hdr 8"] assms by auto

lemma block_at_16:
  assumes "heap_ok (os w)" "block_at w hdr p n k" "16 dvd unat p"
  shows "4 \<le> k"
proof (rule ccontr)
  assume "\<not> 4 \<le> k"
  with assms(2) have k: "k = 3" by (simp add: block_at_def)
  note b = block_at_bounds [OF assms(1,2)]
  have "p = hdr + 24" using hdr2mem_8 [of hdr n] b(1,2) assms(2) by (simp add: k block_at_def)
  then have "unat p = unat hdr + 24" using b(4) by simp
  with b(2) assms(3) show False by presburger
qed

lemma blocks_realloc:
  assumes rep: "sys_blocks c w H" and lim: "unat sz < 2 ^ 64 - 40" and fl: "flags AND VSC_ALLOC_REALLOC \<noteq> 0"
    and H: "H p = Some bs" and p16: "16 dvd unat p" and r: "allocator_malloc c p sz 16 flags usr w = (r, p', w')"
  shows "r < 0 \<and> r \<noteq> VSC_ERROR ENOTSUP \<and> sys_blocks c w' H \<or>
      r = 0 \<and> (p' = p \<or> H p' = None) \<and> (\<exists>bs'. length bs' = unat sz \<and>
        sys_blocks c w' ((H(p := None))(p' \<mapsto> bs')) \<and> take (length bs) bs' = take (unat sz) bs) \<and> 16 dvd unat p'"
proof -
  define n where "n = unat sz"
  have ok: "places_ok c" "heap_ok (os w)" and bl: "\<And>p bs. H p = Some bs \<Longrightarrow> \<exists>hdr. sys_block w hdr p bs"
    using rep by (auto simp: sys_blocks_def)
  obtain hdr k where hdr: "sys_block w hdr p bs" "4 \<le> k" "block_at w hdr p (length bs) k"
    using bl [OF H] block_at_16 [OF ok(2) _ p16] by (auto simp: sys_block_def)
  show ?thesis
  proof (cases "k = 4")
    case False
    then show ?thesis using realloc_refuses [OF ok(2) hdr(3) _ fl, of c sz usr] r hdr(2) rep by simp
  next
    case True
    have "allocator_malloc c p (of_nat n) 16 flags usr w = (r, p', w')" using r by (simp add: n_def)
    note moved = realloc_default [OF ok hdr(3) [unfolded True] _ fl this, simplified]
    have "n < 2 ^ 64 - 40" using lim by (simp add: n_def)
    then consider "r = VSC_ERROR ENOMEM" "w' = w"
      | q where "r = 0" "heap_ok (os w')" "os w' = (q, 40 + n) # heap_drop hdr (os w)" "block_at w' q p' n 4"
        "\<forall>x. (unat x < unat q \<longrightarrow> mem w' x = mem w x) \<and> (unat q + (40 + n) \<le> unat x \<longrightarrow> mem w' x = mem w x)"
        "\<forall>i<n. (i < length bs \<longrightarrow> mem w' (p' + of_nat i) = mem w (p + of_nat i)) \<and>
           (\<not> i < length bs \<longrightarrow> flags AND VSC_ALLOC_ZERO \<noteq> 0 \<longrightarrow> mem w' (p' + of_nat i) = 0)"
      using moved by fastforce
    then show ?thesis
    proof cases
      case 2
      have kept: "\<exists>hdr. sys_block w' hdr s ds" "s \<noteq> p'" if s: "H s = Some ds" "s \<noteq> p" for s ds
      proof -
        obtain hdr' where hdr': "sys_block w hdr' s ds" using bl [OF s(1)] ..
        then have "hdr' \<noteq> hdr" using sys_block_inj [OF ok(2) hdr(1)] s(2) by blast
        have fr: "mem w' x = mem w x" if "unat x < unat q \<or> unat q + (40 + n) \<le> unat x" for x using 2(5) that by auto
        note k = sys_block_kept [OF ok(2) 2(2,3) fr hdr' \<open>hdr' \<noteq> hdr\<close>]
        show "\<exists>hdr. sys_block w' hdr s ds" "s \<noteq> p'" using k block_inside [OF 2(2,4)] by auto
      qed
      let ?bs = "map (\<lambda>i. mem w' (p' + of_nat i)) [0..<n]"
      have "sys_blocks c w' ((H(p := None))(p' \<mapsto> ?bs))"
        using ok(1) 2(2) kept block_at_contents [OF 2(4)] by (auto simp: sys_blocks_def)
      moreover have "p' = p \<or> H p' = None" using kept(2) [of p'] by (cases "H p'") auto
      moreover have "take (length bs) ?bs = take n bs"
        using 2(6) hdr(1) by (auto intro!: nth_equalityI simp: sys_block_def)
      moreover have "16 dvd unat p'" using block_at_bounds(7) [OF 2(2,4)] by simp
      ultimately show ?thesis using 2(1) by (auto simp: n_def intro!: exI [of _ ?bs])
    qed (use rep in simp)
  qed
qed

lemma blocks_free:
  assumes rep: "sys_blocks c w H" and H: "H p = Some bs" shows "sys_blocks c (allocator_free p usr w) (H(p := None))"
proof -
  have ok: "places_ok c" "heap_ok (os w)" and bl: "\<And>p bs. H p = Some bs \<Longrightarrow> \<exists>hdr. sys_block w hdr p bs"
    using rep by (auto simp: sys_blocks_def)
  obtain hdr where hdr: "sys_block w hdr p bs" using bl [OF H] ..
  obtain n where n: "(hdr, n) \<in> set (os w)" "vsc__allocator_mem2hdr (mem w) p = hdr" "p \<noteq> NULL"
    using sys_blockD [OF ok(2) hdr] by metis
  have "hdr \<noteq> NULL" using heap_okD(1) [OF ok(2) n(1)] .
  then have w': "allocator_free p usr w = w\<lparr>os := heap_drop hdr (os w)\<rparr>"
    using n by (simp add: allocator_free_def vsc_sys_free_def c_free_def)
  have "\<exists>hdr. sys_block (allocator_free p usr w) hdr s ds" if s: "H s = Some ds" "s \<noteq> p" for s ds
  proof -
    obtain hdr' where hdr': "sys_block w hdr' s ds" using bl [OF s(1)] ..
    then have "hdr' \<noteq> hdr" using sys_block_inj [OF ok(2) hdr] s(2) by blast
    then have "sys_block (allocator_free p usr w) hdr' s ds" by (intro sys_block_cong [OF ok(2) hdr']) (simp_all add: w')
    then show ?thesis ..
  qed
  then show ?thesis using ok by (auto simp: sys_blocks_def w' heap_ok_drop split: if_splits)
qed

text \<open>Blocks lie apart.\<close>

lemma blocks_apart:
  assumes "sys_blocks c w H" "H p = Some bs" "H q = Some ds" "p \<noteq> q"
  shows "apart (unat p) (length bs) (unat q) (length ds)"
proof -
  have ok: "heap_ok (os w)" using assms(1) by (simp add: sys_blocks_def)
  obtain h g where hg: "sys_block w h p bs" "sys_block w g q ds" using assms(1-3) unfolding sys_blocks_def by blast
  obtain m where m: "(h, m) \<in> set (os w)" "unat h + 24 \<le> unat p" "unat p + length bs < unat h + m"
    using sys_blockD [OF ok hg(1)] by metis
  obtain n where n: "(g, n) \<in> set (os w)" "unat g + 24 \<le> unat q" "unat q + length ds < unat g + n"
    using sys_blockD [OF ok hg(2)] by metis
  have "h \<noteq> g" using hg assms(4) sys_block_inj [OF ok hg(1)] by blast
  then have "apart (unat h) m (unat g) n" using heap_okD(5) [OF ok m(1) n(1)] by simp
  then show ?thesis using m n by (auto simp: apart_def)
qed

lemma blocks_placed: "sys_blocks c w H \<Longrightarrow> H p = Some bs \<Longrightarrow> unat p + length bs < 2 ^ 64"
  by (fastforce simp: sys_blocks_def elim: sys_blockD)

lemma blocks_load: "sys_blocks c w H \<Longrightarrow> H p = Some bs \<Longrightarrow> i < length bs \<Longrightarrow> mem w (p + of_nat i) = bs ! i"
  by (force simp: sys_blocks_def sys_block_def)

lemma blocks_store:
  assumes rep: "sys_blocks c w H" and H: "H p = Some bs" and i: "i < length bs"
  shows "sys_blocks c (w\<lparr>mem := (mem w)(p + of_nat i := v)\<rparr>) (H(p \<mapsto> bs[i := v]))" (is "sys_blocks c ?w _")
proof -
  have ok: "places_ok c" "heap_ok (os w)" and bl: "\<And>p bs. H p = Some bs \<Longrightarrow> \<exists>hdr. sys_block w hdr p bs"
    using rep by (auto simp: sys_blocks_def)
  obtain hdr k where hdr: "sys_block w hdr p bs" "block_at w hdr p (length bs) k"
    using bl [OF H] by (auto simp: sys_block_def)
  note b = block_at_bounds [OF ok(2) hdr(2)]
  have live: "(hdr, 24 + length bs + 2 ^ k) \<in> set (os w)" using hdr(2) by (simp add: block_at_def)
  have at: "unat (p + of_nat j) = unat p + j" if "j < length bs" for j using that b(1,6) by (simp add: unat_add64 unat_of_nat64)
  have eq: "mem ?w x = mem w x" if "unat x \<noteq> unat p + i" for x using that at [OF i] by auto
  have "block_at ?w hdr p (length bs) k" by (rule block_at_cong [OF ok(2) hdr(2)]) (use live eq in auto)
  moreover have "mem ?w (p + of_nat j) = bs[i := v] ! j" if "j < length bs" for j
    using that hdr(1) at [OF that] at [OF i] eq [of "p + of_nat j"] by (cases "j = i") (auto simp: sys_block_def)
  ultimately have own: "sys_block ?w hdr p (bs[i := v])" by (auto simp: sys_block_def)
  have "\<exists>hdr. sys_block ?w hdr s ds" if s: "H s = Some ds" "s \<noteq> p" for s ds
  proof -
    obtain hdr' where hdr': "sys_block w hdr' s ds" using bl [OF s(1)] ..
    then have "hdr' \<noteq> hdr" using sys_block_inj [OF ok(2) hdr(1)] s(2) by blast
    have "sys_block ?w hdr' s ds"
    proof (rule sys_block_cong [OF ok(2) hdr'])
      fix n and x :: addr assume n: "(hdr', n) \<in> set (os w)" "unat hdr' \<le> unat x" "unat x < unat hdr' + n"
      have "apart (unat hdr') n (unat hdr) (24 + length bs + 2 ^ k)"
        using heap_okD(5) [OF ok(2) n(1) live] \<open>hdr' \<noteq> hdr\<close> by simp
      then show "mem ?w x = mem w x" using n(2,3) b(5,6) i by (intro eq) (auto simp: apart_def)
    qed simp
    then show ?thesis ..
  qed
  then show ?thesis using ok own by (auto simp: sys_blocks_def)
qed

interpretation sysblocks: block_store "vsclib_system_allocator c" "sys_blocks c" "2 ^ 64 - 40" for c
proof unfold_locales
  fix w :: "heap world" and H p bs
  show "H NULL = None" if "sys_blocks c w H"
    using that sys_blockD [of w _ NULL] by (cases "H NULL") (fastforce simp: sys_blocks_def)+
  show "size_proc (vsclib_system_allocator c) p (user (vsclib_system_allocator c)) w = of_nat (length bs)"
    if "sys_blocks c w H" "H p = Some bs"
  proof -
    obtain hdr where hdr: "heap_ok (os w)" "sys_block w hdr p bs" using \<open>sys_blocks c w H\<close> \<open>H p = Some bs\<close> by (auto simp: sys_blocks_def)
    have "vsc__allocator_mem2hdr (mem w) p = hdr \<and> hdr_size (mem w) hdr = of_nat (length bs) \<and> p \<noteq> NULL"
      by (rule sys_blockD [OF hdr]) simp
    then show ?thesis by (simp add: vsclib_system_allocator_def allocator_size_def)
  qed
  fix sz :: size_t and flags :: uint32 and r :: int and w'
  assume "sys_blocks c w H" "unat sz < 2 ^ 64 - 40"
    "alloc_proc (vsclib_system_allocator c) NULL sz (alignment (vsclib_system_allocator c)) flags (user (vsclib_system_allocator c)) w =
      (r, p, w')"
  then show "r < 0 \<and> sys_blocks c w' H \<or>
      r = 0 \<and> H p = None \<and> (\<exists>bs. length bs = unat sz \<and> sys_blocks c w' (H(p \<mapsto> bs)) \<and>
        (flags AND VSC_ALLOC_ZERO \<noteq> 0 \<longrightarrow> bs = replicate (unat sz) 0))"
    using blocks_alloc [of c w H sz 4 flags NULL r p w'] by (auto simp: vsclib_system_allocator_def)
qed (simp_all add: vsclib_system_allocator_def blocks_free blocks_placed [simplified] blocks_load blocks_store)

interpretation sysalloc: block_allocator "vsclib_system_allocator c" "sys_rep c" "2 ^ 64 - 40" for c
proof unfold_locales
  fix w w' :: "heap world" and H p q bs r i v and sz :: size_t and flags :: uint32
  let ?a = "vsclib_system_allocator c"
  note rep = sys_rep_blocks
  show "H NULL = None" if "sys_rep c w H" using sysblocks.null [OF rep [OF that]] .
  show "alignment ?a \<noteq> 0" by (rule sysblocks.own_alignment)
  show "size_proc ?a p (user ?a) w = of_nat (length bs)" if "sys_rep c w H" "H p = Some bs"
    using sysblocks.sizeD [OF rep [OF that(1)] that(2)] .
  show "sys_rep c (free_proc ?a p (user ?a) w) (H(p := None))" if "sys_rep c w H" "H p = Some bs"
    using sys_rep_drop [OF that(1) sysblocks.freeD [OF rep [OF that(1)] that(2)]] .
  show "unat p + length bs < 2 ^ 64" if "sys_rep c w H" "H p = Some bs"
    using sysblocks.placed [OF rep [OF that(1)] that(2)] .
  show "mem w (p + of_nat i) = bs ! i" if "sys_rep c w H" "H p = Some bs" "i < length bs"
    using sysblocks.loadD [OF rep [OF that(1)] that(2,3)] .
  show "sys_rep c (w\<lparr>mem := (mem w)(p + of_nat i := v)\<rparr>) (H(p \<mapsto> bs[i := v]))"
    if "sys_rep c w H" "H p = Some bs" "i < length bs"
    using sysblocks.storeD [OF rep [OF that(1)] that(2,3)] that(1,2) by (intro sys_rep_update) (auto simp: sys_rep_def)
  show "r < 0 \<and> sys_rep c w' H \<or>
      r = 0 \<and> H q = None \<and> (\<exists>bs. length bs = unat sz \<and> sys_rep c w' (H(q \<mapsto> bs)) \<and>
        (flags AND VSC_ALLOC_ZERO \<noteq> 0 \<longrightarrow> bs = replicate (unat sz) 0))"
    if "sys_rep c w H" "unat sz < 2 ^ 64 - 40" "alloc_proc ?a NULL sz (alignment ?a) flags (user ?a) w = (r, q, w')"
    using blocks_alloc [OF rep [OF that(1)], of sz 4 flags NULL r q w'] that sys_rep_update [OF that(1)] sys_rep_same [OF that(1)]
    by (auto simp: vsclib_system_allocator_def)
  show "r < 0 \<and> r \<noteq> VSC_ERROR ENOTSUP \<and> sys_rep c w' H \<or>
      r = 0 \<and> (q = p \<or> H q = None) \<and> (\<exists>bs'. length bs' = unat sz \<and> sys_rep c w' ((H(p := None))(q \<mapsto> bs')) \<and>
        take (length bs) bs' = take (unat sz) bs)"
    if "sys_rep c w H" "unat sz < 2 ^ 64 - 40" "flags AND VSC_ALLOC_REALLOC \<noteq> 0" "H p = Some bs"
      "alloc_proc ?a p sz (alignment ?a) flags (user ?a) w = (r, q, w')"
  proof -
    have "16 dvd unat p" using that(1,4) by (auto simp: sys_rep_def)
    then show ?thesis
      using blocks_realloc [OF rep [OF that(1)] that(2-4), of NULL r q w'] that(1,5)
      by (auto simp: vsclib_system_allocator_def sys_rep_def)
  qed
qed

text \<open>Reallocation of a block at a multiple of 16, beside blocks of any alignment.\<close>

lemma blocks_xrealloc:
  assumes "sys_blocks c w H" "unat sz < 2 ^ 64 - 40" "sz \<noteq> 0" "H p = Some bs" "16 dvd unat p"
  shows "\<exists>q w'. vsc_xrealloc (vsclib_system_allocator c) p sz w = Some (q, w') \<and>
    (q = NULL \<and> sys_blocks c w' H \<or>
     q \<noteq> NULL \<and> (q = p \<or> H q = None) \<and>
       (\<exists>bs'. length bs' = unat sz \<and> sys_blocks c w' ((H(p := None))(q \<mapsto> bs')) \<and> take (length bs) bs' = take (unat sz) bs) \<and>
       16 dvd unat q)"
proof (rule sysblocks.xrealloc_block [OF assms(1,3,4)])
  fix r q w'
  assume "alloc_proc (vsclib_system_allocator c) p sz (alignment (vsclib_system_allocator c)) VSC_ALLOC_REALLOC
    (user (vsclib_system_allocator c)) w = (r, q, w')"
  moreover have "VSC_ALLOC_REALLOC AND VSC_ALLOC_REALLOC \<noteq> 0" by (simp add: alloc_flags)
  note blocks_realloc [OF assms(1,2) this assms(4,5), of NULL r q w']
  ultimately show "r < 0 \<and> r \<noteq> VSC_ERROR ENOTSUP \<and> sys_blocks c w' H \<or>
      r = 0 \<and> (q = p \<or> H q = None) \<and> (\<exists>bs'. length bs' = unat sz \<and> sys_blocks c w' ((H(p := None))(q \<mapsto> bs')) \<and>
        take (length bs) bs' = take (unat sz) bs) \<and> 16 dvd unat q"
    by (simp add: vsclib_system_allocator_def)
qed

section \<open>Properties\<close>

text \<open>
  Allocation through the system allocator. From a state that holds the blocks \<open>H\<close>,
  \<open>vsc_malloc\<close> and \<open>vsc_calloc\<close> either return NULL and change no block, or return a pointer
  not handed out before to a block of the requested size, zeroed by \<open>vsc_calloc\<close>, and every
  other block keeps its contents; \<open>vsc_free\<close> gives up exactly the block it is passed.
\<close>

theorem vsc_malloc_calloc_free_refine:
  assumes "sys_rep c w H" and "unat sz < 2 ^ 64 - 40" and "unat nmemb * unat esz < 2 ^ 64 - 40" and "p \<in> dom H \<or> p = NULL"
  shows "(\<exists>q w'. vsc_malloc c sz w = Some (q, w') \<and>
      (q = NULL \<and> sys_rep c w' H \<or>
       q \<noteq> NULL \<and> H q = None \<and> (\<exists>bs. length bs = unat sz \<and> sys_rep c w' (H(q \<mapsto> bs))))) \<and>
    (\<exists>q w'. vsc_calloc c nmemb esz w = Some (q, w') \<and>
      (q = NULL \<and> sys_rep c w' H \<or>
       q \<noteq> NULL \<and> H q = None \<and> sys_rep c w' (H(q \<mapsto> replicate (unat nmemb * unat esz) 0)))) \<and>
    sys_rep c (vsc_free c p w) (H(p := None))"
  unfolding vsc_malloc_def vsc_calloc_def vsc_free_def
  using sysalloc.xalloc_spec [OF assms(1,2)] sysalloc.xcalloc_spec [OF assms(1,3)] sysalloc.xfree_spec [OF assms(1,4)]
  by (intro conjI) simp_all

text \<open>
  (C8) Reallocation through the system allocator of a block at a multiple of 16, which is every
  block aligned to 16 or more, such as those of \<open>vsc_malloc\<close> and \<open>vsc_calloc\<close>; the other blocks may
  have any alignment. It returns NULL and keeps every block as it was, or
  it exchanges the block for one of the new size, whose contents agree with the old ones as far
  as both go, at the old address or at one that was not in use, again a multiple of 16; the other
  blocks keep theirs. Blocks of a smaller alignment lose data: \<open>vsc_realloc_loses_aligned_data\<close>.
\<close>

theorem vsc_realloc_refines:
  assumes "sys_blocks c w H" and "unat sz < 2 ^ 64 - 40" and "sz \<noteq> 0" and "H p = Some bs" and "16 dvd unat p"
  shows "\<exists>q w'. vsc_realloc c p sz w = Some (q, w') \<and>
    (q = NULL \<and> sys_blocks c w' H \<or>
     q \<noteq> NULL \<and> (q = p \<or> H q = None) \<and>
       (\<exists>bs'. length bs' = unat sz \<and> sys_blocks c w' ((H(p := None))(q \<mapsto> bs')) \<and>
          take (length bs) bs' = take (unat sz) bs) \<and>
       16 dvd unat q)"
  unfolding vsc_realloc_def using assms by (rule blocks_xrealloc)

text \<open>The C library of the witnesses: it has room for one block, which it resizes in place.\<close>

definition sample_libc :: libc where
  "sample_libc = \<lparr>place = (\<lambda>h p n. if list_all (\<lambda>b. fst b = p) h \<and> n \<le> 0x8000 then 0x10000 else NULL),
     junk = (\<lambda>x. ucast x)\<rparr>"

definition sample_heap :: "heap world" where
  "sample_heap = \<lparr>mem = (\<lambda>x. 0xEE), os = []\<rparr>"

lemma sample_rep: "sys_rep sample_libc sample_heap Map.empty"
  by (auto simp: sys_rep_def sys_blocks_def sample_heap_def heap_ok_def places_ok_def sample_libc_def list_all_iff word_le_nat_alt Let_def)

lemma sample_block:
  "\<exists>w bs. vsc_malloc sample_libc 5 sample_heap = Some (0x10020, w) \<and> length bs = 5 \<and> sys_rep sample_libc w [0x10020 \<mapsto> bs]"
proof -
  obtain q w where q: "vsc_malloc sample_libc 5 sample_heap = Some (q, w)"
    "q = NULL \<or> (\<exists>bs. length bs = 5 \<and> sys_rep sample_libc w [q \<mapsto> bs])"
    using sysalloc.xalloc_spec [OF sample_rep, of 5] by (auto simp: vsc_malloc_def)
  have "map_option fst (vsc_malloc sample_libc 5 sample_heap) = Some 0x10020"
    by code_simp
  then show ?thesis using q by auto
qed

theorem vsc_malloc_calloc_free_refine_witness:
  "\<exists>q w'. vsc_calloc sample_libc 3 4 sample_heap = Some (q, w') \<and> q \<noteq> NULL \<and>
     sys_rep sample_libc w' [q \<mapsto> replicate 12 0]"
proof -
  have "map_option fst (vsc_calloc sample_libc 3 4 sample_heap) = Some 0x10020"
    by code_simp
  then show ?thesis
    using vsc_malloc_calloc_free_refine [OF sample_rep, of 5 3 4 NULL] by auto
qed

theorem vsc_realloc_refines_witness:
  "\<exists>w bs w' bs'. length bs = 5 \<and> sys_rep sample_libc w [0x10020 \<mapsto> bs] \<and>
     vsc_realloc sample_libc 0x10020 9 w = Some (0x10020, w') \<and>
     sys_blocks sample_libc w' [0x10020 \<mapsto> bs'] \<and> length bs' = 9 \<and> take 5 bs' = bs"
proof -
  obtain w bs where w: "vsc_malloc sample_libc 5 sample_heap = Some (0x10020, w)" "length bs = 5"
    "sys_rep sample_libc w [0x10020 \<mapsto> bs]"
    using sample_block by blast
  have "map_option fst (Option.bind (vsc_malloc sample_libc 5 sample_heap) (\<lambda>(p, w). vsc_realloc sample_libc p 9 w)) =
    Some 0x10020"
    by code_simp
  then have "map_option fst (vsc_realloc sample_libc 0x10020 9 w) = Some 0x10020" by (simp add: w(1))
  then obtain w' where w': "vsc_realloc sample_libc 0x10020 9 w = Some (0x10020, w')" by auto
  then obtain bs' where "length bs' = 9" "sys_blocks sample_libc w' [0x10020 \<mapsto> bs']" "take 5 bs' = bs"
    using vsc_realloc_refines [OF sys_rep_blocks [OF w(3)], of 9 "0x10020" bs] w(2) by auto
  then show ?thesis using w(2,3) w' by blast
qed

lemma block_at_link: "block_at w hdr p n k \<Longrightarrow> p \<noteq> hdr + 24 \<Longrightarrow> load64 (mem w) (p - 8) = hdr"
  unfolding block_at_def by blast

lemma load64_memmove:
  assumes "8 \<le> unat n" shows "load64 (memmove dst src n m) dst = load64 m src"
  using assms unfolding load64_bytes
  by (intro arg_cong [where f=of_bytes]) (simp add: memmove_def word_less_nat_alt unat_of_nat64)

text \<open>
  (C39) A block from \<open>vsc_aligned_malloc\<close> with the alignment 8 does not survive \<open>vsc_realloc\<close>: when the
  call succeeds, the first eight bytes of the new block are the address of its header. The
  alignment grows to 16, the distance from the header to the data from 24 to 32, and the pointer
  stored in front of the new data overwrites the old data before the code moves it.
\<close>

theorem vsc_realloc_loses_aligned_data:
  assumes "places_ok c" "heap_ok (os w)" "block_at w hdr p n 3" "8 \<le> n" "unat sz < 2 ^ 64 - 40" "sz \<noteq> 0"
    and "vsc_realloc c p sz w = Some (q, w')" "q \<noteq> NULL"
  shows "load64 (mem w') q = q - 32"
proof -
  note b = block_at_bounds [OF assms(2,3)] and m2h = mem2hdr_block [OF assms(2,3)]
  have hdr: "hdr_size (mem w) hdr = of_nat n" "hdr_align_power (mem w) hdr = 3" "(hdr, 32 + n) \<in> set (os w)"
    "p = vsc__allocator_hdr2mem hdr 8"
    using assms(3) by (simp_all add: block_at_def)
  then have p: "p = hdr + 24" using hdr2mem_8 [of hdr n] b(1,2) by simp
  have n: "n < 2 ^ 64" using b(1) by simp
  obtain q0 w1 where q0: "c_realloc c hdr (of_nat (40 + unat sz)) w = (q0, w1)" by fastforce
  have total: "unat (of_nat (40 + unat sz) :: size_t) = 40 + unat sz" using assms(5) by (intro unat_of_nat64) simp
  let ?S = "stamp q0 (q0 + 32) sz 4 (mem w1)"
  have p': "vsc__allocator_hdr2mem q0 16 = q0 + 32" if "q0 \<noteq> NULL"
    using c_realloc_ok(1,2) [OF assms(1,2) q0 that] total by (intro hdr2mem_default [of q0 "unat sz"]) simp_all
  have "allocator_malloc c p sz 16 VSC_ALLOC_REALLOC NULL w =
    (if q0 = NULL then (VSC_ERROR ENOMEM, p, w1)
     else (0, q0 + 32, w1\<lparr>mem := memmove (q0 + 32) (q0 + 24) (of_nat n) ?S\<rparr>))"
    using m2h q0 b(10) p' vsc_ctz_exp [of 4]
    by (simp add: p allocator_malloc_def Let_def hdr vsc_sys_realloc_def sizeof_MemHeader_def stamp_def alloc_flags)
  then have q: "q = q0 + 32" "mem w' = memmove (q0 + 32) (q0 + 24) (of_nat n) ?S" "q0 \<noteq> NULL"
    using assms(6-8) b(10)
    by (auto simp: vsc_realloc_def vsc_xrealloc_def vsc_xalloc_ex_def vsclib_system_allocator_def alloc_flags Let_def
        split: if_splits)
  have "block_at (w1\<lparr>mem := ?S\<rparr>) q0 (q0 + 32) (unat sz) 4"
    using stamp_block(1) [of q0 4 "unat sz" "q0 + 32" w1 "mem w1"] c_realloc_ok(1,2,3) [OF assms(1,2) q0 q(3)] total p' q(3)
    by simp
  from block_at_link [OF this] have "load64 (mem (w1\<lparr>mem := ?S\<rparr>)) (q0 + 32 - 8) = q0" by simp
  moreover have "q0 + 32 - 8 = q0 + 24" by simp
  ultimately have "load64 (mem (w1\<lparr>mem := ?S\<rparr>)) (q0 + 24) = q0" by (simp only:)
  then have "load64 ?S (q0 + 24) = q0" by simp
  then show ?thesis using load64_memmove [of "of_nat n" "q0 + 32" "q0 + 24" ?S] n assms(4) by (simp add: q unat_of_nat64)
qed

theorem vsc_realloc_loses_aligned_data_witness:
  "\<exists>w w'. vsc_aligned_malloc sample_libc 8 8 sample_heap = Some (0x10018, w) \<and>
     vsc_realloc sample_libc 0x10018 16 w = Some (0x10020, w') \<and> load64 (mem w') 0x10020 = 0x10000"
proof -
  have "map_option fst (vsc_aligned_malloc sample_libc 8 8 sample_heap) = Some 0x10018" by code_simp
  then obtain w where w: "vsc_aligned_malloc sample_libc 8 8 sample_heap = Some (0x10018, w)" by auto
  have "map_option fst (Option.bind (vsc_aligned_malloc sample_libc 8 8 sample_heap) (\<lambda>(p, w). vsc_realloc sample_libc p 16 w)) =
    Some 0x10020"
    by code_simp
  then have "map_option fst (vsc_realloc sample_libc 0x10018 16 w) = Some 0x10020" by (simp add: w)
  then obtain w' where w': "vsc_realloc sample_libc 0x10018 16 w = Some (0x10020, w')" by auto
  have c: "places_ok sample_libc" "heap_ok (os sample_heap)" using sys_repD [OF sample_rep] .
  obtain r where r: "allocator_malloc sample_libc NULL (of_nat 8) (2 ^ 3) 0 NULL sample_heap = (r, 0x10018, w)" "\<not> r < 0"
    using w by (auto simp: vsc_aligned_malloc_def vsc_xalloc_ex_def vsclib_system_allocator_def Let_def alloc_flags
        split: prod.splits if_splits)
  from malloc_fresh [OF c _ _ _ r(1)] r(2) obtain hdr where "heap_ok (os w)" "block_at w hdr 0x10018 8 3" by auto
  from vsc_realloc_loses_aligned_data [OF c(1) this _ _ _ w'] have "load64 (mem w') 0x10020 = 0x10000" by simp
  then show ?thesis using w w' by blast
qed

text \<open>
  The size of the request with its header wraps around unchecked: \<open>vsc_malloc\<close> of 39 bytes less
  than the address space returns a pointer and records the size, over one byte from the C library.
\<close>

lemma vsc_malloc_wraps:
  "case vsc_malloc sample_libc (- 39) sample_heap of
     None \<Rightarrow> False
   | Some (p, w) \<Rightarrow> p = 0x10020 \<and> os w = [(0x10000, 1)] \<and> allocator_size p NULL w = - 39"
  by code_simp

end
