(* ===== verification/AllocatorRun.thy ===== *)
theory AllocatorRun
  imports AllocatorCorrect Runs
begin

text \<open>
  Clients of the heap: programs that allocate, resize and free blocks and read and write their
  bytes, in any order, over the system allocator and whatever placement the C library chooses.
\<close>

section \<open>The calls\<close>

text \<open>
  One constructor per entry point of \<open>memory.c\<close>, with the arguments and the answer, and the
  accesses of the client to byte \<open>i\<close> of the block at \<open>p\<close>.
\<close>

datatype heap_event =
    Malloc size_t addr
  | Calloc size_t size_t addr
  | Aligned_malloc size_t size_t addr
  | Realloc addr size_t addr
  | Free addr
  | Aligned_free addr
  | Store addr nat byte
  | Load addr nat byte

inductive heap_step :: "libc \<Rightarrow> heap world \<Rightarrow> heap_event \<Rightarrow> heap world \<Rightarrow> bool" for c where
  malloc_call: "vsc_malloc c sz w = Some (q, w') \<Longrightarrow> heap_step c w (Malloc sz q) w'"
| calloc_call: "vsc_calloc c nmemb sz w = Some (q, w') \<Longrightarrow> heap_step c w (Calloc nmemb sz q) w'"
| aligned_malloc_call: "vsc_aligned_malloc c sz align w = Some (q, w') \<Longrightarrow> heap_step c w (Aligned_malloc sz align q) w'"
| realloc_call: "vsc_realloc c p sz w = Some (q, w') \<Longrightarrow> heap_step c w (Realloc p sz q) w'"
| free_call: "heap_step c w (Free p) (vsc_free c p w)"
| aligned_free_call: "heap_step c w (Aligned_free p) (vsc_aligned_free c p w)"
| store_call: "heap_step c w (Store p i v) (w\<lparr>mem := (mem w)(p + of_nat i := v)\<rparr>)"
| load_call: "heap_step c w (Load p i (mem w (p + of_nat i))) w"

section \<open>The specification\<close>

text \<open>
  The live blocks, with what the client knows of their bytes: \<open>None\<close> is a byte it has not
  written yet.
\<close>

type_synonym blocks = "addr \<Rightarrow> byte option list option"

definition live :: "blocks \<Rightarrow> addr \<Rightarrow> bool" where
  "live K p \<longleftrightarrow> K p \<noteq> None"

definition block_of :: "blocks \<Rightarrow> addr \<Rightarrow> byte option list" where
  "block_of K p = (case K p of None \<Rightarrow> [] | Some bs \<Rightarrow> bs)"

text \<open>
  The discipline of the client: it frees and resizes live blocks and stays in their bounds; its
  alignments are powers of two below \<open>2 ^ 32\<close>, those below 8 being raised to 8 by the code; and it
  resizes to another size only blocks at multiples of 16, which all are that were not aligned to less than 16
  (\<open>block_at_16\<close>): the code loses data of the others.
\<close>

fun heap_legal :: "blocks \<Rightarrow> heap_event \<Rightarrow> bool" where
  "heap_legal K (Malloc sz q) \<longleftrightarrow> unat sz < 2 ^ 64 - 40"
| "heap_legal K (Calloc nmemb sz q) \<longleftrightarrow> unat nmemb * unat sz < 2 ^ 64 - 40"
| "heap_legal K (Aligned_malloc sz align q) \<longleftrightarrow>
     (\<exists>k<32. align = 2 ^ k \<and> 24 + unat sz + 2 ^ max 3 k < 2 ^ 64)"
| "heap_legal K (Realloc p sz q) \<longleftrightarrow>
     (p = NULL \<or> live K p \<and> (sz = 0 \<or> 16 dvd unat p)) \<and> unat sz < 2 ^ 64 - 40"
| "heap_legal K (Free p) \<longleftrightarrow> p = NULL \<or> live K p"
| "heap_legal K (Aligned_free p) \<longleftrightarrow> p = NULL \<or> live K p"
| "heap_legal K (Store p i v) \<longleftrightarrow> i < length (block_of K p)"
| "heap_legal K (Load p i v) \<longleftrightarrow> i < length (block_of K p)"

text \<open>A new block of \<open>n\<close> bytes at \<open>q\<close>, aligned to \<open>al\<close>, within the address space and apart from the live ones.\<close>

definition fresh_block :: "blocks \<Rightarrow> addr \<Rightarrow> nat \<Rightarrow> nat \<Rightarrow> bool" where
  "fresh_block K q n al \<longleftrightarrow> \<not> live K q \<and> al dvd unat q \<and> unat q + n < 2 ^ 64 \<and>
     (\<forall>p. live K p \<longrightarrow> apart (unat p) (length (block_of K p)) (unat q) n)"

fun heap_sound :: "blocks \<Rightarrow> heap_event \<Rightarrow> bool" where
  "heap_sound K (Malloc sz q) \<longleftrightarrow> q = NULL \<or> fresh_block K q (unat sz) 16"
| "heap_sound K (Calloc nmemb sz q) \<longleftrightarrow> q = NULL \<or> fresh_block K q (unat nmemb * unat sz) 16"
| "heap_sound K (Aligned_malloc sz align q) \<longleftrightarrow> q = NULL \<or> fresh_block K q (unat sz) (unat align)"
| "heap_sound K (Realloc p sz q) \<longleftrightarrow> q = NULL \<or> sz \<noteq> 0 \<and> fresh_block (K(p := None)) q (unat sz) 16"
| "heap_sound K (Free p) \<longleftrightarrow> True"
| "heap_sound K (Aligned_free p) \<longleftrightarrow> True"
| "heap_sound K (Store p i v) \<longleftrightarrow> True"
| "heap_sound K (Load p i v) \<longleftrightarrow> block_of K p ! i = None \<or> block_of K p ! i = Some v"

definition unknown :: "nat \<Rightarrow> byte option list" where
  "unknown n = replicate n None"

text \<open>A block of another size keeps what was known of its first bytes.\<close>

definition resized :: "nat \<Rightarrow> byte option list \<Rightarrow> byte option list" where
  "resized n bs = take n bs @ unknown (n - length bs)"

lemma length_unknown [simp]: "length (unknown n) = n"
  by (simp add: unknown_def)

lemma length_resized [simp]: "length (resized n bs) = n"
  by (simp add: resized_def)

lemma nth_resized: "i < n \<Longrightarrow> i < length bs \<Longrightarrow> resized n bs ! i = bs ! i"
  by (simp add: resized_def nth_append)

fun heap_effect :: "blocks \<Rightarrow> heap_event \<Rightarrow> blocks" where
  "heap_effect K (Malloc sz q) = (if q = NULL then K else K(q \<mapsto> unknown (unat sz)))"
| "heap_effect K (Calloc nmemb sz q) = (if q = NULL then K else K(q \<mapsto> replicate (unat nmemb * unat sz) (Some 0)))"
| "heap_effect K (Aligned_malloc sz align q) = (if q = NULL then K else K(q \<mapsto> unknown (unat sz)))"
| "heap_effect K (Realloc p sz q) =
     (if sz = 0 then K(p := None)
      else if q = NULL then K
      else (K(p := None))(q \<mapsto> resized (unat sz) (block_of K p)))"
| "heap_effect K (Free p) = K(p := None)"
| "heap_effect K (Aligned_free p) = K(p := None)"
| "heap_effect K (Store p i v) = K(p \<mapsto> (block_of K p)[i := Some v])"
| "heap_effect K (Load p i v) = K"

section \<open>The allocator refines it\<close>

definition agrees :: "byte option \<Rightarrow> byte \<Rightarrow> bool" where
  "agrees b v \<longleftrightarrow> b = None \<or> b = Some v"

definition knows :: "blocks \<Rightarrow> (addr \<Rightarrow> byte list option) \<Rightarrow> bool" where
  "knows K H \<longleftrightarrow> (\<forall>p. rel_option (list_all2 agrees) (K p) (H p))"

definition heap_rel :: "libc \<Rightarrow> heap world \<Rightarrow> blocks \<Rightarrow> bool" where
  "heap_rel c w K \<longleftrightarrow> (\<exists>H. sys_blocks c w H \<and> knows K H)"

lemma knows_at: "knows K H \<Longrightarrow> rel_option (list_all2 agrees) (K p) (H p)"
  by (simp add: knows_def)

lemma knows_live: "knows K H \<Longrightarrow> live K p \<longleftrightarrow> p \<in> dom H"
  using knows_at [of K H p] by (cases "K p"; cases "H p") (auto simp: live_def)

lemma knows_block:
  assumes "knows K H" "H p = Some bs"
  shows "K p = Some (block_of K p)" "list_all2 agrees (block_of K p) bs" "length (block_of K p) = length bs"
  using knows_at [OF assms(1), of p] assms(2) by (cases "K p"; auto simp: block_of_def dest: list_all2_lengthD)+

lemma knows_update: "knows K H \<Longrightarrow> list_all2 agrees ks bs \<Longrightarrow> knows (K(p \<mapsto> ks)) (H(p \<mapsto> bs))"
  by (simp add: knows_def)

lemma knows_drop: "knows K H \<Longrightarrow> knows (K(p := None)) (H(p := None))"
  by (simp add: knows_def)

lemma knows_unknown: "length bs = n \<Longrightarrow> list_all2 agrees (unknown n) bs"
  by (simp add: list_all2_conv_all_nth unknown_def agrees_def)

lemma knows_resized:
  assumes "list_all2 agrees ks bs" "length bs' = n" "take (length bs) bs' = take n bs"
  shows "list_all2 agrees (resized n ks) bs'"
proof -
  have len: "length ks = length bs" using assms(1) by (rule list_all2_lengthD)
  have "bs' ! i = bs ! i" if "i < n" "i < length bs" for i
    using arg_cong [OF assms(3), of "\<lambda>xs. xs ! i"] that by simp
  then show ?thesis
    using assms(1,2) len
    by (auto simp: list_all2_conv_all_nth resized_def unknown_def nth_append agrees_def min_def)
qed

lemma rep_fresh:
  assumes "sys_blocks c w (H(q \<mapsto> bs))" "H q = None" "knows K H" "al dvd unat q"
  shows "fresh_block K q (length bs) al"
proof -
  have "\<not> live K q" using assms(2) knows_live [OF assms(3), of q] by auto
  moreover have "apart (unat p) (length (block_of K p)) (unat q) (length bs)" if "live K p" for p
  proof -
    obtain ds where ds: "H p = Some ds" using \<open>live K p\<close> knows_live [OF assms(3), of p] by auto
    then have "p \<noteq> q" using assms(2) by auto
    then show ?thesis
      using blocks_apart [OF assms(1), of p ds q bs] ds knows_block(3) [OF assms(3) ds] by simp
  qed
  moreover have "unat q + length bs < 2 ^ 64" by (rule blocks_placed [OF assms(1)]) simp
  ultimately show ?thesis using assms(4) by (simp add: fresh_block_def)
qed

text \<open>What the ways to get a new block have in common.\<close>

lemma small_alignment: "k < 32 \<Longrightarrow> allocator_malloc c NULL sz (2 ^ k) = allocator_malloc c NULL sz (2 ^ max 3 k)"
proof (cases "3 \<le> k")
  case False
  then have "k \<in> {0, 1, 2}" by auto
  then show ?thesis by (auto simp: allocator_malloc_def fun_eq_iff)
qed (simp add: max_def)

lemma alloc_blocks:
  assumes "sys_blocks c w H" "k < 32" "24 + unat sz + 2 ^ max 3 k < 2 ^ 64" "flags AND VSC_ALLOC_NOFAIL = 0"
    and r: "vsc_xalloc_ex (vsclib_system_allocator c) NULL sz flags (2 ^ k) w = Some (r, p, w')"
  shows "r < 0 \<and> sys_blocks c w' H \<or>
    r = 0 \<and> p \<noteq> NULL \<and> H p = None \<and> 2 ^ k dvd unat p \<and> (\<exists>bs. length bs = unat sz \<and> sys_blocks c w' (H(p \<mapsto> bs)) \<and>
        (flags AND VSC_ALLOC_ZERO \<noteq> 0 \<longrightarrow> bs = replicate (unat sz) 0))"
proof -
  let ?f = "flags AND NOT VSC_ALLOC_REALLOC"
  obtain r0 p0 w0 where r0: "allocator_malloc c NULL sz (2 ^ max 3 k) ?f NULL w = (r0, p0, w0)" by (metis prod_cases3)
  have f: "?f AND VSC_ALLOC_NOFAIL = 0" "?f AND VSC_ALLOC_ZERO = flags AND VSC_ALLOC_ZERO"
    using assms(4) by (simp_all add: alloc_flags and.assoc)
  have "(2 ^ k :: size_t) \<noteq> 0" using assms(2) by (simp add: word_unat_eq_iff unat_pow2)
  then have eq: "r = (if r0 < 0 then r0 else 0)" "p = p0" "w' = w0"
    using r r0 f(1) by (simp_all add: vsc_xalloc_ex_def vsclib_system_allocator_def Let_def small_alignment [OF assms(2)] split: if_splits)
  have p: "p \<noteq> NULL" if "sys_blocks c w' (H(p \<mapsto> bs))" for bs using sysblocks.null [OF that] by auto
  have "(2 :: nat) ^ k dvd 2 ^ max 3 k" by (intro le_imp_power_dvd) simp
  then have dvd: "2 ^ k dvd unat p" if "2 ^ max 3 k dvd unat p" using that by (rule dvd_trans)
  have "3 \<le> max 3 k" "max 3 k < 32" using assms(2) by simp_all
  from blocks_alloc [OF assms(1,3) this r0] show ?thesis using p dvd by (auto simp: eq f(2))
qed

lemma rel_alloc:
  assumes "heap_rel c w K" "k < 32" "24 + unat sz + 2 ^ max 3 k < 2 ^ 64" "flags AND VSC_ALLOC_NOFAIL = 0"
    and r: "map_option null_on_error (vsc_xalloc_ex (vsclib_system_allocator c) NULL sz flags (2 ^ k) w) = Some (q, w')"
    and ks: "ks = (if flags AND VSC_ALLOC_ZERO \<noteq> 0 then replicate (unat sz) (Some 0) else unknown (unat sz))"
  shows "(q = NULL \<or> fresh_block K q (unat sz) (2 ^ k)) \<and> heap_rel c w' (if q = NULL then K else K(q \<mapsto> ks))"
proof -
  obtain H where H: "sys_blocks c w H" "knows K H" using assms(1) by (auto simp: heap_rel_def)
  obtain r0 p where x: "vsc_xalloc_ex (vsclib_system_allocator c) NULL sz flags (2 ^ k) w = Some (r0, p, w')"
    "q = (if r0 < 0 then NULL else p)"
    using r by auto
  from alloc_blocks [OF H(1) assms(2-4) x(1)]
  consider "q = NULL" "sys_blocks c w' H"
    | bs where "q \<noteq> NULL" "H q = None" "2 ^ k dvd unat q" "length bs = unat sz" "sys_blocks c w' (H(q \<mapsto> bs))"
        "flags AND VSC_ALLOC_ZERO \<noteq> 0 \<longrightarrow> bs = replicate (unat sz) 0"
    using x(2) by fastforce
  then show ?thesis
  proof cases
    case 1
    then show ?thesis using H(2) by (auto simp: heap_rel_def)
  next
    case 2
    have "list_all2 agrees ks bs" using 2(4,6) by (auto simp: ks list_all2_conv_all_nth unknown_def agrees_def)
    then have "knows (K(q \<mapsto> ks)) (H(q \<mapsto> bs))" using knows_update [OF H(2)] by simp
    then show ?thesis using rep_fresh [OF 2(5,2) H(2) 2(3)] 2(1,4,5) by (auto simp: heap_rel_def)
  qed
qed

lemma rel_alloc_16:
  assumes "heap_rel c w K" "unat sz < 2 ^ 64 - 40" "flags AND VSC_ALLOC_NOFAIL = 0"
    and "map_option null_on_error (vsc_xalloc_ex (vsclib_system_allocator c) NULL sz flags 16 w) = Some (q, w')"
    and "ks = (if flags AND VSC_ALLOC_ZERO \<noteq> 0 then replicate (unat sz) (Some 0) else unknown (unat sz))"
  shows "(q = NULL \<or> fresh_block K q (unat sz) 16) \<and> heap_rel c w' (if q = NULL then K else K(q \<mapsto> ks))"
  using rel_alloc [of c w K 4 sz flags q w' ks] assms by simp

lemma rel_malloc:
  assumes "heap_rel c w K" "heap_legal K (Malloc sz q)" "vsc_malloc c sz w = Some (q, w')"
  shows "heap_sound K (Malloc sz q) \<and> heap_rel c w' (heap_effect K (Malloc sz q))"
  using rel_alloc_16 [OF assms(1), of sz 0 q w' "unknown (unat sz)"] assms
  by (simp add: vsc_malloc_def vsc_xalloc_def vsclib_system_allocator_def)

text \<open>An alignment of 0 stands for the allocator's own.\<close>

lemma own_alignment_16:
  "vsc_xalloc_ex (vsclib_system_allocator c) p sz flags 0 w = vsc_xalloc_ex (vsclib_system_allocator c) p sz flags 16 w"
  by (simp add: vsc_xalloc_ex_def vsclib_system_allocator_def)

lemma rel_calloc:
  assumes "heap_rel c w K" "heap_legal K (Calloc nmemb sz q)" "vsc_calloc c nmemb sz w = Some (q, w')"
  shows "heap_sound K (Calloc nmemb sz q) \<and> heap_rel c w' (heap_effect K (Calloc nmemb sz q))"
proof -
  have "unat nmemb * unat sz < 2 ^ 64 - 40" using assms(2) by simp
  then have u: "unat (sz * nmemb) = unat nmemb * unat sz" by (simp add: unat_mult64 mult.commute)
  consider "vsc_calloc c nmemb sz w = Some (NULL, w)"
    | "vsc_calloc c nmemb sz w = map_option null_on_error (vsc_xalloc_ex (vsclib_system_allocator c) NULL (sz * nmemb) VSC_ALLOC_ZERO 16 w)"
    unfolding vsc_calloc_def vsc_xcalloc_def own_alignment_16 by presburger
  then show ?thesis
  proof cases
    case 1
    then show ?thesis using assms(1,3) by simp
  next
    case 2
    then show ?thesis
      using rel_alloc_16 [OF assms(1), of "sz * nmemb" VSC_ALLOC_ZERO q w' "replicate (unat nmemb * unat sz) (Some 0)"] assms(2,3)
      by (simp add: u alloc_flags)
  qed
qed

lemma rel_aligned_malloc:
  assumes "heap_rel c w K" "heap_legal K (Aligned_malloc sz align q)" "vsc_aligned_malloc c sz align w = Some (q, w')"
  shows "heap_sound K (Aligned_malloc sz align q) \<and> heap_rel c w' (heap_effect K (Aligned_malloc sz align q))"
proof -
  obtain k where k: "k < 32" "align = 2 ^ k" "24 + unat sz + 2 ^ max 3 k < 2 ^ 64" using assms(2) by auto
  then have "unat align = 2 ^ k" by (simp add: unat_pow2)
  then show ?thesis
    using rel_alloc [OF assms(1) k(1,3), of 0 q w' "unknown (unat sz)"] assms(3) by (simp add: vsc_aligned_malloc_def k(2))
qed

lemma rel_free:
  assumes "heap_rel c w K" "p = NULL \<or> live K p"
  shows "heap_rel c (vsc_xfree (vsclib_system_allocator c) p w) (K(p := None))"
proof -
  obtain H where H: "sys_blocks c w H" "knows K H" using assms(1) by (auto simp: heap_rel_def)
  have "p \<in> dom H \<or> p = NULL" using assms(2) knows_live [OF H(2), of p] by auto
  then show ?thesis using sysblocks.xfree_spec [OF H(1)] knows_drop [OF H(2)] by (auto simp: heap_rel_def)
qed

lemma rel_realloc:
  assumes "heap_rel c w K" "heap_legal K (Realloc p sz q)" "vsc_realloc c p sz w = Some (q, w')"
  shows "heap_sound K (Realloc p sz q) \<and> heap_rel c w' (heap_effect K (Realloc p sz q))"
proof -
  obtain H where H: "sys_blocks c w H" "knows K H" using assms(1) by (auto simp: heap_rel_def)
  have lim: "unat sz < 2 ^ 64 - 40" and p: "p = NULL \<or> live K p" and p16: "p = NULL \<or> sz = 0 \<or> 16 dvd unat p" using assms(2) by auto
  have "H NULL = None" using H(1) by (rule sysblocks.null)
  then have K0: "K NULL = None" using knows_at [OF H(2), of NULL] by (cases "K NULL") auto
  consider "sz = 0" | "sz \<noteq> 0" "p = NULL" | bs where "sz \<noteq> 0" "H p = Some bs" "16 dvd unat p"
    using p p16 knows_live [OF H(2), of p] by auto
  then show ?thesis
  proof cases
    case 1
    then show ?thesis using rel_free [OF assms(1) p] assms(3) by (auto simp: vsc_realloc_def vsc_xrealloc_def)
  next
    case 2
    then have "resized (unat sz) (block_of K p) = unknown (unat sz)" "K(p := None) = K"
      using K0 by (auto simp: resized_def block_of_def)
    then show ?thesis
      using rel_alloc_16 [OF assms(1), of sz VSC_ALLOC_REALLOC q w' "unknown (unat sz)"] assms(3) 2 lim
      by (auto simp: vsc_realloc_def vsc_xrealloc_def own_alignment_16 alloc_flags)
  next
    case 3
    have spec: "q = NULL \<and> sys_blocks c w' H \<or> q \<noteq> NULL \<and> (q = p \<or> H q = None) \<and> (\<exists>bs'. length bs' = unat sz \<and>
        sys_blocks c w' ((H(p := None))(q \<mapsto> bs')) \<and> take (length bs) bs' = take (unat sz) bs) \<and> 16 dvd unat q"
      using blocks_xrealloc [OF H(1) lim 3] assms(3) by (simp add: vsc_realloc_def)
    show ?thesis
    proof (cases "q = NULL")
      case False
      then obtain bs' where bs': "length bs' = unat sz" "sys_blocks c w' ((H(p := None))(q \<mapsto> bs'))"
        "take (length bs) bs' = take (unat sz) bs" "(H(p := None)) q = None" "16 dvd unat q" using spec by auto
      have "list_all2 agrees (resized (unat sz) (block_of K p)) bs'"
        using knows_block(2) [OF H(2) 3(2)] bs'(1,3) by (rule knows_resized)
      then have "knows ((K(p := None))(q \<mapsto> resized (unat sz) (block_of K p))) ((H(p := None))(q \<mapsto> bs'))"
        by (intro knows_update knows_drop H(2))
      then show ?thesis
        using rep_fresh [OF bs'(2,4) knows_drop [OF H(2)] bs'(5)] bs'(1,2) 3(1) False by (auto simp: heap_rel_def)
    qed (use assms(1) spec H 3(1) in \<open>auto simp: heap_rel_def\<close>)
  qed
qed

lemma rel_access:
  assumes "heap_rel c w K" "i < length (block_of K p)"
  shows "heap_sound K (Load p i (mem w (p + of_nat i)))"
    and "heap_rel c (w\<lparr>mem := (mem w)(p + of_nat i := v)\<rparr>) (heap_effect K (Store p i v))"
proof -
  obtain H where H: "sys_blocks c w H" "knows K H" using assms(1) by (auto simp: heap_rel_def)
  have "live K p" using assms(2) by (cases "K p") (auto simp: block_of_def live_def)
  then obtain bs where bs: "H p = Some bs" using knows_live [OF H(2), of p] by auto
  note k = knows_block [OF H(2) bs]
  have i: "i < length bs" using assms(2) k(3) by simp
  show "heap_sound K (Load p i (mem w (p + of_nat i)))"
    using blocks_load [OF H(1) bs i] k(2) assms(2) by (auto simp: list_all2_conv_all_nth agrees_def)
  have "list_all2 agrees ((block_of K p)[i := Some v]) (bs[i := v])"
    by (rule list_all2_update_cong [OF k(2)]) (simp add: agrees_def)
  note knows_update [OF H(2) this]
  then show "heap_rel c (w\<lparr>mem := (mem w)(p + of_nat i := v)\<rparr>) (heap_effect K (Store p i v))"
    using blocks_store [OF H(1) bs i] unfolding heap_rel_def heap_effect.simps by blast
qed

interpretation heap: contract "heap_step c" "heap_rel c" heap_legal heap_sound heap_effect for c
proof -
  have "heap_sound K e \<and> heap_rel c w' (heap_effect K e)"
    if "heap_rel c w K" "heap_legal K e" "heap_step c w e w'" for w w' K e
    using that(3)
  proof cases
    case (malloc_call sz q)
    then show ?thesis using rel_malloc that(1,2) by blast
  next
    case (calloc_call nmemb sz q)
    then show ?thesis using rel_calloc that(1,2) by blast
  next
    case (aligned_malloc_call sz align q)
    then show ?thesis using rel_aligned_malloc that(1,2) by blast
  next
    case (realloc_call p sz q)
    then show ?thesis using rel_realloc that(1,2) by blast
  next
    case (free_call p)
    then show ?thesis using rel_free that(1,2) by (simp add: vsc_free_def)
  next
    case (aligned_free_call p)
    then show ?thesis using rel_free that(1,2) by (simp add: vsc_aligned_free_def)
  next
    case (store_call p i v)
    then show ?thesis using rel_access(2) that(1,2) by simp
  next
    case (load_call p i)
    then show ?thesis using rel_access(1) that(1,2) by simp
  qed
  then show "contract (heap_step c) (heap_rel c) heap_legal heap_sound heap_effect"
    by unfold_locales blast+
qed

lemma heap_relD:
  assumes "heap_rel c w K"
  shows "i < length (block_of K p) \<Longrightarrow> agrees (block_of K p ! i) (mem w (p + of_nat i))"
    and "live K p \<Longrightarrow> live K q \<Longrightarrow> p \<noteq> q \<Longrightarrow>
      apart (unat p) (length (block_of K p)) (unat q) (length (block_of K q))"
proof -
  obtain H where H: "sys_blocks c w H" "knows K H" using assms by (auto simp: heap_rel_def)
  show "agrees (block_of K p ! i) (mem w (p + of_nat i))" if "i < length (block_of K p)"
    using rel_access(1) [OF assms that] by (simp add: agrees_def)
  assume "live K p" "live K q" "p \<noteq> q"
  then obtain bs ds where "H p = Some bs" "H q = Some ds" using knows_live [OF H(2)] by (auto simp: dom_def)
  then show "apart (unat p) (length (block_of K p)) (unat q) (length (block_of K q))"
    using blocks_apart [OF H(1), of p bs q ds] knows_block(3) [OF H(2)] \<open>p \<noteq> q\<close> by simp
qed

section \<open>Properties\<close>

text \<open>
  (C2) Programs on the heap. Over any C library whose heap keeps its promises, a program that
  frees and resizes only live blocks and stays in their bounds gets sound answers from
  \<open>vsc_malloc\<close>, \<open>vsc_calloc\<close>, \<open>vsc_aligned_malloc\<close>, \<open>vsc_realloc\<close> and the two functions that free,
  in whatever order it calls them: an allocation gives NULL or a block aligned as requested and apart
  from all live ones, and a byte reads as what was last written to it, through every reallocation. At
  the end the live blocks lie apart and hold what the program knows of them. The program
  may ask for every alignment that is a power of two below \<open>2 ^ 32\<close> and for sizes that leave room for
  the header; it must not resize a block that is not at a multiple of 16, which one allocated with
  an alignment below 16 never is: such a block loses data (\<open>heap_legal\<close>).
\<close>

theorem heap_run_refines:
  assumes "places_ok c" and "heap_ok (os w)" and "run (heap_step c) w es w'"
    and "along heap_legal heap_effect Map.empty es" and "K = foldl heap_effect Map.empty es"
  shows "along heap_sound heap_effect Map.empty es \<and>
    (\<forall>p i. i < length (block_of K p) \<longrightarrow> agrees (block_of K p ! i) (mem w' (p + of_nat i))) \<and>
    (\<forall>p q. live K p \<longrightarrow> live K q \<longrightarrow> p \<noteq> q \<longrightarrow>
      apart (unat p) (length (block_of K p)) (unat q) (length (block_of K q)))"
proof -
  have "sys_blocks c w Map.empty" using assms(1,2) by (rule sys_blocks_empty)
  then have "heap_rel c w Map.empty" by (auto simp: heap_rel_def knows_def)
  note refines = heap.run_refines [OF assms(3) this assms(4)]
  then show ?thesis using heap_relD [of c w' K] assms(5) by blast
qed

theorem heap_run_refines_witness:
  "\<exists>w' v. run (heap_step sample_libc) sample_heap
      [Malloc 5 0x10020, Store 0x10020 2 7, Realloc 0x10020 9 0x10020, Load 0x10020 2 v, Free 0x10020] w' \<and> v = 7"
proof -
  have "map_option fst (Option.bind (vsc_malloc sample_libc 5 sample_heap)
      (\<lambda>(p, w). vsc_realloc sample_libc p 9 (w\<lparr>mem := (mem w)(p + of_nat 2 := 7)\<rparr>))) = Some 0x10020"
    "map_option fst (vsc_malloc sample_libc 5 sample_heap) = Some 0x10020"
    by code_simp+
  then obtain w w1 where w: "vsc_malloc sample_libc 5 sample_heap = Some (0x10020, w)"
    "vsc_realloc sample_libc 0x10020 9 (w\<lparr>mem := (mem w)(0x10020 + of_nat 2 := 7)\<rparr>) = Some (0x10020, w1)"
    by auto
  define es where "es = [Malloc 5 0x10020, Store 0x10020 2 7, Realloc 0x10020 9 0x10020,
    Load 0x10020 2 (mem w1 (0x10020 + of_nat 2)), Free 0x10020]"
  have run: "run (heap_step sample_libc) sample_heap es (vsc_free sample_libc 0x10020 w1)"
    unfolding es_def
    by (rule run.more, rule malloc_call [OF w(1)], rule run.more, rule store_call, rule run.more, rule realloc_call [OF w(2)],
      rule run.more, rule load_call, rule run.more, rule free_call, rule run.none)
  have "places_ok sample_libc \<and> heap_ok (os sample_heap)" using sys_repD [OF sample_rep] by blast
  moreover have "along heap_legal heap_effect Map.empty es"
    by (simp add: es_def live_def block_of_def)
  ultimately have "along heap_sound heap_effect Map.empty es"
    using heap_run_refines [OF _ _ run] by blast
  then have "mem w1 (0x10020 + of_nat 2) = 7"
    by (simp add: es_def block_of_def nth_resized)
  then show ?thesis using run unfolding es_def by blast
qed

end
