(* ===== verification/Xxh3Correct.thy ===== *)
theory Xxh3Correct
  imports Xxh3
begin

text \<open>
  XXH3 with 64 bits: the portable long multiplication is the 128-bit product, the small and the
  fast build compute the same hash, and the entry points agree where their documentation says so.
\<close>

section \<open>The long multiplication\<close>

lemma low32: "unat (x AND 0xFFFFFFFF :: uint64) = unat x mod 2 ^ 32"
proof -
  have "x AND 0xFFFFFFFF = x AND mask 32" by (simp add: mask_eq_exp_minus_1)
  also have "\<dots> = x mod 2 ^ 32" by (simp add: take_bit_eq_mod flip: take_bit_eq_mask)
  finally show ?thesis by (simp add: unat_mod)
qed

lemma high32: "unat (drop_bit 32 x :: uint64) = unat x div 2 ^ 32"
  by (simp add: drop_bit_eq_div unat_div)

lemma high32_less: "unat (x :: uint64) div 2 ^ 32 < 2 ^ 32"
  using unat_bound64 [of x] by (simp add: less_mult_imp_div_less)

lemma mult32_less: "a < 2 ^ 32 \<Longrightarrow> b < 2 ^ 32 \<Longrightarrow> a * b \<le> (2 ^ 32 - 1) * (2 ^ 32 - 1 :: nat)"
  by (intro mult_le_mono) simp_all

lemma mult32to64: "unat (XXH_mult32to64 x y) = unat x mod 2 ^ 32 * (unat y mod 2 ^ 32)"
proof -
  have u: "unat (ucast (ucast z :: uint32) :: uint64) = unat z mod 2 ^ 32" for z :: uint64
    by (simp add: unsigned_ucast_eq take_bit_eq_mod mod_mod_cancel unat_mod)
  have "unat x mod 2 ^ 32 * (unat y mod 2 ^ 32) \<le> (2 ^ 32 - 1) * (2 ^ 32 - 1)"
    by (intro mult32_less) simp_all
  then show ?thesis by (simp add: XXH_mult32to64_def u unat_mult64)
qed

lemma carry:
  fixes p q :: nat
  assumes "p = 2 ^ 32 * p1 + p0" "q = 2 ^ 32 * q1 + q0" "p1 + q0 + r = 2 ^ 32 * c1 + c0"
  shows "p + 2 ^ 32 * (q + r) + 2 ^ 64 * s = 2 ^ 64 * (q1 + c1 + s) + (2 ^ 32 * c0 + p0)"
  using assms by simp

text \<open>Schoolbook multiplication of two digits in base \<open>2 ^ 32\<close>, with the carries of the code.\<close>

lemma schoolbook:
  fixes a b c d :: nat
  assumes "a < 2 ^ 32" "b < 2 ^ 32" "c < 2 ^ 32" "d < 2 ^ 32"
  defines "cross \<equiv> a * c div 2 ^ 32 + b * c mod 2 ^ 32 + a * d"
  defines "upper \<equiv> b * c div 2 ^ 32 + cross div 2 ^ 32 + b * d"
  shows "cross < 2 ^ 64" "upper < 2 ^ 64"
    "(a + 2 ^ 32 * b) * (c + 2 ^ 32 * d) = 2 ^ 64 * upper + (2 ^ 32 * (cross mod 2 ^ 32) + a * c mod 2 ^ 32)"
proof -
  define p q r s where "p = a * c" and "q = b * c" and "r = a * d" and "s = b * d"
  have le: "p \<le> (2 ^ 32 - 1) * (2 ^ 32 - 1)" "q \<le> (2 ^ 32 - 1) * (2 ^ 32 - 1)"
    "r \<le> (2 ^ 32 - 1) * (2 ^ 32 - 1)" "s \<le> (2 ^ 32 - 1) * (2 ^ 32 - 1)"
    unfolding p_def q_def r_def s_def using assms(1-4) by (blast intro: mult32_less)+
  have cross: "cross = p div 2 ^ 32 + q mod 2 ^ 32 + r" and upper: "upper = q div 2 ^ 32 + cross div 2 ^ 32 + s"
    by (simp_all add: cross_def upper_def p_def q_def r_def s_def)
  have digits: "x = 2 ^ 32 * (x div 2 ^ 32) + x mod 2 ^ 32" "x mod 2 ^ 32 < 2 ^ 32" for x :: nat by simp_all
  show c64: "cross < 2 ^ 64"
    using le digits [of p] digits [of q] unfolding cross by simp
  show "upper < 2 ^ 64"
    using le c64 digits [of q] digits [of cross] unfolding upper by simp
  have "(a + 2 ^ 32 * b) * (c + 2 ^ 32 * d) = p + 2 ^ 32 * (q + r) + 2 ^ 64 * s"
    by (simp add: p_def q_def r_def s_def algebra_simps)
  also have "\<dots> = 2 ^ 64 * upper + (2 ^ 32 * (cross mod 2 ^ 32) + p mod 2 ^ 32)"
    unfolding upper
    by (rule carry [of p "p div 2 ^ 32" "p mod 2 ^ 32" q "q div 2 ^ 32" "q mod 2 ^ 32" r])
      (simp_all add: cross)
  finally show "(a + 2 ^ 32 * b) * (c + 2 ^ 32 * d) = 2 ^ 64 * upper + (2 ^ 32 * (cross mod 2 ^ 32) + a * c mod 2 ^ 32)"
    by (simp add: p_def)
qed

lemma disjoint_or_add:
  assumes "unat y < 2 ^ 32" shows "unat (push_bit 32 x OR y :: uint64) = 2 ^ 32 * (unat x mod 2 ^ 32) + unat y"
proof -
  have "\<not> bit y n" if "32 \<le> n" for n
  proof -
    have "unat y < 2 ^ n" using assms that by (meson less_le_trans one_le_numeral power_increasing)
    then have "\<not> bit (unat y) n" by (simp add: bit_iff_odd)
    then show ?thesis by (auto simp: bit_unsigned_iff dest: bit_imp_le_length)
  qed
  then have "push_bit 32 x OR y = push_bit 32 x + y"
    by (intro disjunctive_add_eq_or [symmetric]) (auto simp: bit_eq_iff bit_and_iff bit_push_bit_iff not_le)
  moreover have shift: "unat (push_bit 32 x) = 2 ^ 32 * (unat x mod 2 ^ 32)"
  proof -
    have "unat (push_bit 32 x) = (2 ^ 32 * unat x) mod (2 ^ 32 * 2 ^ 32)"
      by (simp add: push_bit_eq_mult unat_word_ariths mult.commute)
    then show ?thesis by (simp only: mult_mod_right)
  qed
  moreover have "2 ^ 32 * (unat x mod 2 ^ 32) + unat y < 2 ^ 64"
  proof -
    have "unat x mod 2 ^ 32 < 2 ^ 32" by simp
    then show ?thesis using assms by simp
  qed
  ultimately show ?thesis by (simp only: unat_add64)
qed

lemma product128:
  "unat (high64 (XXH_mult64to128 l r)) = unat l * unat r div 2 ^ 64"
  "unat (low64 (XXH_mult64to128 l r)) = unat l * unat r mod 2 ^ 64"
proof -
  have t: "take_bit 128 (unat x) = unat x" for x :: uint64
    using less_trans [OF unat_bound64 [of x], of "2 ^ 128"] by (simp add: take_bit_nat_eq_self)
  have "unat l * unat r < 2 ^ 64 * 2 ^ 64"
    using unat_bound64 [of l] unat_bound64 [of r] by (intro mult_strict_mono) auto
  then have p: "unat ((ucast l :: 128 word) * ucast r) = unat l * unat r" and "unat l * unat r div 2 ^ 64 < 2 ^ 64"
    by (simp_all add: unat_word_ariths unsigned_ucast_eq t less_mult_imp_div_less)
  then show "unat (high64 (XXH_mult64to128 l r)) = unat l * unat r div 2 ^ 64"
    "unat (low64 (XXH_mult64to128 l r)) = unat l * unat r mod 2 ^ 64"
    by (simp_all add: XXH_mult64to128_def Let_def unsigned_ucast_eq take_bit_eq_mod drop_bit_eq_div unat_div p)
qed

lemma mult64to128_portable: "XXH_mult64to128_portable lhs rhs = XXH_mult64to128 lhs rhs"
proof -
  define a b c d where "a = unat lhs mod 2 ^ 32" and "b = unat lhs div 2 ^ 32"
    and "c = unat rhs mod 2 ^ 32" and "d = unat rhs div 2 ^ 32"
  define cross where "cross = a * c div 2 ^ 32 + b * c mod 2 ^ 32 + a * d"
  define upper where "upper = b * c div 2 ^ 32 + cross div 2 ^ 32 + b * d"
  define lower where "lower = 2 ^ 32 * (cross mod 2 ^ 32) + a * c mod 2 ^ 32"
  have less: "a < 2 ^ 32" "b < 2 ^ 32" "c < 2 ^ 32" "d < 2 ^ 32"
    using high32_less [of lhs] high32_less [of rhs] by (simp_all add: a_def b_def c_def d_def)
  note school = schoolbook [OF less, folded cross_def, folded upper_def]
  have ab: "unat lhs = a + 2 ^ 32 * b" "unat rhs = c + 2 ^ 32 * d" by (simp_all add: a_def b_def c_def d_def)
  have m: "unat (XXH_mult32to64 (lhs AND 0xFFFFFFFF) (rhs AND 0xFFFFFFFF)) = a * c"
    "unat (XXH_mult32to64 (drop_bit 32 lhs) (rhs AND 0xFFFFFFFF)) = b * c"
    "unat (XXH_mult32to64 (lhs AND 0xFFFFFFFF) (drop_bit 32 rhs)) = a * d"
    "unat (XXH_mult32to64 (drop_bit 32 lhs) (drop_bit 32 rhs)) = b * d"
    using less by (simp_all only: mult32to64 low32 high32 a_def b_def c_def d_def mod_mod_trivial mod_less)
  define x where "x = drop_bit 32 (XXH_mult32to64 (lhs AND 0xFFFFFFFF) (rhs AND 0xFFFFFFFF)) +
    (XXH_mult32to64 (drop_bit 32 lhs) (rhs AND 0xFFFFFFFF) AND 0xFFFFFFFF) +
    XXH_mult32to64 (lhs AND 0xFFFFFFFF) (drop_bit 32 rhs)"
  have x: "unat x = cross"
    using school(1) unfolding x_def cross_def by (simp add: unat_add64 high32 low32 m)
  have p0: "unat (XXH_mult32to64 (lhs AND 0xFFFFFFFF) (rhs AND 0xFFFFFFFF) AND 0xFFFFFFFF) = a * c mod 2 ^ 32"
    by (simp only: low32 m)
  have lo: "unat (push_bit 32 x OR (XXH_mult32to64 (lhs AND 0xFFFFFFFF) (rhs AND 0xFFFFFFFF) AND 0xFFFFFFFF)) = lower"
    using disjoint_or_add [of "XXH_mult32to64 (lhs AND 0xFFFFFFFF) (rhs AND 0xFFFFFFFF) AND 0xFFFFFFFF" x]
    by (simp add: p0 x lower_def)
  then have lower: "lower < 2 ^ 64" by (metis unat_bound64)
  have hi: "unat (drop_bit 32 (XXH_mult32to64 (drop_bit 32 lhs) (rhs AND 0xFFFFFFFF)) + drop_bit 32 x +
      XXH_mult32to64 (drop_bit 32 lhs) (drop_bit 32 rhs)) = upper"
    using school(2) unfolding upper_def by (simp add: unat_add64 high32 low32 m x)
  have "unat lhs * unat rhs = 2 ^ 64 * upper + lower"
    using school(3) by (simp only: ab lower_def)
  then have "unat lhs * unat rhs div 2 ^ 64 = upper" "unat lhs * unat rhs mod 2 ^ 64 = lower"
    using lower by simp_all
  then show ?thesis
    using product128 [of lhs rhs] hi lo
    by (intro XXH128_hash.equality word_eq_unatI)
      (simp_all add: XXH_mult64to128_portable_def Let_def flip: x_def)
qed

text \<open>
  (C22) The portable long multiplication, with its two carries, gives both halves of the product.
\<close>

theorem XXH_mult64to128_portable_correct:
  "XXH_mult64to128_portable lhs rhs = XXH_mult64to128 lhs rhs \<and>
   unat (high64 (XXH_mult64to128 lhs rhs)) * 2 ^ 64 + unat (low64 (XXH_mult64to128 lhs rhs)) = unat lhs * unat rhs"
  by (simp only: mult64to128_portable product128 div_mult_mod_eq simp_thms)

section \<open>The builds agree\<close>

text \<open>The number of rounds of the counting loop, with the bounds that the nested conditions test.\<close>

lemma rounds_cases:
  assumes "16 < n" "n \<le> 128"
  obtains "n \<le> 32" "(n - 1) div 32 = 0" | "32 < n" "n \<le> 64" "(n - 1) div 32 = Suc 0"
    | "64 < n" "n \<le> 96" "(n - 1) div 32 = Suc (Suc 0)" | "96 < n" "(n - 1) div 32 = Suc (Suc (Suc 0))"
proof -
  have "(n - 1) div 32 = k" if "32 * k \<le> n - 1" "n - 1 < 32 * k + 32" for k
    using that by (intro div_nat_eqI) simp_all
  from this [of 0] this [of "Suc 0"] this [of "Suc (Suc 0)"] this [of "Suc (Suc (Suc 0))"] show ?thesis
    using that assms by (cases "n \<le> 32"; cases "n \<le> 64"; cases "n \<le> 96") auto
qed

lemma len_17to128_size_opt:
  assumes "16 < length input" "length input \<le> 128"
  shows "XXH3_len_17to128_64b opt input secret seed = XXH3_len_17to128_64b opt' input secret seed"
proof -
  have "XXH3_len_17to128_64b 1 input secret seed = XXH3_len_17to128_64b 0 input secret seed"
    using assms by (cases rule: rounds_cases) (simp_all add: XXH3_len_17to128_64b_def Let_def)
  moreover have "XXH3_len_17to128_64b o1 input secret seed = XXH3_len_17to128_64b (if 1 \<le> o1 then 1 else 0) input secret seed" for o1
    by (simp add: XXH3_len_17to128_64b_def Let_def)
  ultimately show ?thesis by metis
qed

lemma write_read_LE64: "8 \<le> length p \<Longrightarrow> XXH_writeLE64 dst off (XXH_readLE64 p) = XXH_memcpy dst off (take 8 p)"
  by (simp add: XXH_writeLE64_def XXH_readLE64_def XXH_read64_def to_of_bytes)

lemma length_kSecret: "length XXH3_kSecret = 192"
  by (simp add: XXH3_kSecret_def)

text \<open>With the seed 0 the rounds copy the default secret, 16 bytes each.\<close>

lemma initCustomSecret_rounds:
  assumes "k \<le> 12"
  shows "foldl (\<lambda>cs i.
       let lo = XXH_readLE64 (drop (16 * i) XXH3_kSecret) + 0; hi = XXH_readLE64 (drop (16 * i + 8) XXH3_kSecret) - 0;
           cs = XXH_writeLE64 cs (16 * i) lo
       in XXH_writeLE64 cs (16 * i + 8) hi) (replicate 192 0) [0..<k] =
    take (16 * k) XXH3_kSecret @ replicate (192 - 16 * k) 0"
  using assms
proof (induction k)
  case (Suc k)
  have t: "take (16 + 16 * k) XXH3_kSecret =
      take (16 * k) XXH3_kSecret @ take 8 (drop (16 * k) XXH3_kSecret) @ take 8 (drop (16 * k + 8) XXH3_kSecret)"
    using take_add [of "16 * k + 8" 8 XXH3_kSecret] take_add [of "16 * k" 8 XXH3_kSecret]
    by (simp add: add.commute)
  show ?case
    using Suc by (simp add: Let_def write_read_LE64 length_kSecret XXH_memcpy_def t)
qed simp

lemma initCustomSecret_0: "XXH3_initCustomSecret_scalar 0 = XXH3_kSecret"
  using initCustomSecret_rounds [of 12]
  by (simp add: XXH3_initCustomSecret_scalar_def XXH_SECRET_DEFAULT_SIZE_def length_kSecret)

lemma hashLong_withSeed:
  "XXH3_hashLong_64b_withSeed opt input seed secret =
    XXH3_hashLong_64b_internal input (XXH3_initCustomSecret_scalar seed)
      XXH3_accumulate_512_scalar XXH3_scrambleAcc_scalar"
  by (simp add: XXH3_hashLong_64b_withSeed_def XXH3_hashLong_64b_withSeed_internal_def initCustomSecret_0)

lemma internal_size_opt:
  assumes "\<And>xs. 240 < length xs \<Longrightarrow> f xs seed secret = g xs seed secret"
  shows "XXH3_64bits_internal opt input seed secret f = XXH3_64bits_internal opt' input seed secret g"
  using assms [of input] len_17to128_size_opt [of input opt secret seed opt']
  by (simp add: XXH3_64bits_internal_def XXH3_MIDSIZE_MAX_def)

lemma withSeed_size_opt: "XXH3_64bits_withSeed opt input seed = XXH3_64bits_withSeed opt' input seed"
  unfolding XXH3_64bits_withSeed_def by (rule internal_size_opt) (simp add: hashLong_withSeed)

lemma withSecret_size_opt: "XXH3_64bits_withSecret opt input secret = XXH3_64bits_withSecret opt' input secret"
  unfolding XXH3_64bits_withSecret_def by (rule internal_size_opt) simp

lemma withSeed_0: "XXH3_64bits opt input = XXH3_64bits_withSeed opt' input 0"
  unfolding XXH3_64bits_withSeed_def XXH3_64bits_def
  by (rule internal_size_opt) (simp add: hashLong_withSeed XXH3_hashLong_64b_default_def initCustomSecret_0)

lemma withSecret_default: "XXH3_64bits_withSecret opt input XXH3_kSecret = XXH3_64bits opt' input"
  unfolding XXH3_64bits_withSecret_def XXH3_64bits_def
  by (rule internal_size_opt) (simp add: XXH3_hashLong_64b_withSecret_def XXH3_hashLong_64b_default_def)

lemma withSecretandSeed_short:
  "length input \<le> 240 \<Longrightarrow> XXH3_64bits_withSecretandSeed opt input secret seed = XXH3_64bits_withSeed opt' input seed"
  using internal_size_opt [of "\<lambda>_ _ _. 0" seed XXH3_kSecret "\<lambda>_ _ _. 0" opt input opt']
  by (simp add: XXH3_64bits_withSecretandSeed_def XXH3_64bits_withSeed_def XXH3_64bits_internal_def
      XXH3_MIDSIZE_MAX_def split: if_splits)

lemma long_hashes:
  assumes "240 < length input"
  shows "XXH3_64bits_withSeed opt input seed = XXH3_hashLong_64b_internal input (XXH3_initCustomSecret_scalar seed)
      XXH3_accumulate_512_scalar XXH3_scrambleAcc_scalar"
    and "XXH3_64bits_withSecret opt input secret =
      XXH3_hashLong_64b_internal input secret XXH3_accumulate_512_scalar XXH3_scrambleAcc_scalar"
    and "XXH3_64bits_withSecretandSeed opt input secret seed =
      XXH3_hashLong_64b_internal input secret XXH3_accumulate_512_scalar XXH3_scrambleAcc_scalar"
  using assms
  by (simp_all add: XXH3_64bits_withSeed_def XXH3_64bits_withSecret_def XXH3_64bits_withSecretandSeed_def
      XXH3_64bits_internal_def XXH3_MIDSIZE_MAX_def hashLong_withSeed XXH3_hashLong_64b_withSecret_def)

text \<open>
  The fast and the small build compute the same seeded hash; the hash without a seed is the one
  with seed 0 and the one with the default secret; and the secret that is generated from a seed
  gives, with that seed, the seeded hash.
\<close>

theorem XXH3_64bits_variants:
  "XXH3_64bits_withSeed opt input seed = XXH3_64bits_withSeed opt' input seed \<and>
   XXH3_64bits opt input = XXH3_64bits_withSeed opt' input 0 \<and>
   XXH3_64bits_withSecret opt input XXH3_kSecret = XXH3_64bits opt' input \<and>
   XXH3_64bits_withSecretandSeed opt input (XXH3_initCustomSecret_scalar seed) seed =
     XXH3_64bits_withSeed opt' input seed"
proof (intro conjI)
  show "XXH3_64bits_withSecretandSeed opt input (XXH3_initCustomSecret_scalar seed) seed =
     XXH3_64bits_withSeed opt' input seed"
    by (cases "length input \<le> 240") (simp_all add: withSecretandSeed_short [of _ _ _ _ opt'] long_hashes)
qed (rule withSeed_size_opt withSeed_0 withSecret_default)+

end
