(* ===== verification/Xxh3Stream.thy ===== *)
theory Xxh3Stream
  imports Xxh3Correct
begin

text \<open>
  The streaming interface of XXH3 (\<open>xxhash.h\<close>): it gives the hash of the concatenated input. An
  external secret is held by value; NULL is \<open>None\<close>.
\<close>

section \<open>State\<close>

definition XXH3_INTERNALBUFFER_SIZE :: nat where "XXH3_INTERNALBUFFER_SIZE = 256"
definition XXH3_INTERNALBUFFER_STRIPES :: nat where
  "XXH3_INTERNALBUFFER_STRIPES = XXH3_INTERNALBUFFER_SIZE div XXH_STRIPE_LEN"

record XXH3_state =
  acc3 :: accs
  customSecret :: "byte list"
  buffer3 :: "byte list"
  bufferedSize :: uint32
  useSeed :: uint32
  nbStripesSoFar :: size_t
  totalLen :: uint64
  nbStripesPerBlock :: size_t
  secretLimit :: size_t
  seed3 :: uint64
  extSecret :: "byte list option"

section \<open>Resets\<close>

text \<open>The members from \<open>bufferedSize\<close> up to \<open>nbStripesPerBlock\<close> are zeroed, then set.\<close>

definition XXH3_reset_internal :: "XXH3_state \<Rightarrow> uint64 \<Rightarrow> byte list option \<Rightarrow> size_t \<Rightarrow> XXH3_state" where
  "XXH3_reset_internal statePtr seed secret secretSize =
     (let limit = secretSize - of_nat XXH_STRIPE_LEN
      in statePtr\<lparr>bufferedSize := 0, nbStripesSoFar := 0, totalLen := 0, acc3 := XXH3_INIT_ACC, seed3 := seed,
           useSeed := of_bool (seed \<noteq> 0), extSecret := secret, secretLimit := limit,
           nbStripesPerBlock := limit div of_nat XXH_SECRET_CONSUME_RATE\<rparr>)"

definition XXH3_64bits_reset :: "XXH3_state \<Rightarrow> XXH_errorcode \<times> XXH3_state" where
  "XXH3_64bits_reset statePtr =
     (XXH_OK, XXH3_reset_internal statePtr 0 (Some XXH3_kSecret) (of_nat XXH_SECRET_DEFAULT_SIZE))"

definition XXH3_64bits_reset_withSecret ::
  "XXH3_state \<Rightarrow> byte list option \<Rightarrow> size_t \<Rightarrow> XXH_errorcode \<times> XXH3_state" where
  "XXH3_64bits_reset_withSecret statePtr secret secretSize =
     (let statePtr = XXH3_reset_internal statePtr 0 secret secretSize
      in if secret = None then (XXH_ERROR, statePtr)
         else if secretSize < of_nat XXH3_SECRET_SIZE_MIN then (XXH_ERROR, statePtr)
         else (XXH_OK, statePtr))"

definition XXH3_64bits_reset_withSeed :: "XXH3_state \<Rightarrow> uint64 \<Rightarrow> XXH_errorcode \<times> XXH3_state" where
  "XXH3_64bits_reset_withSeed statePtr seed =
     (if seed = 0 then XXH3_64bits_reset statePtr
      else
        let statePtr =
              (if seed \<noteq> seed3 statePtr \<or> extSecret statePtr \<noteq> None
               then statePtr\<lparr>customSecret := XXH3_initCustomSecret_scalar seed\<rparr> else statePtr)
        in (XXH_OK, XXH3_reset_internal statePtr seed None (of_nat XXH_SECRET_DEFAULT_SIZE)))"

definition XXH3_64bits_reset_withSecretandSeed ::
  "XXH3_state \<Rightarrow> byte list option \<Rightarrow> size_t \<Rightarrow> uint64 \<Rightarrow> XXH_errorcode \<times> XXH3_state" where
  "XXH3_64bits_reset_withSecretandSeed statePtr secret secretSize seed64 =
     (if secret = None then (XXH_ERROR, statePtr)
      else if secretSize < of_nat XXH3_SECRET_SIZE_MIN then (XXH_ERROR, statePtr)
      else (XXH_OK, (XXH3_reset_internal statePtr seed64 secret secretSize)\<lparr>useSeed := 1\<rparr>))"

section \<open>Updates\<close>

text \<open>The accumulators and the number of stripes of the current block that are consumed.\<close>

definition XXH3_consumeStripes ::
  "accs \<times> nat \<Rightarrow> nat \<Rightarrow> byte list \<Rightarrow> nat \<Rightarrow> byte list \<Rightarrow> nat \<Rightarrow> f_accumulate_512 \<Rightarrow> f_scrambleAcc \<Rightarrow> accs \<times> nat" where
  "XXH3_consumeStripes = (\<lambda>(acc, soFar) perBlock input nbStripes secret limit f_acc512 f_scramble.
     if perBlock - soFar \<le> nbStripes
     then
       let toEnd = perBlock - soFar;
           after = nbStripes - toEnd;
           acc = XXH3_accumulate acc input (drop (soFar * XXH_SECRET_CONSUME_RATE) secret) toEnd f_acc512;
           acc = f_scramble acc (drop limit secret);
           acc = XXH3_accumulate acc (drop (toEnd * XXH_STRIPE_LEN) input) secret after f_acc512
       in (acc, after)
     else
       (XXH3_accumulate acc input (drop (soFar * XXH_SECRET_CONSUME_RATE) secret) nbStripes f_acc512,
        soFar + nbStripes))"

text \<open>
  The loop over entire blocks; a block has at least 9 stripes. Its results are the accumulators, the
  input that is left and the number of stripes that are left.
\<close>

function consume_blocks ::
  "nat \<Rightarrow> byte list \<Rightarrow> nat \<Rightarrow> f_accumulate_512 \<Rightarrow> f_scrambleAcc \<Rightarrow> accs \<Rightarrow> byte list \<Rightarrow> nat \<Rightarrow>
   accs \<times> byte list \<times> nat" where
  "consume_blocks perBlock secret limit f_acc512 f_scramble acc input nbStripes =
     (if perBlock \<le> nbStripes \<and> perBlock \<noteq> 0
      then
        let acc = XXH3_accumulate acc input secret perBlock f_acc512;
            acc = f_scramble acc (drop limit secret)
        in consume_blocks perBlock secret limit f_acc512 f_scramble acc
             (drop (perBlock * XXH_STRIPE_LEN) input) (nbStripes - perBlock)
      else (acc, input, nbStripes))"
  by pat_completeness auto
termination by (relation "measure (\<lambda>(_, _, _, _, _, _, _, nbStripes). nbStripes)") auto

text \<open>The do-while loop over whole internal buffers: as long as more than one is left.\<close>

function consume_buffers ::
  "nat \<Rightarrow> byte list \<Rightarrow> nat \<Rightarrow> f_accumulate_512 \<Rightarrow> f_scrambleAcc \<Rightarrow> accs \<times> nat \<Rightarrow> byte list \<Rightarrow>
   (accs \<times> nat) \<times> byte list" where
  "consume_buffers perBlock secret limit f_acc512 f_scramble as input =
     (let as = XXH3_consumeStripes as perBlock input XXH3_INTERNALBUFFER_STRIPES secret limit f_acc512 f_scramble;
          input = drop XXH3_INTERNALBUFFER_SIZE input
      in if XXH3_INTERNALBUFFER_SIZE < length input
         then consume_buffers perBlock secret limit f_acc512 f_scramble as input
         else (as, input))"
  by pat_completeness auto
termination by (relation "measure (\<lambda>(_, _, _, _, _, _, input). length input)") (auto simp: XXH3_INTERNALBUFFER_SIZE_def)

declare consume_blocks.simps [simp del] consume_buffers.simps [simp del]

text \<open>
  What follows the first fill of the buffer: the accumulators with the stripes so far, the buffer,
  whose last stripe becomes the one before the rest of the input, and that rest.
\<close>

definition update_rest ::
  "nat \<Rightarrow> byte list \<Rightarrow> nat \<Rightarrow> f_accumulate_512 \<Rightarrow> f_scrambleAcc \<Rightarrow> accs \<times> nat \<Rightarrow> byte list \<Rightarrow> byte list \<Rightarrow>
   (accs \<times> nat) \<times> byte list \<times> byte list" where
  "update_rest perBlock secret limit f_acc512 f_scramble as buffer input =
     (let keep = (\<lambda>rest. XXH_memcpy buffer (length buffer - XXH_STRIPE_LEN)
                    (take XXH_STRIPE_LEN (drop (length input - length rest - XXH_STRIPE_LEN) input)))
      in if perBlock * XXH_STRIPE_LEN < length input
         then
           let (acc, soFar) = as;
               nbStripes = (length input - 1) div XXH_STRIPE_LEN;
               toEnd = perBlock - soFar;
               acc = XXH3_accumulate acc input (drop (soFar * XXH_SECRET_CONSUME_RATE) secret) toEnd f_acc512;
               acc = f_scramble acc (drop limit secret);
               (acc, rest, nbStripes) =
                 consume_blocks perBlock secret limit f_acc512 f_scramble acc
                   (drop (toEnd * XXH_STRIPE_LEN) input) (nbStripes - toEnd);
               acc = XXH3_accumulate acc rest secret nbStripes f_acc512;
               rest = drop (nbStripes * XXH_STRIPE_LEN) rest
           in ((acc, nbStripes), keep rest, rest)
         else if XXH3_INTERNALBUFFER_SIZE < length input
         then
           let (as, rest) = consume_buffers perBlock secret limit f_acc512 f_scramble as input
           in (as, keep rest, rest)
         else (as, buffer, input))"

definition secret_of :: "XXH3_state \<Rightarrow> byte list" where
  "secret_of state = (case extSecret state of None \<Rightarrow> customSecret state | Some secret \<Rightarrow> secret)"

definition XXH3_update ::
  "XXH3_state \<Rightarrow> byte list option \<Rightarrow> f_accumulate_512 \<Rightarrow> f_scrambleAcc \<Rightarrow> XXH_errorcode \<times> XXH3_state" where
  "XXH3_update state input f_acc512 f_scramble =
     (case input of
        None \<Rightarrow> (XXH_OK, state)
      | Some input \<Rightarrow>
          let secret = secret_of state;
              n = length input;
              state = state\<lparr>totalLen := totalLen state + of_nat n\<rparr>;
              buffered = unat (bufferedSize state)
          in if buffered + n \<le> XXH3_INTERNALBUFFER_SIZE
             then (XXH_OK, state\<lparr>buffer3 := XXH_memcpy (buffer3 state) buffered input,
                                 bufferedSize := bufferedSize state + of_nat n\<rparr>)
             else
               let perBlock = unat (nbStripesPerBlock state);
                   limit = unat (secretLimit state);
                   as = (acc3 state, unat (nbStripesSoFar state));
                   (as, buffer, input) =
                     (if buffered \<noteq> 0
                      then
                        let loadSize = XXH3_INTERNALBUFFER_SIZE - buffered;
                            buffer = XXH_memcpy (buffer3 state) buffered (take loadSize input)
                        in (XXH3_consumeStripes as perBlock buffer XXH3_INTERNALBUFFER_STRIPES secret limit
                              f_acc512 f_scramble, buffer, drop loadSize input)
                      else (as, buffer3 state, input));
                   ((acc, soFar), buffer, input) = update_rest perBlock secret limit f_acc512 f_scramble as buffer input
               in (XXH_OK, state\<lparr>acc3 := acc, nbStripesSoFar := of_nat soFar,
                                 buffer3 := XXH_memcpy buffer 0 input, bufferedSize := of_nat (length input)\<rparr>))"

definition XXH3_64bits_update :: "XXH3_state \<Rightarrow> byte list option \<Rightarrow> XXH_errorcode \<times> XXH3_state" where
  "XXH3_64bits_update state input = XXH3_update state input XXH3_accumulate_512_scalar XXH3_scrambleAcc_scalar"

section \<open>Digests\<close>

definition XXH3_digest_long :: "XXH3_state \<Rightarrow> byte list \<Rightarrow> f_accumulate_512 \<Rightarrow> f_scrambleAcc \<Rightarrow> accs" where
  "XXH3_digest_long state secret f_acc512 f_scramble =
     (let buffered = unat (bufferedSize state);
          limit = unat (secretLimit state)
      in if XXH_STRIPE_LEN \<le> buffered
         then
           let nbStripes = (buffered - 1) div XXH_STRIPE_LEN;
               (acc, soFar) = XXH3_consumeStripes (acc3 state, unat (nbStripesSoFar state))
                 (unat (nbStripesPerBlock state)) (buffer3 state) nbStripes secret limit f_acc512 f_scramble
           in f_acc512 acc (drop (buffered - XXH_STRIPE_LEN) (buffer3 state))
                (drop (limit - XXH_SECRET_LASTACC_START) secret)
         else
           let catchupSize = XXH_STRIPE_LEN - buffered;
               lastStripe = take catchupSize (drop (length (buffer3 state) - catchupSize) (buffer3 state)) @
                            take buffered (buffer3 state)
           in f_acc512 (acc3 state) lastStripe (drop (limit - XXH_SECRET_LASTACC_START) secret))"

definition XXH3_64bits_digest :: "nat \<Rightarrow> XXH3_state \<Rightarrow> uint64" where
  "XXH3_64bits_digest size_opt state =
     (let secret = secret_of state;
          total = unat (totalLen state)
      in if XXH3_MIDSIZE_MAX < total
         then
           let acc = XXH3_digest_long state secret XXH3_accumulate_512_scalar XXH3_scrambleAcc_scalar
           in XXH3_mergeAccs acc (drop XXH_SECRET_MERGEACCS_START secret) (totalLen state * XXH_PRIME64_1)
         else if useSeed state \<noteq> 0
         then XXH3_64bits_withSeed size_opt (take total (buffer3 state)) (seed3 state)
         else XXH3_64bits_withSecret size_opt (take total (buffer3 state))
                (take (unat (secretLimit state) + XXH_STRIPE_LEN) secret))"

end
