(* ===== verification/Xxh3StreamCorrect.thy ===== *)
theory Xxh3StreamCorrect
  imports Xxh3Stream
begin

text \<open>
  Every chunking of an input gives the same XXH3 hash. The argument is independent of the kernels:
  the locale asks only that the accumulation reads one stripe.
\<close>

section \<open>Consuming stripes one at a time\<close>

text \<open>
  The reference: the accumulators after the first \<open>n\<close> stripes of \<open>xs\<close>, with a scramble after each
  block of as many stripes as the secret has room for.
\<close>

definition per_block :: "byte list \<Rightarrow> nat" where
  "per_block secret = (length secret - 64) div 8"

lemma per_block_ge: "136 \<le> length secret \<Longrightarrow> 9 \<le> per_block secret"
  using div_le_mono [of "136 - 64" "length secret - 64" 8] by (simp add: per_block_def)

primrec eat :: "f_accumulate_512 \<Rightarrow> f_scrambleAcc \<Rightarrow> byte list \<Rightarrow> nat \<Rightarrow> byte list \<Rightarrow> accs" where
  "eat f g secret 0 xs = XXH3_INIT_ACC"
| "eat f g secret (Suc n) xs =
     (let a = f (eat f g secret n xs) (drop (64 * n) xs) (drop (8 * (n mod per_block secret)) secret)
      in if Suc n mod per_block secret = 0 then g a (drop (length secret - 64) secret) else a)"

lemmas xxh3_sizes = XXH_STRIPE_LEN_def XXH_SECRET_CONSUME_RATE_def XXH3_INTERNALBUFFER_SIZE_def
  XXH3_INTERNALBUFFER_STRIPES_def XXH_SECRET_LASTACC_START_def

locale xxh3_kernel =
  fixes f_acc512 :: f_accumulate_512 and f_scramble :: f_scrambleAcc
  assumes acc512_stripe: "f_acc512 a (take 64 p) s = f_acc512 a p s"

context xxh3_kernel begin

lemma acc512_cong: "take 64 p = take 64 q \<Longrightarrow> f_acc512 a p s = f_acc512 a q s"
  by (metis acc512_stripe)

lemma eat_append: "64 * n \<le> length xs \<Longrightarrow> eat f_acc512 f_scramble secret n (xs @ ys) = eat f_acc512 f_scramble secret n xs"
proof (induction n)
  case (Suc n)
  have "f_acc512 a (drop (64 * n) (xs @ ys)) s = f_acc512 a (drop (64 * n) xs) s" for a s
    using Suc.prems by (intro acc512_cong) simp
  then show ?case using Suc by (simp add: Let_def)
qed simp

text \<open>Accumulation within a block, from any list that starts with the stripes in question.\<close>

lemma take_stripe:
  fixes p q :: "byte list"
  assumes "take (64 * k) p = take (64 * k) q" "n < k"
  shows "take 64 (drop (64 * n) p) = take 64 (drop (64 * n) q)"
proof -
  have "take 64 (drop (64 * n) r) = drop (64 * n) (take (64 * n + 64) (take (64 * k) r))" for r :: "byte list"
    using assms(2) by (simp add: drop_take min_def)
  then show ?thesis by (simp only: assms(1))
qed

lemma mod_part: "n mod s + k < s \<Longrightarrow> (n + k) mod s = n mod s + (k :: nat)"
  using mod_add_left_eq [of n s k] by simp

lemma accumulate_part:
  assumes "n mod per_block secret + k < per_block secret" "take (64 * k) p = take (64 * k) (drop (64 * n) xs)"
  shows "XXH3_accumulate (eat f_acc512 f_scramble secret n xs) p (drop (8 * (n mod per_block secret)) secret) k f_acc512 =
    eat f_acc512 f_scramble secret (n + k) xs"
  using assms
proof (induction k)
  case (Suc k)
  define m where "m = n mod per_block secret"
  have part: "take (64 * k) p = take (64 * k) (drop (64 * n) xs)"
    using arg_cong [OF Suc.prems(2), of "take (64 * k)"] by (simp add: min_def)
  have mod: "(n + k) mod per_block secret = m + k" "Suc (n + k) mod per_block secret \<noteq> 0"
    using mod_part [of n "per_block secret" k] mod_part [of n "per_block secret" "Suc k"] Suc.prems(1)
    by (simp_all add: m_def)
  have stripe: "f_acc512 a (drop (k * 64) p) s = f_acc512 a (drop (k * 64 + n * 64) xs) s" for a s
    using take_stripe [OF Suc.prems(2), of k] by (intro acc512_cong) (simp add: algebra_simps)
  show ?case
    using Suc.IH [OF _ part] Suc.prems(1) mod
    by (simp add: XXH3_accumulate_def xxh3_sizes stripe add.commute mult.commute m_def [symmetric] distrib_left Let_def)
qed (simp add: XXH3_accumulate_def)

text \<open>Up to the end of the block, the scramble follows.\<close>

lemma accumulate_block:
  assumes "n mod per_block secret + k = per_block secret" "k \<noteq> 0"
    and "take (64 * k) p = take (64 * k) (drop (64 * n) xs)"
  shows "f_scramble (XXH3_accumulate (eat f_acc512 f_scramble secret n xs) p (drop (8 * (n mod per_block secret)) secret) k f_acc512)
      (drop (length secret - 64) secret) =
    eat f_acc512 f_scramble secret (n + k) xs \<and> (n + k) mod per_block secret = 0"
proof -
  obtain j where k: "k = Suc j" using assms(2) by (cases k) auto
  define m where "m = n mod per_block secret"
  have part: "take (64 * j) p = take (64 * j) (drop (64 * n) xs)"
    using arg_cong [OF assms(3), of "take (64 * j)"] by (simp add: min_def k)
  have mod: "(n + j) mod per_block secret = m + j" using mod_part [of n "per_block secret" j] assms(1) by (simp add: k m_def)
  then have mod0: "Suc (n + j) mod per_block secret = 0" using assms(1) by (simp add: mod_Suc k m_def)
  have stripe: "f_acc512 a (drop (j * 64) p) s = f_acc512 a (drop (j * 64 + n * 64) xs) s" for a s
    using take_stripe [OF assms(3), of j] by (intro acc512_cong) (simp add: algebra_simps k)
  have "XXH3_accumulate (eat f_acc512 f_scramble secret n xs) p (drop (8 * m) secret) j f_acc512 =
      eat f_acc512 f_scramble secret (n + j) xs"
    unfolding m_def using assms(1) k part by (intro accumulate_part) simp_all
  then show ?thesis
    using mod mod0
    by (simp add: k XXH3_accumulate_def xxh3_sizes stripe add.commute mult.commute m_def [symmetric] distrib_left Let_def)
qed

lemma consume_eat:
  assumes "k \<le> per_block secret" "0 < per_block secret" "take (64 * k) p = take (64 * k) (drop (64 * n) xs)"
  shows "XXH3_consumeStripes (eat f_acc512 f_scramble secret n xs, n mod per_block secret) (per_block secret) p k secret
      (length secret - 64) f_acc512 f_scramble =
    (eat f_acc512 f_scramble secret (n + k) xs, (n + k) mod per_block secret)"
proof -
  define m where "m = n mod per_block secret"
  have m: "m < per_block secret" using assms(2) by (simp add: m_def)
  show ?thesis
  proof (cases "per_block secret - m \<le> k")
    case True
    define j where "j = per_block secret - m"
    have j: "j \<le> k" "j \<noteq> 0" "n mod per_block secret + j = per_block secret" using m True by (simp_all add: j_def m_def)
    have "take (64 * j) p = take (64 * j) (drop (64 * n) xs)"
      using arg_cong [OF assms(3), of "take (64 * j)"] j(1) by (simp add: min_def)
    note block = accumulate_block [OF j(3,2) this]
    have rest: "take (64 * (k - j)) (drop (64 * j) p) = take (64 * (k - j)) (drop (64 * (n + j)) xs)"
      using arg_cong [OF assms(3), of "drop (64 * j)"] j(1) by (simp add: drop_take right_diff_distrib' add.commute distrib_left)
    have "XXH3_accumulate (eat f_acc512 f_scramble secret (n + j) xs) (drop (64 * j) p) secret (k - j) f_acc512 =
        eat f_acc512 f_scramble secret (n + j + (k - j)) xs"
      using accumulate_part [of "n + j" secret "k - j" "drop (64 * j) p" xs] block rest assms(1) j(2) m by (simp add: j_def)
    moreover have "(n + j + (k - j)) mod per_block secret = k - j"
      using mod_part [of "n + j" "per_block secret" "k - j"] block assms(1) m j(2) by (simp add: j_def)
    ultimately show ?thesis
      using block j(1) True
      by (simp add: XXH3_consumeStripes_def xxh3_sizes Let_def mult.commute m_def [symmetric] j_def [symmetric])
  next
    case False
    then have "n mod per_block secret + k < per_block secret" using m by (simp add: m_def)
    with accumulate_part [OF this assms(3)] mod_part [OF this] show ?thesis
      using False by (simp add: XXH3_consumeStripes_def xxh3_sizes Let_def mult.commute m_def [symmetric])
  qed
qed

text \<open>The one-shot loop.\<close>

lemma hashLong_eat:
  assumes "64 < length xs" "72 \<le> length secret"
  shows "XXH3_hashLong_internal_loop XXH3_INIT_ACC xs secret f_acc512 f_scramble =
    f_acc512 (eat f_acc512 f_scramble secret ((length xs - 1) div 64) xs) (drop (length xs - 64) xs)
      (drop (length secret - 64 - 7) secret)"
proof -
  define s where "s = per_block secret"
  define b where "b = (length xs - 1) div (64 * s)"
  have s: "0 < s" using assms(2) by (simp add: s_def per_block_def div_greater_zero_iff)
  have fold: "foldl (\<lambda>acc n. f_scramble (XXH3_accumulate acc (drop (n * (64 * s)) xs) secret s f_acc512)
        (drop (length secret - 64) secret)) XXH3_INIT_ACC [0..<n] = eat f_acc512 f_scramble secret (s * n) xs" for n
  proof (induction n)
    case (Suc n)
    then show ?case
      using accumulate_block [of "s * n" secret s "drop (64 * (s * n)) xs" xs] s
      by (simp add: s_def [symmetric] mult.commute mult.left_commute mult.assoc add.commute)
  qed simp
  define d where "d = ((length xs - 1) - 64 * s * b) div 64"
  have div: "(length xs - 1) div 64 = s * b + d"
  proof -
    have "64 * s * b \<le> length xs - 1" by (simp add: b_def)
    then obtain r where "length xs - 1 = 64 * s * b + r" using le_Suc_ex by blast
    then show ?thesis by (simp add: mult.assoc d_def)
  qed
  have "(length xs - 1) - 64 * s * b < 64 * s"
    unfolding b_def minus_mult_div_eq_mod using s by (intro mod_less_divisor) simp
  then have "d < s" by (simp add: less_mult_imp_div_less mult.commute d_def)
  then have acc: "XXH3_accumulate (eat f_acc512 f_scramble secret (s * b) xs) (drop (b * (64 * s)) xs) secret d f_acc512 =
      eat f_acc512 f_scramble secret (s * b + d) xs"
    using accumulate_part [of "s * b" secret d "drop (b * (64 * s)) xs" xs] by (simp add: ac_simps flip: s_def)
  show ?thesis
    unfolding div XXH3_hashLong_internal_loop_def Let_def xxh3_sizes per_block_def [symmetric] s_def [symmetric]
      b_def [symmetric] d_def [symmetric] fold acc ..
qed

lemma consume_blocks_eat:
  assumes "n mod per_block secret = 0" "0 < per_block secret"
  shows "\<exists>n' k'. consume_blocks (per_block secret) secret (length secret - 64) f_acc512 f_scramble
      (eat f_acc512 f_scramble secret n xs) (drop (64 * n) xs) k =
    (eat f_acc512 f_scramble secret n' xs, drop (64 * n') xs, k') \<and>
    n' + k' = n + k \<and> k' < per_block secret \<and> n' mod per_block secret = 0"
  using assms(1)
proof (induction k arbitrary: n rule: less_induct)
  case (less k)
  define s where "s = per_block secret"
  show ?case
  proof (cases "s \<le> k")
    case True
    have "f_scramble (XXH3_accumulate (eat f_acc512 f_scramble secret n xs) (drop (64 * n) xs) secret s f_acc512)
        (drop (length secret - 64) secret) = eat f_acc512 f_scramble secret (n + s) xs" "(n + s) mod s = 0"
      using accumulate_block [of n secret s "drop (64 * n) xs" xs] less.prems assms(2) by (simp_all add: s_def)
    then show ?thesis
      using less.IH [of "k - s" "n + s"] True assms(2)
      by (subst consume_blocks.simps) (auto simp: xxh3_sizes algebra_simps s_def)
  next
    case False
    then show ?thesis using less.prems by (subst consume_blocks.simps) (auto simp: s_def)
  qed
qed

lemma consume_buffers_eat:
  assumes "4 \<le> per_block secret" "256 < length (drop (64 * n) xs)"
  shows "\<exists>n'. consume_buffers (per_block secret) secret (length secret - 64) f_acc512 f_scramble
      (eat f_acc512 f_scramble secret n xs, n mod per_block secret) (drop (64 * n) xs) =
    ((eat f_acc512 f_scramble secret n' xs, n' mod per_block secret), drop (64 * n') xs) \<and>
    n < n' \<and> 64 * n' < length xs \<and> length xs \<le> 64 * n' + 256"
  using assms(2)
proof (induction "length xs - 64 * n" arbitrary: n rule: less_induct)
  case less
  have "XXH3_consumeStripes (eat f_acc512 f_scramble secret n xs, n mod per_block secret) (per_block secret) (drop (64 * n) xs)
      4 secret (length secret - 64) f_acc512 f_scramble =
    (eat f_acc512 f_scramble secret (n + 4) xs, (n + 4) mod per_block secret)"
    using assms(1) by (intro consume_eat) simp_all
  moreover have "drop 256 (drop (64 * n) xs) = drop (64 * (n + 4)) xs" by (simp add: add.commute)
  ultimately have step: "consume_buffers (per_block secret) secret (length secret - 64) f_acc512 f_scramble
      (eat f_acc512 f_scramble secret n xs, n mod per_block secret) (drop (64 * n) xs) =
    (if 256 < length (drop (64 * (n + 4)) xs)
     then consume_buffers (per_block secret) secret (length secret - 64) f_acc512 f_scramble
       (eat f_acc512 f_scramble secret (n + 4) xs, (n + 4) mod per_block secret) (drop (64 * (n + 4)) xs)
     else ((eat f_acc512 f_scramble secret (n + 4) xs, (n + 4) mod per_block secret), drop (64 * (n + 4)) xs))"
    by (subst consume_buffers.simps) (simp add: xxh3_sizes Let_def del: length_drop drop_drop)
  show ?case
  proof (cases "256 < length (drop (64 * (n + 4)) xs)")
    case True
    then have "length xs - 64 * (n + 4) < length xs - 64 * n" by simp
    from less.hyps [OF this True] show ?thesis unfolding step using True by auto
  next
    case False
    then show ?thesis unfolding step using less.prems by (intro exI [of _ "n + 4"]) auto
  qed
qed

text \<open>
  What a buffer and the consumed stripes have to do with the input: \<open>n\<close> stripes are consumed, at
  least one and at most 256 bytes are left, and the last stripe of the buffer is the one before.
\<close>

definition kept :: "byte list \<Rightarrow> byte list \<Rightarrow> nat \<Rightarrow> bool" where
  "kept xs buffer n =
     (length buffer = 256 \<and> 0 < n \<and> 64 * n < length xs \<and> length xs \<le> 64 * n + 256 \<and>
      drop 192 buffer = take 64 (drop (64 * (n - 1)) xs))"

lemma kept_memcpy:
  assumes "length buffer = 256" "0 < n" "64 * n < length xs" "length xs \<le> 64 * n + 256"
  shows "kept xs (XXH_memcpy buffer 192 (take 64 (drop (64 * n - 64) xs))) n"
proof -
  have "length (take 64 (drop (64 * n - 64) xs)) = 64" using assms by simp
  moreover have "64 * n - 64 = 64 * (n - 1)" using assms(2) by (simp add: diff_mult_distrib2)
  ultimately show ?thesis using assms by (simp add: kept_def XXH_memcpy_def)
qed

lemma update_blocks_eat:
  assumes s: "0 < per_block secret" and long: "64 * per_block secret < length (drop (64 * n) xs)" and len: "length buffer = 256"
  shows "\<exists>n' buffer'. update_rest (per_block secret) secret (length secret - 64) f_acc512 f_scramble
      (eat f_acc512 f_scramble secret n xs, n mod per_block secret) buffer (drop (64 * n) xs) =
    ((eat f_acc512 f_scramble secret n' xs, n' mod per_block secret), buffer', drop (64 * n') xs) \<and> kept xs buffer' n'"
proof -
  define S where "S = per_block secret"
  define input where "input = drop (64 * n) xs"
  define k where "k = (length input - 1) div 64"
  define e where "e = S - n mod S"
  have "n mod S < S" using s by (simp add: S_def)
  then have e: "e \<noteq> 0" "n mod S + e = S" by (simp_all add: e_def)
  have k: "64 * k < length input" "length input \<le> 64 * k + 64" "S \<le> k"
  proof -
    have "64 * S \<le> length input - 1" using long by (simp add: input_def S_def)
    then have "64 * S div 64 \<le> k" unfolding k_def by (rule div_le_mono)
    then show "S \<le> k" by simp
    have "length input = Suc (length input - 1)" using long by (simp add: input_def)
    then show "64 * k < length input" "length input \<le> 64 * k + 64"
      unfolding k_def using mult_div_mod_eq [of 64 "length input - 1"] mod_less_divisor [of 64 "length input - 1"]
      by linarith+
  qed
  have first: "f_scramble (XXH3_accumulate (eat f_acc512 f_scramble secret n xs) input (drop (8 * (n mod S)) secret) e f_acc512)
      (drop (length secret - 64) secret) = eat f_acc512 f_scramble secret (n + e) xs" "(n + e) mod S = 0"
    using accumulate_block [of n secret e input xs] e by (simp_all add: S_def input_def)
  obtain n' k' where blocks: "consume_blocks S secret (length secret - 64) f_acc512 f_scramble
      (eat f_acc512 f_scramble secret (n + e) xs) (drop (64 * (n + e)) xs) (k - e) =
      (eat f_acc512 f_scramble secret n' xs, drop (64 * n') xs, k')"
    and n': "n' + k' = n + e + (k - e)" "k' < S" "n' mod S = 0"
    using consume_blocks_eat [OF first(2) [unfolded S_def] s, of xs "k - e"] by (auto simp: S_def)
  have "e \<le> k" using k(3) e(2) by linarith
  then have sum: "n' + k' = n + k" using n'(1) by simp
  have last: "XXH3_accumulate (eat f_acc512 f_scramble secret n' xs) (drop (64 * n') xs) secret k' f_acc512 =
      eat f_acc512 f_scramble secret (n + k) xs" "(n + k) mod S = k'"
    using accumulate_part [of n' secret k' "drop (64 * n') xs" xs] mod_part [of n' S k'] n'(2,3) sum
    by (simp_all add: S_def)
  have pos: "0 < n + k" using k(3) s by (simp add: S_def)
  have xs: "64 * (n + k) < length xs" "length xs \<le> 64 * (n + k) + 64"
    using k(1,2) by (simp_all add: input_def distrib_left)
  have rest: "drop (64 * k') (drop (64 * n') xs) = drop (64 * (n + k)) xs"
  proof -
    have "64 * (n' + k') = 64 * (n + k)" by (simp only: sum)
    then have eq: "64 * k' + 64 * n' = 64 * (n + k)" by (simp only: distrib_left add.commute)
    show ?thesis by (simp only: drop_drop eq)
  qed
  have len_rest: "length input - length (drop (64 * (n + k)) xs) - 64 = 64 * k - 64"
    using xs(1) by (simp add: input_def)
  have before: "drop (64 * k - 64) input = drop (64 * (n + k) - 64) xs"
    using k(3) s by (simp add: input_def S_def algebra_simps)
  have dr: "drop (e * 64) input = drop (64 * (n + e)) xs" by (simp add: input_def algebra_simps)
  have cond: "S * 64 < length input" using long by (simp add: S_def input_def)
  have c192: "length buffer - 64 = 192" by (simp add: len)
  have "update_rest S secret (length secret - 64) f_acc512 f_scramble (eat f_acc512 f_scramble secret n xs, n mod S) buffer input =
    ((eat f_acc512 f_scramble secret (n + k) xs, (n + k) mod S),
     XXH_memcpy buffer 192 (take 64 (drop (64 * (n + k) - 64) xs)), drop (64 * (n + k)) xs)"
    unfolding update_rest_def xxh3_sizes Let_def
    by (simp only: cond if_True prod.case k_def [symmetric] e_def [symmetric] mult.commute [of "n mod S" 8]
        mult.commute [of k' 64] first(1) dr blocks last rest len_rest before c192)
  then show ?thesis
    using kept_memcpy [OF len pos xs(1)] xs(2) unfolding S_def input_def by (intro exI conjI) (assumption, simp)
qed

lemma update_rest_eat:
  assumes s: "4 \<le> per_block secret" and len: "length buffer = 256" and lt: "64 * n < length xs"
    and small: "length xs \<le> 64 * n + 256 \<Longrightarrow> kept xs buffer n"
  shows "\<exists>n' buffer'. update_rest (per_block secret) secret (length secret - 64) f_acc512 f_scramble
      (eat f_acc512 f_scramble secret n xs, n mod per_block secret) buffer (drop (64 * n) xs) =
    ((eat f_acc512 f_scramble secret n' xs, n' mod per_block secret), buffer', drop (64 * n') xs) \<and> kept xs buffer' n'"
proof -
  consider "64 * per_block secret < length (drop (64 * n) xs)"
    | "\<not> 64 * per_block secret < length (drop (64 * n) xs)" "256 < length (drop (64 * n) xs)"
    | "\<not> 64 * per_block secret < length (drop (64 * n) xs)" "\<not> 256 < length (drop (64 * n) xs)"
    by blast
  then show ?thesis
  proof cases
    case 1
    then show ?thesis using s len by (intro update_blocks_eat) simp_all
  next
    case 2
    from consume_buffers_eat [OF s 2(2)] obtain n' where n': "consume_buffers (per_block secret) secret (length secret - 64)
        f_acc512 f_scramble (eat f_acc512 f_scramble secret n xs, n mod per_block secret) (drop (64 * n) xs) =
      ((eat f_acc512 f_scramble secret n' xs, n' mod per_block secret), drop (64 * n') xs)"
      "n < n'" "64 * n' < length xs" "length xs \<le> 64 * n' + 256"
      by blast
    have "length (drop (64 * n) xs) - length (drop (64 * n') xs) - 64 + 64 * n = 64 * n' - 64" using n'(2,3) by simp
    then show ?thesis
      using 2 n'(1) kept_memcpy [OF len _ n'(3,4)] n'(2) len
      by (intro exI [of _ n'] exI [of _ "XXH_memcpy buffer 192 (take 64 (drop (64 * n' - 64) xs))"])
        (simp add: update_rest_def xxh3_sizes Let_def mult.commute [of _ 64] add.commute del: length_drop)
  next
    case 3
    then show ?thesis
      using small by (intro exI [of _ n] exI [of _ buffer])
        (simp add: update_rest_def xxh3_sizes Let_def mult.commute [of _ 64])
  qed
qed

section \<open>The state\<close>

text \<open>
  A state that has taken in \<open>xs\<close> under a secret of at least 136 bytes: what does not change from one
  update to the next, and the progress, \<open>n\<close> stripes consumed and the rest buffered.
\<close>

definition under :: "byte list \<Rightarrow> XXH3_state \<Rightarrow> bool" where
  "under secret s =
     (secret_of s = secret \<and> 136 \<le> length secret \<and> length secret < 2 ^ 64 \<and>
      unat (secretLimit s) = length secret - 64 \<and> unat (nbStripesPerBlock s) = per_block secret \<and>
      length (buffer3 s) = 256)"

definition progress :: "byte list \<Rightarrow> byte list \<Rightarrow> XXH3_state \<Rightarrow> nat \<Rightarrow> bool" where
  "progress secret xs s n =
     (totalLen s = of_nat (length xs) \<and> acc3 s = eat f_acc512 f_scramble secret n xs \<and>
      unat (nbStripesSoFar s) = n mod per_block secret \<and> 64 * n \<le> length xs \<and> length xs \<le> 64 * n + 256 \<and>
      unat (bufferedSize s) = length xs - 64 * n \<and> take (length xs - 64 * n) (buffer3 s) = drop (64 * n) xs \<and>
      (0 < n \<longrightarrow> 64 * n < length xs \<and> 256 < length xs) \<and>
      (0 < n \<and> length xs < 64 * n + 64 \<longrightarrow> drop 192 (buffer3 s) = take 64 (drop (64 * (n - 1)) xs)))"

definition took :: "byte list \<Rightarrow> byte list \<Rightarrow> XXH3_state \<Rightarrow> bool" where
  "took secret xs s = (under secret s \<and> (\<exists>n. progress secret xs s n))"

lemma update_short:
  assumes under: "under secret s" and prog: "progress secret xs s n" and short: "unat (bufferedSize s) + length ys \<le> 256"
  shows "took secret (xs @ ys) (snd (XXH3_update s (Some ys) f_acc512 f_scramble))"
proof -
  have len: "length (buffer3 s) = 256" using under by (simp add: under_def)
  have n: "64 * n \<le> length xs" "unat (bufferedSize s) = length xs - 64 * n" "acc3 s = eat f_acc512 f_scramble secret n xs"
    using prog by (simp_all add: progress_def)
  have size: "unat (bufferedSize s + of_nat (length ys)) = length (xs @ ys) - 64 * n"
    using short n(1,2) by (simp add: unat_word_ariths unsigned_of_nat take_bit_eq_mod)
  define buffer where "buffer = XXH_memcpy (buffer3 s) (length xs - 64 * n) ys"
  define s' where "s' = s\<lparr>totalLen := totalLen s + of_nat (length ys),
      buffer3 := buffer, bufferedSize := bufferedSize s + of_nat (length ys)\<rparr>"
  have s': "snd (XXH3_update s (Some ys) f_acc512 f_scramble) = s'"
    using short by (simp add: XXH3_update_def xxh3_sizes Let_def s'_def buffer_def n(2))
  have lb: "length buffer = 256" using short len n(2) by (simp add: buffer_def)
  have tl: "drop 192 buffer = take 64 (drop (64 * (n - 1)) (xs @ ys))" if "0 < n" "length (xs @ ys) < 64 * n + 64"
  proof -
    have "drop 192 buffer = drop 192 (buffer3 s)" using that len n(1) by (simp add: buffer_def XXH_memcpy_def)
    also have "\<dots> = take 64 (drop (64 * (n - 1)) xs)" using prog that by (simp add: progress_def)
    also have "\<dots> = take 64 (drop (64 * (n - 1)) (xs @ ys))" using that n(1) by simp
    finally show ?thesis .
  qed
  have hd: "take (length (xs @ ys) - 64 * n) buffer = drop (64 * n) (xs @ ys)"
  proof -
    have "length (xs @ ys) - 64 * n = (length xs - 64 * n) + length ys" using n(1) by simp
    then show ?thesis
      using prog short len n(1,2) unfolding buffer_def
      by (simp only: memcpy_take length_drop) (simp add: progress_def)
  qed
  have "progress secret (xs @ ys) s' n"
    unfolding progress_def using prog short n(1,2) size hd tl
    by (simp add: s'_def progress_def eat_append) auto
  moreover have "under secret s'" using under lb by (simp add: under_def s'_def secret_of_def split: option.splits)
  ultimately show ?thesis unfolding s' took_def by blast
qed

text \<open>The first fill: four more stripes, and the buffer holds them.\<close>

lemma fill_eat:
  assumes s: "4 \<le> per_block secret" and len: "length buf = 256" and b: "64 * n \<le> length xs" "length xs \<le> 64 * n + 256"
    and hd: "take (length xs - 64 * n) buf = drop (64 * n) xs" and long: "256 < length xs - 64 * n + length ys"
  defines "buf' \<equiv> XXH_memcpy buf (length xs - 64 * n) (take (256 - (length xs - 64 * n)) ys)"
  shows "XXH3_consumeStripes (eat f_acc512 f_scramble secret n xs, n mod per_block secret) (per_block secret) buf' 4 secret
      (length secret - 64) f_acc512 f_scramble =
    (eat f_acc512 f_scramble secret (n + 4) (xs @ ys), (n + 4) mod per_block secret) \<and>
    drop (256 - (length xs - 64 * n)) ys = drop (64 * (n + 4)) (xs @ ys) \<and>
    (length (xs @ ys) \<le> 64 * (n + 4) + 256 \<longrightarrow> kept (xs @ ys) buf' (n + 4)) \<and> length buf' = 256"
proof -
  have buf': "buf' = take 256 (drop (64 * n) (xs @ ys))"
    using hd len b long by (simp add: buf'_def XXH_memcpy_def)
  have lb: "length buf' = 256" unfolding buf' using long b by simp
  have "eat f_acc512 f_scramble secret n xs = eat f_acc512 f_scramble secret n (xs @ ys)" using b by (simp add: eat_append)
  moreover have "XXH3_consumeStripes (eat f_acc512 f_scramble secret n (xs @ ys), n mod per_block secret) (per_block secret)
      buf' 4 secret (length secret - 64) f_acc512 f_scramble =
    (eat f_acc512 f_scramble secret (n + 4) (xs @ ys), (n + 4) mod per_block secret)"
    using s b(2) by (intro consume_eat) (simp_all add: buf' min_def)
  moreover have "drop (256 - (length xs - 64 * n)) ys = drop (64 * (n + 4)) (xs @ ys)" using b by (simp add: add.commute)
  moreover have "drop 192 buf' = take 64 (drop (64 * (n + 4 - 1)) (xs @ ys))"
  proof -
    have "drop 192 (take 256 (drop (64 * n) zs)) = take 64 (drop (64 * (n + 4 - 1)) zs)" for zs :: "byte list"
      by (simp add: drop_take add.commute)
    then show ?thesis by (simp only: buf')
  qed
  moreover have "64 * (n + 4) < length (xs @ ys)" using b long by simp
  ultimately show ?thesis using lb by (simp add: kept_def)
qed

lemma progress_rest:
  assumes "kept xs buffer n" "length xs < 2 ^ 64" "unat (nbStripesPerBlock s) = per_block secret" "0 < per_block secret"
    "256 < length xs"
  shows "progress secret xs (s\<lparr>totalLen := of_nat (length xs), acc3 := eat f_acc512 f_scramble secret n xs,
      nbStripesSoFar := of_nat (n mod per_block secret), buffer3 := XXH_memcpy buffer 0 (drop (64 * n) xs),
      bufferedSize := of_nat (length (drop (64 * n) xs))\<rparr>) n"
proof -
  have k: "length buffer = 256" "0 < n" "64 * n < length xs" "length xs \<le> 64 * n + 256"
    "drop 192 buffer = take 64 (drop (64 * (n - 1)) xs)"
    using assms(1) by (simp_all add: kept_def)
  have "n mod per_block secret < 2 ^ 64"
    using assms(3,4) unat_bound64 [of "nbStripesPerBlock s"] by (metis less_trans mod_less_divisor)
  then have sofar: "unat (of_nat (n mod per_block secret) :: size_t) = n mod per_block secret" by (rule unat_of_nat64)
  have size: "unat (of_nat (length xs - 64 * n) :: uint32) = length xs - 64 * n"
    using k(4) by (simp add: unsigned_of_nat take_bit_nat_eq_self)
  have hd: "take (length xs - 64 * n) (XXH_memcpy buffer 0 (drop (64 * n) xs)) = drop (64 * n) xs"
    by (simp add: XXH_memcpy_def)
  have tl: "drop 192 (XXH_memcpy buffer 0 (drop (64 * n) xs)) = drop 192 buffer" if "length xs < 64 * n + 64"
    using that by (simp add: XXH_memcpy_def)
  show ?thesis using k sofar size hd tl assms(5) by (simp add: progress_def)
qed

lemma update_long:
  assumes under: "under secret s" and prog: "progress secret xs s n" and fits: "length (xs @ ys) < 2 ^ 64"
    and long: "256 < unat (bufferedSize s) + length ys"
  shows "took secret (xs @ ys) (snd (XXH3_update s (Some ys) f_acc512 f_scramble))"
proof -
  define b where "b = length xs - 64 * n"
  have len: "length (buffer3 s) = 256" and sec: "secret_of s = secret"
    and lim: "unat (secretLimit s) = length secret - 64" and per: "unat (nbStripesPerBlock s) = per_block secret"
    using under by (simp_all add: under_def)
  have s9: "4 \<le> per_block secret" using under per_block_ge [of secret] by (simp add: under_def)
  have n: "64 * n \<le> length xs" "length xs \<le> 64 * n + 256" "unat (bufferedSize s) = b"
    "acc3 s = eat f_acc512 f_scramble secret n xs" "unat (nbStripesSoFar s) = n mod per_block secret"
    "take b (buffer3 s) = drop (64 * n) xs" "totalLen s = of_nat (length xs)" "0 < n \<longrightarrow> b \<noteq> 0"
    using prog by (auto simp: progress_def b_def)
  define buf where "buf = (if b \<noteq> 0 then XXH_memcpy (buffer3 s) b (take (256 - b) ys) else buffer3 s)"
  define m where "m = (if b \<noteq> 0 then n + 4 else n)"
  have fill: "(if b \<noteq> 0
      then (XXH3_consumeStripes (acc3 s, unat (nbStripesSoFar s)) (per_block secret) buf 4 secret (length secret - 64)
              f_acc512 f_scramble, buf, drop (256 - b) ys)
      else ((acc3 s, unat (nbStripesSoFar s)), buffer3 s, ys)) =
    ((eat f_acc512 f_scramble secret m (xs @ ys), m mod per_block secret), buf, drop (64 * m) (xs @ ys))"
    and small: "length (xs @ ys) \<le> 64 * m + 256 \<Longrightarrow> kept (xs @ ys) buf m" and lb: "length buf = 256"
    and rest: "64 * m < length (xs @ ys)"
  proof -
    note f = fill_eat [OF s9 len n(1,2) n(6) [unfolded b_def], of ys, folded b_def]
    have *: "n = 0" "xs = []" if "b = 0" using that n by (auto simp: b_def)
    show "length buf = 256" using f long n(3) len by (simp add: buf_def)
    show "64 * m < length (xs @ ys)" using long n(1-3) by (auto simp: m_def b_def)
    show "kept (xs @ ys) buf m" if "length (xs @ ys) \<le> 64 * m + 256"
      using that f long n(3) * by (cases "b = 0") (simp_all add: m_def buf_def)
    show "(if b \<noteq> 0
      then (XXH3_consumeStripes (acc3 s, unat (nbStripesSoFar s)) (per_block secret) buf 4 secret (length secret - 64)
              f_acc512 f_scramble, buf, drop (256 - b) ys)
      else ((acc3 s, unat (nbStripesSoFar s)), buffer3 s, ys)) =
    ((eat f_acc512 f_scramble secret m (xs @ ys), m mod per_block secret), buf, drop (64 * m) (xs @ ys))"
      using f long n(3-5) * by (cases "b = 0") (simp_all add: m_def buf_def)
  qed
  from update_rest_eat [OF s9 lb rest small] obtain n' buffer' where
    out: "update_rest (per_block secret) secret (length secret - 64) f_acc512 f_scramble
      (eat f_acc512 f_scramble secret m (xs @ ys), m mod per_block secret) buf (drop (64 * m) (xs @ ys)) =
    ((eat f_acc512 f_scramble secret n' (xs @ ys), n' mod per_block secret), buffer', drop (64 * n') (xs @ ys))"
    and kept: "kept (xs @ ys) buffer' n'"
    by (auto simp del: drop_append)
  define s' where "s' = s\<lparr>totalLen := of_nat (length (xs @ ys)), acc3 := eat f_acc512 f_scramble secret n' (xs @ ys),
      nbStripesSoFar := of_nat (n' mod per_block secret), buffer3 := XXH_memcpy buffer' 0 (drop (64 * n') (xs @ ys)),
      bufferedSize := of_nat (length (drop (64 * n') (xs @ ys)))\<rparr>"
  have "snd (XXH3_update s (Some ys) f_acc512 f_scramble) = s'"
  proof -
    let ?as = "(acc3 s, unat (nbStripesSoFar s))"
    have tl: "totalLen s + of_nat (length ys) = of_nat (length (xs @ ys))" by (simp add: n(7))
    have c: "\<not> b + length ys \<le> 256" "(256 :: nat) div 64 = 4" using long n(3) by simp_all
    have "snd (XXH3_update s (Some ys) f_acc512 f_scramble) =
      (let (as, buffer, input) =
            (if b \<noteq> 0
             then (XXH3_consumeStripes ?as (per_block secret) buf 4 secret (length secret - 64) f_acc512 f_scramble,
                   buf, drop (256 - b) ys)
             else (?as, buffer3 s, ys));
           ((acc, soFar), buffer, input) =
             update_rest (per_block secret) secret (length secret - 64) f_acc512 f_scramble as buffer input
       in s\<lparr>totalLen := totalLen s + of_nat (length ys), acc3 := acc, nbStripesSoFar := of_nat soFar,
            buffer3 := XXH_memcpy buffer 0 input, bufferedSize := of_nat (length input)\<rparr>)"
      using c(1) by (cases "b = 0") (simp_all add: XXH3_update_def xxh3_sizes Let_def n(3) c sec lim per buf_def case_prod_unfold)
    then show ?thesis unfolding fill Let_def prod.case out tl s'_def .
  qed
  moreover have "progress secret (xs @ ys) s' n'"
    unfolding s'_def using kept fits per s9 long n(1,3) by (intro progress_rest) (simp_all add: b_def)
  moreover have "under secret s'"
    using under kept by (auto simp: under_def s'_def secret_of_def kept_def split: option.splits)
  ultimately show ?thesis unfolding took_def by blast
qed

lemma update_took:
  assumes "took secret xs s" "length (xs @ ys) < 2 ^ 64"
  shows "took secret (xs @ ys) (snd (XXH3_update s (Some ys) f_acc512 f_scramble))"
proof -
  obtain n where "under secret s" "progress secret xs s n" using assms(1) unfolding took_def by blast
  then show ?thesis
    using update_short [of secret s xs n ys] update_long [of secret s xs n ys] assms(2) by (meson not_le)
qed

lemma took_chunks:
  assumes "took secret [] s" "length (concat chunks) < 2 ^ 64"
  shows "took secret (concat chunks) (foldl (\<lambda>s chunk. snd (XXH3_update s (Some chunk) f_acc512 f_scramble)) s chunks)"
  using assms(2)
proof (induction chunks rule: rev_induct)
  case (snoc chunk chunks)
  then have "took secret (concat chunks) (foldl (\<lambda>s chunk. snd (XXH3_update s (Some chunk) f_acc512 f_scramble)) s chunks)"
    by simp
  from update_took [OF this, of chunk] snoc.prems show ?case by simp
qed (simp add: assms(1))

text \<open>The digest of a long input ends as the one-shot loop does; a short one is still in the buffer.\<close>

lemma digest_long:
  assumes "took secret xs s" "240 < length xs"
  shows "XXH3_digest_long s secret f_acc512 f_scramble =
    XXH3_hashLong_internal_loop XXH3_INIT_ACC xs secret f_acc512 f_scramble"
proof -
  obtain n where under: "under secret s" and prog: "progress secret xs s n" using assms(1) unfolding took_def by blast
  define b where "b = length xs - 64 * n"
  have len: "length (buffer3 s) = 256" and lim: "unat (secretLimit s) = length secret - 64"
    and per: "unat (nbStripesPerBlock s) = per_block secret" and l136: "136 \<le> length secret"
    using under by (simp_all add: under_def)
  then have S: "9 \<le> per_block secret" by (simp add: per_block_ge)
  have n: "64 * n \<le> length xs" "length xs \<le> 64 * n + 256" "unat (bufferedSize s) = b"
    "acc3 s = eat f_acc512 f_scramble secret n xs" "unat (nbStripesSoFar s) = n mod per_block secret"
    "take b (buffer3 s) = drop (64 * n) xs" "0 < n \<longrightarrow> 64 * n < length xs"
    "0 < n \<and> length xs < 64 * n + 64 \<longrightarrow> drop 192 (buffer3 s) = take 64 (drop (64 * (n - 1)) xs)"
    using prog by (auto simp: progress_def b_def)
  have xs: "length xs = 64 * n + b" using n(1) by (simp add: b_def)
  note one = hashLong_eat [of xs secret]
  show ?thesis
  proof (cases "64 \<le> b")
    case True
    have k4: "(b - 1) div 64 \<le> 4" using div_le_mono [of "b - 1" 256 64] n(2) xs by simp
    have kb: "64 * ((b - 1) div 64) \<le> b" using mult_div_mod_eq [of 64 "b - 1"] by simp
    have "take (64 * ((b - 1) div 64)) (buffer3 s) = take (64 * ((b - 1) div 64)) (take b (buffer3 s))"
      using kb by (simp add: min_def)
    then have "XXH3_consumeStripes (eat f_acc512 f_scramble secret n xs, n mod per_block secret) (per_block secret) (buffer3 s)
        ((b - 1) div 64) secret (length secret - 64) f_acc512 f_scramble =
      (eat f_acc512 f_scramble secret (n + (b - 1) div 64) xs, (n + (b - 1) div 64) mod per_block secret)"
      using k4 S by (intro consume_eat) (simp_all add: n(6))
    moreover have "(length xs - 1) div 64 = n + (b - 1) div 64"
    proof -
      have "length xs - 1 = 64 * n + (b - 1)" using xs True by simp
      then show ?thesis by simp
    qed
    moreover have "f_acc512 a (drop (b - 64) (buffer3 s)) t = f_acc512 a (drop (length xs - 64) xs) t" for a t
    proof (rule acc512_cong)
      have "take 64 (drop (b - 64) (buffer3 s)) = drop (b - 64) (take b (buffer3 s))" using True by (simp add: drop_take)
      also have "\<dots> = drop (length xs - 64) xs" using True by (simp add: n(6) xs add.commute)
      finally show "take 64 (drop (b - 64) (buffer3 s)) = take 64 (drop (length xs - 64) xs)" by simp
    qed
    ultimately show ?thesis
      using one assms(2) l136 True
      by (simp add: XXH3_digest_long_def xxh3_sizes Let_def n(3-5) lim per)
  next
    case False
    have n0: "0 < n" using False assms(2) xs by (cases n) simp_all
    have b0: "0 < b" using n(7) n0 xs by simp
    have tail: "drop 192 (buffer3 s) = take 64 (drop (64 * (n - 1)) xs)" using n(8) n0 False xs by simp
    have "take (64 - b) (drop (256 - (64 - b)) (buffer3 s)) = drop b (drop 192 (buffer3 s))"
      using False len by (simp add: add.commute)
    then have "take (64 - b) (drop (256 - (64 - b)) (buffer3 s)) = drop b (take 64 (drop (64 * (n - 1)) xs))"
      by (simp only: tail)
    moreover have "drop (length xs - 64) xs = drop b (take 64 (drop (64 * (n - 1)) xs)) @ drop (64 * n) xs"
    proof -
      have "64 * n = 64 * (n - 1) + 64" using n0 by simp
      then have "drop (64 * (n - 1)) xs = take 64 (drop (64 * (n - 1)) xs) @ drop (64 * n) xs"
        by (metis append_take_drop_id drop_drop add.commute)
      then have "drop b (drop (64 * (n - 1)) xs) = drop b (take 64 (drop (64 * (n - 1)) xs) @ drop (64 * n) xs)" by simp
      moreover have "b + 64 * (n - 1) = length xs - 64" using xs n0 by simp
      ultimately show ?thesis using False xs n0 by simp
    qed
    moreover have "(length xs - 1) div 64 = n"
    proof -
      have "length xs - 1 = 64 * n + (b - 1)" using xs b0 by simp
      moreover have "(b - 1) div 64 = 0" using False by simp
      ultimately show ?thesis by simp
    qed
    ultimately show ?thesis
      using one assms(2) l136 False len
      by (simp add: XXH3_digest_long_def xxh3_sizes Let_def n(3-6) lim)
  qed
qed

lemma digest_short:
  assumes "took secret xs s" "length xs \<le> 240"
  shows "take (length xs) (buffer3 s) = xs"
proof -
  obtain n where under: "under secret s" and prog: "progress secret xs s n" using assms(1) unfolding took_def by blast
  have "n = 0" using prog assms(2) by (cases n) (auto simp: progress_def)
  then show ?thesis using prog by (simp add: progress_def)
qed

end

section \<open>The scalar kernels\<close>

interpretation scalar: xxh3_kernel XXH3_accumulate_512_scalar XXH3_scrambleAcc_scalar
proof
  fix a :: accs and p s :: "byte list"
  have "XXH_readLE64 (drop (lane * 8) (take 64 p)) = XXH_readLE64 (drop (lane * 8) p)" if "lane < 8" for lane
  proof -
    have "take 8 (drop (lane * 8) (take 64 p)) = take 8 (drop (lane * 8) p)" using that by (simp add: drop_take min_def)
    then show ?thesis by (simp add: XXH_readLE64_def XXH_read64_def)
  qed
  then have "XXH3_scalarRound b (take 64 p) s lane = XXH3_scalarRound b p s lane" if "lane < 8" for b lane
    using that by (simp add: XXH3_scalarRound_def)
  then show "XXH3_accumulate_512_scalar a (take 64 p) s = XXH3_accumulate_512_scalar a p s"
    unfolding XXH3_accumulate_512_scalar_def XXH_ACC_NB_def XXH_STRIPE_LEN_def by (intro foldl_cong) simp_all
qed

lemma length_initCustomSecret: "length (XXH3_initCustomSecret_scalar seed) = 192"
proof -
  have "length (foldl (\<lambda>cs i.
       let lo = XXH_readLE64 (drop (16 * i) XXH3_kSecret) + seed; hi = XXH_readLE64 (drop (16 * i + 8) XXH3_kSecret) - seed;
           cs = XXH_writeLE64 cs (16 * i) lo
       in XXH_writeLE64 cs (16 * i + 8) hi) (replicate 192 0) [0..<k]) = 192" if "k \<le> 12" for k
    using that by (induction k) (simp_all add: Let_def XXH_writeLE64_def sizeof_word_def)
  from this [of 12] show ?thesis by (simp add: XXH3_initCustomSecret_scalar_def XXH_SECRET_DEFAULT_SIZE_def)
qed

text \<open>
  What the resets rely on: the buffer is the array of the structure, and a custom secret that is in
  use is the one of the seed.
\<close>

definition state_ok :: "XXH3_state \<Rightarrow> bool" where
  "state_ok s =
     (length (buffer3 s) = 256 \<and>
      (extSecret s = None \<and> seed3 s \<noteq> 0 \<longrightarrow> customSecret s = XXH3_initCustomSecret_scalar (seed3 s)))"

definition feed :: "byte list list \<Rightarrow> XXH3_state \<Rightarrow> XXH3_state" where
  "feed chunks s = foldl (\<lambda>s chunk. snd (XXH3_64bits_update s (Some chunk))) s chunks"

lemma reset_took:
  assumes "length (buffer3 s) = 256" "136 \<le> length secret" "length secret < 2 ^ 64"
    and "secret_of (XXH3_reset_internal s seed ext (of_nat (length secret))) = secret"
  shows "scalar.took secret [] (XXH3_reset_internal s seed ext (of_nat (length secret)))"
proof -
  have "unat (of_nat (length secret) :: size_t) = length secret" using assms(3) by (rule unat_of_nat64)
  then have "unat (of_nat (length secret) - 64 :: size_t) = length secret - 64" using assms(2) by (simp add: unat_sub64)
  then show ?thesis
    using assms
    by (simp add: scalar.took_def scalar.under_def scalar.progress_def XXH3_reset_internal_def xxh3_sizes Let_def
        per_block_def unat_div secret_of_def)
qed

lemma took_useSeed: "scalar.took secret xs (s\<lparr>useSeed := u\<rparr>) = scalar.took secret xs s"
  by (simp add: scalar.took_def scalar.under_def scalar.progress_def secret_of_def split: option.split)

lemma update_keeps:
  "useSeed (snd (XXH3_64bits_update s i)) = useSeed s" "seed3 (snd (XXH3_64bits_update s i)) = seed3 s"
  by (simp_all add: XXH3_64bits_update_def XXH3_update_def Let_def case_prod_unfold split: option.split)

lemma feed_keeps: "useSeed (feed chunks s) = useSeed s" "seed3 (feed chunks s) = seed3 s"
  unfolding feed_def by (induction chunks rule: rev_induct) (simp_all add: update_keeps)

lemma digest_feed:
  assumes "scalar.took secret [] s" "length (concat chunks) < 2 ^ 64"
  shows "XXH3_64bits_digest opt (feed chunks s) =
    (if 240 < length (concat chunks)
     then XXH3_hashLong_64b_internal (concat chunks) secret XXH3_accumulate_512_scalar XXH3_scrambleAcc_scalar
     else if useSeed s \<noteq> 0 then XXH3_64bits_withSeed opt (concat chunks) (seed3 s)
     else XXH3_64bits_withSecret opt (concat chunks) secret)"
proof -
  define t where "t = feed chunks s"
  have took: "scalar.took secret (concat chunks) t"
    using scalar.took_chunks [OF assms] by (simp add: t_def feed_def XXH3_64bits_update_def)
  have tot: "totalLen t = of_nat (length (concat chunks))" and sec: "secret_of t = secret"
    and lim: "unat (secretLimit t) = length secret - 64" and l: "136 \<le> length secret"
    using took unfolding scalar.took_def scalar.progress_def scalar.under_def by blast+
  have u: "unat (of_nat (length (concat chunks)) :: uint64) = length (concat chunks)" using assms(2) by (rule unat_of_nat64)
  show ?thesis
  proof (cases "240 < length (concat chunks)")
    case True
    then show ?thesis
      using scalar.digest_long [OF took True]
      by (simp add: XXH3_64bits_digest_def Let_def tot u sec XXH3_MIDSIZE_MAX_def XXH3_hashLong_64b_internal_def
          del: length_concat flip: t_def)
  next
    case False
    then have "take (length (concat chunks)) (buffer3 t) = concat chunks"
      using scalar.digest_short [OF took] by (simp del: length_concat)
    then show ?thesis
      using False l feed_keeps [of chunks s]
      by (simp add: XXH3_64bits_digest_def Let_def tot u sec lim XXH3_MIDSIZE_MAX_def XXH_STRIPE_LEN_def
          del: length_concat flip: t_def)
  qed
qed

text \<open>What each reset leaves.\<close>

lemma reset_plain:
  assumes "state_ok s"
  shows "scalar.took XXH3_kSecret [] (snd (XXH3_64bits_reset s))" "useSeed (snd (XXH3_64bits_reset s)) = 0"
    "seed3 (snd (XXH3_64bits_reset s)) = 0"
proof -
  have len: "length (buffer3 s) = 256" using assms by (simp add: state_ok_def)
  have k192: "of_nat XXH_SECRET_DEFAULT_SIZE = (of_nat (length XXH3_kSecret) :: size_t)"
    by (simp add: XXH_SECRET_DEFAULT_SIZE_def length_kSecret)
  show "scalar.took XXH3_kSecret [] (snd (XXH3_64bits_reset s))"
    unfolding XXH3_64bits_reset_def snd_conv k192
    by (rule reset_took) (simp_all add: len length_kSecret XXH3_reset_internal_def secret_of_def Let_def)
qed (simp_all add: XXH3_64bits_reset_def XXH3_reset_internal_def Let_def)

lemma reset_seed:
  assumes "state_ok s" "seed \<noteq> 0"
  shows "scalar.took (XXH3_initCustomSecret_scalar seed) [] (snd (XXH3_64bits_reset_withSeed s seed))"
    "useSeed (snd (XXH3_64bits_reset_withSeed s seed)) = 1" "seed3 (snd (XXH3_64bits_reset_withSeed s seed)) = seed"
proof -
  define s' where "s' = (if seed \<noteq> seed3 s \<or> extSecret s \<noteq> None
    then s\<lparr>customSecret := XXH3_initCustomSecret_scalar seed\<rparr> else s)"
  have s': "customSecret s' = XXH3_initCustomSecret_scalar seed" "length (buffer3 s') = 256"
    using assms by (auto simp: s'_def state_ok_def)
  have r: "snd (XXH3_64bits_reset_withSeed s seed) =
      XXH3_reset_internal s' seed None (of_nat (length (XXH3_initCustomSecret_scalar seed)))"
    using assms(2) by (simp add: XXH3_64bits_reset_withSeed_def s'_def length_initCustomSecret XXH_SECRET_DEFAULT_SIZE_def)
  show "scalar.took (XXH3_initCustomSecret_scalar seed) [] (snd (XXH3_64bits_reset_withSeed s seed))"
    unfolding r
    by (rule reset_took) (simp_all add: s' length_initCustomSecret XXH3_reset_internal_def secret_of_def Let_def)
  show "useSeed (snd (XXH3_64bits_reset_withSeed s seed)) = 1" "seed3 (snd (XXH3_64bits_reset_withSeed s seed)) = seed"
    using assms(2) by (simp_all add: r XXH3_reset_internal_def Let_def)
qed

lemma secret_took:
  assumes "state_ok s" "136 \<le> length secret" "length secret < 2 ^ 64"
  shows "scalar.took secret [] (XXH3_reset_internal s seed (Some secret) (of_nat (length secret)))"
  using assms by (intro reset_took) (simp_all add: state_ok_def XXH3_reset_internal_def secret_of_def Let_def)

lemma reset_secret:
  assumes "state_ok s" "136 \<le> length secret" "length secret < 2 ^ 64"
  shows "scalar.took secret [] (snd (XXH3_64bits_reset_withSecret s (Some secret) (of_nat (length secret))))"
    "useSeed (snd (XXH3_64bits_reset_withSecret s (Some secret) (of_nat (length secret)))) = 0"
    "seed3 (snd (XXH3_64bits_reset_withSecret s (Some secret) (of_nat (length secret)))) = 0"
proof -
  have r: "snd (XXH3_64bits_reset_withSecret s (Some secret) (of_nat (length secret))) =
      XXH3_reset_internal s 0 (Some secret) (of_nat (length secret))"
    by (simp add: XXH3_64bits_reset_withSecret_def Let_def)
  show "scalar.took secret [] (snd (XXH3_64bits_reset_withSecret s (Some secret) (of_nat (length secret))))"
    unfolding r using assms by (rule secret_took)
qed (simp_all add: XXH3_64bits_reset_withSecret_def XXH3_reset_internal_def Let_def)

lemma reset_both:
  assumes "state_ok s" "136 \<le> length secret" "length secret < 2 ^ 64"
  shows "scalar.took secret [] (snd (XXH3_64bits_reset_withSecretandSeed s (Some secret) (of_nat (length secret)) seed))"
    "useSeed (snd (XXH3_64bits_reset_withSecretandSeed s (Some secret) (of_nat (length secret)) seed)) = 1"
    "seed3 (snd (XXH3_64bits_reset_withSecretandSeed s (Some secret) (of_nat (length secret)) seed)) = seed"
proof -
  have not_small: "\<not> (of_nat (length secret) :: size_t) < of_nat XXH3_SECRET_SIZE_MIN"
    using assms(2) unat_of_nat64 [OF assms(3)] by (simp add: XXH3_SECRET_SIZE_MIN_def word_less_nat_alt)
  have r: "snd (XXH3_64bits_reset_withSecretandSeed s (Some secret) (of_nat (length secret)) seed) =
      (XXH3_reset_internal s seed (Some secret) (of_nat (length secret)))\<lparr>useSeed := 1\<rparr>"
    using not_small by (simp add: XXH3_64bits_reset_withSecretandSeed_def)
  show "scalar.took secret [] (snd (XXH3_64bits_reset_withSecretandSeed s (Some secret) (of_nat (length secret)) seed))"
    unfolding r took_useSeed using assms by (rule secret_took)
  show "useSeed (snd (XXH3_64bits_reset_withSecretandSeed s (Some secret) (of_nat (length secret)) seed)) = 1"
    "seed3 (snd (XXH3_64bits_reset_withSecretandSeed s (Some secret) (of_nat (length secret)) seed)) = seed"
    by (simp_all add: r XXH3_reset_internal_def Let_def)
qed

lemma stream_plain:
  assumes "state_ok s" "length (concat chunks) < 2 ^ 64"
  shows "XXH3_64bits_digest opt (feed chunks (snd (XXH3_64bits_reset s))) = XXH3_64bits opt' (concat chunks)"
  using digest_feed [OF reset_plain(1) [OF assms(1)] assms(2), of opt] reset_plain [OF assms(1)]
    withSecret_default [of opt "concat chunks" opt'] long_hashes(2) [of "concat chunks" opt XXH3_kSecret]
  by (simp del: length_concat split: if_splits)

lemma stream_seed:
  assumes "state_ok s" "length (concat chunks) < 2 ^ 64"
  shows "XXH3_64bits_digest opt (feed chunks (snd (XXH3_64bits_reset_withSeed s seed))) =
    XXH3_64bits_withSeed opt' (concat chunks) seed"
proof (cases "seed = 0")
  case True
  then show ?thesis
    using stream_plain [OF assms, of opt opt'] withSeed_0 [of opt' "concat chunks" opt']
    by (simp add: XXH3_64bits_reset_withSeed_def)
next
  case False
  note r = reset_seed [OF assms(1) False]
  show ?thesis
    using digest_feed [OF r(1) assms(2), of opt] r(2,3) long_hashes(1) [of "concat chunks" opt' seed]
      withSeed_size_opt [of opt "concat chunks" seed opt'] by (simp del: length_concat split: if_splits)
qed

lemma stream_secret:
  assumes "state_ok s" "length (concat chunks) < 2 ^ 64" "136 \<le> length secret" "length secret < 2 ^ 64"
  shows "XXH3_64bits_digest opt (feed chunks (snd (XXH3_64bits_reset_withSecret s (Some secret) (of_nat (length secret))))) =
    XXH3_64bits_withSecret opt' (concat chunks) secret"
  using digest_feed [OF reset_secret(1) [OF assms(1,3,4)] assms(2), of opt] reset_secret(2) [OF assms(1,3,4)]
    long_hashes(2) [of "concat chunks" opt' secret] withSecret_size_opt [of opt "concat chunks" secret opt']
  by (simp del: length_concat split: if_splits)

lemma stream_both:
  assumes "state_ok s" "length (concat chunks) < 2 ^ 64" "136 \<le> length secret" "length secret < 2 ^ 64"
  shows "XXH3_64bits_digest opt
      (feed chunks (snd (XXH3_64bits_reset_withSecretandSeed s (Some secret) (of_nat (length secret)) seed))) =
    XXH3_64bits_withSecretandSeed opt' (concat chunks) secret seed"
  using digest_feed [OF reset_both(1) [OF assms(1,3,4)] assms(2), of opt seed] reset_both(2,3) [OF assms(1,3,4), of seed]
    long_hashes(3) [of "concat chunks" opt' secret seed] withSecretandSeed_short [of "concat chunks" opt' secret seed opt]
  by (simp del: length_concat split: if_splits)

text \<open>
  (C10) However an input of less than \<open>2 ^ 64\<close> bytes is cut into chunks, the streaming interface of
  XXH3 gives its one-shot hash, after each of the four resets: without a seed, with a seed, with a
  secret of at least 136 bytes, and with both.
\<close>

theorem XXH3_64bits_streaming:
  assumes "state_ok s" "length (concat chunks) < 2 ^ 64" "136 \<le> length secret" "length secret < 2 ^ 64"
  shows "XXH3_64bits_digest opt (feed chunks (snd (XXH3_64bits_reset s))) = XXH3_64bits opt' (concat chunks) \<and>
    XXH3_64bits_digest opt (feed chunks (snd (XXH3_64bits_reset_withSeed s seed))) =
      XXH3_64bits_withSeed opt' (concat chunks) seed \<and>
    XXH3_64bits_digest opt (feed chunks (snd (XXH3_64bits_reset_withSecret s (Some secret) (of_nat (length secret))))) =
      XXH3_64bits_withSecret opt' (concat chunks) secret \<and>
    XXH3_64bits_digest opt
      (feed chunks (snd (XXH3_64bits_reset_withSecretandSeed s (Some secret) (of_nat (length secret)) seed))) =
      XXH3_64bits_withSecretandSeed opt' (concat chunks) secret seed"
  using assms by (intro conjI stream_plain stream_seed stream_secret stream_both)

text \<open>A fresh state, as \<open>XXH3_createState\<close> and \<open>XXH3_INITSTATE\<close> leave it.\<close>

definition fresh_state :: XXH3_state where
  "fresh_state = \<lparr>acc3 = replicate 8 0, customSecret = replicate 192 0, buffer3 = replicate 256 0, bufferedSize = 0,
     useSeed = 0, nbStripesSoFar = 0, totalLen = 0, nbStripesPerBlock = 0, secretLimit = 0, seed3 = 0, extSecret = None\<rparr>"

lemma XXH3_64bits_streaming_witness:
  "XXH3_64bits_digest 0 (feed [[0x61], replicate 300 0x62] (snd (XXH3_64bits_reset fresh_state))) =
    XXH3_64bits 1 (0x61 # replicate 300 0x62)"
  using XXH3_64bits_streaming [of fresh_state "[[0x61], replicate 300 0x62]" "replicate 136 0" 0 1 0]
  by (simp add: state_ok_def fresh_state_def)

end
