(* ===== verification/Xxh128.thy ===== *)
theory Xxh128
  imports Xxh3StreamCorrect
begin

text \<open>
  XXH3 with 128 bits (\<open>xxhash.h\<close>): one-shot, streaming on the state of the 64-bit interface,
  comparison, canonical form, and the generation of secrets from a seed of any length.
\<close>

section \<open>Up to 240 bytes\<close>

definition XXH3_len_1to3_128b :: "byte list \<Rightarrow> byte list \<Rightarrow> uint64 \<Rightarrow> XXH128_hash" where
  "XXH3_len_1to3_128b input secret seed =
     (let n = length input;
          c1 = input ! 0; c2 = input ! (n div 2); c3 = input ! (n - 1);
          combinedl = push_bit 16 (ucast c1) OR push_bit 24 (ucast c2) OR push_bit 0 (ucast c3) OR
                      push_bit 8 (of_nat n :: uint32);
          combinedh = XXH_rotl32 (XXH_swap32 combinedl) 13;
          bitflipl = ucast (XXH_readLE32 secret XOR XXH_readLE32 (drop 4 secret)) + seed;
          bitfliph = ucast (XXH_readLE32 (drop 8 secret) XOR XXH_readLE32 (drop 12 secret)) - seed;
          keyed_lo = ucast combinedl XOR bitflipl;
          keyed_hi = ucast combinedh XOR bitfliph
      in \<lparr>low64 = XXH64_avalanche keyed_lo, high64 = XXH64_avalanche keyed_hi\<rparr>)"

definition XXH3_len_4to8_128b :: "byte list \<Rightarrow> byte list \<Rightarrow> uint64 \<Rightarrow> XXH128_hash" where
  "XXH3_len_4to8_128b input secret seed =
     (let n = length input;
          seed = seed XOR push_bit 32 (ucast (XXH_swap32 (ucast seed)));
          input_lo = XXH_readLE32 input;
          input_hi = XXH_readLE32 (drop (n - 4) input);
          input_64 = ucast input_lo + push_bit 32 (ucast input_hi);
          bitflip = (XXH_readLE64 (drop 16 secret) XOR XXH_readLE64 (drop 24 secret)) + seed;
          keyed = input_64 XOR bitflip;
          m128 = XXH_mult64to128 keyed (XXH_PRIME64_1 + push_bit 2 (of_nat n));
          m128 = m128\<lparr>high64 := high64 m128 + push_bit 1 (low64 m128)\<rparr>;
          m128 = m128\<lparr>low64 := low64 m128 XOR drop_bit 3 (high64 m128)\<rparr>;
          m128 = m128\<lparr>low64 := XXH_xorshift64 (low64 m128) 35\<rparr>;
          m128 = m128\<lparr>low64 := low64 m128 * 0x9FB21C651E98DF25\<rparr>;
          m128 = m128\<lparr>low64 := XXH_xorshift64 (low64 m128) 28\<rparr>
      in m128\<lparr>high64 := XXH3_avalanche (high64 m128)\<rparr>)"

text \<open>What is added to the high half, on 32-bit and on 64-bit machines.\<close>

definition add_input_hi :: "bool \<Rightarrow> uint64 \<Rightarrow> uint64" where
  "add_input_hi ptr32 input_hi =
     (if ptr32
      then (input_hi AND 0xFFFFFFFF00000000) + XXH_mult32to64 (ucast (ucast input_hi :: uint32)) (ucast XXH_PRIME32_2)
      else input_hi + XXH_mult32to64 (ucast (ucast input_hi :: uint32)) (ucast (XXH_PRIME32_2 - 1)))"

definition XXH3_len_9to16_128b :: "byte list \<Rightarrow> byte list \<Rightarrow> uint64 \<Rightarrow> XXH128_hash" where
  "XXH3_len_9to16_128b input secret seed =
     (let n = length input;
          bitflipl = (XXH_readLE64 (drop 32 secret) XOR XXH_readLE64 (drop 40 secret)) - seed;
          bitfliph = (XXH_readLE64 (drop 48 secret) XOR XXH_readLE64 (drop 56 secret)) + seed;
          input_lo = XXH_readLE64 input;
          input_hi = XXH_readLE64 (drop (n - 8) input);
          m128 = XXH_mult64to128 (input_lo XOR input_hi XOR bitflipl) XXH_PRIME64_1;
          m128 = m128\<lparr>low64 := low64 m128 + push_bit 54 (of_nat (n - 1))\<rparr>;
          input_hi = input_hi XOR bitfliph;
          m128 = m128\<lparr>high64 := high64 m128 + add_input_hi False input_hi\<rparr>;
          m128 = m128\<lparr>low64 := low64 m128 XOR XXH_swap64 (high64 m128)\<rparr>;
          h128 = XXH_mult64to128 (low64 m128) XXH_PRIME64_2;
          h128 = h128\<lparr>high64 := high64 h128 + high64 m128 * XXH_PRIME64_2\<rparr>
      in \<lparr>low64 = XXH3_avalanche (low64 h128), high64 = XXH3_avalanche (high64 h128)\<rparr>)"

definition XXH3_len_0to16_128b :: "byte list \<Rightarrow> byte list \<Rightarrow> uint64 \<Rightarrow> XXH128_hash" where
  "XXH3_len_0to16_128b input secret seed =
     (let n = length input
      in if 8 < n then XXH3_len_9to16_128b input secret seed
         else if 4 \<le> n then XXH3_len_4to8_128b input secret seed
         else if n \<noteq> 0 then XXH3_len_1to3_128b input secret seed
         else
           let bitflipl = XXH_readLE64 (drop 64 secret) XOR XXH_readLE64 (drop 72 secret);
               bitfliph = XXH_readLE64 (drop 80 secret) XOR XXH_readLE64 (drop 88 secret)
           in \<lparr>low64 = XXH64_avalanche (seed XOR bitflipl), high64 = XXH64_avalanche (seed XOR bitfliph)\<rparr>)"

definition XXH128_mix32B :: "XXH128_hash \<Rightarrow> byte list \<Rightarrow> byte list \<Rightarrow> byte list \<Rightarrow> uint64 \<Rightarrow> XXH128_hash" where
  "XXH128_mix32B acc input_1 input_2 secret seed =
     (let acc = acc\<lparr>low64 := low64 acc + XXH3_mix16B input_1 secret seed\<rparr>;
          acc = acc\<lparr>low64 := low64 acc XOR (XXH_readLE64 input_2 + XXH_readLE64 (drop 8 input_2))\<rparr>;
          acc = acc\<lparr>high64 := high64 acc + XXH3_mix16B input_2 (drop 16 secret) seed\<rparr>
      in acc\<lparr>high64 := high64 acc XOR (XXH_readLE64 input_1 + XXH_readLE64 (drop 8 input_1))\<rparr>)"

primrec len_17to128_128b_loop :: "byte list \<Rightarrow> byte list \<Rightarrow> uint64 \<Rightarrow> nat \<Rightarrow> XXH128_hash \<Rightarrow> XXH128_hash" where
  "len_17to128_128b_loop input secret seed 0 acc =
     XXH128_mix32B acc input (drop (length input - 16) input) secret seed"
| "len_17to128_128b_loop input secret seed (Suc k) acc =
     (let i = Suc k
      in len_17to128_128b_loop input secret seed k
           (XXH128_mix32B acc (drop (16 * i) input) (drop (length input - 16 * (i + 1)) input) (drop (32 * i) secret) seed))"

text \<open>The ending that both middle ranges share.\<close>

definition finish_128b :: "nat \<Rightarrow> uint64 \<Rightarrow> XXH128_hash \<Rightarrow> XXH128_hash" where
  "finish_128b n seed acc =
     (let low = low64 acc + high64 acc;
          high = low64 acc * XXH_PRIME64_1 + high64 acc * XXH_PRIME64_4 + (of_nat n - seed) * XXH_PRIME64_2
      in \<lparr>low64 = XXH3_avalanche low, high64 = 0 - XXH3_avalanche high\<rparr>)"

definition XXH3_len_17to128_128b :: "nat \<Rightarrow> byte list \<Rightarrow> byte list \<Rightarrow> uint64 \<Rightarrow> XXH128_hash" where
  "XXH3_len_17to128_128b size_opt input secret seed =
     (let n = length input;
          mix = (\<lambda>acc i j s. XXH128_mix32B acc (drop i input) (drop j input) (drop s secret) seed);
          acc = \<lparr>low64 = of_nat n * XXH_PRIME64_1, high64 = 0\<rparr>;
          acc =
            (if 1 \<le> size_opt then len_17to128_128b_loop input secret seed ((n - 1) div 32) acc
             else
               let acc =
                     (if 32 < n
                      then
                        let acc =
                              (if 64 < n
                               then
                                 let acc = (if 96 < n then mix acc 48 (n - 64) 96 else acc)
                                 in mix acc 32 (n - 48) 64
                               else acc)
                        in mix acc 16 (n - 32) 32
                      else acc)
               in mix acc 0 (n - 16) 0)
      in finish_128b n seed acc)"

definition XXH3_len_129to240_128b :: "byte list \<Rightarrow> byte list \<Rightarrow> uint64 \<Rightarrow> XXH128_hash" where
  "XXH3_len_129to240_128b input secret seed =
     (let n = length input;
          nbRounds = n div 32;
          acc = \<lparr>low64 = of_nat n * XXH_PRIME64_1, high64 = 0\<rparr>;
          acc = foldl (\<lambda>acc i. XXH128_mix32B acc (drop (32 * i) input) (drop (32 * i + 16) input)
                                  (drop (32 * i) secret) seed) acc [0..<4];
          acc = \<lparr>low64 = XXH3_avalanche (low64 acc), high64 = XXH3_avalanche (high64 acc)\<rparr>;
          acc = foldl (\<lambda>acc i. XXH128_mix32B acc (drop (32 * i) input) (drop (32 * i + 16) input)
                                  (drop (XXH3_MIDSIZE_STARTOFFSET + 32 * (i - 4)) secret) seed) acc [4..<nbRounds];
          acc = XXH128_mix32B acc (drop (n - 16) input) (drop (n - 32) input)
                  (drop (XXH3_SECRET_SIZE_MIN - XXH3_MIDSIZE_LASTOFFSET - 16) secret) (0 - seed)
      in finish_128b n seed acc)"

section \<open>Long inputs and entry points\<close>

text \<open>The two merges at the end of a long input of \<open>n\<close> bytes.\<close>

definition merge_128b :: "accs \<Rightarrow> byte list \<Rightarrow> uint64 \<Rightarrow> XXH128_hash" where
  "merge_128b acc secret n =
     \<lparr>low64 = XXH3_mergeAccs acc (drop XXH_SECRET_MERGEACCS_START secret) (n * XXH_PRIME64_1),
      high64 = XXH3_mergeAccs acc (drop (length secret - 64 - XXH_SECRET_MERGEACCS_START) secret)
                 (NOT (n * XXH_PRIME64_2))\<rparr>"

definition XXH3_hashLong_128b_internal ::
  "byte list \<Rightarrow> byte list \<Rightarrow> f_accumulate_512 \<Rightarrow> f_scrambleAcc \<Rightarrow> XXH128_hash" where
  "XXH3_hashLong_128b_internal input secret f_acc512 f_scramble =
     (let acc = XXH3_hashLong_internal_loop XXH3_INIT_ACC input secret f_acc512 f_scramble
      in merge_128b acc secret (of_nat (length input)))"

definition XXH3_hashLong_128b_default :: "byte list \<Rightarrow> uint64 \<Rightarrow> byte list \<Rightarrow> XXH128_hash" where
  "XXH3_hashLong_128b_default input seed64 secret =
     XXH3_hashLong_128b_internal input XXH3_kSecret XXH3_accumulate_512_scalar XXH3_scrambleAcc_scalar"

definition XXH3_hashLong_128b_withSecret :: "byte list \<Rightarrow> uint64 \<Rightarrow> byte list \<Rightarrow> XXH128_hash" where
  "XXH3_hashLong_128b_withSecret input seed64 secret =
     XXH3_hashLong_128b_internal input secret XXH3_accumulate_512_scalar XXH3_scrambleAcc_scalar"

definition XXH3_hashLong_128b_withSeed_internal ::
  "byte list \<Rightarrow> uint64 \<Rightarrow> f_accumulate_512 \<Rightarrow> f_scrambleAcc \<Rightarrow> f_initCustomSecret \<Rightarrow> XXH128_hash" where
  "XXH3_hashLong_128b_withSeed_internal input seed64 f_acc512 f_scramble f_initSec =
     (if seed64 = 0 then XXH3_hashLong_128b_internal input XXH3_kSecret f_acc512 f_scramble
      else let secret = f_initSec seed64 in XXH3_hashLong_128b_internal input secret f_acc512 f_scramble)"

definition XXH3_hashLong_128b_withSeed :: "byte list \<Rightarrow> uint64 \<Rightarrow> byte list \<Rightarrow> XXH128_hash" where
  "XXH3_hashLong_128b_withSeed input seed64 secret =
     XXH3_hashLong_128b_withSeed_internal input seed64
       XXH3_accumulate_512_scalar XXH3_scrambleAcc_scalar XXH3_initCustomSecret_scalar"

definition XXH3_128bits_internal ::
  "nat \<Rightarrow> byte list \<Rightarrow> uint64 \<Rightarrow> byte list \<Rightarrow> (byte list \<Rightarrow> uint64 \<Rightarrow> byte list \<Rightarrow> XXH128_hash) \<Rightarrow> XXH128_hash" where
  "XXH3_128bits_internal size_opt input seed64 secret f_hl128 =
     (if length input \<le> 16 then XXH3_len_0to16_128b input secret seed64
      else if length input \<le> 128 then XXH3_len_17to128_128b size_opt input secret seed64
      else if length input \<le> XXH3_MIDSIZE_MAX then XXH3_len_129to240_128b input secret seed64
      else f_hl128 input seed64 secret)"

definition XXH3_128bits :: "nat \<Rightarrow> byte list \<Rightarrow> XXH128_hash" where
  "XXH3_128bits size_opt input = XXH3_128bits_internal size_opt input 0 XXH3_kSecret XXH3_hashLong_128b_default"

definition XXH3_128bits_withSecret :: "nat \<Rightarrow> byte list \<Rightarrow> byte list \<Rightarrow> XXH128_hash" where
  "XXH3_128bits_withSecret size_opt input secret =
     XXH3_128bits_internal size_opt input 0 secret XXH3_hashLong_128b_withSecret"

definition XXH3_128bits_withSeed :: "nat \<Rightarrow> byte list \<Rightarrow> uint64 \<Rightarrow> XXH128_hash" where
  "XXH3_128bits_withSeed size_opt input seed =
     XXH3_128bits_internal size_opt input seed XXH3_kSecret XXH3_hashLong_128b_withSeed"

definition XXH3_128bits_withSecretandSeed :: "nat \<Rightarrow> byte list \<Rightarrow> byte list \<Rightarrow> uint64 \<Rightarrow> XXH128_hash" where
  "XXH3_128bits_withSecretandSeed size_opt input secret seed =
     (if length input \<le> XXH3_MIDSIZE_MAX
      then XXH3_128bits_internal size_opt input seed XXH3_kSecret (\<lambda>_ _ _. \<lparr>low64 = 0, high64 = 0\<rparr>)
      else XXH3_hashLong_128b_withSecret input seed secret)"

definition XXH128 :: "nat \<Rightarrow> byte list \<Rightarrow> uint64 \<Rightarrow> XXH128_hash" where
  "XXH128 size_opt input seed = XXH3_128bits_withSeed size_opt input seed"

section \<open>Streaming\<close>

definition XXH3_128bits_reset :: "XXH3_state \<Rightarrow> XXH_errorcode \<times> XXH3_state" where
  "XXH3_128bits_reset statePtr = XXH3_64bits_reset statePtr"

definition XXH3_128bits_reset_withSecret ::
  "XXH3_state \<Rightarrow> byte list option \<Rightarrow> size_t \<Rightarrow> XXH_errorcode \<times> XXH3_state" where
  "XXH3_128bits_reset_withSecret statePtr secret secretSize = XXH3_64bits_reset_withSecret statePtr secret secretSize"

definition XXH3_128bits_reset_withSeed :: "XXH3_state \<Rightarrow> uint64 \<Rightarrow> XXH_errorcode \<times> XXH3_state" where
  "XXH3_128bits_reset_withSeed statePtr seed = XXH3_64bits_reset_withSeed statePtr seed"

definition XXH3_128bits_reset_withSecretandSeed ::
  "XXH3_state \<Rightarrow> byte list option \<Rightarrow> size_t \<Rightarrow> uint64 \<Rightarrow> XXH_errorcode \<times> XXH3_state" where
  "XXH3_128bits_reset_withSecretandSeed statePtr secret secretSize seed =
     XXH3_64bits_reset_withSecretandSeed statePtr secret secretSize seed"

definition XXH3_128bits_update :: "XXH3_state \<Rightarrow> byte list option \<Rightarrow> XXH_errorcode \<times> XXH3_state" where
  "XXH3_128bits_update state input = XXH3_update state input XXH3_accumulate_512_scalar XXH3_scrambleAcc_scalar"

definition XXH3_128bits_digest :: "nat \<Rightarrow> XXH3_state \<Rightarrow> XXH128_hash" where
  "XXH3_128bits_digest size_opt state =
     (let secret = secret_of state;
          total = unat (totalLen state);
          secretLen = unat (secretLimit state) + XXH_STRIPE_LEN
      in if XXH3_MIDSIZE_MAX < total
         then
           let acc = XXH3_digest_long state secret XXH3_accumulate_512_scalar XXH3_scrambleAcc_scalar
           in merge_128b acc (take secretLen secret) (totalLen state)
         else if seed3 state \<noteq> 0
         then XXH3_128bits_withSeed size_opt (take total (buffer3 state)) (seed3 state)
         else XXH3_128bits_withSecret size_opt (take total (buffer3 state)) (take secretLen secret))"

section \<open>Comparison and canonical form\<close>

text \<open>\<open>memcmp\<close> on the two structures, which have no padding.\<close>

definition XXH128_isEqual :: "XXH128_hash \<Rightarrow> XXH128_hash \<Rightarrow> int" where
  "XXH128_isEqual h1 h2 =
     of_bool (to_bytes (low64 h1) @ to_bytes (high64 h1) = to_bytes (low64 h2) @ to_bytes (high64 h2))"

definition XXH128_cmp :: "XXH128_hash \<Rightarrow> XXH128_hash \<Rightarrow> int" where
  "XXH128_cmp h1 h2 =
     (let hcmp = of_bool (high64 h1 > high64 h2) - of_bool (high64 h2 > high64 h1)
      in if hcmp \<noteq> 0 then hcmp
         else of_bool (low64 h1 > low64 h2) - of_bool (low64 h2 > low64 h1))"

definition XXH128_canonicalFromHash :: "XXH128_hash \<Rightarrow> byte list" where
  "XXH128_canonicalFromHash hash =
     (let hash = (if XXH_isLittleEndian
                  then hash\<lparr>high64 := XXH_swap64 (high64 hash), low64 := XXH_swap64 (low64 hash)\<rparr> else hash)
      in to_bytes (high64 hash) @ to_bytes (low64 hash))"

definition XXH128_hashFromCanonical :: "byte list \<Rightarrow> XXH128_hash" where
  "XXH128_hashFromCanonical src = \<lparr>low64 = XXH_readBE64 (drop 8 src), high64 = XXH_readBE64 src\<rparr>"

section \<open>Secrets\<close>

definition XXH3_combine16 :: "byte list \<Rightarrow> nat \<Rightarrow> XXH128_hash \<Rightarrow> byte list" where
  "XXH3_combine16 buf dst h128 =
     (let buf = XXH_writeLE64 buf dst (XXH_readLE64 (drop dst buf) XOR low64 h128)
      in XXH_writeLE64 buf (dst + 8) (XXH_readLE64 (drop (dst + 8) buf) XOR high64 h128))"

text \<open>The copies of the custom seed, which is not empty, up to the size of the secret.\<close>

function fill_secret :: "byte list \<Rightarrow> nat \<Rightarrow> byte list \<Rightarrow> byte list" where
  "fill_secret buf pos customSeed =
     (if pos < length buf \<and> customSeed \<noteq> []
      then
        let toCopy = min (length buf - pos) (length customSeed)
        in fill_secret (XXH_memcpy buf pos (take toCopy customSeed)) (pos + toCopy) customSeed
      else buf)"
  by pat_completeness auto
termination
  by (relation "measure (\<lambda>(buf, pos, _). length buf - pos)")
    (auto simp: XXH_memcpy_def min_def not_le neq_Nil_conv)

declare fill_secret.simps [simp del]

text \<open>The status and the buffer; \<open>None\<close> stands for NULL.\<close>

definition XXH3_generateSecret ::
  "nat \<Rightarrow> byte list option \<Rightarrow> byte list option \<Rightarrow> nat \<Rightarrow> XXH_errorcode \<times> byte list option" where
  "XXH3_generateSecret size_opt secretBuffer customSeed customSeedSize =
     (case secretBuffer of
        None \<Rightarrow> (XXH_ERROR, None)
      | Some buf \<Rightarrow>
          if length buf < XXH3_SECRET_SIZE_MIN then (XXH_ERROR, Some buf)
          else
            case (if customSeedSize = 0 then Some XXH3_kSecret else map_option (take customSeedSize) customSeed) of
              None \<Rightarrow> (XXH_ERROR, Some buf)
            | Some seed \<Rightarrow>
                let buf = fill_secret buf 0 seed;
                    scrambler = XXH128_canonicalFromHash (XXH128 size_opt seed 0);
                    buf = foldl (\<lambda>buf n. XXH3_combine16 buf (n * 16) (XXH128 size_opt scrambler (of_nat n)))
                            buf [0..<length buf div 16]
                in (XXH_OK, Some (XXH3_combine16 buf (length buf - 16) (XXH128_hashFromCanonical scrambler))))"

definition XXH3_generateSecret_fromSeed :: "uint64 \<Rightarrow> byte list" where
  "XXH3_generateSecret_fromSeed seed = XXH3_initCustomSecret_scalar seed"

lemma XXH3_128bits_empty:
  "XXH3_128bits 0 [] = \<lparr>low64 = 0x6001C324468D497F, high64 = 0x99AA06D3014798D8\<rparr>"
  by code_simp

lemma XXH3_128bits_a:
  "XXH3_128bits 0 [0x61] = \<lparr>low64 = 0xE6C632B61E964E1F, high64 = 0xA96FAF705AF16834\<rparr>"
  by code_simp

section \<open>The builds and platforms agree\<close>

lemma add_input_hi_eq: "add_input_hi True x = add_input_hi False x"
proof -
  define lo where "lo = (ucast (ucast x :: uint32) :: uint64)"
  have u: "ucast (ucast lo :: uint32) = lo"
    by (rule bit_word_eqI) (simp add: lo_def bit_unsigned_iff)
  have hi: "x AND 0xFFFFFFFF00000000 = x - lo"
  proof -
    have "(0xFFFFFFFF00000000 :: uint64) = NOT (mask 32)" by (simp add: mask_eq_exp_minus_1)
    moreover have "lo = x AND mask 32"
      by (auto simp: lo_def bit_eq_iff bit_and_iff bit_mask_iff bit_unsigned_iff)
    moreover have "x = (x AND NOT (mask 32)) + (x AND mask 32)"
      by (subst disjunctive_add_eq_or) (auto simp: bit_eq_iff bit_and_iff bit_or_iff bit_not_iff)
    ultimately show ?thesis by (metis add_diff_cancel_right')
  qed
  have "XXH_mult32to64 lo (ucast XXH_PRIME32_2) = lo * 0x85EBCA77"
    "XXH_mult32to64 lo (ucast (XXH_PRIME32_2 - 1)) = lo * (0x85EBCA77 - 1)"
    by (simp_all add: XXH_mult32to64_def u XXH_PRIME32_2_def)
  moreover have "x - lo + lo * c = x + lo * (c - 1)" for c :: uint64 by (simp only: right_diff_distrib mult_1_right add.commute diff_add_eq add_diff_eq)
  ultimately show ?thesis by (simp only: add_input_hi_def hi lo_def [symmetric] if_True if_False)
qed

lemma len_17to128_128b_size_opt:
  assumes "16 < length input" "length input \<le> 128"
  shows "XXH3_len_17to128_128b opt input secret seed = XXH3_len_17to128_128b opt' input secret seed"
proof -
  have "XXH3_len_17to128_128b 1 input secret seed = XXH3_len_17to128_128b 0 input secret seed"
    using assms by (cases rule: rounds_cases) (simp_all add: XXH3_len_17to128_128b_def Let_def)
  moreover have "XXH3_len_17to128_128b o1 input secret seed = XXH3_len_17to128_128b (if 1 \<le> o1 then 1 else 0) input secret seed" for o1
    by (simp add: XXH3_len_17to128_128b_def Let_def)
  ultimately show ?thesis by metis
qed

lemma hashLong_128b_withSeed:
  "XXH3_hashLong_128b_withSeed input seed secret =
    XXH3_hashLong_128b_internal input (XXH3_initCustomSecret_scalar seed)
      XXH3_accumulate_512_scalar XXH3_scrambleAcc_scalar"
  by (simp add: XXH3_hashLong_128b_withSeed_def XXH3_hashLong_128b_withSeed_internal_def initCustomSecret_0)

lemma internal_128b_size_opt:
  assumes "\<And>xs. 240 < length xs \<Longrightarrow> f xs seed secret = g xs seed secret"
  shows "XXH3_128bits_internal opt input seed secret f = XXH3_128bits_internal opt' input seed secret g"
  using assms [of input] len_17to128_128b_size_opt [of input opt secret seed opt']
  by (simp add: XXH3_128bits_internal_def XXH3_MIDSIZE_MAX_def)

lemma withSeed_128b_size_opt: "XXH3_128bits_withSeed opt input seed = XXH3_128bits_withSeed opt' input seed"
  unfolding XXH3_128bits_withSeed_def by (rule internal_128b_size_opt) simp

lemma withSecret_128b_size_opt: "XXH3_128bits_withSecret opt input secret = XXH3_128bits_withSecret opt' input secret"
  unfolding XXH3_128bits_withSecret_def by (rule internal_128b_size_opt) simp

lemma withSeed_128b_0: "XXH3_128bits opt input = XXH3_128bits_withSeed opt' input 0"
  unfolding XXH3_128bits_withSeed_def XXH3_128bits_def
  by (rule internal_128b_size_opt) (simp add: hashLong_128b_withSeed XXH3_hashLong_128b_default_def initCustomSecret_0)

lemma withSecret_128b_default: "XXH3_128bits_withSecret opt input XXH3_kSecret = XXH3_128bits opt' input"
  unfolding XXH3_128bits_withSecret_def XXH3_128bits_def
  by (rule internal_128b_size_opt) (simp add: XXH3_hashLong_128b_withSecret_def XXH3_hashLong_128b_default_def)

lemma withSecretandSeed_128b_short:
  "length input \<le> 240 \<Longrightarrow> XXH3_128bits_withSecretandSeed opt input secret seed = XXH3_128bits_withSeed opt' input seed"
  using internal_128b_size_opt [of "\<lambda>_ _ _. \<lparr>low64 = 0, high64 = 0\<rparr>" seed XXH3_kSecret "\<lambda>_ _ _. \<lparr>low64 = 0, high64 = 0\<rparr>" opt input opt']
  by (simp add: XXH3_128bits_withSecretandSeed_def XXH3_128bits_withSeed_def XXH3_128bits_internal_def
      XXH3_MIDSIZE_MAX_def split: if_splits)

lemma long_hashes_128b:
  assumes "240 < length input"
  shows "XXH3_128bits_withSeed opt input seed = XXH3_hashLong_128b_internal input (XXH3_initCustomSecret_scalar seed)
      XXH3_accumulate_512_scalar XXH3_scrambleAcc_scalar"
    and "XXH3_128bits_withSecret opt input secret =
      XXH3_hashLong_128b_internal input secret XXH3_accumulate_512_scalar XXH3_scrambleAcc_scalar"
    and "XXH3_128bits_withSecretandSeed opt input secret seed =
      XXH3_hashLong_128b_internal input secret XXH3_accumulate_512_scalar XXH3_scrambleAcc_scalar"
  using assms
  by (simp_all add: XXH3_128bits_withSeed_def XXH3_128bits_withSecret_def XXH3_128bits_withSecretandSeed_def
      XXH3_128bits_internal_def XXH3_MIDSIZE_MAX_def hashLong_128b_withSeed XXH3_hashLong_128b_withSecret_def)

section \<open>Streaming\<close>

lemma digest_128b_feed:
  assumes "scalar.took secret [] s" "length (concat chunks) < 2 ^ 64"
  shows "XXH3_128bits_digest opt (feed chunks s) =
    (if 240 < length (concat chunks)
     then XXH3_hashLong_128b_internal (concat chunks) secret XXH3_accumulate_512_scalar XXH3_scrambleAcc_scalar
     else if seed3 s \<noteq> 0 then XXH3_128bits_withSeed opt (concat chunks) (seed3 s)
     else XXH3_128bits_withSecret opt (concat chunks) secret)"
proof -
  define t where "t = feed chunks s"
  have took: "scalar.took secret (concat chunks) t"
    using scalar.took_chunks [OF assms] by (simp add: t_def feed_def XXH3_64bits_update_def)
  have tot: "totalLen t = of_nat (length (concat chunks))" and sec: "secret_of t = secret"
    and lim: "unat (secretLimit t) = length secret - 64" and l: "136 \<le> length secret"
    using took unfolding scalar.took_def scalar.progress_def scalar.under_def by blast+
  have u: "unat (of_nat (length (concat chunks)) :: uint64) = length (concat chunks)" using assms(2) by (rule unat_of_nat64)
  show ?thesis
  proof (cases "240 < length (concat chunks)")
    case True
    then show ?thesis
      using scalar.digest_long [OF took True] l
      by (simp add: XXH3_128bits_digest_def Let_def tot u sec lim XXH3_MIDSIZE_MAX_def XXH3_hashLong_128b_internal_def
          XXH_STRIPE_LEN_def del: length_concat flip: t_def)
  next
    case False
    then have "take (length (concat chunks)) (buffer3 t) = concat chunks"
      using scalar.digest_short [OF took] by (simp del: length_concat)
    then show ?thesis
      using False l feed_keeps [of chunks s]
      by (simp add: XXH3_128bits_digest_def Let_def tot u sec lim XXH3_MIDSIZE_MAX_def XXH_STRIPE_LEN_def
          del: length_concat flip: t_def)
  qed
qed

lemma stream_128b_plain:
  assumes "state_ok s" "length (concat chunks) < 2 ^ 64"
  shows "XXH3_128bits_digest opt (feed chunks (snd (XXH3_64bits_reset s))) = XXH3_128bits opt' (concat chunks)"
  using digest_128b_feed [OF reset_plain(1) [OF assms(1)] assms(2), of opt] reset_plain [OF assms(1)]
    withSecret_128b_default [of opt "concat chunks" opt'] long_hashes_128b(2) [of "concat chunks" opt XXH3_kSecret]
  by (simp del: length_concat split: if_splits)

lemma stream_128b_seed:
  assumes "state_ok s" "length (concat chunks) < 2 ^ 64"
  shows "XXH3_128bits_digest opt (feed chunks (snd (XXH3_64bits_reset_withSeed s seed))) =
    XXH3_128bits_withSeed opt' (concat chunks) seed"
proof (cases "seed = 0")
  case True
  then show ?thesis
    using stream_128b_plain [OF assms, of opt opt'] withSeed_128b_0 [of opt' "concat chunks" opt']
    by (simp add: XXH3_64bits_reset_withSeed_def)
next
  case False
  note r = reset_seed [OF assms(1) False]
  show ?thesis
    using digest_128b_feed [OF r(1) assms(2), of opt] r(2,3) False long_hashes_128b(1) [of "concat chunks" opt' seed]
      withSeed_128b_size_opt [of opt "concat chunks" seed opt'] by (simp del: length_concat split: if_splits)
qed

lemma stream_128b_secret:
  assumes "state_ok s" "length (concat chunks) < 2 ^ 64" "136 \<le> length secret" "length secret < 2 ^ 64"
  shows "XXH3_128bits_digest opt (feed chunks (snd (XXH3_64bits_reset_withSecret s (Some secret) (of_nat (length secret))))) =
    XXH3_128bits_withSecret opt' (concat chunks) secret"
  using digest_128b_feed [OF reset_secret(1) [OF assms(1,3,4)] assms(2), of opt] reset_secret(3) [OF assms(1,3,4)]
    long_hashes_128b(2) [of "concat chunks" opt' secret] withSecret_128b_size_opt [of opt "concat chunks" secret opt']
  by (simp del: length_concat split: if_splits)

lemma stream_128b_both:
  assumes "state_ok s" "length (concat chunks) < 2 ^ 64" "136 \<le> length secret" "length secret < 2 ^ 64"
    and "seed \<noteq> 0 \<or> 240 < length (concat chunks)"
  shows "XXH3_128bits_digest opt
      (feed chunks (snd (XXH3_64bits_reset_withSecretandSeed s (Some secret) (of_nat (length secret)) seed))) =
    XXH3_128bits_withSecretandSeed opt' (concat chunks) secret seed"
  using assms(5) digest_128b_feed [OF reset_both(1) [OF assms(1,3,4)] assms(2), of opt seed]
    reset_both(3) [OF assms(1,3,4), of seed] long_hashes_128b(3) [of "concat chunks" opt' secret seed]
    withSecretandSeed_128b_short [of "concat chunks" opt' secret seed opt]
  by (simp del: length_concat split: if_splits)

text \<open>
  (C17) The 128-bit streaming interface gives the one-shot hash of an input of less than \<open>2 ^ 64\<close> bytes
  after the resets without a seed, with a seed and with a secret; after the reset with both it
  does so when the seed is not 0 or the input is longer than 240 bytes.
\<close>

theorem XXH3_128bits_streaming:
  assumes "state_ok s" "length (concat chunks) < 2 ^ 64" "136 \<le> length secret" "length secret < 2 ^ 64"
  shows "XXH3_128bits_digest opt (feed chunks (snd (XXH3_128bits_reset s))) = XXH3_128bits opt' (concat chunks) \<and>
    XXH3_128bits_digest opt (feed chunks (snd (XXH3_128bits_reset_withSeed s seed))) =
      XXH3_128bits_withSeed opt' (concat chunks) seed \<and>
    XXH3_128bits_digest opt (feed chunks (snd (XXH3_128bits_reset_withSecret s (Some secret) (of_nat (length secret))))) =
      XXH3_128bits_withSecret opt' (concat chunks) secret \<and>
    (seed \<noteq> 0 \<or> 240 < length (concat chunks) \<longrightarrow>
      XXH3_128bits_digest opt
        (feed chunks (snd (XXH3_128bits_reset_withSecretandSeed s (Some secret) (of_nat (length secret)) seed))) =
      XXH3_128bits_withSecretandSeed opt' (concat chunks) secret seed)"
  using assms
  by (simp add: stream_128b_plain stream_128b_seed stream_128b_secret stream_128b_both XXH3_128bits_reset_def
      XXH3_128bits_reset_withSeed_def XXH3_128bits_reset_withSecret_def XXH3_128bits_reset_withSecretandSeed_def
      del: length_concat)

lemma XXH3_128bits_streaming_witness:
  "XXH3_128bits_digest 0 (feed [[0x61], replicate 300 0x62] (snd (XXH3_128bits_reset fresh_state))) =
    XXH3_128bits 1 (0x61 # replicate 300 0x62)"
  using XXH3_128bits_streaming [of fresh_state "[[0x61], replicate 300 0x62]" "replicate 136 0" 0 1 0]
  by (simp add: state_ok_def fresh_state_def)

lemma stream_128b_seed_0:
  assumes "state_ok s" "length (concat chunks) \<le> 240" "136 \<le> length secret" "length secret < 2 ^ 64"
  shows "XXH3_128bits_digest opt
      (feed chunks (snd (XXH3_64bits_reset_withSecretandSeed s (Some secret) (of_nat (length secret)) 0))) =
    XXH3_128bits_withSecret opt' (concat chunks) secret"
  using assms(2) digest_128b_feed [OF reset_both(1) [OF assms(1,3,4)], of chunks opt 0]
    reset_both(3) [OF assms(1,3,4), of 0] withSecret_128b_size_opt [of opt "concat chunks" secret opt']
  by (simp del: length_concat)

text \<open>
  (C40) The seed 0 beside a secret. For inputs of at most 240 bytes the 128-bit streaming digest is
  the hash under the secret, while the one-shot function ignores the secret and gives the hash
  without seed and secret: the digest tests the seed where its 64-bit sibling, which agrees with
  its one-shot function, tests \<open>useSeed\<close>. The two are different hashes in general, the witness
  gives an input and a secret, and the same where the secret is the default one.
\<close>

theorem XXH3_128bits_seed_0_uses_secret:
  assumes "state_ok s" "length (concat chunks) \<le> 240" "136 \<le> length secret" "length secret < 2 ^ 64"
  shows "XXH3_128bits_digest opt
      (feed chunks (snd (XXH3_128bits_reset_withSecretandSeed s (Some secret) (of_nat (length secret)) 0))) =
      XXH3_128bits_withSecret opt' (concat chunks) secret \<and>
    XXH3_128bits_withSecretandSeed opt' (concat chunks) secret 0 = XXH3_128bits opt' (concat chunks) \<and>
    XXH3_64bits_digest opt
      (feed chunks (snd (XXH3_64bits_reset_withSecretandSeed s (Some secret) (of_nat (length secret)) 0))) =
      XXH3_64bits_withSecretandSeed opt' (concat chunks) secret 0"
  using stream_128b_seed_0 [OF assms, of opt opt'] withSecretandSeed_128b_short [OF assms(2), of opt' secret 0 opt']
    withSeed_128b_0 [of opt' "concat chunks" opt'] stream_both [OF assms(1) _ assms(3,4), of chunks opt 0 opt'] assms(2)
  by (simp add: XXH3_128bits_reset_withSecretandSeed_def del: length_concat)

theorem XXH3_128bits_seed_0_uses_secret_witness:
  "XXH3_128bits_digest 0 (snd (XXH3_128bits_reset_withSecretandSeed fresh_state (Some (replicate 136 0)) 136 0)) \<noteq>
    XXH3_128bits_withSecretandSeed 0 [] (replicate 136 0) 0"
proof -
  have "XXH3_128bits_withSecret 0 [] (replicate 136 0) \<noteq> XXH3_128bits 0 []" by code_simp
  then show ?thesis
    using XXH3_128bits_seed_0_uses_secret [of fresh_state "[]" "replicate 136 0" 0 0]
    by (simp add: state_ok_def fresh_state_def feed_def)
qed

section \<open>Comparison and canonical form\<close>

lemma to_bytes_inj: "8 dvd LENGTH('a) \<Longrightarrow> to_bytes (x :: 'a::len word) = to_bytes y \<longleftrightarrow> x = y"
  by (metis of_to_bytes)

lemma XXH128_isEqual_iff: "XXH128_isEqual h1 h2 = (if h1 = h2 then 1 else 0)"
  by (cases h1; cases h2) (simp add: XXH128_isEqual_def to_bytes_inj sizeof_word_def)

text \<open>Hashes are ordered as numbers of 128 bits; \<open>XXH128_cmp\<close> compares in that order, as \<open>qsort\<close> requires.\<close>

instantiation XXH128_hash_ext :: (linorder) linorder
begin

definition less_eq_XXH128_hash_ext :: "'a XXH128_hash_scheme \<Rightarrow> 'a XXH128_hash_scheme \<Rightarrow> bool" where
  "less_eq_XXH128_hash_ext a b \<longleftrightarrow> high64 a < high64 b \<or> high64 a = high64 b \<and>
     (low64 a < low64 b \<or> low64 a = low64 b \<and> XXH128_hash.more a \<le> XXH128_hash.more b)"

definition less_XXH128_hash_ext :: "'a XXH128_hash_scheme \<Rightarrow> 'a XXH128_hash_scheme \<Rightarrow> bool" where
  "less_XXH128_hash_ext a b \<longleftrightarrow> a \<le> b \<and> \<not> b \<le> a"

instance
  by standard (auto simp: less_eq_XXH128_hash_ext_def less_XXH128_hash_ext_def intro!: XXH128_hash.equality)

end

lemma less_XXH128_hash:
  "(h1 :: XXH128_hash) < h2 \<longleftrightarrow> high64 h1 < high64 h2 \<or> high64 h1 = high64 h2 \<and> low64 h1 < low64 h2"
  by (cases "high64 h1" "high64 h2" rule: linorder_cases; cases "low64 h1" "low64 h2" rule: linorder_cases)
    (auto simp: less_XXH128_hash_ext_def less_eq_XXH128_hash_ext_def)

lemma XXH128_cmp_order: "XXH128_cmp h1 h2 = (if h1 < h2 then - 1 else if h2 < h1 then 1 else 0)"
proof -
  have *: "\<not> y < x" "x \<noteq> y" "y \<noteq> x" if "x < y" for x y :: uint64 using that by auto
  show ?thesis
    unfolding XXH128_cmp_def less_XXH128_hash Let_def
    by (cases "high64 h1" "high64 h2" rule: linorder_cases; cases "low64 h1" "low64 h2" rule: linorder_cases)
      (simp_all add: *)
qed

lemma XXH128_canonical: "XXH128_hashFromCanonical (XXH128_canonicalFromHash h) = h"
  by (simp add: XXH128_hashFromCanonical_def XXH128_canonicalFromHash_def readBE64 sizeof_word_def XXH_swap64_vsc
      swap_uint64_of_bytes to_of_bytes of_to_bytes)

end
