(* ===== verification/Xxh3Run.thy ===== *)
theory Xxh3Run
  imports Xxh128 Runs
begin

text \<open>
  Sessions with a state of XXH3: resets of every kind, updates and digests of both widths, in any
  order and on one state that is used again and again. A reset with a seed keeps the secret of an
  earlier one when it can; the sessions show that it never keeps a wrong one.
\<close>

section \<open>The calls\<close>

datatype xxh3_event =
    Reset XXH_errorcode
  | Reset_withSeed uint64 XXH_errorcode
  | Reset_withSecret "byte list option" size_t XXH_errorcode
  | Reset_withSecretandSeed "byte list option" size_t uint64 XXH_errorcode
  | Update3 "byte list option" XXH_errorcode
  | Digest64 uint64
  | Digest128 XXH128_hash

text \<open>\<open>opt\<close> is the \<open>XXH_SIZE_OPT\<close> of the build.\<close>

inductive xxh3_step :: "nat \<Rightarrow> XXH3_state \<Rightarrow> xxh3_event \<Rightarrow> XXH3_state \<Rightarrow> bool" for opt where
  reset_call: "XXH3_64bits_reset s = (r, s') \<Longrightarrow> xxh3_step opt s (Reset r) s'"
| seed_call: "XXH3_64bits_reset_withSeed s seed = (r, s') \<Longrightarrow> xxh3_step opt s (Reset_withSeed seed r) s'"
| secret_call: "XXH3_64bits_reset_withSecret s secret n = (r, s') \<Longrightarrow> xxh3_step opt s (Reset_withSecret secret n r) s'"
| both_call: "XXH3_64bits_reset_withSecretandSeed s secret n seed = (r, s') \<Longrightarrow>
    xxh3_step opt s (Reset_withSecretandSeed secret n seed r) s'"
| update_call: "XXH3_64bits_update s input = (r, s') \<Longrightarrow> xxh3_step opt s (Update3 input r) s'"
| digest64_call: "xxh3_step opt s (Digest64 (XXH3_64bits_digest opt s)) s"
| digest128_call: "xxh3_step opt s (Digest128 (XXH3_128bits_digest opt s)) s"

section \<open>The specification\<close>

text \<open>How the hash is parameterised since the last reset, and the input since then.\<close>

datatype xxh3_mode = Unset | Plain | Seed uint64 | Secret "byte list" | Both "byte list" uint64

definition good_secret :: "byte list option \<Rightarrow> bool" where
  "good_secret secret \<longleftrightarrow> (case secret of None \<Rightarrow> False | Some s \<Rightarrow> 136 \<le> length s)"

text \<open>
  The size passed with a secret is its length. After a reset that failed there is nothing to update
  or to digest.
\<close>

definition secret_size :: "byte list option \<Rightarrow> size_t \<Rightarrow> bool" where
  "secret_size secret n \<longleftrightarrow> (case secret of None \<Rightarrow> True | Some s \<Rightarrow> length s < 2 ^ 64 \<and> n = of_nat (length s))"

fun xxh3_legal :: "xxh3_mode \<times> byte list \<Rightarrow> xxh3_event \<Rightarrow> bool" where
  "xxh3_legal _ (Reset r) \<longleftrightarrow> True"
| "xxh3_legal _ (Reset_withSeed seed r) \<longleftrightarrow> True"
| "xxh3_legal _ (Reset_withSecret secret n r) \<longleftrightarrow> secret_size secret n"
| "xxh3_legal _ (Reset_withSecretandSeed secret n seed r) \<longleftrightarrow> secret_size secret n"
| "xxh3_legal (mode, xs) (Update3 input r) \<longleftrightarrow>
     (case input of None \<Rightarrow> True | Some ys \<Rightarrow> mode \<noteq> Unset \<and> length xs + length ys < 2 ^ 64)"
| "xxh3_legal (mode, xs) (Digest64 h) \<longleftrightarrow> mode \<noteq> Unset"
| "xxh3_legal (mode, xs) (Digest128 h) \<longleftrightarrow> mode \<noteq> Unset"

fun one_shot_64 :: "nat \<Rightarrow> xxh3_mode \<times> byte list \<Rightarrow> uint64" where
  "one_shot_64 opt (Unset, xs) = 0"
| "one_shot_64 opt (Plain, xs) = XXH3_64bits opt xs"
| "one_shot_64 opt (Seed seed, xs) = XXH3_64bits_withSeed opt xs seed"
| "one_shot_64 opt (Secret secret, xs) = XXH3_64bits_withSecret opt xs secret"
| "one_shot_64 opt (Both secret seed, xs) = XXH3_64bits_withSecretandSeed opt xs secret seed"

text \<open>
  The 128-bit digest with the seed 0 beside a secret is an exception for short inputs: it is the hash
  under the secret, not that of the one-shot function with the same arguments.
\<close>

fun one_shot_128 :: "nat \<Rightarrow> xxh3_mode \<times> byte list \<Rightarrow> XXH128_hash" where
  "one_shot_128 opt (Unset, xs) = \<lparr>low64 = 0, high64 = 0\<rparr>"
| "one_shot_128 opt (Plain, xs) = XXH3_128bits opt xs"
| "one_shot_128 opt (Seed seed, xs) = XXH3_128bits_withSeed opt xs seed"
| "one_shot_128 opt (Secret secret, xs) = XXH3_128bits_withSecret opt xs secret"
| "one_shot_128 opt (Both secret seed, xs) =
     (if seed = 0 \<and> length xs \<le> 240 then XXH3_128bits_withSecret opt xs secret
      else XXH3_128bits_withSecretandSeed opt xs secret seed)"

definition ok_if :: "bool \<Rightarrow> XXH_errorcode" where
  "ok_if b = (if b then XXH_OK else XXH_ERROR)"

fun xxh3_sound :: "nat \<Rightarrow> xxh3_mode \<times> byte list \<Rightarrow> xxh3_event \<Rightarrow> bool" where
  "xxh3_sound opt a (Reset r) \<longleftrightarrow> r = XXH_OK"
| "xxh3_sound opt a (Reset_withSeed seed r) \<longleftrightarrow> r = XXH_OK"
| "xxh3_sound opt a (Reset_withSecret secret n r) \<longleftrightarrow> r = ok_if (good_secret secret)"
| "xxh3_sound opt a (Reset_withSecretandSeed secret n seed r) \<longleftrightarrow> r = ok_if (good_secret secret)"
| "xxh3_sound opt a (Update3 input r) \<longleftrightarrow> r = XXH_OK"
| "xxh3_sound opt a (Digest64 h) \<longleftrightarrow> h = one_shot_64 opt a"
| "xxh3_sound opt a (Digest128 h) \<longleftrightarrow> h = one_shot_128 opt a"

text \<open>
  A failing reset with a secret has reset the state and leaves it unusable; a failing reset with a
  secret and a seed leaves it as it was.
\<close>

fun xxh3_effect :: "xxh3_mode \<times> byte list \<Rightarrow> xxh3_event \<Rightarrow> xxh3_mode \<times> byte list" where
  "xxh3_effect a (Reset r) = (Plain, [])"
| "xxh3_effect a (Reset_withSeed seed r) = (Seed seed, [])"
| "xxh3_effect a (Reset_withSecret secret n r) =
     (if good_secret secret then (Secret (the secret), []) else (Unset, []))"
| "xxh3_effect a (Reset_withSecretandSeed secret n seed r) =
     (if good_secret secret then (Both (the secret) seed, []) else a)"
| "xxh3_effect (mode, xs) (Update3 input r) = (mode, case input of None \<Rightarrow> xs | Some ys \<Rightarrow> xs @ ys)"
| "xxh3_effect a (Digest64 h) = a"
| "xxh3_effect a (Digest128 h) = a"

section \<open>The streaming interface refines it\<close>

fun good_mode :: "xxh3_mode \<Rightarrow> bool" where
  "good_mode (Secret secret) \<longleftrightarrow> 136 \<le> length secret \<and> length secret < 2 ^ 64"
| "good_mode (Both secret seed) \<longleftrightarrow> 136 \<le> length secret \<and> length secret < 2 ^ 64"
| "good_mode mode \<longleftrightarrow> True"

fun start :: "xxh3_mode \<Rightarrow> XXH3_state \<Rightarrow> XXH3_state" where
  "start Unset s = s"
| "start Plain s = snd (XXH3_64bits_reset s)"
| "start (Seed seed) s = snd (XXH3_64bits_reset_withSeed s seed)"
| "start (Secret secret) s = snd (XXH3_64bits_reset_withSecret s (Some secret) (of_nat (length secret)))"
| "start (Both secret seed) s = snd (XXH3_64bits_reset_withSecretandSeed s (Some secret) (of_nat (length secret)) seed)"

definition xxh3_rel :: "XXH3_state \<Rightarrow> xxh3_mode \<times> byte list \<Rightarrow> bool" where
  "xxh3_rel s a \<longleftrightarrow> state_ok s \<and>
     (case a of (mode, xs) \<Rightarrow> mode = Unset \<or> good_mode mode \<and> length xs < 2 ^ 64 \<and>
       (\<exists>s0 chunks. state_ok s0 \<and> concat chunks = xs \<and> s = feed chunks (start mode s0)))"

lemma update_keeps_secret:
  "extSecret (snd (XXH3_64bits_update s i)) = extSecret s" "customSecret (snd (XXH3_64bits_update s i)) = customSecret s"
  by (simp_all add: XXH3_64bits_update_def XXH3_update_def Let_def case_prod_unfold split: option.split)

lemma update_ok: "fst (XXH3_64bits_update s i) = XXH_OK"
  by (simp add: XXH3_64bits_update_def XXH3_update_def Let_def case_prod_unfold split: option.split)

text \<open>The state after a reset and some input: of a used state, the next reset can rely on what is kept.\<close>

lemma start_took:
  assumes "state_ok s0" "good_mode mode" "mode \<noteq> Unset"
  shows "\<exists>secret. scalar.took secret [] (start mode s0)"
proof (cases mode)
  case (Seed seed)
  have zero: "XXH3_64bits_reset_withSeed s0 0 = XXH3_64bits_reset s0" by (simp add: XXH3_64bits_reset_withSeed_def)
  show ?thesis
  proof (cases "seed = 0")
    case True
    then show ?thesis using reset_plain(1) [OF assms(1)] zero Seed by auto
  next
    case False
    then show ?thesis using reset_seed(1) [OF assms(1)] Seed by auto
  qed
next
  case (Secret secret)
  then show ?thesis using reset_secret(1) [OF assms(1), of secret] assms(2) by auto
next
  case (Both secret seed)
  then show ?thesis using reset_both(1) [OF assms(1), of secret seed] assms(2) by auto
qed (use assms(3) reset_plain(1) [OF assms(1)] in auto)

lemma start_ok:
  assumes "state_ok s0" "good_mode mode"
  shows "state_ok (start mode s0)"
proof (cases mode)
  case (Seed seed)
  then show ?thesis
    using assms(1) by (auto simp: state_ok_def XXH3_64bits_reset_withSeed_def XXH3_64bits_reset_def XXH3_reset_internal_def Let_def)
next
  case (Both secret seed)
  then show ?thesis
    using assms by (auto simp: state_ok_def XXH3_64bits_reset_withSecretandSeed_def XXH3_reset_internal_def Let_def)
qed (use assms in \<open>auto simp: state_ok_def XXH3_64bits_reset_def XXH3_64bits_reset_withSecret_def XXH3_reset_internal_def Let_def\<close>)

lemma feed_ok:
  assumes "state_ok s0" "good_mode mode" "mode \<noteq> Unset" "length (concat chunks) < 2 ^ 64"
  shows "state_ok (feed chunks (start mode s0))"
proof -
  obtain secret where "scalar.took secret [] (start mode s0)" using start_took [OF assms(1-3)] ..
  from scalar.took_chunks [OF this assms(4)]
  have "scalar.took secret (concat chunks) (feed chunks (start mode s0))" by (simp add: feed_def XXH3_64bits_update_def)
  then have "length (buffer3 (feed chunks (start mode s0))) = 256" by (simp add: scalar.took_def scalar.under_def)
  moreover have "extSecret (feed chunks s) = extSecret s \<and> customSecret (feed chunks s) = customSecret s" for s
    unfolding feed_def by (induction chunks rule: rev_induct) (simp_all add: update_keeps_secret)
  ultimately show ?thesis
    using start_ok [OF assms(1,2)] by (simp add: state_ok_def feed_keeps)
qed

lemma session_start:
  assumes "state_ok s" "good_mode mode"
  shows "xxh3_rel (start mode s) (mode, [])"
  using assms start_ok [OF assms] unfolding xxh3_rel_def
  by (auto intro!: exI [of _ s] exI [of _ "[]"] simp: feed_def)

lemma stream_digests:
  assumes "state_ok s0" "good_mode mode" "mode \<noteq> Unset" "length (concat chunks) < 2 ^ 64"
  shows "XXH3_64bits_digest opt (feed chunks (start mode s0)) = one_shot_64 opt' (mode, concat chunks)"
    and "XXH3_128bits_digest opt (feed chunks (start mode s0)) = one_shot_128 opt' (mode, concat chunks)"
  using assms
  by (cases mode; simp add: stream_plain stream_seed stream_secret stream_both stream_128b_plain stream_128b_seed
      stream_128b_secret stream_128b_both stream_128b_seed_0 not_le del: length_concat)+

lemma size_not_small:
  assumes "136 \<le> length s" "length s < 2 ^ 64"
  shows "\<not> (of_nat (length s) :: size_t) < of_nat XXH3_SECRET_SIZE_MIN"
  using assms unat_of_nat64 [OF assms(2)] by (simp add: XXH3_SECRET_SIZE_MIN_def word_less_nat_alt)

lemma size_small:
  assumes "\<not> 136 \<le> length s"
  shows "(of_nat (length s) :: size_t) < of_nat XXH3_SECRET_SIZE_MIN"
proof -
  have "length s < 2 ^ 64" using assms by simp
  then show ?thesis using assms unat_of_nat64 [of "length s"] by (simp add: XXH3_SECRET_SIZE_MIN_def word_less_nat_alt)
qed

lemma session_ok: "xxh3_rel s a \<Longrightarrow> state_ok s"
  by (simp add: xxh3_rel_def)

lemma session_secret:
  assumes "xxh3_rel s a" "secret_size secret n" "XXH3_64bits_reset_withSecret s secret n = (r, s')"
  shows "r = ok_if (good_secret secret) \<and> xxh3_rel s' (xxh3_effect a (Reset_withSecret secret n r))"
proof (cases "good_secret secret")
  case True
  then obtain t where t: "secret = Some t" "136 \<le> length t" by (auto simp: good_secret_def split: option.splits)
  then have n: "n = of_nat (length t)" "length t < 2 ^ 64" using assms(2) by (simp_all add: secret_size_def)
  then have "s' = start (Secret t) s" "r = XXH_OK"
    using assms(3) size_not_small [OF t(2) n(2)] t by (auto simp: XXH3_64bits_reset_withSecret_def Let_def)
  then show ?thesis using session_start [OF session_ok [OF assms(1)], of "Secret t"] True t n by (simp add: ok_if_def)
next
  case False
  have "state_ok (XXH3_reset_internal s 0 secret n)"
    using session_ok [OF assms(1)] by (simp add: state_ok_def XXH3_reset_internal_def Let_def)
  moreover have "r = XXH_ERROR \<and> s' = XXH3_reset_internal s 0 secret n"
    using assms(2,3) False size_small
    by (auto simp: XXH3_64bits_reset_withSecret_def Let_def good_secret_def secret_size_def split: option.splits if_splits)
  ultimately show ?thesis using False by (simp add: ok_if_def xxh3_rel_def)
qed

lemma session_both:
  assumes "xxh3_rel s a" "secret_size secret n" "XXH3_64bits_reset_withSecretandSeed s secret n seed = (r, s')"
  shows "r = ok_if (good_secret secret) \<and> xxh3_rel s' (xxh3_effect a (Reset_withSecretandSeed secret n seed r))"
proof (cases "good_secret secret")
  case True
  then obtain t where t: "secret = Some t" "136 \<le> length t" by (auto simp: good_secret_def split: option.splits)
  then have n: "n = of_nat (length t)" "length t < 2 ^ 64" using assms(2) by (simp_all add: secret_size_def)
  then have "s' = start (Both t seed) s" "r = XXH_OK"
    using assms(3) size_not_small [OF t(2) n(2)] t by (auto simp: XXH3_64bits_reset_withSecretandSeed_def)
  then show ?thesis using session_start [OF session_ok [OF assms(1)], of "Both t seed"] True t n by (simp add: ok_if_def)
next
  case False
  have "r = XXH_ERROR \<and> s' = s"
    using assms(2,3) False size_small
    by (auto simp: XXH3_64bits_reset_withSecretandSeed_def good_secret_def secret_size_def split: option.splits if_splits)
  then show ?thesis using False assms(1) by (simp add: ok_if_def)
qed

lemma feed_snoc: "feed (chunks @ [c]) s = snd (XXH3_64bits_update (feed chunks s) (Some c))"
  by (simp add: feed_def)

lemma session_update:
  assumes "xxh3_rel s (mode, xs)" "xxh3_legal (mode, xs) (Update3 input r)" "XXH3_64bits_update s input = (r, s')"
  shows "r = XXH_OK \<and> xxh3_rel s' (xxh3_effect (mode, xs) (Update3 input r))"
proof (cases input)
  case None
  then show ?thesis using assms(1,3) by (simp add: XXH3_64bits_update_def XXH3_update_def)
next
  case (Some ys)
  then have set: "mode \<noteq> Unset" "length (xs @ ys) < 2 ^ 64" using assms(2) by simp_all
  then obtain s0 chunks where s: "state_ok s0" "good_mode mode" "concat chunks = xs" "s = feed chunks (start mode s0)"
    using assms(1) by (auto simp: xxh3_rel_def)
  have s': "s' = feed (chunks @ [ys]) (start mode s0)" using assms(3) Some s(4) by (simp add: feed_snoc)
  have "concat (chunks @ [ys]) = xs @ ys" using s(3) by simp
  moreover have "state_ok s'" unfolding s' by (rule feed_ok [OF s(1,2) set(1)]) (use set(2) s(3) in simp)
  ultimately have "xxh3_rel s' (mode, xs @ ys)" using s(1,2) set(2) s' unfolding xxh3_rel_def by blast
  then show ?thesis using Some update_ok [of s input] assms(3) by simp
qed

lemma session_digest:
  assumes "xxh3_rel s (mode, xs)" "mode \<noteq> Unset"
  shows "XXH3_64bits_digest opt s = one_shot_64 opt' (mode, xs)"
    and "XXH3_128bits_digest opt s = one_shot_128 opt' (mode, xs)"
proof -
  obtain s0 chunks where s: "state_ok s0" "good_mode mode" "length xs < 2 ^ 64" "concat chunks = xs" "s = feed chunks (start mode s0)"
    using assms by (auto simp: xxh3_rel_def)
  have len: "length (concat chunks) < 2 ^ 64" using s(3,4) by simp
  note d = stream_digests [OF s(1,2) assms(2) len, of opt opt', unfolded s(4), folded s(5)]
  show "XXH3_64bits_digest opt s = one_shot_64 opt' (mode, xs)" by (rule d(1))
  show "XXH3_128bits_digest opt s = one_shot_128 opt' (mode, xs)" by (rule d(2))
qed

interpretation session: contract "xxh3_step opt" xxh3_rel xxh3_legal "xxh3_sound opt'" xxh3_effect for opt opt'
proof -
  have "xxh3_sound opt' a e \<and> xxh3_rel s' (xxh3_effect a e)"
    if "xxh3_rel s a" "xxh3_legal a e" "xxh3_step opt s e s'" for s s' a e
  proof -
    obtain mode xs where a: "a = (mode, xs)" by (cases a)
    note ok = session_ok [OF that(1)] and rel = that(1) [unfolded a] and legal = that(2) [unfolded a]
    from that(3) show ?thesis
    proof cases
      case (reset_call r)
      then show ?thesis using session_start [OF ok, of Plain] by (auto simp: XXH3_64bits_reset_def)
    next
      case (seed_call seed r)
      have "fst (XXH3_64bits_reset_withSeed s seed) = XXH_OK"
        by (simp add: XXH3_64bits_reset_withSeed_def XXH3_64bits_reset_def Let_def)
      then show ?thesis using seed_call session_start [OF ok, of "Seed seed"] by simp
    next
      case (secret_call secret n r)
      then show ?thesis using session_secret [OF that(1), of secret n r s'] legal by simp
    next
      case (both_call secret n seed r)
      then show ?thesis using session_both [OF that(1), of secret n seed r s'] legal by simp
    next
      case (update_call input r)
      then show ?thesis using session_update [OF rel _ update_call(2)] legal a by simp
    next
      case digest64_call
      then show ?thesis using session_digest(1) [OF rel, of opt opt'] legal rel a by simp
    next
      case digest128_call
      then show ?thesis using session_digest(2) [OF rel, of opt opt'] legal rel a by simp
    qed
  qed
  then show "contract (xxh3_step opt) xxh3_rel xxh3_legal (xxh3_sound opt') xxh3_effect"
    by unfold_locales blast+
qed

section \<open>Properties\<close>

text \<open>
  (C3) Sessions with one state of XXH3. Whatever is done with a state before, every digest of 64 or
  of 128 bits is the one-shot hash of the input since the last reset that succeeded, under the
  seed or the secret of that reset, on every \<open>XXH_SIZE_OPT\<close>, with one exception: after a reset with
  a secret and the seed 0 the 128-bit digest of at most 240 bytes is the hash under the secret
  alone. Each reset and update returns the status it should; a digest changes nothing, so that
  more input can follow it.
\<close>

theorem xxh3_session_hashes:
  assumes "run (xxh3_step opt) s es s'" and "state_ok s" and "along xxh3_legal xxh3_effect (Unset, []) es"
  shows "along (xxh3_sound opt') xxh3_effect (Unset, []) es"
proof -
  have "xxh3_rel s (Unset, [])" using assms(2) by (simp add: xxh3_rel_def)
  then show ?thesis using session.run_refines [OF assms(1) _ assms(3)] by blast
qed

text \<open>The state is used with the seed 5, then with a secret, then with the seed 5 again.\<close>

theorem xxh3_session_hashes_witness:
  "\<exists>s' h1 h2 h3. run (xxh3_step 0) fresh_state
     [Reset_withSeed 5 XXH_OK, Update3 (Some [0x61]) XXH_OK, Digest64 h1, Update3 (Some [0x62]) XXH_OK, Digest64 h2,
      Reset_withSecret (Some (replicate 136 7)) 136 XXH_OK, Reset_withSeed 5 XXH_OK, Update3 (Some [0x61, 0x62]) XXH_OK, Digest64 h3] s' \<and>
     h1 = XXH3_64bits_withSeed 1 [0x61] 5 \<and> h2 = XXH3_64bits_withSeed 1 [0x61, 0x62] 5 \<and> h3 = h2"
proof -
  define s1 where "s1 = snd (XXH3_64bits_update (snd (XXH3_64bits_reset_withSeed fresh_state 5)) (Some [0x61]))"
  define s2 where "s2 = snd (XXH3_64bits_update s1 (Some [0x62]))"
  define s3 where "s3 = snd (XXH3_64bits_reset_withSecret s2 (Some (replicate 136 7)) 136)"
  define s4 where "s4 = snd (XXH3_64bits_update (snd (XXH3_64bits_reset_withSeed s3 5)) (Some [0x61, 0x62]))"
  have seed: "xxh3_step 0 s (Reset_withSeed 5 XXH_OK) (snd (XXH3_64bits_reset_withSeed s 5))" for s
    by (rule seed_call) (simp add: XXH3_64bits_reset_withSeed_def Let_def)
  have secret: "xxh3_step 0 s (Reset_withSecret (Some (replicate 136 7)) 136 XXH_OK)
      (snd (XXH3_64bits_reset_withSecret s (Some (replicate 136 7)) 136))" for s
    by (rule secret_call) (simp add: XXH3_64bits_reset_withSecret_def XXH3_SECRET_SIZE_MIN_def Let_def)
  have update: "xxh3_step 0 s (Update3 i XXH_OK) (snd (XXH3_64bits_update s i))" for s i
    by (rule update_call) (simp add: prod_eq_iff update_ok)
  define es where "es = [Reset_withSeed 5 XXH_OK, Update3 (Some [0x61]) XXH_OK, Digest64 (XXH3_64bits_digest 0 s1),
    Update3 (Some [0x62]) XXH_OK, Digest64 (XXH3_64bits_digest 0 s2), Reset_withSecret (Some (replicate 136 7)) 136 XXH_OK,
    Reset_withSeed 5 XXH_OK, Update3 (Some [0x61, 0x62]) XXH_OK, Digest64 (XXH3_64bits_digest 0 s4)]"
  have run: "run (xxh3_step 0) fresh_state es s4"
    unfolding es_def s4_def s3_def s2_def s1_def
    by (rule run.more, rule seed, rule run.more, rule update, rule run.more, rule digest64_call, rule run.more, rule update,
      rule run.more, rule digest64_call, rule run.more, rule secret, rule run.more, rule seed, rule run.more, rule update,
      rule run.more, rule digest64_call, rule run.none)
  moreover have "along xxh3_legal xxh3_effect (Unset, []) es"
    by (simp add: es_def good_secret_def secret_size_def)
  moreover have "state_ok fresh_state" by (simp add: state_ok_def fresh_state_def)
  ultimately have "along (xxh3_sound 1) xxh3_effect (Unset, []) es" by (intro xxh3_session_hashes)
  then show ?thesis using run unfolding es_def by (auto simp: good_secret_def)
qed

end
