(* ===== verification/Crc32.thy ===== *)
theory Crc32
  imports Platform
begin

text \<open>
  \<open>crc32.c\<close>: the two lookup tables, the byte-wise loop \<open>crc32x\<close> and its two instances.
  The reference definition \<open>crc_bits\<close> is the bit-serial division register of the reflected
  polynomial, by which every error confined to 32 consecutive bits is detected; the locale \<open>crc_table\<close> states what a table promises and is interpreted on both.
\<close>

section \<open>The code\<close>

definition crc32_tab :: "uint32 list" where
  "crc32_tab = [
     0x00000000, 0x77073096, 0xee0e612c, 0x990951ba, 0x076dc419, 0x706af48f, 0xe963a535, 0x9e6495a3,
     0x0edb8832, 0x79dcb8a4, 0xe0d5e91e, 0x97d2d988, 0x09b64c2b, 0x7eb17cbd, 0xe7b82d07, 0x90bf1d91,
     0x1db71064, 0x6ab020f2, 0xf3b97148, 0x84be41de, 0x1adad47d, 0x6ddde4eb, 0xf4d4b551, 0x83d385c7,
     0x136c9856, 0x646ba8c0, 0xfd62f97a, 0x8a65c9ec, 0x14015c4f, 0x63066cd9, 0xfa0f3d63, 0x8d080df5,
     0x3b6e20c8, 0x4c69105e, 0xd56041e4, 0xa2677172, 0x3c03e4d1, 0x4b04d447, 0xd20d85fd, 0xa50ab56b,
     0x35b5a8fa, 0x42b2986c, 0xdbbbc9d6, 0xacbcf940, 0x32d86ce3, 0x45df5c75, 0xdcd60dcf, 0xabd13d59,
     0x26d930ac, 0x51de003a, 0xc8d75180, 0xbfd06116, 0x21b4f4b5, 0x56b3c423, 0xcfba9599, 0xb8bda50f,
     0x2802b89e, 0x5f058808, 0xc60cd9b2, 0xb10be924, 0x2f6f7c87, 0x58684c11, 0xc1611dab, 0xb6662d3d,
     0x76dc4190, 0x01db7106, 0x98d220bc, 0xefd5102a, 0x71b18589, 0x06b6b51f, 0x9fbfe4a5, 0xe8b8d433,
     0x7807c9a2, 0x0f00f934, 0x9609a88e, 0xe10e9818, 0x7f6a0dbb, 0x086d3d2d, 0x91646c97, 0xe6635c01,
     0x6b6b51f4, 0x1c6c6162, 0x856530d8, 0xf262004e, 0x6c0695ed, 0x1b01a57b, 0x8208f4c1, 0xf50fc457,
     0x65b0d9c6, 0x12b7e950, 0x8bbeb8ea, 0xfcb9887c, 0x62dd1ddf, 0x15da2d49, 0x8cd37cf3, 0xfbd44c65,
     0x4db26158, 0x3ab551ce, 0xa3bc0074, 0xd4bb30e2, 0x4adfa541, 0x3dd895d7, 0xa4d1c46d, 0xd3d6f4fb,
     0x4369e96a, 0x346ed9fc, 0xad678846, 0xda60b8d0, 0x44042d73, 0x33031de5, 0xaa0a4c5f, 0xdd0d7cc9,
     0x5005713c, 0x270241aa, 0xbe0b1010, 0xc90c2086, 0x5768b525, 0x206f85b3, 0xb966d409, 0xce61e49f,
     0x5edef90e, 0x29d9c998, 0xb0d09822, 0xc7d7a8b4, 0x59b33d17, 0x2eb40d81, 0xb7bd5c3b, 0xc0ba6cad,
     0xedb88320, 0x9abfb3b6, 0x03b6e20c, 0x74b1d29a, 0xead54739, 0x9dd277af, 0x04db2615, 0x73dc1683,
     0xe3630b12, 0x94643b84, 0x0d6d6a3e, 0x7a6a5aa8, 0xe40ecf0b, 0x9309ff9d, 0x0a00ae27, 0x7d079eb1,
     0xf00f9344, 0x8708a3d2, 0x1e01f268, 0x6906c2fe, 0xf762575d, 0x806567cb, 0x196c3671, 0x6e6b06e7,
     0xfed41b76, 0x89d32be0, 0x10da7a5a, 0x67dd4acc, 0xf9b9df6f, 0x8ebeeff9, 0x17b7be43, 0x60b08ed5,
     0xd6d6a3e8, 0xa1d1937e, 0x38d8c2c4, 0x4fdff252, 0xd1bb67f1, 0xa6bc5767, 0x3fb506dd, 0x48b2364b,
     0xd80d2bda, 0xaf0a1b4c, 0x36034af6, 0x41047a60, 0xdf60efc3, 0xa867df55, 0x316e8eef, 0x4669be79,
     0xcb61b38c, 0xbc66831a, 0x256fd2a0, 0x5268e236, 0xcc0c7795, 0xbb0b4703, 0x220216b9, 0x5505262f,
     0xc5ba3bbe, 0xb2bd0b28, 0x2bb45a92, 0x5cb36a04, 0xc2d7ffa7, 0xb5d0cf31, 0x2cd99e8b, 0x5bdeae1d,
     0x9b64c2b0, 0xec63f226, 0x756aa39c, 0x026d930a, 0x9c0906a9, 0xeb0e363f, 0x72076785, 0x05005713,
     0x95bf4a82, 0xe2b87a14, 0x7bb12bae, 0x0cb61b38, 0x92d28e9b, 0xe5d5be0d, 0x7cdcefb7, 0x0bdbdf21,
     0x86d3d2d4, 0xf1d4e242, 0x68ddb3f8, 0x1fda836e, 0x81be16cd, 0xf6b9265b, 0x6fb077e1, 0x18b74777,
     0x88085ae6, 0xff0f6a70, 0x66063bca, 0x11010b5c, 0x8f659eff, 0xf862ae69, 0x616bffd3, 0x166ccf45,
     0xa00ae278, 0xd70dd2ee, 0x4e048354, 0x3903b3c2, 0xa7672661, 0xd06016f7, 0x4969474d, 0x3e6e77db,
     0xaed16a4a, 0xd9d65adc, 0x40df0b66, 0x37d83bf0, 0xa9bcae53, 0xdebb9ec5, 0x47b2cf7f, 0x30b5ffe9,
     0xbdbdf21c, 0xcabac28a, 0x53b39330, 0x24b4a3a6, 0xbad03605, 0xcdd70693, 0x54de5729, 0x23d967bf,
     0xb3667a2e, 0xc4614ab8, 0x5d681b02, 0x2a6f2b94, 0xb40bbe37, 0xc30c8ea1, 0x5a05df1b, 0x2d02ef8d]"

definition crc32c_tab :: "uint32 list" where
  "crc32c_tab = [
     0x00000000, 0xf26b8303, 0xe13b70f7, 0x1350f3f4, 0xc79a971f, 0x35f1141c, 0x26a1e7e8, 0xd4ca64eb,
     0x8ad958cf, 0x78b2dbcc, 0x6be22838, 0x9989ab3b, 0x4d43cfd0, 0xbf284cd3, 0xac78bf27, 0x5e133c24,
     0x105ec76f, 0xe235446c, 0xf165b798, 0x030e349b, 0xd7c45070, 0x25afd373, 0x36ff2087, 0xc494a384,
     0x9a879fa0, 0x68ec1ca3, 0x7bbcef57, 0x89d76c54, 0x5d1d08bf, 0xaf768bbc, 0xbc267848, 0x4e4dfb4b,
     0x20bd8ede, 0xd2d60ddd, 0xc186fe29, 0x33ed7d2a, 0xe72719c1, 0x154c9ac2, 0x061c6936, 0xf477ea35,
     0xaa64d611, 0x580f5512, 0x4b5fa6e6, 0xb93425e5, 0x6dfe410e, 0x9f95c20d, 0x8cc531f9, 0x7eaeb2fa,
     0x30e349b1, 0xc288cab2, 0xd1d83946, 0x23b3ba45, 0xf779deae, 0x05125dad, 0x1642ae59, 0xe4292d5a,
     0xba3a117e, 0x4851927d, 0x5b016189, 0xa96ae28a, 0x7da08661, 0x8fcb0562, 0x9c9bf696, 0x6ef07595,
     0x417b1dbc, 0xb3109ebf, 0xa0406d4b, 0x522bee48, 0x86e18aa3, 0x748a09a0, 0x67dafa54, 0x95b17957,
     0xcba24573, 0x39c9c670, 0x2a993584, 0xd8f2b687, 0x0c38d26c, 0xfe53516f, 0xed03a29b, 0x1f682198,
     0x5125dad3, 0xa34e59d0, 0xb01eaa24, 0x42752927, 0x96bf4dcc, 0x64d4cecf, 0x77843d3b, 0x85efbe38,
     0xdbfc821c, 0x2997011f, 0x3ac7f2eb, 0xc8ac71e8, 0x1c661503, 0xee0d9600, 0xfd5d65f4, 0x0f36e6f7,
     0x61c69362, 0x93ad1061, 0x80fde395, 0x72966096, 0xa65c047d, 0x5437877e, 0x4767748a, 0xb50cf789,
     0xeb1fcbad, 0x197448ae, 0x0a24bb5a, 0xf84f3859, 0x2c855cb2, 0xdeeedfb1, 0xcdbe2c45, 0x3fd5af46,
     0x7198540d, 0x83f3d70e, 0x90a324fa, 0x62c8a7f9, 0xb602c312, 0x44694011, 0x5739b3e5, 0xa55230e6,
     0xfb410cc2, 0x092a8fc1, 0x1a7a7c35, 0xe811ff36, 0x3cdb9bdd, 0xceb018de, 0xdde0eb2a, 0x2f8b6829,
     0x82f63b78, 0x709db87b, 0x63cd4b8f, 0x91a6c88c, 0x456cac67, 0xb7072f64, 0xa457dc90, 0x563c5f93,
     0x082f63b7, 0xfa44e0b4, 0xe9141340, 0x1b7f9043, 0xcfb5f4a8, 0x3dde77ab, 0x2e8e845f, 0xdce5075c,
     0x92a8fc17, 0x60c37f14, 0x73938ce0, 0x81f80fe3, 0x55326b08, 0xa759e80b, 0xb4091bff, 0x466298fc,
     0x1871a4d8, 0xea1a27db, 0xf94ad42f, 0x0b21572c, 0xdfeb33c7, 0x2d80b0c4, 0x3ed04330, 0xccbbc033,
     0xa24bb5a6, 0x502036a5, 0x4370c551, 0xb11b4652, 0x65d122b9, 0x97baa1ba, 0x84ea524e, 0x7681d14d,
     0x2892ed69, 0xdaf96e6a, 0xc9a99d9e, 0x3bc21e9d, 0xef087a76, 0x1d63f975, 0x0e330a81, 0xfc588982,
     0xb21572c9, 0x407ef1ca, 0x532e023e, 0xa145813d, 0x758fe5d6, 0x87e466d5, 0x94b49521, 0x66df1622,
     0x38cc2a06, 0xcaa7a905, 0xd9f75af1, 0x2b9cd9f2, 0xff56bd19, 0x0d3d3e1a, 0x1e6dcdee, 0xec064eed,
     0xc38d26c4, 0x31e6a5c7, 0x22b65633, 0xd0ddd530, 0x0417b1db, 0xf67c32d8, 0xe52cc12c, 0x1747422f,
     0x49547e0b, 0xbb3ffd08, 0xa86f0efc, 0x5a048dff, 0x8ecee914, 0x7ca56a17, 0x6ff599e3, 0x9d9e1ae0,
     0xd3d3e1ab, 0x21b862a8, 0x32e8915c, 0xc083125f, 0x144976b4, 0xe622f5b7, 0xf5720643, 0x07198540,
     0x590ab964, 0xab613a67, 0xb831c993, 0x4a5a4a90, 0x9e902e7b, 0x6cfbad78, 0x7fab5e8c, 0x8dc0dd8f,
     0xe330a81a, 0x115b2b19, 0x020bd8ed, 0xf0605bee, 0x24aa3f05, 0xd6c1bc06, 0xc5914ff2, 0x37faccf1,
     0x69e9f0d5, 0x9b8273d6, 0x88d28022, 0x7ab90321, 0xae7367ca, 0x5c18e4c9, 0x4f48173d, 0xbd23943e,
     0xf36e6f75, 0x0105ec76, 0x12551f82, 0xe03e9c81, 0x34f4f86a, 0xc69f7b69, 0xd5cf889d, 0x27a40b9e,
     0x79b737ba, 0x8bdcb4b9, 0x988c474d, 0x6ae7c44e, 0xbe2da0a5, 0x4c4623a6, 0x5f16d052, 0xad7d5351]"

text \<open>
  \<open>while(size--)\<close> over the bytes of the buffer; the index \<open>(crc ^ *p) & 0xFF\<close> is below 256.
\<close>

fun crc32x_loop :: "uint32 list \<Rightarrow> uint32 \<Rightarrow> byte list \<Rightarrow> uint32" where
  "crc32x_loop table crc [] = crc"
| "crc32x_loop table crc (b # p) =
     crc32x_loop table (table ! unat ((crc XOR ucast b) AND 0xFF) XOR drop_bit 8 crc) p"

definition crc32x :: "byte list \<Rightarrow> uint32 list \<Rightarrow> uint32" where
  "crc32x buf table = crc32x_loop table (NOT 0) buf XOR NOT 0"

definition vsc_crc32 :: "byte list \<Rightarrow> uint32" where
  "vsc_crc32 buf = crc32x buf crc32_tab"

definition vsc_crc32c :: "byte list \<Rightarrow> uint32" where
  "vsc_crc32c buf = crc32x buf crc32c_tab"

section \<open>Reference: one bit at a time\<close>

definition crc_bit :: "uint32 \<Rightarrow> uint32 \<Rightarrow> uint32" where
  "crc_bit poly crc = (if bit crc 0 then drop_bit 1 crc XOR poly else drop_bit 1 crc)"

fun crc_bits :: "uint32 \<Rightarrow> nat \<Rightarrow> uint32 \<Rightarrow> uint32" where
  "crc_bits poly 0 crc = crc"
| "crc_bits poly (Suc n) crc = crc_bits poly n (crc_bit poly crc)"

fun crc_ref_loop :: "uint32 \<Rightarrow> uint32 \<Rightarrow> byte list \<Rightarrow> uint32" where
  "crc_ref_loop poly crc [] = crc"
| "crc_ref_loop poly crc (b # p) = crc_ref_loop poly (crc_bits poly 8 (crc XOR ucast b)) p"

definition crc_ref :: "uint32 \<Rightarrow> byte list \<Rightarrow> uint32" where
  "crc_ref poly buf = crc_ref_loop poly (NOT 0) buf XOR NOT 0"

section \<open>The division register is linear and injective\<close>

lemma crc_bit_xor: "crc_bit poly (x XOR y) = crc_bit poly x XOR crc_bit poly y"
  by (auto simp: crc_bit_def bit_xor_iff xor.assoc xor.left_commute xor.commute)

lemma crc_bits_xor: "crc_bits poly n (x XOR y) = crc_bits poly n x XOR crc_bits poly n y"
  by (induction n arbitrary: x y) (simp_all add: crc_bit_xor)

lemma crc_bits_0 [simp]: "crc_bits poly n 0 = 0"
  by (induction n) (simp_all add: crc_bit_def)

lemma crc_bits_add: "crc_bits poly (m + n) x = crc_bits poly n (crc_bits poly m x)"
  by (induction m arbitrary: x) simp_all

lemma crc_bit_eq_0:
  assumes "bit poly 31" and "crc_bit poly x = 0" shows "x = 0"
proof -
  have "\<not> bit x 0"
  proof
    assume "bit x 0"
    with assms(2) have "bit (drop_bit 1 x XOR poly) 31 = False" by (simp add: crc_bit_def)
    moreover have "\<not> bit (drop_bit 1 x) 31"
      using bit_imp_le_length [of x 32] by (auto simp: bit_drop_bit_eq)
    ultimately show False using assms(1) by (simp add: bit_xor_iff)
  qed
  with assms(2) have shifted: "drop_bit 1 x = 0" by (simp add: crc_bit_def)
  show ?thesis
  proof (rule bit_word_eqI)
    fix n assume "n < LENGTH(32)"
    show "bit x n \<longleftrightarrow> bit (0 :: uint32) n"
    proof (cases n)
      case 0 with \<open>\<not> bit x 0\<close> show ?thesis by simp
    next
      case (Suc m)
      have "bit x (Suc m) = bit (drop_bit 1 x) m" by (simp add: bit_drop_bit_eq)
      with Suc shifted show ?thesis by simp
    qed
  qed
qed

lemma crc_bits_eq_0: "bit poly 31 \<Longrightarrow> crc_bits poly n x = 0 \<Longrightarrow> x = 0"
  by (induction n arbitrary: x) (auto dest: crc_bit_eq_0)

lemma crc_bits_inject:
  assumes "bit poly 31" shows "crc_bits poly n x = crc_bits poly n y \<longleftrightarrow> x = y"
  using crc_bits_eq_0 [OF assms, of n "x XOR y"]
  by (auto simp: crc_bits_xor xor_eq_0_iff_word)

lemma crc_bits_shift:
  assumes "m \<le> 8" shows "crc_bits poly m (push_bit m (take_bit 24 y)) = take_bit 24 y"
  using assms
proof (induction m)
  case (Suc m)
  have "\<not> bit (push_bit (Suc m) (take_bit 24 y)) 0" unfolding bit_push_bit_iff by simp
  moreover have "drop_bit 1 (push_bit (Suc m) (take_bit 24 y)) = push_bit m (take_bit 24 y)"
    by (rule bit_word_eqI) (use Suc.prems in \<open>auto simp: bit_simps simp del: push_bit_Suc\<close>)
  ultimately show ?case using Suc by (simp add: crc_bit_def)
qed simp

section \<open>What a table promises\<close>

locale crc_table =
  fixes table :: "uint32 list" and poly :: uint32
  assumes entry: "i < 256 \<Longrightarrow> table ! i = crc_bits poly 8 (of_nat i)"
begin

lemma step:
  "table ! unat ((crc XOR ucast b) AND 0xFF) XOR drop_bit 8 crc = crc_bits poly 8 (crc XOR ucast (b :: byte))"
proof -
  define x :: uint32 where "x = crc XOR ucast b"
  have lo: "x AND 0xFF = take_bit 8 x" by (simp add: take_bit_eq_mask mask_numeral)
  have lt: "unat (take_bit 8 x) < 256"
    using take_bit_nat_less_exp [of 8 "unat x"] by (simp only: unsigned_take_bit_eq) simp
  have hi: "drop_bit 8 x = drop_bit 8 crc"
    by (rule bit_word_eqI) (auto simp: x_def bit_simps dest: bit_imp_le_length)
  have top: "take_bit 24 (drop_bit 8 x) = drop_bit 8 x"
    by (rule bit_word_eqI) (auto simp: bit_simps dest: bit_imp_le_length)
  have "x = take_bit 8 x XOR push_bit 8 (drop_bit 8 x)"
    by (rule bit_word_eqI) (auto simp: bit_simps)
  then have "crc_bits poly 8 x = crc_bits poly 8 (take_bit 8 x) XOR crc_bits poly 8 (push_bit 8 (drop_bit 8 x))"
    by (metis crc_bits_xor)
  also have "crc_bits poly 8 (push_bit 8 (drop_bit 8 x)) = drop_bit 8 x"
    using crc_bits_shift [of 8 poly "drop_bit 8 x"] by (simp only: top order_refl)
  also have "crc_bits poly 8 (take_bit 8 x) = table ! unat (take_bit 8 x)"
    using entry [OF lt] by simp
  finally show ?thesis by (simp add: lo hi flip: x_def)
qed

lemma loop: "crc32x_loop table crc buf = crc_ref_loop poly crc buf"
  by (induction buf arbitrary: crc) (simp_all only: crc32x_loop.simps crc_ref_loop.simps step)

lemma crc32x_ref: "crc32x buf table = crc_ref poly buf"
  by (simp add: crc32x_def crc_ref_def loop)

end

section \<open>Both tables keep the promise\<close>

text \<open>
  A table of 256 entries is spanned by its entries at the eight powers of two, because the
  register is linear: \<open>xor_span\<close> rebuilds the table from them.
\<close>

fun xor_span :: "uint32 list \<Rightarrow> uint32 list" where
  "xor_span [] = [0]"
| "xor_span (b # bs) = (let t = xor_span bs in t @ map (\<lambda>x. x XOR b) t)"

lemma of_nat_add_pow2_xor:
  assumes "j < 2 ^ n" shows "(of_nat (2 ^ n + j) :: uint32) = of_nat j XOR 2 ^ n"
proof -
  have "(of_nat j :: uint32) AND 2 ^ n = 0"
    by (rule bit_word_eqI) (use assms in \<open>auto simp: bit_simps bit_nat_def div_eq_0_iff\<close>)
  then show ?thesis by (simp add: disjunctive_add_eq_xor [symmetric] add.commute)
qed

lemma xor_span_linear:
  fixes F :: "uint32 \<Rightarrow> uint32"
  assumes lin: "\<And>x y. F (x XOR y) = F x XOR F y" and "F 0 = 0"
  shows "xor_span (map (\<lambda>k. F (2 ^ k)) (rev [0..<n])) = map (\<lambda>i. F (of_nat i)) [0..<2 ^ n]"
proof (induction n)
  case 0 show ?case using assms(2) by simp
next
  case (Suc n)
  let ?m = "2 ^ n :: nat"
  have hi: "map (\<lambda>i. F (of_nat i)) [?m..<?m + ?m] = map (\<lambda>i. F (of_nat i) XOR F (2 ^ n)) [0..<?m]"
  proof (rule nth_equalityI)
    fix i assume "i < length (map (\<lambda>i. F (of_nat i)) [?m..<?m + ?m])"
    then have i: "i < 2 ^ n" by simp
    have "F (of_nat (?m + i)) = F (of_nat i) XOR F (2 ^ n)"
      by (simp only: of_nat_add_pow2_xor [OF i] lin)
    with i show "map (\<lambda>i. F (of_nat i)) [?m..<?m + ?m] ! i =
        map (\<lambda>i. F (of_nat i) XOR F (2 ^ n)) [0..<?m] ! i"
      by (simp del: of_nat_add)
  qed simp
  have "[0..<2 ^ Suc n] = [0..<?m] @ [?m..<?m + ?m]"
    using upt_add_eq_append [of 0 ?m ?m] by (simp only: power_Suc mult_2 le0)
  then have "map (\<lambda>i. F (of_nat i)) [0..<2 ^ Suc n] =
      map (\<lambda>i. F (of_nat i)) [0..<?m] @ map (\<lambda>i. F (of_nat i) XOR F (2 ^ n)) [0..<?m]"
    by (simp only: map_append hi)
  also have "\<dots> = (let t = xor_span (map (\<lambda>k. F (2 ^ k)) (rev [0..<n])) in t @ map (\<lambda>x. x XOR F (2 ^ n)) t)"
    by (simp only: Suc Let_def map_map comp_def)
  finally have "map (\<lambda>i. F (of_nat i)) [0..<2 ^ Suc n] =
      xor_span (F (2 ^ n) # map (\<lambda>k. F (2 ^ k)) (rev [0..<n]))"
    by (simp only: xor_span.simps)
  moreover have "rev [0..<Suc n] = n # rev [0..<n]" by simp
  ultimately show ?case by (simp only: list.map)
qed

lemma crc_bits_8: "crc_bits poly 8 x = crc_bit poly (crc_bit poly (crc_bit poly (crc_bit poly
   (crc_bit poly (crc_bit poly (crc_bit poly (crc_bit poly x)))))))"
  by (simp add: eval_nat_numeral)

lemma table_entryI:
  assumes "table = xor_span (map (\<lambda>k. crc_bits poly 8 (2 ^ k)) (rev [0..<8]))"
    and "i < 256"
  shows "table ! i = crc_bits poly 8 (of_nat i)"
proof -
  have "table = map (\<lambda>i. crc_bits poly 8 (of_nat i)) [0..<2 ^ 8]"
    unfolding assms(1) by (rule xor_span_linear) (simp_all add: crc_bits_xor)
  with assms(2) show ?thesis by simp
qed

lemma crc32_powers: "map (\<lambda>k. crc_bits 0xEDB88320 8 (2 ^ k)) (rev [0..<8]) =
    [0xEDB88320, 0x76DC4190, 0x3B6E20C8, 0x1DB71064, 0x0EDB8832, 0x076DC419, 0xEE0E612C, 0x77073096]"
  by (simp add: upt_rec crc_bits_8 crc_bit_def bit_0)

lemma crc32_tab_span: "crc32_tab = xor_span (map (\<lambda>k. crc_bits 0xEDB88320 8 (2 ^ k)) (rev [0..<8]))"
  unfolding crc32_powers by (simp add: Let_def crc32_tab_def)

lemma crc32c_powers: "map (\<lambda>k. crc_bits 0x82F63B78 8 (2 ^ k)) (rev [0..<8]) =
    [0x82F63B78, 0x417B1DBC, 0x20BD8EDE, 0x105EC76F, 0x8AD958CF, 0xC79A971F, 0xE13B70F7, 0xF26B8303]"
  by (simp add: upt_rec crc_bits_8 crc_bit_def bit_0)

lemma crc32c_tab_span: "crc32c_tab = xor_span (map (\<lambda>k. crc_bits 0x82F63B78 8 (2 ^ k)) (rev [0..<8]))"
  unfolding crc32c_powers by (simp add: Let_def crc32c_tab_def)

interpretation crc_iso: crc_table crc32_tab "0xEDB88320"
  by unfold_locales (rule table_entryI [OF crc32_tab_span])

interpretation crc_iscsi: crc_table crc32c_tab "0x82F63B78"
  by unfold_locales (rule table_entryI [OF crc32c_tab_span])

section \<open>Bursts of 32 bits\<close>

text \<open>The bits of a buffer in the order in which the checksum takes them, and the division by bits.\<close>

definition byte_bits :: "byte \<Rightarrow> bool list" where
  "byte_bits b = map (bit b) [0..<8]"

definition buffer_bits :: "byte list \<Rightarrow> bool list" where
  "buffer_bits p = concat (map byte_bits p)"

fun crc_feed :: "uint32 \<Rightarrow> uint32 \<Rightarrow> bool list \<Rightarrow> uint32" where
  "crc_feed poly crc [] = crc"
| "crc_feed poly crc (b # bs) = crc_feed poly (crc_bit poly (crc XOR of_bool b)) bs"

abbreviation pack_bits :: "bool list \<Rightarrow> uint32" where
  "pack_bits bs \<equiv> horner_sum of_bool 2 bs"

lemma bit_pack_bits: "bit (pack_bits bs) n \<longleftrightarrow> n < 32 \<and> n < length bs \<and> bs ! n"
  by (simp add: bit_horner_sum_bit_word_iff)

lemma pack_bits_Cons: "pack_bits (b # bs) = of_bool b XOR push_bit 1 (pack_bits bs)"
proof (rule bit_word_eqI)
  fix n assume "n < LENGTH(32)"
  then show "bit (pack_bits (b # bs)) n = bit (of_bool b XOR push_bit 1 (pack_bits bs)) n"
    unfolding bit_pack_bits bit_xor_iff bit_push_bit_iff by (cases n) (simp_all add: bit_of_bool_iff)
qed

lemma crc_bit_double: "\<not> bit x 31 \<Longrightarrow> crc_bit poly (push_bit 1 x) = x"
proof -
  assume top: "\<not> bit x 31"
  have "drop_bit 1 (push_bit 1 x) = x"
  proof (rule bit_word_eqI)
    fix n assume "n < LENGTH(32)"
    then show "bit (drop_bit 1 (push_bit 1 x)) n = bit x n" using top
      unfolding bit_drop_bit_eq bit_push_bit_iff comp_def possible_bit_word by (cases "n = 31") auto
  qed
  moreover have "\<not> bit (push_bit 1 x) 0" unfolding bit_push_bit_iff by simp
  ultimately show ?thesis unfolding crc_bit_def by (simp only: if_False)
qed

lemma crc_feed_pack: "length bs \<le> 32 \<Longrightarrow> crc_feed poly crc bs = crc_bits poly (length bs) (crc XOR pack_bits bs)"
proof (induction bs arbitrary: crc)
  case (Cons b bs)
  have "\<not> bit (pack_bits bs) 31" using Cons.prems by (simp add: bit_pack_bits)
  then have "crc_bit poly (crc XOR pack_bits (b # bs)) = crc_bit poly (crc XOR of_bool b) XOR pack_bits bs"
    unfolding pack_bits_Cons xor.assoc [symmetric] crc_bit_xor [of poly _ "push_bit 1 _"] by (simp only: crc_bit_double not_False_eq_True)
  with Cons show ?case by simp
qed simp

lemma crc_feed_append: "crc_feed poly crc (bs @ cs) = crc_feed poly (crc_feed poly crc bs) cs"
  by (induction bs arbitrary: crc) simp_all

lemma crc_feed_inject:
  assumes "bit poly 31" shows "crc_feed poly c bs = crc_feed poly d bs \<longleftrightarrow> c = d"
proof (induction bs arbitrary: c d)
  case (Cons b bs)
  have "crc_bit poly x = crc_bit poly y \<longleftrightarrow> x = y" for x y using crc_bits_inject [OF assms, of 1 x y] by simp
  then show ?case by (simp add: Cons xor_cancel_right)
qed simp

lemma ucast_byte_bits: "(ucast b :: uint32) = pack_bits (byte_bits b)"
proof (rule bit_word_eqI)
  fix n assume "n < LENGTH(32)"
  then show "bit (ucast b :: uint32) n = bit (pack_bits (byte_bits b)) n"
    using bit_imp_le_length [of b n] by (cases "n < 8") (auto simp: bit_pack_bits bit_ucast_iff byte_bits_def)
qed

lemma crc_ref_loop_bits: "crc_ref_loop poly crc p = crc_feed poly crc (buffer_bits p)"
proof (induction p arbitrary: crc)
  case (Cons b p)
  have len: "length (byte_bits b) = 8" by (simp add: byte_bits_def)
  then have "crc_feed poly crc (byte_bits b) = crc_bits poly 8 (crc XOR ucast b)"
    using crc_feed_pack [of "byte_bits b" poly crc] by (simp add: ucast_byte_bits)
  then show ?case by (simp add: Cons buffer_bits_def crc_feed_append)
qed (simp add: buffer_bits_def)

lemma byte_bits_inject: "byte_bits a = byte_bits b \<longleftrightarrow> a = b"
proof
  assume "byte_bits a = byte_bits b"
  then have "\<And>n. n < 8 \<Longrightarrow> byte_bits a ! n = byte_bits b ! n" by simp
  then show "a = b" by (intro bit_word_eqI) (simp add: byte_bits_def)
qed simp

lemma buffer_bits_inject: "buffer_bits p = buffer_bits q \<longleftrightarrow> p = q"
proof (induction p arbitrary: q)
  case Nil
  show ?case by (cases q) (simp_all add: buffer_bits_def byte_bits_def)
next
  case (Cons a p)
  show ?case
  proof (cases q)
    case (Cons b r)
    have "buffer_bits (a # p) = buffer_bits (b # r) \<longleftrightarrow> byte_bits a = byte_bits b \<and> buffer_bits p = buffer_bits r"
      unfolding buffer_bits_def by (simp add: byte_bits_def)
    then show ?thesis using Cons.IH Cons byte_bits_inject by simp
  qed (simp add: buffer_bits_def byte_bits_def)
qed

lemma crc_ref_burst:
  assumes "bit poly 31" and "buffer_bits p = xs @ us @ ys" and "buffer_bits q = xs @ vs @ ys"
    and "length us = length vs" and "length vs \<le> 32" and "crc_ref poly p = crc_ref poly q"
  shows "p = q"
proof -
  define c where "c = crc_feed poly (NOT 0) xs"
  have "crc_feed poly (NOT 0) (xs @ us @ ys) = crc_feed poly (NOT 0) (xs @ vs @ ys)"
    using assms(2,3,6) unfolding crc_ref_def xor_cancel_right crc_ref_loop_bits by simp
  then have "crc_feed poly c us = crc_feed poly c vs"
    by (simp add: crc_feed_append crc_feed_inject [OF assms(1)] c_def)
  then have "c XOR pack_bits us = c XOR pack_bits vs"
    using assms(4,5) by (simp add: crc_feed_pack crc_bits_inject [OF assms(1)])
  then have "pack_bits us = pack_bits vs" by (simp only: xor_cancel_left)
  then have same: "bit (pack_bits us) n \<longleftrightarrow> bit (pack_bits vs) n" for n by (simp only:)
  have "us = vs"
  proof (rule nth_equalityI)
    fix n assume "n < length us"
    then show "us ! n = vs ! n" using same [of n] assms(4,5) unfolding bit_pack_bits by simp
  qed (rule assms(4))
  with assms(2,3) have "buffer_bits p = buffer_bits q" by simp
  then show ?thesis by (simp only: buffer_bits_inject)
qed

section \<open>Properties\<close>

text \<open>
  (C7) The table-driven routines compute the CRC defined bit by bit: on every buffer
  \<open>vsc_crc32\<close> is the reflected CRC of polynomial 0xEDB88320 and \<open>vsc_crc32c\<close> that of
  0x82F63B78, so all 512 table entries and the byte loop are right.
\<close>

theorem crc32_matches_bitwise_reference:
  "vsc_crc32 buf = crc_ref 0xEDB88320 buf \<and> vsc_crc32c buf = crc_ref 0x82F63B78 buf"
  by (simp add: vsc_crc32_def vsc_crc32c_def crc_iso.crc32x_ref crc_iscsi.crc32x_ref)

text \<open>
  (C34) Both checksums detect every burst error of up to 32 bits: if two buffers differ at most
  inside a window of 32 consecutive bits, which may begin and end inside a byte (the bits of a
  byte counted from the lowest), and have the same checksum, they are equal.
\<close>

theorem crc32_detects_burst:
  assumes "buffer_bits p = xs @ us @ ys" and "buffer_bits q = xs @ vs @ ys"
    and "length us = length vs" and "length vs \<le> 32"
    and "vsc_crc32 p = vsc_crc32 q \<or> vsc_crc32c p = vsc_crc32c q"
  shows "p = q"
proof -
  have "bit (0xEDB88320 :: uint32) 31" and "bit (0x82F63B78 :: uint32) 31" by simp_all
  then have "crc_ref 0xEDB88320 p = crc_ref 0xEDB88320 q \<Longrightarrow> p = q" "crc_ref 0x82F63B78 p = crc_ref 0x82F63B78 q \<Longrightarrow> p = q"
    using crc_ref_burst [OF _ assms(1-4)] by blast+
  with assms(5) show ?thesis
    by (auto simp: vsc_crc32_def vsc_crc32c_def crc_iso.crc32x_ref crc_iscsi.crc32x_ref)
qed

text \<open>A burst of 32 bits over five bytes: the highest bit of the second byte to the seventh bit of the sixth.\<close>

theorem crc32_detects_burst_witness:
  "vsc_crc32 [0x31, 0x80, 0x12, 0x34, 0x56, 0x40, 0x33] \<noteq> vsc_crc32 [0x31, 0, 0xFF, 0, 0x57, 0, 0x33]"
proof
  assume eq: "vsc_crc32 [0x31, 0x80, 0x12, 0x34, 0x56, 0x40, 0x33] = vsc_crc32 [0x31, 0, 0xFF, 0, 0x57, 0, 0x33]"
  let ?p = "buffer_bits [0x31, 0x80, 0x12, 0x34, 0x56, 0x40, 0x33]"
  let ?q = "buffer_bits [0x31, 0, 0xFF, 0, 0x57, 0, 0x33]"
  have "?p = take 15 ?p @ take 32 (drop 15 ?p) @ drop 47 ?p"
    and "?q = take 15 ?p @ take 32 (drop 15 ?q) @ drop 47 ?p"
    by code_simp+
  moreover have "length (take 32 (drop 15 ?p)) = length (take 32 (drop 15 ?q))" "length (take 32 (drop 15 ?q)) \<le> 32"
    by (simp_all add: buffer_bits_def byte_bits_def)
  ultimately have "[0x31, 0x80, 0x12, 0x34, 0x56, 0x40, 0x33] = [0x31, 0, 0xFF, 0, 0x57, 0, 0x33 :: byte]"
    using eq by (intro crc32_detects_burst [of _ "take 15 ?p" "take 32 (drop 15 ?p)" "drop 47 ?p" _ "take 32 (drop 15 ?q)"]) simp_all
  then show False by simp
qed

end
