(* ===== verification/Uuid.thy ===== *)
theory Uuid
  imports Strings
begin

text \<open>
  \<open>uuiddef.h\<close>, \<open>uuid.h\<close> and \<open>uuid.c\<close>: UUIDs, their comparison, formatting and parsing.
\<close>

section \<open>Data\<close>

record VscUUID =
  uuid_v :: "byte list"

definition VSC_UUID_SIZE :: nat where
  "VSC_UUID_SIZE = 16"

definition VSC_UUID_STRING_SIZE :: nat where
  "VSC_UUID_STRING_SIZE = 39"

definition VSC_UUID_FORMAT_NORMAL :: uint32 where
  "VSC_UUID_FORMAT_NORMAL = push_bit 0 0"

definition VSC_UUID_FORMAT_UPPER :: uint32 where
  "VSC_UUID_FORMAT_UPPER = push_bit 0 1"

definition VSC_UUID_FORMAT_MS :: uint32 where
  "VSC_UUID_FORMAT_MS = push_bit 2 1"

definition VSC_UUID_FORMAT_COMPACT :: uint32 where
  "VSC_UUID_FORMAT_COMPACT = push_bit 3 1"

text \<open>\<open>"0123456789abcdef"\<close> and \<open>"0123456789ABCDEF"\<close>.\<close>

definition alphabet_lower :: "byte list" where
  "alphabet_lower = [48, 49, 50, 51, 52, 53, 54, 55, 56, 57, 97, 98, 99, 100, 101, 102]"

definition alphabet_upper :: "byte list" where
  "alphabet_upper = [48, 49, 50, 51, 52, 53, 54, 55, 56, 57, 65, 66, 67, 68, 69, 70]"

text \<open>A value of the C type, whose array has 16 elements.\<close>

definition uuid_wf :: "VscUUID \<Rightarrow> bool" where
  "uuid_wf u \<longleftrightarrow> length (uuid_v u) = VSC_UUID_SIZE"

section \<open>Operations (uuid.c)\<close>

definition vsc_uuid_nil :: VscUUID where
  "vsc_uuid_nil = \<lparr>uuid_v = replicate VSC_UUID_SIZE 0\<rparr>"

definition vsc_uuid_max :: VscUUID where
  "vsc_uuid_max = \<lparr>uuid_v = replicate VSC_UUID_SIZE 0xFF\<rparr>"

text \<open>\<open>memcmp\<close>, of whose result C fixes the sign only.\<close>

fun memcmp :: "byte list \<Rightarrow> byte list \<Rightarrow> nat \<Rightarrow> int" where
  "memcmp (a # as) (b # bs) (Suc n) = (if a = b then memcmp as bs n else if a < b then - 1 else 1)"
| "memcmp _ _ _ = 0"

definition vsc_uuid_compare :: "VscUUID \<Rightarrow> VscUUID \<Rightarrow> int" where
  "vsc_uuid_compare a b = memcmp (uuid_v a) (uuid_v b) VSC_UUID_SIZE"

text \<open>The loop of \<open>vsc_uuid_format\<close> from byte \<open>i\<close> on: what it writes at \<open>s\<close>.\<close>

fun format_loop :: "byte list \<Rightarrow> uint32 \<Rightarrow> nat \<Rightarrow> byte list \<Rightarrow> byte list" where
  "format_loop alphabet flags i [] = []"
| "format_loop alphabet flags i (ch # rest) =
     (if flags AND VSC_UUID_FORMAT_COMPACT = 0 \<and> (i = 4 \<or> i = 6 \<or> i = 8 \<or> i = 10) then [45] else []) @
     [alphabet ! unat (drop_bit 4 ch), alphabet ! unat (ch AND 0xF)] @
     format_loop alphabet flags (i + 1) rest"

text \<open>The bytes written at \<open>dst\<close>, the NUL included.\<close>

definition vsc_uuid_format :: "VscUUID \<Rightarrow> uint32 \<Rightarrow> byte list" where
  "vsc_uuid_format uuid flags =
     (let alphabet = (if flags AND VSC_UUID_FORMAT_UPPER \<noteq> 0 then alphabet_upper else alphabet_lower)
      in (if flags AND VSC_UUID_FORMAT_MS \<noteq> 0 then [123] else []) @
         format_loop alphabet flags 0 (uuid_v uuid) @
         (if flags AND VSC_UUID_FORMAT_MS \<noteq> 0 then [125] else []) @
         [0])"

definition denibble :: "byte \<Rightarrow> byte" where
  "denibble c =
     (if vsc_isdigit (sint c) then word_of_int (sint c - 48)
      else if sint c \<ge> 97 then word_of_int (0xA + sint c - 97)
      else word_of_int (0xA + sint c - 65))"

text \<open>
  The loop of \<open>vsc_uuid_parse\<close>: \<open>s\<close> is the string without braces, \<open>u\<close> the position in the
  array the next byte goes to.
\<close>

function parse_loop :: "bool \<Rightarrow> byte list \<Rightarrow> nat \<Rightarrow> nat \<Rightarrow> nat \<Rightarrow> byte list \<Rightarrow> int \<times> byte list" where
  "parse_loop has_dashes s len i u arr =
     (if i < len then
        if has_dashes \<and> (i = 8 \<or> i = 13 \<or> i = 18 \<or> i = 23) then
          if s ! i \<noteq> 45 then (VSC_ERROR EINVAL, arr)
          else parse_loop has_dashes s len (i + 1) u arr
        else
          let c1 = s ! i; i = i + 1; c2 = s ! i
          in if \<not> vsc_isxdigit (sint c1) \<or> \<not> vsc_isxdigit (sint c2) then (VSC_ERROR EINVAL, arr)
             else parse_loop has_dashes s len (i + 1) (u + 1) (arr[u := push_bit 4 (denibble c1) OR denibble c2])
      else (0, arr))"
  by pat_completeness auto
termination
  by (relation "measure (\<lambda>(_, _, len, i, _). len - i)") auto

declare parse_loop.simps [simp del]

definition vsc_uuid_parse :: "VscUUID option \<Rightarrow> byte list option \<Rightarrow> int \<times> VscUUID option" where
  "vsc_uuid_parse uuid str =
     (case (uuid, str) of
        (Some uuid, Some s) \<Rightarrow>
          (let len = length s;
               has_braces = (len = 34 \<or> len = 38)
           in if has_braces \<and> (s ! 0 \<noteq> 123 \<or> s ! (len - 1) \<noteq> 125) then (VSC_ERROR EINVAL, Some uuid)
              else
                let s = (if has_braces then tl s else s);
                    len = (if has_braces then len - 2 else len)
                in if len \<noteq> 32 \<and> len \<noteq> 36 then (VSC_ERROR EINVAL, Some uuid)
                   else
                     let (r, arr) = parse_loop (len = 36) s len 0 0 (uuid_v uuid)
                     in (r, Some (uuid\<lparr>uuid_v := arr\<rparr>)))
      | _ \<Rightarrow> (VSC_ERROR EINVAL, uuid))"

section \<open>Hexadecimal digits\<close>

lemma isxdigit_cases:
  assumes "vsc_isxdigit (sint (c :: byte))"
  shows "c \<in> {48, 49, 50, 51, 52, 53, 54, 55, 56, 57, 65, 66, 67, 68, 69, 70, 97, 98, 99, 100, 101, 102}"
proof -
  have "sint c \<in> {48, 49, 50, 51, 52, 53, 54, 55, 56, 57, 65, 66, 67, 68, 69, 70, 97, 98, 99, 100, 101, 102}"
    using assms unfolding vsc_isxdigit_def vsc_isdigit_def insert_iff empty_iff by arith
  moreover have "c = word_of_int (sint c)" by simp
  ultimately show ?thesis by (elim insertE emptyE) simp_all
qed

locale hex_alphabet =
  fixes alphabet :: "byte list"
  assumes alphabet_length: "length alphabet = 16"
    and alphabet_digit: "n < 16 \<Longrightarrow> vsc_isxdigit (sint (alphabet ! n)) \<and> denibble (alphabet ! n) = of_nat n"
begin

lemma nibbles:
  "vsc_isxdigit (sint (alphabet ! unat (drop_bit 4 (ch :: byte)))) \<and> vsc_isxdigit (sint (alphabet ! unat (ch AND 0xF))) \<and>
   push_bit 4 (denibble (alphabet ! unat (drop_bit 4 ch))) OR denibble (alphabet ! unat (ch AND 0xF)) = ch"
proof -
  have "ch AND 0xF \<le> 0xF" by (rule word_and_le1)
  then have lo: "unat (ch AND 0xF) < 16" by (simp add: word_le_nat_alt)
  have bound: "unat ch < 2 ^ LENGTH(8)" by (rule unsigned_less)
  have "unat (drop_bit 4 ch) = unat ch div 16" by (simp add: drop_bit_eq_div unat_div)
  also have "\<dots> < 16" using bound by simp
  finally have hi: "unat (drop_bit 4 ch) < 16" .
  have "push_bit 4 (drop_bit 4 ch) OR (ch AND 0xF) = ch"
  proof (rule bit_word_eqI)
    fix n assume "n < LENGTH(8)"
    then show "bit (push_bit 4 (drop_bit 4 ch) OR (ch AND 0xF)) n = bit ch n"
      by (elim byte_position insertE emptyE) (simp_all add: bit_or_iff bit_and_iff bit_push_bit_iff bit_drop_bit_eq)
  qed
  then show ?thesis using alphabet_digit [OF lo] alphabet_digit [OF hi] by simp
qed

end

lemma all_less_16: "(\<forall>n<16. P n) \<longleftrightarrow> (\<forall>n\<in>set [0..<16]. P (n :: nat))"
  by auto

interpretation hex_lower: hex_alphabet alphabet_lower
proof
  show "length alphabet_lower = 16" by (simp add: alphabet_lower_def)
  have "\<forall>n<16. vsc_isxdigit (sint (alphabet_lower ! n)) \<and> denibble (alphabet_lower ! n) = of_nat n"
    unfolding all_less_16 by (simp add: alphabet_lower_def vsc_isxdigit_def vsc_isdigit_def denibble_def upt_rec)
  then show "n < 16 \<Longrightarrow> vsc_isxdigit (sint (alphabet_lower ! n)) \<and> denibble (alphabet_lower ! n) = of_nat n" for n
    by blast
qed

interpretation hex_upper: hex_alphabet alphabet_upper
proof
  show "length alphabet_upper = 16" by (simp add: alphabet_upper_def)
  have "\<forall>n<16. vsc_isxdigit (sint (alphabet_upper ! n)) \<and> denibble (alphabet_upper ! n) = of_nat n"
    unfolding all_less_16 by (simp add: alphabet_upper_def vsc_isxdigit_def vsc_isdigit_def denibble_def upt_rec)
  then show "n < 16 \<Longrightarrow> vsc_isxdigit (sint (alphabet_upper ! n)) \<and> denibble (alphabet_upper ! n) = of_nat n" for n
    by blast
qed

section \<open>Parsing what was formatted\<close>

text \<open>Where the digits of byte \<open>k\<close> start, the dash before them included.\<close>

definition digit_pos :: "bool \<Rightarrow> nat \<Rightarrow> nat" where
  "digit_pos dashes k = 2 * k + (if dashes then of_bool (4 < k) + of_bool (6 < k) + of_bool (8 < k) + of_bool (10 < k) else 0)"

definition dash_before :: "bool \<Rightarrow> nat \<Rightarrow> bool" where
  "dash_before dashes k \<longleftrightarrow> dashes \<and> (k = 4 \<or> k = 6 \<or> k = 8 \<or> k = 10)"

lemma digit_pos_Suc: "digit_pos dashes (Suc k) = digit_pos dashes k + 2 + of_bool (dash_before dashes k)"
  by (auto simp: digit_pos_def dash_before_def)

lemma dash_pos:
  assumes "k < 16"
  shows "(dashes \<and> (digit_pos dashes k = 8 \<or> digit_pos dashes k = 13 \<or> digit_pos dashes k = 18 \<or> digit_pos dashes k = 23)) \<longleftrightarrow>
      dash_before dashes k"
    and "dash_before dashes k \<Longrightarrow> \<not> (digit_pos dashes k + 1 = 8 \<or> digit_pos dashes k + 1 = 13 \<or>
      digit_pos dashes k + 1 = 18 \<or> digit_pos dashes k + 1 = 23)"
proof -
  have k: "k \<in> {0, 1, 2, 3, 4, 5, 6, 7, 8, 9, 10, 11, 12, 13, 14, 15}"
    using assms unfolding insert_iff empty_iff by arith
  show "(dashes \<and> (digit_pos dashes k = 8 \<or> digit_pos dashes k = 13 \<or> digit_pos dashes k = 18 \<or> digit_pos dashes k = 23)) \<longleftrightarrow>
      dash_before dashes k"
    using k by (elim insertE emptyE) (simp_all add: digit_pos_def dash_before_def)
  show "dash_before dashes k \<Longrightarrow> \<not> (digit_pos dashes k + 1 = 8 \<or> digit_pos dashes k + 1 = 13 \<or>
      digit_pos dashes k + 1 = 18 \<or> digit_pos dashes k + 1 = 23)"
    using k by (elim insertE emptyE) (simp_all add: digit_pos_def dash_before_def)
qed

text \<open>One byte of the loop: the dash, if there is one, and the two digits.\<close>

lemma parse_loop_byte:
  assumes "k < 16" and "len = digit_pos dashes 16"
  defines "i \<equiv> digit_pos dashes k + of_bool (dash_before dashes k)"
  shows "parse_loop dashes s len (digit_pos dashes k) u arr =
    (if dash_before dashes k \<and> s ! digit_pos dashes k \<noteq> 45 then (VSC_ERROR EINVAL, arr)
     else if \<not> vsc_isxdigit (sint (s ! i)) \<or> \<not> vsc_isxdigit (sint (s ! (i + 1))) then (VSC_ERROR EINVAL, arr)
     else parse_loop dashes s len (digit_pos dashes (Suc k)) (u + 1)
       (arr[u := push_bit 4 (denibble (s ! i)) OR denibble (s ! (i + 1))]))"
proof -
  have "digit_pos dashes (Suc k) \<le> digit_pos dashes 16"
    using assms(1) by (auto simp: digit_pos_def)
  then have lt: "digit_pos dashes k + 1 + of_bool (dash_before dashes k) < len"
    using assms(2) digit_pos_Suc [of dashes k] by simp
  note dash = dash_pos [OF assms(1), of dashes]
  show ?thesis
  proof (cases "dash_before dashes k")
    case False
    then show ?thesis
      using lt dash(1) by (subst parse_loop.simps) (cases dashes; simp add: i_def digit_pos_Suc Let_def)
  next
    case True
    have step: "parse_loop dashes s len (digit_pos dashes k + 1) u arr =
      (if \<not> vsc_isxdigit (sint (s ! i)) \<or> \<not> vsc_isxdigit (sint (s ! (i + 1))) then (VSC_ERROR EINVAL, arr)
       else parse_loop dashes s len (digit_pos dashes (Suc k)) (u + 1)
         (arr[u := push_bit 4 (denibble (s ! i)) OR denibble (s ! (i + 1))]))"
      using lt dash(2) True by (subst parse_loop.simps) (cases dashes; simp add: i_def digit_pos_Suc Let_def)
    have "parse_loop dashes s len (digit_pos dashes k) u arr =
      (if s ! digit_pos dashes k \<noteq> 45 then (VSC_ERROR EINVAL, arr)
       else parse_loop dashes s len (digit_pos dashes k + 1) u arr)"
      using lt dash(1) True by (subst parse_loop.simps) (cases dashes; simp)
    then show ?thesis using True step by simp
  qed
qed

lemma parse_loop_end: "parse_loop dashes s len len u arr = (0, arr)"
  by (subst parse_loop.simps) simp

lemma format_loop_length:
  "k + length bs = 16 \<Longrightarrow>
   digit_pos (flags AND VSC_UUID_FORMAT_COMPACT = 0) k + length (format_loop alphabet flags k bs) =
   digit_pos (flags AND VSC_UUID_FORMAT_COMPACT = 0) 16"
proof (induction bs arbitrary: k)
  case (Cons b bs)
  then show ?case using Cons.IH [of "Suc k"] by (auto simp: digit_pos_Suc dash_before_def)
qed simp

context hex_alphabet
begin

lemma parse_format_loop:
  fixes flags :: uint32
  defines "dashes \<equiv> flags AND VSC_UUID_FORMAT_COMPACT = 0"
  assumes "k + length bs = 16" and "length pre = digit_pos dashes k" and "length arr = 16"
  shows "parse_loop dashes (pre @ format_loop alphabet flags k bs @ post) (digit_pos dashes 16) (digit_pos dashes k) k arr =
    (0, take k arr @ bs)"
  using assms(2-)
proof (induction bs arbitrary: k pre arr)
  case Nil
  then show ?case by (simp add: parse_loop_end)
next
  case (Cons ch bs)
  let ?d = "if dash_before dashes k then [45] else []"
  let ?h = "alphabet ! unat (drop_bit 4 ch)" and ?l = "alphabet ! unat (ch AND 0xF)"
  let ?s = "pre @ format_loop alphabet flags k (ch # bs) @ post"
  have s: "?s = (pre @ ?d @ [?h, ?l]) @ format_loop alphabet flags (Suc k) bs @ post"
    by (simp add: dash_before_def dashes_def)
  have next_pos: "length (pre @ ?d @ [?h, ?l]) = digit_pos dashes (Suc k)"
    using Cons.prems(2) by (simp add: digit_pos_Suc)
  have at: "\<not> (dash_before dashes k \<and> ?s ! digit_pos dashes k \<noteq> 45)"
    unfolding s using Cons.prems(2) by (simp add: nth_append)
  have dig: "?s ! (digit_pos dashes k + of_bool (dash_before dashes k)) = ?h"
    "?s ! (digit_pos dashes k + of_bool (dash_before dashes k) + 1) = ?l"
    unfolding s using Cons.prems(2) by (simp_all add: nth_append)
  have "parse_loop dashes S (digit_pos dashes 16) (digit_pos dashes k) k arr =
    parse_loop dashes S (digit_pos dashes 16) (digit_pos dashes (Suc k)) (k + 1) (arr[k := ch])" if "S = ?s" for S
    using parse_loop_byte [of k "digit_pos dashes 16" dashes S k arr] Cons.prems(1) at dig nibbles [of ch]
    unfolding that [symmetric] by simp
  from this [OF refl] have "parse_loop dashes ?s (digit_pos dashes 16) (digit_pos dashes k) k arr =
    parse_loop dashes ?s (digit_pos dashes 16) (digit_pos dashes (Suc k)) (k + 1) (arr[k := ch])" .
  also have "\<dots> = (0, take (Suc k) (arr[k := ch]) @ bs)"
    unfolding s using Cons.IH [of "Suc k" "pre @ ?d @ [?h, ?l]" "arr[k := ch]"] Cons.prems next_pos by simp
  also have "take (Suc k) (arr[k := ch]) @ bs = take k arr @ ch # bs"
    using Cons.prems by (simp add: take_Suc_conv_app_nth)
  finally show ?case .
qed

end

section \<open>What parses\<close>

definition tolower :: "byte \<Rightarrow> byte" where
  "tolower c = (if 65 \<le> c \<and> c \<le> 90 then c + 32 else c)"

lemma digit_denibble:
  assumes "vsc_isxdigit (sint c)"
  shows "alphabet_lower ! unat (denibble c) = tolower c" and "denibble c AND 0xF = denibble c"
  using isxdigit_cases [OF assms]
  by (elim insertE emptyE; simp add: alphabet_lower_def denibble_def vsc_isdigit_def tolower_def)+

lemma digits_byte:
  assumes "vsc_isxdigit (sint c1)" and "vsc_isxdigit (sint c2)"
  defines "b \<equiv> push_bit 4 (denibble c1) OR denibble c2"
  shows "alphabet_lower ! unat (drop_bit 4 b) = tolower c1" and "alphabet_lower ! unat (b AND 0xF) = tolower c2"
proof -
  have m: "denibble c1 AND 0xF = denibble c1" "denibble c2 AND 0xF = denibble c2"
    using digit_denibble(2) assms by blast+
  have bits: "\<not> bit (denibble c) n" if "denibble c AND 0xF = denibble c" "n \<in> {4, 5, 6, 7, 8, 9, 10, 11}" for c n
  proof -
    have "bit (denibble c) n \<longleftrightarrow> bit (denibble c AND 0xF) n" using that(1) by simp
    then show ?thesis using that(2) by (elim insertE emptyE) (simp_all add: bit_and_iff)
  qed
  have "drop_bit 4 b = denibble c1"
    by (rule bit_word_eqI, elim byte_position insertE emptyE)
      (use bits [OF m(1)] bits [OF m(2)] in \<open>simp_all add: b_def bit_or_iff bit_push_bit_iff bit_drop_bit_eq\<close>)
  moreover have "b AND 0xF = denibble c2"
    by (rule bit_word_eqI, elim byte_position insertE emptyE)
      (use bits [OF m(1)] bits [OF m(2)] in \<open>simp_all add: b_def bit_or_iff bit_and_iff bit_push_bit_iff\<close>)
  ultimately show "alphabet_lower ! unat (drop_bit 4 b) = tolower c1" and "alphabet_lower ! unat (b AND 0xF) = tolower c2"
    using digit_denibble(1) assms(1,2) by simp_all
qed

lemma parse_loop_digits:
  fixes flags :: uint32
  defines "dashes \<equiv> flags AND VSC_UUID_FORMAT_COMPACT = 0"
  assumes "parse_loop dashes s (digit_pos dashes 16) (digit_pos dashes k) k arr = (0, arr')"
    and "k \<le> 16" and "length arr = 16" and "digit_pos dashes 16 \<le> length s"
  shows "\<exists>bs. arr' = take k arr @ bs \<and> length bs = 16 - k \<and>
    format_loop alphabet_lower flags k bs = map tolower (drop (digit_pos dashes k) (take (digit_pos dashes 16) s))"
  using assms(2-4)
proof (induction "16 - k" arbitrary: k arr)
  case 0
  then have "k = 16" by simp
  then show ?case using 0 by (simp add: parse_loop_end)
next
  case (Suc m)
  have k: "k < 16" using Suc.hyps(2) by simp
  let ?p = "digit_pos dashes k"
  define i where "i = ?p + of_bool (dash_before dashes k)"
  let ?b = "push_bit 4 (denibble (s ! i)) OR denibble (s ! (i + 1))" let ?s = "take (digit_pos dashes 16) s"
  have dig: "vsc_isxdigit (sint (s ! i))" "vsc_isxdigit (sint (s ! (i + 1)))" and dash: "\<not> (dash_before dashes k \<and> s ! ?p \<noteq> 45)"
    and rest: "parse_loop dashes s (digit_pos dashes 16) (digit_pos dashes (Suc k)) (Suc k) (arr[k := ?b]) = (0, arr')"
    using Suc.prems(1) parse_loop_byte [OF k refl, of dashes s k arr, folded i_def] by (simp_all split: if_splits)
  have "m = 16 - Suc k" using Suc.hyps(2) by linarith
  from Suc.hyps(1) [OF this rest] Suc.prems(3) k
  obtain bs where bs: "arr' = take (Suc k) (arr[k := ?b]) @ bs" "length bs = 16 - Suc k"
    "format_loop alphabet_lower flags (Suc k) bs = map tolower (drop (digit_pos dashes (Suc k)) ?s)"
    by auto
  have arr: "take (Suc k) (arr[k := ?b]) @ bs = take k arr @ ?b # bs"
    using Suc.prems(3) k by (simp add: take_Suc_conv_app_nth)
  have "digit_pos dashes (Suc k) \<le> digit_pos dashes 16" using k by (auto simp: digit_pos_def)
  then have lt: "i + 1 < length ?s" "?p < length ?s"
    using digit_pos_Suc [of dashes k] assms(5) by (simp_all add: i_def)
  have "drop ?p ?s = (if dash_before dashes k then [?s ! ?p] else []) @ drop i ?s"
    using Cons_nth_drop_Suc [OF lt(2)] by (simp add: i_def)
  also have "drop i ?s = ?s ! i # ?s ! (i + 1) # drop (i + 2) ?s"
    using Cons_nth_drop_Suc [of i ?s] Cons_nth_drop_Suc [of "Suc i" ?s] lt(1) by simp
  also have "i + 2 = digit_pos dashes (Suc k)" by (simp add: digit_pos_Suc i_def)
  finally have "map tolower (drop ?p ?s) = (if dash_before dashes k then [45] else []) @
      tolower (s ! i) # tolower (s ! (i + 1)) # format_loop alphabet_lower flags (Suc k) bs"
    using lt dash by (auto simp: bs(3) tolower_def)
  also have "\<dots> = format_loop alphabet_lower flags k (?b # bs)"
    using digits_byte [OF dig] by (simp add: dash_before_def dashes_def)
  finally show ?case using bs arr k by (intro exI [of _ "?b # bs"]) simp
qed

section \<open>Properties\<close>

lemma digit_pos_ends: "digit_pos dashes 0 = 0" "digit_pos dashes 16 = (if dashes then 36 else 32)"
  by (simp_all add: digit_pos_def)

lemma memcmp_swap: "memcmp bs as n = - memcmp as bs n"
  by (induction as bs n rule: memcmp.induct) auto

lemma memcmp_eq: "length as = n \<Longrightarrow> length bs = n \<Longrightarrow> memcmp as bs n = 0 \<longleftrightarrow> as = bs"
proof (induction n arbitrary: as bs)
  case (Suc n)
  then show ?case by (cases as; cases bs) auto
qed simp

lemma memcmp_trans:
  "length as = n \<Longrightarrow> length bs = n \<Longrightarrow> length cs = n \<Longrightarrow> memcmp as bs n \<le> 0 \<Longrightarrow> memcmp bs cs n \<le> 0 \<Longrightarrow> memcmp as cs n \<le> 0"
proof (induction n arbitrary: as bs cs)
  case (Suc n)
  obtain a as' b bs' c cs' where eq: "as = a # as'" "bs = b # bs'" "cs = c # cs'"
    using Suc.prems by (cases as; cases bs; cases cs) auto
  have "a \<le> b" "b \<le> c" using Suc.prems(4,5) eq by (auto split: if_splits)
  moreover have "memcmp as' cs' n \<le> 0" if "a = b" "b = c"
    using that Suc.prems eq by (intro Suc.IH [of as' bs' cs']) auto
  ultimately show ?case using eq by auto
qed simp

lemma memcmp_nil: "memcmp (replicate n 0) bs n \<le> 0"
proof (induction n arbitrary: bs)
  case (Suc n)
  then show ?case by (cases bs) (auto simp: word_gt_0)
qed simp

lemma memcmp_max: "memcmp bs (replicate n 0xFF) n \<le> 0"
proof (induction n arbitrary: bs)
  case (Suc n)
  have "x \<le> 0xFF" for x :: byte
  proof -
    have "unat x < 2 ^ LENGTH(8)" by (rule unsigned_less)
    then show ?thesis by (simp add: word_le_nat_alt)
  qed
  then show ?case using Suc by (cases bs) (auto simp: not_less order_less_le)
qed simp

text \<open>
  (C27) Round trip. Whatever the flags, \<open>vsc_uuid_format\<close> writes a string of at most
  \<open>VSC_UUID_STRING_SIZE\<close> bytes that ends in its only NUL, and \<open>vsc_uuid_parse\<close> reads it back as
  the same UUID, whatever the array held before.
\<close>

theorem vsc_uuid_parse_format:
  assumes "uuid_wf u" and "uuid_wf u0"
  shows "\<exists>s. vsc_uuid_format u flags = s @ [0] \<and> length (s @ [0]) \<le> VSC_UUID_STRING_SIZE \<and>
    vsc_uuid_parse (Some u0) (Some s) = (0, Some u)"
proof -
  let ?a = "if flags AND VSC_UUID_FORMAT_UPPER \<noteq> 0 then alphabet_upper else alphabet_lower"
  let ?dashes = "flags AND VSC_UUID_FORMAT_COMPACT = 0" and ?ms = "flags AND VSC_UUID_FORMAT_MS \<noteq> 0"
  let ?body = "format_loop ?a flags 0 (uuid_v u)"
  let ?s = "(if ?ms then [123] else []) @ ?body @ (if ?ms then [125] else [])"
  have len: "length (uuid_v u) = 16" "length (uuid_v u0) = 16" using assms by (simp_all add: uuid_wf_def VSC_UUID_SIZE_def)
  have body: "length ?body = digit_pos ?dashes 16"
    using format_loop_length [of 0 "uuid_v u" flags ?a] len(1) by (simp add: digit_pos_ends(1))
  note n = digit_pos_ends(2) [of ?dashes]
  have "hex_alphabet ?a" by (simp add: hex_upper.hex_alphabet_axioms hex_lower.hex_alphabet_axioms)
  from hex_alphabet.parse_format_loop [OF this, of 0 "uuid_v u" "[]" flags "uuid_v u0"] len
  have run: "parse_loop ?dashes (?body @ post) (digit_pos ?dashes 16) 0 0 (uuid_v u0) = (0, uuid_v u)" for post
    by (simp add: digit_pos_ends(1))
  have "vsc_uuid_parse (Some u0) (Some ?s) = (0, Some u)"
    using run [of "[125]"] run [of "[]"] body n by (cases ?ms; cases ?dashes) (simp_all add: vsc_uuid_parse_def Let_def nth_append)
  moreover have "vsc_uuid_format u flags = ?s @ [0]" by (simp add: vsc_uuid_format_def Let_def)
  moreover have "length (?s @ [0]) \<le> VSC_UUID_STRING_SIZE" using body n by (simp add: VSC_UUID_STRING_SIZE_def)
  ultimately show ?thesis by blast
qed

text \<open>
  What parses. If \<open>vsc_uuid_parse\<close> succeeds on a string, the string is, in lower case, what
  \<open>vsc_uuid_format\<close> makes of the result for some flags: no other spelling is accepted.
\<close>

theorem vsc_uuid_parse_accepts:
  assumes "uuid_wf u0" and "vsc_uuid_parse (Some u0) (Some s) = (0, Some u)"
  shows "uuid_wf u \<and> (\<exists>flags. vsc_uuid_format u flags = map tolower s @ [0])"
proof -
  let ?braces = "length s = 34 \<or> length s = 38"
  let ?core = "if ?braces then tl s else s" and ?n = "if ?braces then length s - 2 else length s"
  let ?dashes = "?n = 36"
  define flags :: uint32 where "flags = (if ?dashes then 0 else VSC_UUID_FORMAT_COMPACT) OR (if ?braces then VSC_UUID_FORMAT_MS else 0)"
  have f: "flags AND VSC_UUID_FORMAT_COMPACT = 0 \<longleftrightarrow> ?dashes" "flags AND VSC_UUID_FORMAT_UPPER = 0"
    "flags AND VSC_UUID_FORMAT_MS \<noteq> 0 \<longleftrightarrow> ?braces"
    by (simp_all add: flags_def VSC_UUID_FORMAT_COMPACT_def VSC_UUID_FORMAT_MS_def VSC_UUID_FORMAT_UPPER_def)
  have n: "?n = 32 \<or> ?n = 36" and b: "?braces \<Longrightarrow> s ! 0 = 123 \<and> s ! (length s - 1) = 125"
    and run: "parse_loop ?dashes ?core ?n 0 0 (uuid_v u0) = (0, uuid_v u)"
    using assms(2) by (auto simp: vsc_uuid_parse_def Let_def split: if_splits prod.splits)
  have pos: "digit_pos ?dashes 16 = ?n" using n by (auto simp: digit_pos_ends(2))
  have len: "length (uuid_v u0) = 16" using assms(1) by (simp add: uuid_wf_def VSC_UUID_SIZE_def)
  from parse_loop_digits [of flags ?core 0 "uuid_v u0" "uuid_v u"] run len pos f(1)
  obtain bs where bs: "uuid_v u = bs" "length bs = 16" "format_loop alphabet_lower flags 0 bs = map tolower (take ?n ?core)"
    by (auto simp: digit_pos_ends(1))
  define pre post where "pre = (if ?braces then [123 :: byte] else [])" and "post = (if ?braces then [125 :: byte] else [])"
  have "s = pre @ take ?n ?core @ post"
  proof (cases ?braces)
    case True
    then have ne: "tl s \<noteq> []" "s \<noteq> []" by (cases s; auto)+
    have T: "take ?n ?core = butlast (tl s)" using True by (simp add: butlast_conv_take numeral_2_eq_2)
    have "last (tl s) = s ! (length s - 1)" using last_conv_nth [OF ne(1)] True by (auto simp: nth_tl)
    then have ends: "s ! 0 = 123" "last (tl s) = 125" using b [OF True] by simp_all
    have "s = [s ! 0] @ tl s" using ne(2) by (cases s) simp_all
    also have "tl s = butlast (tl s) @ [last (tl s)]" using ne(1) by simp
    finally have "s = [123] @ take ?n ?core @ [125]" unfolding ends T .
    then show ?thesis using True by (simp only: pre_def post_def if_True)
  qed (simp add: pre_def post_def)
  then have "map tolower s = map tolower (pre @ take ?n ?core @ post)" by (rule arg_cong)
  also have "\<dots> = pre @ map tolower (take ?n ?core) @ post"
    by (simp add: pre_def post_def tolower_def)
  finally have "vsc_uuid_format u flags = map tolower s @ [0]"
    using bs f by (simp add: vsc_uuid_format_def pre_def post_def)
  then show ?thesis using bs by (auto simp: uuid_wf_def VSC_UUID_SIZE_def)
qed

text \<open>
  \<open>vsc_uuid_compare\<close> orders the UUIDs totally, byte by byte from the first: it is 0 exactly
  for equal UUIDs, antisymmetric and transitive, with the nil UUID least and the maximal one greatest.
\<close>

theorem vsc_uuid_compare_total_order:
  assumes "uuid_wf a" and "uuid_wf b" and "uuid_wf c"
  shows "(vsc_uuid_compare a b = 0 \<longleftrightarrow> a = b) \<and> vsc_uuid_compare b a = - vsc_uuid_compare a b \<and>
    (vsc_uuid_compare a b \<le> 0 \<longrightarrow> vsc_uuid_compare b c \<le> 0 \<longrightarrow> vsc_uuid_compare a c \<le> 0) \<and>
    vsc_uuid_compare vsc_uuid_nil a \<le> 0 \<and> vsc_uuid_compare a vsc_uuid_max \<le> 0"
proof (intro conjI impI)
  have len: "length (uuid_v a) = VSC_UUID_SIZE" "length (uuid_v b) = VSC_UUID_SIZE" "length (uuid_v c) = VSC_UUID_SIZE"
    using assms by (simp_all add: uuid_wf_def)
  have "a = b \<longleftrightarrow> uuid_v a = uuid_v b" by (cases a; cases b) simp
  then show "vsc_uuid_compare a b = 0 \<longleftrightarrow> a = b"
    using memcmp_eq [OF len(1,2)] by (simp add: vsc_uuid_compare_def)
  show "vsc_uuid_compare b a = - vsc_uuid_compare a b"
    unfolding vsc_uuid_compare_def by (rule memcmp_swap)
  show "vsc_uuid_compare a c \<le> 0" if "vsc_uuid_compare a b \<le> 0" "vsc_uuid_compare b c \<le> 0"
    using that memcmp_trans [OF len] by (simp add: vsc_uuid_compare_def)
  show "vsc_uuid_compare vsc_uuid_nil a \<le> 0"
    by (simp add: vsc_uuid_compare_def vsc_uuid_nil_def memcmp_nil)
  show "vsc_uuid_compare a vsc_uuid_max \<le> 0"
    by (simp add: vsc_uuid_compare_def vsc_uuid_max_def memcmp_max)
qed

section \<open>Witnesses\<close>

definition sample_uuid :: VscUUID where
  "sample_uuid = \<lparr>uuid_v = [0x00, 0x11, 0x22, 0x33, 0x44, 0x55, 0x66, 0x77, 0x88, 0x99, 0xAA, 0xBB, 0xCC, 0xDD, 0xEE, 0xFF]\<rparr>"

lemma sample_wf: "uuid_wf sample_uuid" "uuid_wf vsc_uuid_nil" "uuid_wf vsc_uuid_max"
  by (simp_all add: uuid_wf_def VSC_UUID_SIZE_def sample_uuid_def vsc_uuid_nil_def vsc_uuid_max_def)

theorem vsc_uuid_parse_format_witness:
  "\<exists>s. vsc_uuid_format sample_uuid VSC_UUID_FORMAT_MS = s @ [0] \<and> length s \<le> 38 \<and>
    vsc_uuid_parse (Some vsc_uuid_nil) (Some s) = (0, Some sample_uuid)"
  using vsc_uuid_parse_format [OF sample_wf(1,2), of VSC_UUID_FORMAT_MS] by (auto simp: VSC_UUID_STRING_SIZE_def)

theorem vsc_uuid_parse_accepts_witness:
  "\<exists>s u. vsc_uuid_parse (Some vsc_uuid_max) (Some s) = (0, Some u) \<and>
    (\<exists>flags. vsc_uuid_format u flags = map tolower s @ [0])"
proof -
  have "vsc_uuid_parse (Some vsc_uuid_max) (Some (replicate 32 70)) = (0, Some vsc_uuid_max)"
    by (simp add: vsc_uuid_parse_def vsc_uuid_max_def VSC_UUID_SIZE_def parse_loop.simps vsc_isxdigit_def vsc_isdigit_def
        denibble_def Let_def eval_nat_numeral)
  then show ?thesis using vsc_uuid_parse_accepts [OF sample_wf(3)] by blast
qed

theorem vsc_uuid_compare_total_order_witness:
  "vsc_uuid_compare sample_uuid vsc_uuid_nil = - vsc_uuid_compare vsc_uuid_nil sample_uuid \<and>
   vsc_uuid_compare sample_uuid vsc_uuid_max \<le> 0"
  using vsc_uuid_compare_total_order [OF sample_wf(2,1,3)] vsc_uuid_compare_total_order [OF sample_wf(1,1,1)] by blast

end
