(* ===== verification/Colour.thy ===== *)
theory Colour
  imports Platform
begin

text \<open>
  \<open>colourdef.h\<close>, \<open>colour.h\<close> and \<open>colour.c\<close>: conversion between packed pixels and 8-bit channels.
\<close>

section \<open>Data and macros (colourdef.h)\<close>

record VscColour32 =
  red :: byte
  green :: byte
  blue :: byte
  alpha :: byte

definition VSC_COLOUR_C1 :: "uint32 \<Rightarrow> uint32" where
  "VSC_COLOUR_C1 c = c AND 0x01"

definition VSC_COLOUR_C5 :: "uint32 \<Rightarrow> uint32" where
  "VSC_COLOUR_C5 c = c AND 0x1F"

definition VSC_COLOUR_C6 :: "uint32 \<Rightarrow> uint32" where
  "VSC_COLOUR_C6 c = c AND 0x3F"

definition VSC_COLOUR_C1_TO_C8 :: "uint32 \<Rightarrow> uint32" where
  "VSC_COLOUR_C1_TO_C8 c = VSC_COLOUR_C1 c * 255"

definition VSC_COLOUR_C5_TO_C8 :: "uint32 \<Rightarrow> uint32" where
  "VSC_COLOUR_C5_TO_C8 c = push_bit 3 (VSC_COLOUR_C5 c) OR drop_bit 2 (VSC_COLOUR_C5 c)"

definition VSC_COLOUR_C6_TO_C8 :: "uint32 \<Rightarrow> uint32" where
  "VSC_COLOUR_C6_TO_C8 c = push_bit 2 (VSC_COLOUR_C6 c) OR drop_bit 4 (VSC_COLOUR_C6 c)"

definition VSC_COLOUR_ARGB1555 :: "uint32 \<Rightarrow> uint32 \<Rightarrow> uint32 \<Rightarrow> uint32 \<Rightarrow> uint32" where
  "VSC_COLOUR_ARGB1555 a r g b =
     push_bit 15 (drop_bit 7 (VSC_U8 a)) OR push_bit 10 (drop_bit 3 (VSC_U8 r)) OR
     push_bit 5 (drop_bit 3 (VSC_U8 g)) OR push_bit 0 (drop_bit 3 (VSC_U8 b))"

definition VSC_COLOUR_XRGB1555 :: "uint32 \<Rightarrow> uint32 \<Rightarrow> uint32 \<Rightarrow> uint32" where
  "VSC_COLOUR_XRGB1555 r g b = VSC_COLOUR_ARGB1555 0xFF r g b"

definition VSC_COLOUR_ARGB8888 :: "uint32 \<Rightarrow> uint32 \<Rightarrow> uint32 \<Rightarrow> uint32 \<Rightarrow> uint32" where
  "VSC_COLOUR_ARGB8888 a r g b = VSC_PACKU32 a r g b"

definition VSC_COLOUR_XRGB8888 :: "uint32 \<Rightarrow> uint32 \<Rightarrow> uint32 \<Rightarrow> uint32" where
  "VSC_COLOUR_XRGB8888 r g b = VSC_PACKU32 0xFF r g b"

definition VSC_COLOUR_RGBA8888 :: "uint32 \<Rightarrow> uint32 \<Rightarrow> uint32 \<Rightarrow> uint32 \<Rightarrow> uint32" where
  "VSC_COLOUR_RGBA8888 r g b a = VSC_PACKU32 r g b a"

definition VSC_COLOUR_RGB565 :: "uint32 \<Rightarrow> uint32 \<Rightarrow> uint32 \<Rightarrow> uint32" where
  "VSC_COLOUR_RGB565 r g b =
     push_bit 11 (drop_bit 3 (VSC_U8 r)) OR push_bit 5 (drop_bit 2 (VSC_U8 g)) OR push_bit 0 (drop_bit 3 (VSC_U8 b))"

section \<open>Unpacking (colour.c)\<close>

definition vsc_colour_unpack_rgb565 :: "uint16 \<Rightarrow> VscColour32" where
  "vsc_colour_unpack_rgb565 pixel =
     \<lparr>red = ucast (VSC_COLOUR_C5_TO_C8 (drop_bit 11 (ucast pixel AND 0xF800))),
      green = ucast (VSC_COLOUR_C6_TO_C8 (drop_bit 5 (ucast pixel AND 0x07E0))),
      blue = ucast (VSC_COLOUR_C5_TO_C8 (drop_bit 0 (ucast pixel AND 0x001F))),
      alpha = 0xFF\<rparr>"

definition vsc_colour_unpack_argb1555 :: "uint16 \<Rightarrow> VscColour32" where
  "vsc_colour_unpack_argb1555 pixel =
     \<lparr>red = ucast (VSC_COLOUR_C5_TO_C8 (drop_bit 10 (ucast pixel AND 0x7C00))),
      green = ucast (VSC_COLOUR_C5_TO_C8 (drop_bit 5 (ucast pixel AND 0x03E0))),
      blue = ucast (VSC_COLOUR_C5_TO_C8 (drop_bit 0 (ucast pixel AND 0x001F))),
      alpha = ucast (VSC_COLOUR_C1_TO_C8 (drop_bit 15 (ucast pixel)))\<rparr>"

definition vsc_colour_unpack_xrgb1555 :: "uint16 \<Rightarrow> VscColour32" where
  "vsc_colour_unpack_xrgb1555 pixel = vsc_colour_unpack_argb1555 (pixel OR 0x8000)"

definition vsc_colour_unpack_argb8888 :: "uint32 \<Rightarrow> VscColour32" where
  "vsc_colour_unpack_argb8888 pixel =
     \<lparr>red = ucast (drop_bit 16 (pixel AND 0x00FF0000)),
      green = ucast (drop_bit 8 (pixel AND 0x0000FF00)),
      blue = ucast (drop_bit 0 (pixel AND 0x000000FF)),
      alpha = ucast (drop_bit 24 (pixel AND 0xFF000000))\<rparr>"

definition vsc_colour_unpack_xrgb8888 :: "uint32 \<Rightarrow> VscColour32" where
  "vsc_colour_unpack_xrgb8888 pixel = vsc_colour_unpack_argb8888 (pixel OR 0xFF000000)"

section \<open>Packing (colour.c)\<close>

definition vsc_colour_pack_rgb565 :: "VscColour32 \<Rightarrow> uint16" where
  "vsc_colour_pack_rgb565 c = ucast (VSC_COLOUR_RGB565 (ucast (red c)) (ucast (green c)) (ucast (blue c)))"

definition vsc_colour_pack_argb1555 :: "VscColour32 \<Rightarrow> uint16" where
  "vsc_colour_pack_argb1555 c =
     ucast (VSC_COLOUR_ARGB1555 (ucast (alpha c)) (ucast (red c)) (ucast (green c)) (ucast (blue c)))"

definition vsc_colour_pack_xrgb1555 :: "VscColour32 \<Rightarrow> uint16" where
  "vsc_colour_pack_xrgb1555 c = ucast (VSC_COLOUR_XRGB1555 (ucast (red c)) (ucast (green c)) (ucast (blue c)))"

definition vsc_colour_pack_argb8888 :: "VscColour32 \<Rightarrow> uint32" where
  "vsc_colour_pack_argb8888 c =
     VSC_COLOUR_ARGB8888 (ucast (alpha c)) (ucast (red c)) (ucast (green c)) (ucast (blue c))"

definition vsc_colour_pack_xrgb8888 :: "VscColour32 \<Rightarrow> uint32" where
  "vsc_colour_pack_xrgb8888 c = VSC_COLOUR_XRGB8888 (ucast (red c)) (ucast (green c)) (ucast (blue c))"

section \<open>Facts\<close>

lemmas colour_defs =
  VSC_U8_def VSC_PACKU32_def VSC_COLOUR_C1_def VSC_COLOUR_C5_def VSC_COLOUR_C6_def VSC_COLOUR_C1_TO_C8_def
  VSC_COLOUR_C5_TO_C8_def VSC_COLOUR_C6_TO_C8_def VSC_COLOUR_ARGB1555_def VSC_COLOUR_XRGB1555_def
  VSC_COLOUR_ARGB8888_def VSC_COLOUR_XRGB8888_def VSC_COLOUR_RGB565_def
  vsc_colour_unpack_rgb565_def vsc_colour_unpack_argb1555_def vsc_colour_unpack_xrgb1555_def
  vsc_colour_unpack_argb8888_def vsc_colour_unpack_xrgb8888_def vsc_colour_pack_rgb565_def
  vsc_colour_pack_argb1555_def vsc_colour_pack_xrgb1555_def vsc_colour_pack_argb8888_def vsc_colour_pack_xrgb8888_def

lemmas colour_bits = bit_or_iff bit_and_iff bit_push_bit_iff bit_drop_bit_eq bit_unsigned_iff

text \<open>The alpha bit widens to all ones or all zeros.\<close>

lemma C1_TO_C8_bit: "VSC_COLOUR_C1_TO_C8 c = (if bit c 0 then 255 else 0)"
proof -
  have "c AND 1 = (if bit c 0 then 1 else 0)" by (rule bit_word_eqI) (auto simp: bit_and_iff bit_1_iff intro!: gr0I)
  then show ?thesis by (simp add: VSC_COLOUR_C1_TO_C8_def VSC_COLOUR_C1_def)
qed

lemma all_bits16: "(\<And>n. n \<in> set [0..<16] \<Longrightarrow> bit a n = bit b n) \<Longrightarrow> a = (b :: uint16)"
  by (rule bit_word_eqI) simp

lemma all_bits32: "(\<And>n. n \<in> set [0..<32] \<Longrightarrow> bit a n = bit b n) \<Longrightarrow> a = (b :: uint32)"
  by (rule bit_word_eqI) simp

lemma upt16: "set [0..<16] = {0, 1, 2, 3, 4, 5, 6, 7, 8, 9, 10, 11, 12, 13, 14, 15 :: nat}"
  by (auto simp: upt_rec)

lemma upt32: "set [0..<32] = {0, 1, 2, 3, 4, 5, 6, 7, 8, 9, 10, 11, 12, 13, 14, 15,
    16, 17, 18, 19, 20, 21, 22, 23, 24, 25, 26, 27, 28, 29, 30, 31 :: nat}"
  by (auto simp: upt_rec)

lemma rgb565_repack: "vsc_colour_pack_rgb565 (vsc_colour_unpack_rgb565 p) = p"
proof (rule all_bits16)
  fix n :: nat assume "n \<in> set [0..<16]"
  then show "bit (vsc_colour_pack_rgb565 (vsc_colour_unpack_rgb565 p)) n = bit p n"
    unfolding upt16 by (elim insertE emptyE) (simp_all add: colour_defs colour_bits)
qed

lemma argb1555_repack: "vsc_colour_pack_argb1555 (vsc_colour_unpack_argb1555 p) = p"
proof (rule all_bits16)
  fix n :: nat assume "n \<in> set [0..<16]"
  then show "bit (vsc_colour_pack_argb1555 (vsc_colour_unpack_argb1555 p)) n = bit p n"
    unfolding upt16 vsc_colour_unpack_argb1555_def C1_TO_C8_bit
    by (elim insertE emptyE) (simp_all add: colour_defs colour_bits)
qed

lemma xrgb1555_repack: "vsc_colour_pack_xrgb1555 (vsc_colour_unpack_xrgb1555 p) = p OR 0x8000"
proof (rule all_bits16)
  fix n :: nat assume "n \<in> set [0..<16]"
  then show "bit (vsc_colour_pack_xrgb1555 (vsc_colour_unpack_xrgb1555 p)) n = bit (p OR 0x8000) n"
    unfolding upt16 vsc_colour_unpack_xrgb1555_def vsc_colour_unpack_argb1555_def C1_TO_C8_bit
    by (elim insertE emptyE) (simp_all add: colour_defs colour_bits)
qed

lemma argb8888_repack: "vsc_colour_pack_argb8888 (vsc_colour_unpack_argb8888 p) = p"
proof (rule all_bits32)
  fix n :: nat assume "n \<in> set [0..<32]"
  then show "bit (vsc_colour_pack_argb8888 (vsc_colour_unpack_argb8888 p)) n = bit p n"
    unfolding upt32 by (elim insertE emptyE) (simp_all add: colour_defs colour_bits)
qed

lemma xrgb8888_repack: "vsc_colour_pack_xrgb8888 (vsc_colour_unpack_xrgb8888 p) = p OR 0xFF000000"
proof (rule all_bits32)
  fix n :: nat assume "n \<in> set [0..<32]"
  then show "bit (vsc_colour_pack_xrgb8888 (vsc_colour_unpack_xrgb8888 p)) n = bit (p OR 0xFF000000) n"
    unfolding upt32 by (elim insertE emptyE) (simp_all add: colour_defs colour_bits)
qed

section \<open>Pixel formats\<close>

text \<open>
  A format packs what it unpacked as the same pixel, up to the bits it ignores. So packing loses
  no more the second time.
\<close>

locale pixel_format =
  fixes unpack :: "'a \<Rightarrow> VscColour32" and pack :: "VscColour32 \<Rightarrow> 'a" and norm :: "'a \<Rightarrow> 'a"
  assumes pack_unpack: "pack (unpack p) = norm p"
    and pack_normal: "norm (pack c) = pack c"
    and unpack_normal: "unpack (norm p) = unpack p"
begin

lemma quantised: "pack (unpack (pack c)) = pack c"
  by (simp add: pack_unpack pack_normal)

lemma unpack_eq_iff: "unpack p = unpack q \<longleftrightarrow> norm p = norm q"
  by (metis pack_unpack unpack_normal)

end

interpretation rgb565: pixel_format vsc_colour_unpack_rgb565 vsc_colour_pack_rgb565 "\<lambda>p. p"
  by unfold_locales (simp_all add: rgb565_repack)

interpretation argb1555: pixel_format vsc_colour_unpack_argb1555 vsc_colour_pack_argb1555 "\<lambda>p. p"
  by unfold_locales (simp_all add: argb1555_repack)

interpretation argb8888: pixel_format vsc_colour_unpack_argb8888 vsc_colour_pack_argb8888 "\<lambda>p. p"
  by unfold_locales (simp_all add: argb8888_repack)

lemma top_bits_set:
  "bit (vsc_colour_pack_xrgb1555 c) 15"
  "n \<in> {24, 25, 26, 27, 28, 29, 30, 31} \<Longrightarrow> bit (vsc_colour_pack_xrgb8888 c) n"
  by (simp add: colour_defs colour_bits) (elim insertE emptyE; simp add: colour_defs colour_bits)

lemma xrgb1555_normal: "vsc_colour_pack_xrgb1555 c OR 0x8000 = vsc_colour_pack_xrgb1555 c"
proof (rule all_bits16)
  fix n :: nat assume "n \<in> set [0..<16]"
  then show "bit (vsc_colour_pack_xrgb1555 c OR 0x8000) n = bit (vsc_colour_pack_xrgb1555 c) n"
    unfolding upt16 by (elim insertE emptyE) (simp_all add: bit_or_iff top_bits_set)
qed

lemma xrgb8888_normal: "vsc_colour_pack_xrgb8888 c OR 0xFF000000 = vsc_colour_pack_xrgb8888 c"
proof (rule all_bits32)
  fix n :: nat assume "n \<in> set [0..<32]"
  then show "bit (vsc_colour_pack_xrgb8888 c OR 0xFF000000) n = bit (vsc_colour_pack_xrgb8888 c) n"
    unfolding upt32 by (elim insertE emptyE) (simp_all add: bit_or_iff top_bits_set)
qed

lemma x_format_ignores:
  "vsc_colour_unpack_xrgb1555 (p OR 0x8000) = vsc_colour_unpack_xrgb1555 p"
  "vsc_colour_unpack_xrgb8888 (q OR 0xFF000000) = vsc_colour_unpack_xrgb8888 q"
  by (simp_all add: vsc_colour_unpack_xrgb1555_def vsc_colour_unpack_xrgb8888_def or.assoc)

interpretation xrgb1555: pixel_format vsc_colour_unpack_xrgb1555 vsc_colour_pack_xrgb1555 "\<lambda>p. p OR 0x8000"
  by unfold_locales (simp_all add: xrgb1555_repack xrgb1555_normal x_format_ignores)

interpretation xrgb8888: pixel_format vsc_colour_unpack_xrgb8888 vsc_colour_pack_xrgb8888 "\<lambda>p. p OR 0xFF000000"
  by unfold_locales (simp_all add: xrgb8888_repack xrgb8888_normal x_format_ignores)

text \<open>Bytes with the same high bits lie close together.\<close>

lemma drop_bit_close:
  "drop_bit 3 a = drop_bit 3 b \<Longrightarrow> \<bar>uint a - uint b\<bar> < 8"
  "drop_bit 2 a = drop_bit 2 b \<Longrightarrow> \<bar>uint a - uint b\<bar> < 4" for a b :: byte
proof -
  have close: "\<bar>m - n\<bar> < k" if "m div k = n div k" "0 < k" for m n k :: int
  proof -
    have "m = m div k * k + m mod k" "n = m div k * k + n mod k"
      using div_mult_mod_eq [of m k] div_mult_mod_eq [of n k] that(1) by (simp_all only:)
    moreover have "0 \<le> m mod k" "m mod k < k" "0 \<le> n mod k" "n mod k < k" using that by simp_all
    ultimately show ?thesis by linarith
  qed
  show "\<bar>uint a - uint b\<bar> < 8" if "drop_bit 3 a = drop_bit 3 b"
    using arg_cong [OF that, of uint] by (intro close) (simp_all add: drop_bit_eq_div uint_div)
  show "\<bar>uint a - uint b\<bar> < 4" if "drop_bit 2 a = drop_bit 2 b"
    using arg_cong [OF that, of uint] by (intro close) (simp_all add: drop_bit_eq_div uint_div)
qed

lemma no_bit_8 [simp]: "\<not> bit (x :: byte) 8" "\<not> bit (x :: byte) 9" "\<not> bit (x :: byte) 10"
  by (auto dest: bit_imp_le_length)

lemma all_bits8: "(\<And>n. n \<in> {0, 1, 2, 3, 4, 5, 6, 7} \<Longrightarrow> bit a n = bit b n) \<Longrightarrow> a = (b :: byte)"
  by (rule bit_word_eqI) (auto simp: numeral_eq_Suc less_Suc_eq)

lemma rgb565_close:
  defines "d \<equiv> \<lambda>c. vsc_colour_unpack_rgb565 (vsc_colour_pack_rgb565 c)"
  shows "drop_bit 3 (red (d c)) = drop_bit 3 (red c)" and "drop_bit 2 (green (d c)) = drop_bit 2 (green c)"
    and "drop_bit 3 (blue (d c)) = drop_bit 3 (blue c)"
  unfolding d_def by (rule all_bits8; elim insertE emptyE; simp add: colour_defs colour_bits)+

lemma argb1555_close:
  defines "d \<equiv> \<lambda>c. vsc_colour_unpack_argb1555 (vsc_colour_pack_argb1555 c)"
  shows "drop_bit 3 (red (d c)) = drop_bit 3 (red c)" and "drop_bit 3 (green (d c)) = drop_bit 3 (green c)"
    and "drop_bit 3 (blue (d c)) = drop_bit 3 (blue c)"
  unfolding d_def by (rule all_bits8; elim insertE emptyE; simp add: colour_defs colour_bits)+

lemma argb1555_alpha:
  "alpha (vsc_colour_unpack_argb1555 (vsc_colour_pack_argb1555 c)) = (if bit (alpha c) 7 then 0xFF else 0)"
  unfolding vsc_colour_unpack_argb1555_def C1_TO_C8_bit by (simp add: colour_defs colour_bits)

lemma argb8888_unpack_pack: "vsc_colour_unpack_argb8888 (vsc_colour_pack_argb8888 c) = c"
proof -
  have "alpha (vsc_colour_unpack_argb8888 (vsc_colour_pack_argb8888 c)) = alpha c"
    "red (vsc_colour_unpack_argb8888 (vsc_colour_pack_argb8888 c)) = red c"
    "green (vsc_colour_unpack_argb8888 (vsc_colour_pack_argb8888 c)) = green c"
    "blue (vsc_colour_unpack_argb8888 (vsc_colour_pack_argb8888 c)) = blue c"
    by (rule all_bits8; elim insertE emptyE; simp add: colour_defs colour_bits)+
  then show ?thesis by (cases c; cases "vsc_colour_unpack_argb8888 (vsc_colour_pack_argb8888 c)") simp
qed

lemma xrgb8888_unpack_pack: "vsc_colour_unpack_xrgb8888 (vsc_colour_pack_xrgb8888 c) = c\<lparr>alpha := 0xFF\<rparr>"
proof -
  have "alpha (vsc_colour_unpack_xrgb8888 (vsc_colour_pack_xrgb8888 c)) = 0xFF"
    "red (vsc_colour_unpack_xrgb8888 (vsc_colour_pack_xrgb8888 c)) = red c"
    "green (vsc_colour_unpack_xrgb8888 (vsc_colour_pack_xrgb8888 c)) = green c"
    "blue (vsc_colour_unpack_xrgb8888 (vsc_colour_pack_xrgb8888 c)) = blue c"
    by (rule all_bits8; elim insertE emptyE; simp add: colour_defs colour_bits)+
  then show ?thesis by (cases c; cases "vsc_colour_unpack_xrgb8888 (vsc_colour_pack_xrgb8888 c)") simp
qed

lemma bit7_iff: "bit (x :: byte) 7 \<longleftrightarrow> 0x80 \<le> x"
proof -
  have "unat x < 2 ^ LENGTH(8)" by (rule unsigned_less)
  then have "unat x < 256" by simp
  then have "unat x div 128 = 0 \<or> unat x div 128 = 1" by linarith
  moreover have "bit x 7 \<longleftrightarrow> bit (unat x) 7" by (simp add: bit_unsigned_iff)
  ultimately show ?thesis by (auto simp: bit_iff_odd word_le_nat_alt)
qed

section \<open>Properties\<close>

text \<open>
  (C36) Pixels survive. For each of the five formats, packing an unpacked pixel gives the pixel
  back, with the bits the x-formats ignore set.
\<close>

theorem vsc_colour_repack:
  "vsc_colour_pack_rgb565 (vsc_colour_unpack_rgb565 p) = p \<and>
   vsc_colour_pack_argb1555 (vsc_colour_unpack_argb1555 p) = p \<and>
   vsc_colour_pack_xrgb1555 (vsc_colour_unpack_xrgb1555 p) = p OR 0x8000 \<and>
   vsc_colour_pack_argb8888 (vsc_colour_unpack_argb8888 q) = q \<and>
   vsc_colour_pack_xrgb8888 (vsc_colour_unpack_xrgb8888 q) = q OR 0xFF000000"
  by (simp add: rgb565.pack_unpack argb1555.pack_unpack xrgb1555.pack_unpack argb8888.pack_unpack xrgb8888.pack_unpack)

text \<open>
  Colours survive as far as the format can hold them. Unpacking a packed colour gives it
  back exactly in the 32-bit formats (opaque in xrgb8888), and in the 16-bit formats with an
  error of less than 8 in a channel of five bits, 4 in one of six, and with alpha all or nothing.
\<close>

theorem vsc_colour_requantise:
  "vsc_colour_unpack_argb8888 (vsc_colour_pack_argb8888 c) = c \<and>
   vsc_colour_unpack_xrgb8888 (vsc_colour_pack_xrgb8888 c) = c\<lparr>alpha := 0xFF\<rparr> \<and>
   (let d = vsc_colour_unpack_rgb565 (vsc_colour_pack_rgb565 c)
    in \<bar>uint (red d) - uint (red c)\<bar> < 8 \<and> \<bar>uint (green d) - uint (green c)\<bar> < 4 \<and>
       \<bar>uint (blue d) - uint (blue c)\<bar> < 8 \<and> alpha d = 0xFF) \<and>
   (let d = vsc_colour_unpack_argb1555 (vsc_colour_pack_argb1555 c)
    in \<bar>uint (red d) - uint (red c)\<bar> < 8 \<and> \<bar>uint (green d) - uint (green c)\<bar> < 8 \<and>
       \<bar>uint (blue d) - uint (blue c)\<bar> < 8 \<and> alpha d = (if 0x80 \<le> alpha c then 0xFF else 0))"
  using rgb565_close [of c] argb1555_close [of c] argb1555_alpha [of c] argb8888_unpack_pack [of c] xrgb8888_unpack_pack [of c]
  by (simp add: Let_def bit7_iff vsc_colour_unpack_rgb565_def drop_bit_close)

end
