(* ===== verification/Wav.thy ===== *)
theory Wav
  imports ByteIO
begin

text \<open>
  \<open>wav.c\<close> on a little-endian machine: \<open>vsc_wav_write\<close> writes a canonical RIFF file of 16-bit
  samples. The specification \<open>wav_file\<close> spells the file out byte by byte.
\<close>

definition WAV_HEADER_BUF_SIZE :: nat where
  "WAV_HEADER_BUF_SIZE = 44"

definition FOURCC_RIFF :: uint32 where "FOURCC_RIFF = VSC_FOURCC 0x52 0x49 0x46 0x46"
definition FOURCC_WAVE :: uint32 where "FOURCC_WAVE = VSC_FOURCC 0x57 0x41 0x56 0x45"
definition FOURCC_fmt :: uint32 where "FOURCC_fmt = VSC_FOURCC 0x66 0x6D 0x74 0x20"
definition FOURCC_data :: uint32 where "FOURCC_data = VSC_FOURCC 0x64 0x61 0x74 0x61"

text \<open>
  The 44 bytes the header stores go to, one store after the other; the buffer is not initialised,
  its contents before are \<open>buf\<close>.
\<close>

definition wav_header :: "byte list \<Rightarrow> uint32 \<Rightarrow> uint32 \<Rightarrow> uint16 \<Rightarrow> uint16 \<Rightarrow> byte list" where
  "wav_header buf data_size sample_rate nchannels ba =
     (let buf = vsc_write_e L buf 0 FOURCC_RIFF;
          buf = vsc_write_e L buf 4 (36 + data_size);
          buf = vsc_write_e L buf 8 FOURCC_WAVE;
          buf = vsc_write_e L buf 12 FOURCC_fmt;
          buf = vsc_write_e L buf 16 (16 :: uint32);
          buf = vsc_write_e L buf 20 (1 :: uint16);
          buf = vsc_write_e L buf 22 nchannels;
          buf = vsc_write_e L buf 24 sample_rate;
          buf = vsc_write_e L buf 28 (sample_rate * ucast ba);
          buf = vsc_write_e L buf 32 ba;
          buf = vsc_write_e L buf 34 (16 :: uint16);
          buf = vsc_write_e L buf 36 FOURCC_data
      in vsc_write_e L buf 40 data_size)"

definition vsc_wav_write ::
  "FILE option \<Rightarrow> uint16 list option \<Rightarrow> size_t \<Rightarrow> uint32 \<Rightarrow> uint16 \<Rightarrow> int \<times> FILE option" where
  "vsc_wav_write stream samples nsamples sample_rate nchannels =
     (let ba = nchannels * 2;
          data_size = ucast (ucast ba * nsamples) :: uint32
      in case (stream, samples) of
           (Some f, Some xs) \<Rightarrow>
             if sample_rate = 0 \<or> (nchannels \<noteq> 1 \<and> nchannels \<noteq> 2) then (VSC_ERROR EINVAL, stream)
             else if nsamples \<ge> 0xFFFFFFFF div ucast ba then (VSC_ERROR ERANGE, stream)
             else if data_size > 0xFFFFFFFF - 36 then (VSC_ERROR ERANGE, stream)
             else
               let buf = wav_header (replicate WAV_HEADER_BUF_SIZE 0) data_size sample_rate nchannels ba;
                   (k, f) = fwrite buf WAV_HEADER_BUF_SIZE 1 f
               in if k \<noteq> 1 then (VSC_ERROR EIO, Some f)
                  else
                    let (k, f) = fwrite (concat (map to_bytes xs)) (unat data_size) 1 f
                    in if k \<noteq> 1 then (VSC_ERROR EIO, Some f) else (0, Some f)
         | _ \<Rightarrow> (VSC_ERROR EINVAL, stream))"

section \<open>The file\<close>

definition wav_file :: "uint16 list \<Rightarrow> nat \<Rightarrow> uint32 \<Rightarrow> nat \<Rightarrow> byte list" where
  "wav_file samples bytes sample_rate channels =
     ascii ''RIFF'' @ to_bytes (of_nat (36 + bytes) :: uint32) @ ascii ''WAVE'' @
     ascii ''fmt '' @ to_bytes (16 :: uint32) @
       to_bytes (1 :: uint16) @ to_bytes (of_nat channels :: uint16) @
       to_bytes sample_rate @ to_bytes (sample_rate * of_nat (2 * channels)) @
       to_bytes (of_nat (2 * channels) :: uint16) @ to_bytes (16 :: uint16) @
     ascii ''data'' @ to_bytes (of_nat bytes :: uint32) @ take bytes (concat (map to_bytes samples))"

lemma write_e_next:
  "length xs = p \<Longrightarrow> vsc_write_e L (xs @ ys) p v = (xs @ to_bytes v) @ drop (sizeof_word v) ys"
  by (simp add: vsc_write_e_def vsc_native_to_e_def vsc_write_uint_def)

lemma fourcc_bytes:
  "to_bytes FOURCC_RIFF = ascii ''RIFF''" "to_bytes FOURCC_WAVE = ascii ''WAVE''"
  "to_bytes FOURCC_fmt = ascii ''fmt ''" "to_bytes FOURCC_data = ascii ''data''"
  by code_simp+

lemma sizeof_words [simp]:
  "sizeof_word (v :: 8 word) = 1" "sizeof_word (v2 :: uint16) = 2" "sizeof_word (v4 :: uint32) = 4" "sizeof_word (v8 :: uint64) = 8"
  by (simp_all add: sizeof_word_def)

lemma wav_header_bytes:
  assumes "length buf = 44"
  shows "wav_header buf n sr nc ba =
     ascii ''RIFF'' @ to_bytes (36 + n) @ ascii ''WAVE'' @ ascii ''fmt '' @ to_bytes (16 :: uint32) @
     to_bytes (1 :: uint16) @ to_bytes nc @ to_bytes sr @ to_bytes (sr * ucast ba) @ to_bytes ba @ to_bytes (16 :: uint16) @
     ascii ''data'' @ to_bytes n"
proof -
  have start: "vsc_write_e L buf 0 v = to_bytes v @ drop (sizeof_word v) buf" for v :: uint32
    by (simp add: vsc_write_e_def vsc_native_to_e_def vsc_write_uint_def)
  show ?thesis
    unfolding wav_header_def Let_def
    by (simp add: start write_e_next assms flip: fourcc_bytes del: append_assoc)
qed

text \<open>A stream written to: all of the bytes, or not.\<close>

lemma fwrite_all:
  "sz \<le> length bs \<Longrightarrow> 0 < sz \<Longrightarrow> fwrite bs sz 1 f =
    (if sz \<le> froom f then (1, f\<lparr>fdata := fdata f @ take sz bs, froom := froom f - sz\<rparr>)
     else (0, snd (write_bytes (take sz bs) f)))"
  by (simp add: fwrite_def write_bytes_def Let_def)

text \<open>The checks of the size reject exactly the files whose size fields would overflow.\<close>

lemma wav_size:
  fixes ba nsamples :: size_t
  assumes ba: "unat ba = 2 * c" "c = 1 \<or> c = 2"
  defines "ds \<equiv> (ucast (ba * nsamples) :: uint32)" and "bytes \<equiv> 2 * c * unat nsamples"
  shows "(0xFFFFFFFF div ba \<le> nsamples \<or> 0xFFFFFFFF - 36 < ds) \<longleftrightarrow> 2 ^ 32 - 37 < bytes"
    and "bytes \<le> 2 ^ 32 - 37 \<Longrightarrow> unat ds = bytes"
proof -
  have c1: "0xFFFFFFFF div ba \<le> nsamples \<longleftrightarrow> (2 ^ 32 - 1) div (2 * c) \<le> unat nsamples"
    by (simp add: word_le_nat_alt unat_div ba(1))
  have u: "unat ds = bytes" if "bytes < 2 ^ 32"
  proof -
    have "unat (ba * nsamples) = bytes" using that ba by (simp add: bytes_def unat_mult64)
    then show ?thesis using that by (simp add: ds_def unsigned_ucast_eq take_bit_nat_eq_self)
  qed
  then show "bytes \<le> 2 ^ 32 - 37 \<Longrightarrow> unat ds = bytes" by simp
  have c2: "0xFFFFFFFF - 36 < ds \<longleftrightarrow> 2 ^ 32 - 37 < unat ds" by (simp add: word_less_nat_alt)
  show "(0xFFFFFFFF div ba \<le> nsamples \<or> 0xFFFFFFFF - 36 < ds) \<longleftrightarrow> 2 ^ 32 - 37 < bytes"
  proof (cases "bytes < 2 ^ 32")
    case True
    then show ?thesis unfolding c1 c2 u [OF True] using ba(2) by (auto simp: bytes_def)
  next
    case False
    then have "(2 ^ 32 - 1) div (2 * c) \<le> unat nsamples" using ba(2) by (auto simp: bytes_def)
    then show ?thesis using False by (simp add: c1)
  qed
qed

lemma length_samples: "length (concat (map to_bytes (xs :: uint16 list))) = 2 * length xs"
  by (induction xs) auto

text \<open>
  (C21) \<open>vsc_wav_write\<close> reports EINVAL for a sample rate of 0 or other than one or two channels and
  ERANGE when the file would not fit its 32-bit size fields, without writing; otherwise it
  returns 0 exactly when there is a sample and room for the file, and has then appended
  exactly the RIFF file of the first \<open>nsamples * nchannels\<close> samples. Without samples,
  and without the room, it reports EIO.
\<close>

theorem vsc_wav_write_file:
  assumes "unat nsamples * unat nchannels \<le> length xs"
  shows "case vsc_wav_write (Some f) (Some xs) nsamples sample_rate nchannels of (r, f') \<Rightarrow>
    let bytes = 2 * unat nchannels * unat nsamples
    in if sample_rate = 0 \<or> nchannels \<notin> {1, 2} then r = VSC_ERROR EINVAL \<and> f' = Some f
       else if 2 ^ 32 - 37 < bytes then r = VSC_ERROR ERANGE \<and> f' = Some f
       else if bytes = 0 \<or> froom f < 44 + bytes then r = VSC_ERROR EIO
       else r = 0 \<and> f' = Some (f\<lparr>fdata := fdata f @ wav_file xs bytes sample_rate (unat nchannels),
              froom := froom f - (44 + bytes)\<rparr>)"
proof (cases "sample_rate = 0 \<or> nchannels \<notin> {1, 2}")
  case True
  then show ?thesis by (auto simp: vsc_wav_write_def Let_def)
next
  case False
  define bytes where "bytes = 2 * unat nchannels * unat nsamples"
  define ba :: size_t where "ba = ucast (nchannels * 2)"
  define ds where "ds = (ucast (ba * nsamples) :: uint32)"
  define hdr where "hdr = wav_header (replicate 44 0) ds sample_rate nchannels (nchannels * 2)"
  have nc: "nchannels = 1 \<or> nchannels = 2" using False by auto
  have ba: "unat ba = 2 * unat nchannels" "unat nchannels = 1 \<or> unat nchannels = 2" using nc by (auto simp: ba_def)
  note size = wav_size [OF ba, of nsamples, folded ds_def bytes_def]
  have run: "vsc_wav_write (Some f) (Some xs) nsamples sample_rate nchannels =
    (if 2 ^ 32 - 37 < bytes then (VSC_ERROR ERANGE, Some f)
     else case fwrite hdr 44 1 f of (k, f) \<Rightarrow>
       if k \<noteq> 1 then (VSC_ERROR EIO, Some f)
       else case fwrite (concat (map to_bytes xs)) (unat ds) 1 f of (k, f) \<Rightarrow>
         if k \<noteq> 1 then (VSC_ERROR EIO, Some f) else (0, Some f))"
    using False unfolding vsc_wav_write_def Let_def ba_def [symmetric] ds_def [symmetric] WAV_HEADER_BUF_SIZE_def hdr_def [symmetric]
    using size(1) by auto
  have hdr: "length hdr = 44" by (simp add: hdr_def wav_header_bytes ascii_def)
  show ?thesis
  proof (cases "bytes \<le> 2 ^ 32 - 37")
    case True
    have ds: "ds = of_nat bytes" "unat ds = bytes" using size(2) [OF True] by (simp_all add: flip: size(2) [OF True])
    have len: "bytes \<le> length (concat (map to_bytes xs))" using assms by (simp add: length_samples bytes_def mult.commute)
    have "nchannels * 2 = of_nat (2 * unat nchannels)" "nchannels = of_nat (unat nchannels)"
      "sample_rate * ucast (nchannels * 2) = sample_rate * of_nat (2 * unat nchannels)"
      using nc by auto
    then have out: "hdr @ take bytes (concat (map to_bytes xs)) = wav_file xs bytes sample_rate (unat nchannels)"
      by (simp add: hdr_def wav_header_bytes wav_file_def ds mult.commute [of nchannels 2])
    have none: "fwrite bs 0 1 g = (0, g)" for bs g by (simp add: fwrite_def)
    have chk: "\<not> (sample_rate = 0 \<or> nchannels \<notin> {1, 2})" using \<open>\<not> (sample_rate = 0 \<or> nchannels \<notin> {1, 2})\<close> .
    show ?thesis
      unfolding Let_def if_not_P [OF chk] bytes_def [symmetric] out [symmetric]
      using True len hdr by (cases "bytes = 0") (auto simp: run fwrite_all none ds(2) simp del: One_nat_def)
  next
    case False
    then show ?thesis using nc \<open>\<not> (sample_rate = 0 \<or> nchannels \<notin> {1, 2})\<close> by (auto simp: run Let_def simp flip: bytes_def)
  qed
qed

theorem vsc_wav_write_file_witness:
  "fst (vsc_wav_write (Some \<lparr>fdata = [], fpos = 0, froom = 100, fbad = None, fnoseek = None, fdesc = 3, feof = False, ferror = False\<rparr>)
     (Some [0x0102, 0xFFFE]) 1 44100 2) = 0"
  using vsc_wav_write_file [where nsamples=1 and nchannels=2 and xs="[0x0102, 0xFFFE]" and sample_rate=44100
      and f="\<lparr>fdata = [], fpos = 0, froom = 100, fbad = None, fnoseek = None, fdesc = 3, feof = False, ferror = False\<rparr>"]
  by (auto split: prod.splits)

end
