(* ===== verification/Xxh3Simd.thy ===== *)
theory Xxh3Simd
  imports Xxh3
begin

text \<open>
  The vector kernels of XXH3 (\<open>xxhash.h\<close>): AVX512, AVX2 and SSE2 on x86, NEON on ARM and VSX on
  PowerPC and System z. The intrinsics of the compilers are parameters, the fields of a record over
  the type of registers; \<open>of_lanes\<close> and \<open>lanes\<close> move the 64-bit elements of a register from and
  to memory, and \<open>mm_shuffle\<close> is the macro \<open>_MM_SHUFFLE\<close>. What the intrinsics are documented to do is stated where the kernels are proved.
\<close>

section \<open>x86: registers of 128, 256 or 512 bits\<close>

record 'v x86 =
  of_lanes :: "uint64 list \<Rightarrow> 'v"
  lanes :: "'v \<Rightarrow> uint64 list"
  mm_shuffle :: "nat \<Rightarrow> nat \<Rightarrow> nat \<Rightarrow> nat \<Rightarrow> nat"
  set_epi64x :: "uint64 list \<Rightarrow> 'v"
  xor_si :: "'v \<Rightarrow> 'v \<Rightarrow> 'v"
  shuffle_epi32 :: "'v \<Rightarrow> nat \<Rightarrow> 'v"
  mul_epu32 :: "'v \<Rightarrow> 'v \<Rightarrow> 'v"
  add_epi64 :: "'v \<Rightarrow> 'v \<Rightarrow> 'v"
  srli_epi64 :: "'v \<Rightarrow> nat \<Rightarrow> 'v"
  slli_epi64 :: "'v \<Rightarrow> nat \<Rightarrow> 'v"
  set1_epi32 :: "uint32 \<Rightarrow> 'v"
  set1_epi64 :: "uint64 \<Rightarrow> 'v"
  set1_epi8 :: "byte \<Rightarrow> 'v"
  mask_sub_epi64 :: "'v \<Rightarrow> nat \<Rightarrow> 'v \<Rightarrow> 'v \<Rightarrow> 'v"

text \<open>A load of \<open>w\<close> elements from bytes; x86 is little-endian. The element \<open>i\<close> of an array of registers.\<close>

definition loadu_si :: "'v x86 \<Rightarrow> nat \<Rightarrow> byte list \<Rightarrow> 'v" where
  "loadu_si ops w p = of_lanes ops (map (\<lambda>i. XXH_readLE64 (drop (8 * i) p)) [0..<w])"

definition xacc_get :: "'v x86 \<Rightarrow> nat \<Rightarrow> accs \<Rightarrow> nat \<Rightarrow> 'v" where
  "xacc_get ops w acc i = of_lanes ops (take w (drop (w * i) acc))"

definition xacc_set :: "'v x86 \<Rightarrow> nat \<Rightarrow> accs \<Rightarrow> nat \<Rightarrow> 'v \<Rightarrow> accs" where
  "xacc_set ops w acc i v = take (w * i) acc @ lanes ops v @ drop (w * i + w) acc"

text \<open>The bodies of the loops, which are the same for the three widths.\<close>

definition accumulate_x86 :: "'v x86 \<Rightarrow> 'v \<Rightarrow> 'v \<Rightarrow> 'v \<Rightarrow> 'v" where
  "accumulate_x86 ops xacc data_vec key_vec =
     (let data_key = xor_si ops data_vec key_vec;
          data_key_lo = shuffle_epi32 ops data_key (mm_shuffle ops 0 3 0 1);
          product = mul_epu32 ops data_key data_key_lo;
          data_swap = shuffle_epi32 ops data_vec (mm_shuffle ops 1 0 3 2);
          sum = add_epi64 ops xacc data_swap
      in add_epi64 ops product sum)"

definition scramble_x86 :: "'v x86 \<Rightarrow> 'v \<Rightarrow> 'v \<Rightarrow> 'v \<Rightarrow> 'v" where
  "scramble_x86 ops prime32 acc_vec key_vec =
     (let shifted = srli_epi64 ops acc_vec 47;
          data_vec = xor_si ops acc_vec shifted;
          data_key = xor_si ops data_vec key_vec;
          data_key_hi = shuffle_epi32 ops data_key (mm_shuffle ops 0 3 0 1);
          prod_lo = mul_epu32 ops data_key prime32;
          prod_hi = mul_epu32 ops data_key_hi prime32
      in add_epi64 ops prod_lo (slli_epi64 ops prod_hi 32))"

section \<open>AVX512\<close>

definition XXH3_accumulate_512_avx512 :: "'v x86 \<Rightarrow> f_accumulate_512" where
  "XXH3_accumulate_512_avx512 ops acc input secret =
     xacc_set ops 8 acc 0 (accumulate_x86 ops (xacc_get ops 8 acc 0) (loadu_si ops 8 input) (loadu_si ops 8 secret))"

definition XXH3_scrambleAcc_avx512 :: "'v x86 \<Rightarrow> f_scrambleAcc" where
  "XXH3_scrambleAcc_avx512 ops acc secret =
     (let prime32 = set1_epi32 ops XXH_PRIME32_1
      in xacc_set ops 8 acc 0 (scramble_x86 ops prime32 (xacc_get ops 8 acc 0) (loadu_si ops 8 secret)))"

text \<open>What is stored to \<open>dest[i]\<close>, for all \<open>i\<close> in order, is the whole secret.\<close>

definition XXH3_initCustomSecret_avx512 :: "'v x86 \<Rightarrow> f_initCustomSecret" where
  "XXH3_initCustomSecret_avx512 ops seed64 =
     (let nbRounds = XXH_SECRET_DEFAULT_SIZE div 64;
          seed_pos = set1_epi64 ops seed64;
          seed = mask_sub_epi64 ops seed_pos 0xAA (set1_epi8 ops 0) seed_pos
      in concat (map (\<lambda>i. concat (map to_bytes (lanes ops (add_epi64 ops (loadu_si ops 8 (drop (64 * i) XXH3_kSecret)) seed))))
           [0..<nbRounds]))"

section \<open>AVX2\<close>

definition XXH3_accumulate_512_avx2 :: "'v x86 \<Rightarrow> f_accumulate_512" where
  "XXH3_accumulate_512_avx2 ops acc input secret =
     foldl (\<lambda>acc i. xacc_set ops 4 acc i
         (accumulate_x86 ops (xacc_get ops 4 acc i) (loadu_si ops 4 (drop (32 * i) input)) (loadu_si ops 4 (drop (32 * i) secret))))
       acc [0..<XXH_STRIPE_LEN div 32]"

definition XXH3_scrambleAcc_avx2 :: "'v x86 \<Rightarrow> f_scrambleAcc" where
  "XXH3_scrambleAcc_avx2 ops acc secret =
     (let prime32 = set1_epi32 ops XXH_PRIME32_1
      in foldl (\<lambda>acc i. xacc_set ops 4 acc i
             (scramble_x86 ops prime32 (xacc_get ops 4 acc i) (loadu_si ops 4 (drop (32 * i) secret))))
           acc [0..<XXH_STRIPE_LEN div 32])"

definition XXH3_initCustomSecret_avx2 :: "'v x86 \<Rightarrow> f_initCustomSecret" where
  "XXH3_initCustomSecret_avx2 ops seed64 =
     (let seed = set_epi64x ops [0 - seed64, seed64, 0 - seed64, seed64]
      in concat (map (\<lambda>i. concat (map to_bytes (lanes ops (add_epi64 ops (loadu_si ops 4 (drop (32 * i) XXH3_kSecret)) seed))))
           [0, 1, 2, 3, 4, 5]))"

section \<open>SSE2\<close>

definition XXH3_accumulate_512_sse2 :: "'v x86 \<Rightarrow> f_accumulate_512" where
  "XXH3_accumulate_512_sse2 ops acc input secret =
     foldl (\<lambda>acc i. xacc_set ops 2 acc i
         (accumulate_x86 ops (xacc_get ops 2 acc i) (loadu_si ops 2 (drop (16 * i) input)) (loadu_si ops 2 (drop (16 * i) secret))))
       acc [0..<XXH_STRIPE_LEN div 16]"

definition XXH3_scrambleAcc_sse2 :: "'v x86 \<Rightarrow> f_scrambleAcc" where
  "XXH3_scrambleAcc_sse2 ops acc secret =
     (let prime32 = set1_epi32 ops XXH_PRIME32_1
      in foldl (\<lambda>acc i. xacc_set ops 2 acc i
             (scramble_x86 ops prime32 (xacc_get ops 2 acc i) (loadu_si ops 2 (drop (16 * i) secret))))
           acc [0..<XXH_STRIPE_LEN div 16])"

definition XXH3_initCustomSecret_sse2 :: "'v x86 \<Rightarrow> f_initCustomSecret" where
  "XXH3_initCustomSecret_sse2 ops seed64 =
     (let nbRounds = XXH_SECRET_DEFAULT_SIZE div 16;
          seed = set_epi64x ops [0 - seed64, seed64]
      in concat (map (\<lambda>i. concat (map to_bytes (lanes ops (add_epi64 ops (loadu_si ops 2 (drop (16 * i) XXH3_kSecret)) seed))))
           [0..<nbRounds]))"

section \<open>NEON\<close>

text \<open>\<open>'q\<close> is \<open>uint64x2_t\<close>, \<open>'d\<close> is \<open>uint32x2_t\<close>.\<close>

record ('q, 'd) neon =
  q_of :: "uint64 list \<Rightarrow> 'q"
  q_lanes :: "'q \<Rightarrow> uint64 list"
  d_lanes :: "'d \<Rightarrow> uint32 list"
  vextq_u64 :: "'q \<Rightarrow> 'q \<Rightarrow> nat \<Rightarrow> 'q"
  veorq_u64 :: "'q \<Rightarrow> 'q \<Rightarrow> 'q"
  vaddq_u64 :: "'q \<Rightarrow> 'q \<Rightarrow> 'q"
  vshrq_n_u64 :: "'q \<Rightarrow> nat \<Rightarrow> 'q"
  vshlq_n_u64 :: "'q \<Rightarrow> nat \<Rightarrow> 'q"
  vmovn_u64 :: "'q \<Rightarrow> 'd"
  vshrn_n_u64 :: "'q \<Rightarrow> nat \<Rightarrow> 'd"
  vdup_n_u32 :: "uint32 \<Rightarrow> 'd"
  vmull_u32 :: "'d \<Rightarrow> 'd \<Rightarrow> 'q"
  vmlal_u32 :: "'q \<Rightarrow> 'd \<Rightarrow> 'd \<Rightarrow> 'q"

definition XXH_vld1q_u64 :: "('q, 'd) neon \<Rightarrow> byte list \<Rightarrow> 'q" where
  "XXH_vld1q_u64 ops p = q_of ops [XXH_readLE64 p, XXH_readLE64 (drop 8 p)]"

definition XXH_SPLIT_IN_PLACE :: "('q, 'd) neon \<Rightarrow> 'q \<Rightarrow> 'd \<times> 'd" where
  "XXH_SPLIT_IN_PLACE ops v = (vmovn_u64 ops v, vshrn_n_u64 ops v 32)"

definition neon_get :: "('q, 'd) neon \<Rightarrow> accs \<Rightarrow> nat \<Rightarrow> 'q" where
  "neon_get ops acc i = q_of ops (take 2 (drop (2 * i) acc))"

definition neon_set :: "('q, 'd) neon \<Rightarrow> accs \<Rightarrow> nat \<Rightarrow> 'q \<Rightarrow> accs" where
  "neon_set ops acc i v = take (2 * i) acc @ q_lanes ops v @ drop (2 * i + 2) acc"

text \<open>\<open>n\<close> is \<open>XXH3_NEON_LANES\<close>: the lanes from there on take the scalar path.\<close>

definition accumulate_neon :: "('q, 'd) neon \<Rightarrow> 'q \<Rightarrow> 'q \<Rightarrow> 'q \<Rightarrow> 'q" where
  "accumulate_neon ops acc_vec data_vec key_vec =
     (let acc_vec_2 = vextq_u64 ops data_vec data_vec 1;
          data_key = veorq_u64 ops data_vec key_vec;
          (data_key_lo, data_key_hi) = XXH_SPLIT_IN_PLACE ops data_key;
          acc_vec_2 = vmlal_u32 ops acc_vec_2 data_key_lo data_key_hi
      in vaddq_u64 ops acc_vec acc_vec_2)"

definition XXH3_accumulate_512_neon :: "nat \<Rightarrow> ('q, 'd) neon \<Rightarrow> f_accumulate_512" where
  "XXH3_accumulate_512_neon n ops acc input secret =
     (let acc = foldl (\<lambda>acc i. XXH3_scalarRound acc input secret i) acc [n..<XXH_ACC_NB]
      in foldl (\<lambda>acc i. neon_set ops acc i
             (accumulate_neon ops (neon_get ops acc i) (XXH_vld1q_u64 ops (drop (i * 16) input)) (XXH_vld1q_u64 ops (drop (i * 16) secret))))
           acc [0..<n div 2])"

definition scramble_neon :: "('q, 'd) neon \<Rightarrow> 'd \<Rightarrow> 'q \<Rightarrow> 'q \<Rightarrow> 'q" where
  "scramble_neon ops prime acc_vec key_vec =
     (let shifted = vshrq_n_u64 ops acc_vec 47;
          data_vec = veorq_u64 ops acc_vec shifted;
          data_key = veorq_u64 ops data_vec key_vec;
          (data_key_lo, data_key_hi) = XXH_SPLIT_IN_PLACE ops data_key;
          prod_hi = vmull_u32 ops data_key_hi prime;
          prod_hi = vshlq_n_u64 ops prod_hi 32
      in vmlal_u32 ops prod_hi data_key_lo prime)"

definition XXH3_scrambleAcc_neon :: "nat \<Rightarrow> ('q, 'd) neon \<Rightarrow> f_scrambleAcc" where
  "XXH3_scrambleAcc_neon n ops acc secret =
     (let prime = vdup_n_u32 ops XXH_PRIME32_1;
          acc = foldl (\<lambda>acc i. XXH3_scalarScrambleRound acc secret i) acc [n..<XXH_ACC_NB]
      in foldl (\<lambda>acc i. neon_set ops acc i (scramble_neon ops prime (neon_get ops acc i) (XXH_vld1q_u64 ops (drop (i * 16) secret))))
           acc [0..<n div 2])"

section \<open>VSX\<close>

text \<open>
  The operators of C on \<open>xxh_u64x2\<close> are fields too. \<open>vec_mulo\<close> and \<open>vec_mule\<close> are the instructions
  \<open>vmulouw\<close> and \<open>vmuleuw\<close>, which number the words from the high end. \<open>big\<close> is the byte order of the
  machine, in which \<open>XXH_memcpy\<close> moves the elements, and \<open>be\<close> the macro \<open>XXH_VSX_BE\<close>.
\<close>

record 'v vsx =
  vec_of :: "uint64 list \<Rightarrow> 'v"
  vec_lanes :: "'v \<Rightarrow> uint64 list"
  vec_xor :: "'v \<Rightarrow> 'v \<Rightarrow> 'v"
  vec_add :: "'v \<Rightarrow> 'v \<Rightarrow> 'v"
  vec_shl :: "'v \<Rightarrow> 'v \<Rightarrow> 'v"
  vec_shr :: "'v \<Rightarrow> 'v \<Rightarrow> 'v"
  vec_rl :: "'v \<Rightarrow> 'v \<Rightarrow> 'v"
  vec_revb :: "'v \<Rightarrow> 'v"
  vec_mulo :: "'v \<Rightarrow> 'v \<Rightarrow> 'v"
  vec_mule :: "'v \<Rightarrow> 'v \<Rightarrow> 'v"
  vec_permi :: "'v \<Rightarrow> 'v \<Rightarrow> nat \<Rightarrow> 'v"

definition XXH_vec_loadu :: "bool \<Rightarrow> bool \<Rightarrow> 'v vsx \<Rightarrow> byte list \<Rightarrow> 'v" where
  "XXH_vec_loadu big be ops p =
     (let native = (\<lambda>bs. of_bytes (if big then rev (take 8 bs) else take 8 bs) :: uint64);
          ret = vec_of ops [native p, native (drop 8 p)]
      in if be then vec_revb ops ret else ret)"

definition vsx_get :: "'v vsx \<Rightarrow> accs \<Rightarrow> nat \<Rightarrow> 'v" where
  "vsx_get ops acc i = vec_of ops (take 2 (drop (2 * i) acc))"

definition vsx_set :: "'v vsx \<Rightarrow> accs \<Rightarrow> nat \<Rightarrow> 'v \<Rightarrow> accs" where
  "vsx_set ops acc i v = take (2 * i) acc @ vec_lanes ops v @ drop (2 * i + 2) acc"

definition accumulate_vsx :: "'v vsx \<Rightarrow> 'v \<Rightarrow> 'v \<Rightarrow> 'v \<Rightarrow> 'v" where
  "accumulate_vsx ops acc_vec data_vec key_vec =
     (let v32 = vec_of ops [32, 32];
          data_key = vec_xor ops data_vec key_vec;
          shuffled = vec_rl ops data_key v32;
          product = vec_mulo ops data_key shuffled;
          acc_vec = vec_add ops acc_vec product
      in vec_add ops acc_vec (vec_permi ops data_vec data_vec 2))"

definition XXH3_accumulate_512_vsx :: "bool \<Rightarrow> bool \<Rightarrow> 'v vsx \<Rightarrow> f_accumulate_512" where
  "XXH3_accumulate_512_vsx big be ops acc input secret =
     foldl (\<lambda>acc i. vsx_set ops acc i
         (accumulate_vsx ops (vsx_get ops acc i) (XXH_vec_loadu big be ops (drop (16 * i) input)) (XXH_vec_loadu big be ops (drop (16 * i) secret))))
       acc [0..<XXH_STRIPE_LEN div 16]"

text \<open>Two elements of 32 bits, equal to \<open>x\<close>, in one of 64 bits.\<close>

definition u32x2 :: "uint32 \<Rightarrow> uint64" where
  "u32x2 x = push_bit 32 (ucast x) OR ucast x"

definition scramble_vsx :: "'v vsx \<Rightarrow> 'v \<Rightarrow> 'v \<Rightarrow> 'v" where
  "scramble_vsx ops acc_vec key_vec =
     (let v32 = vec_of ops [32, 32];
          v47 = vec_of ops [47, 47];
          prime = vec_of ops [u32x2 XXH_PRIME32_1, u32x2 XXH_PRIME32_1];
          data_vec = vec_xor ops acc_vec (vec_shr ops acc_vec v47);
          data_key = vec_xor ops data_vec key_vec;
          prod_even = vec_mule ops data_key prime;
          prod_odd = vec_mulo ops data_key prime
      in vec_add ops prod_odd (vec_shl ops prod_even v32))"

definition XXH3_scrambleAcc_vsx :: "bool \<Rightarrow> bool \<Rightarrow> 'v vsx \<Rightarrow> f_scrambleAcc" where
  "XXH3_scrambleAcc_vsx big be ops acc secret =
     foldl (\<lambda>acc i. vsx_set ops acc i (scramble_vsx ops (vsx_get ops acc i) (XXH_vec_loadu big be ops (drop (16 * i) secret))))
       acc [0..<XXH_STRIPE_LEN div 16]"

section \<open>The choice of the kernels\<close>

text \<open>
  \<open>XXH_VECTOR\<close>, with the intrinsics of the target; \<open>XXH3_NEON_LANES\<close>, the byte order and \<open>XXH_VSX_BE\<close> are set
  with it. With a positive \<open>XXH_SIZE_OPT\<close> the secret of a seed is always made by the scalar function.
\<close>

datatype ('v, 'q, 'd) XXH_VECTOR_TYPE =
    XXH_SCALAR
  | XXH_SSE2 "'v x86"
  | XXH_AVX2 "'v x86"
  | XXH_AVX512 "'v x86"
  | XXH_NEON nat "('q, 'd) neon"
  | XXH_VSX bool bool "'v vsx"

fun XXH3_accumulate_512 :: "('v, 'q, 'd) XXH_VECTOR_TYPE \<Rightarrow> f_accumulate_512" where
  "XXH3_accumulate_512 (XXH_AVX512 ops) = XXH3_accumulate_512_avx512 ops"
| "XXH3_accumulate_512 (XXH_AVX2 ops) = XXH3_accumulate_512_avx2 ops"
| "XXH3_accumulate_512 (XXH_SSE2 ops) = XXH3_accumulate_512_sse2 ops"
| "XXH3_accumulate_512 (XXH_NEON n ops) = XXH3_accumulate_512_neon n ops"
| "XXH3_accumulate_512 (XXH_VSX big be ops) = XXH3_accumulate_512_vsx big be ops"
| "XXH3_accumulate_512 XXH_SCALAR = XXH3_accumulate_512_scalar"

fun XXH3_scrambleAcc :: "('v, 'q, 'd) XXH_VECTOR_TYPE \<Rightarrow> f_scrambleAcc" where
  "XXH3_scrambleAcc (XXH_AVX512 ops) = XXH3_scrambleAcc_avx512 ops"
| "XXH3_scrambleAcc (XXH_AVX2 ops) = XXH3_scrambleAcc_avx2 ops"
| "XXH3_scrambleAcc (XXH_SSE2 ops) = XXH3_scrambleAcc_sse2 ops"
| "XXH3_scrambleAcc (XXH_NEON n ops) = XXH3_scrambleAcc_neon n ops"
| "XXH3_scrambleAcc (XXH_VSX big be ops) = XXH3_scrambleAcc_vsx big be ops"
| "XXH3_scrambleAcc XXH_SCALAR = XXH3_scrambleAcc_scalar"

definition XXH3_initCustomSecret :: "nat \<Rightarrow> ('v, 'q, 'd) XXH_VECTOR_TYPE \<Rightarrow> f_initCustomSecret" where
  "XXH3_initCustomSecret size_opt vec =
     (if 1 \<le> size_opt then XXH3_initCustomSecret_scalar
      else
        case vec of
          XXH_AVX512 ops \<Rightarrow> XXH3_initCustomSecret_avx512 ops
        | XXH_AVX2 ops \<Rightarrow> XXH3_initCustomSecret_avx2 ops
        | XXH_SSE2 ops \<Rightarrow> XXH3_initCustomSecret_sse2 ops
        | _ \<Rightarrow> XXH3_initCustomSecret_scalar)"

end
