(* ===== verification/Xxh3SimdCorrect.thy ===== *)
theory Xxh3SimdCorrect
  imports Xxh3Simd Xxh128
begin

text \<open>
  The vector kernels compute what the scalar kernels compute, from what the intrinsics are
  documented to do, lane by lane; so the long hashes are the same on every machine.
\<close>

section \<open>The scalar kernels, lane by lane\<close>

definition lane_key :: "byte list \<Rightarrow> byte list \<Rightarrow> nat \<Rightarrow> uint64" where
  "lane_key input secret i = XXH_readLE64 (drop (8 * i) input) XOR XXH_readLE64 (drop (8 * i) secret)"

definition lane_acc :: "byte list \<Rightarrow> byte list \<Rightarrow> uint64 \<Rightarrow> nat \<Rightarrow> uint64" where
  "lane_acc input secret a i =
     a + XXH_readLE64 (drop (8 * (i XOR 1)) input) +
     XXH_mult32to64 (lane_key input secret i) (drop_bit 32 (lane_key input secret i))"

definition lane_scramble :: "byte list \<Rightarrow> uint64 \<Rightarrow> nat \<Rightarrow> uint64" where
  "lane_scramble secret a i = (XXH_xorshift64 a 47 XOR XXH_readLE64 (drop (8 * i) secret)) * ucast XXH_PRIME32_1"

definition lane_secret :: "uint64 \<Rightarrow> nat \<Rightarrow> uint64" where
  "lane_secret seed i = XXH_readLE64 (drop (8 * i) XXH3_kSecret) + (if even i then seed else - seed)"

lemma mult32to64_low: "XXH_mult32to64 (x AND 0xFFFFFFFF) y = XXH_mult32to64 x y"
  by (rule word_eq_unatI) (simp add: mult32to64 low32)

lemma length_8:
  assumes "length acc = 8"
  obtains a b c d e f g h where "acc = [a, b, c, d, e, f, g, h]"
  using assms by (auto simp: numeral_eq_Suc length_Suc_conv)

lemma eight_from:
  fixes d p :: "nat \<Rightarrow> uint64"
  assumes "length acc = 8" "n \<in> {0, 2, 4, 6, 8}"
  shows "foldl (\<lambda>acc i. let acc = acc[i XOR 1 := acc ! (i XOR 1) + d i] in acc[i := acc ! i + p i]) acc [n..<8] =
      take n acc @ map (\<lambda>i. acc ! i + d (i XOR 1) + p i) [n..<8]"
    and "foldl (\<lambda>acc i. acc[i := r (acc ! i) i]) acc [n..<8] = take n acc @ map (\<lambda>i. r (acc ! i) i) [n..<8]"
proof -
  obtain a b c d e f g h where acc: "acc = [a, b, c, d, e, f, g, h]" by (rule length_8 [OF assms(1)])
  have upt: "[0..<8] = [0, 1, 2, 3, 4, 5, 6, 7]" "[2..<8] = [2, 3, 4, 5, 6, 7]" "[4..<8] = [4, 5, 6, 7]" "[6..<8] = [6, 7 :: nat]"
    by (simp_all add: upt_rec)
  show "foldl (\<lambda>acc i. let acc = acc[i XOR 1 := acc ! (i XOR 1) + d i] in acc[i := acc ! i + p i]) acc [n..<8] =
      take n acc @ map (\<lambda>i. acc ! i + d (i XOR 1) + p i) [n..<8]" for d p :: "nat \<Rightarrow> uint64"
    using assms(2) by (elim insertE emptyE) (simp_all add: acc upt add_ac)
  show "foldl (\<lambda>acc i. acc[i := r (acc ! i) i]) acc [n..<8] = take n acc @ map (\<lambda>i. r (acc ! i) i) [n..<8]"
    using assms(2) by (elim insertE emptyE) (simp_all add: acc upt)
qed

lemma scalar_from:
  assumes "length acc = 8" "n \<in> {0, 2, 4, 6, 8}"
  shows "foldl (\<lambda>acc i. XXH3_scalarRound acc input secret i) acc [n..<8] =
      take n acc @ map (\<lambda>i. lane_acc input secret (acc ! i) i) [n..<8]"
    and "foldl (\<lambda>acc i. XXH3_scalarScrambleRound acc secret i) acc [n..<8] =
      take n acc @ map (\<lambda>i. lane_scramble secret (acc ! i) i) [n..<8]"
proof -
  let ?d = "\<lambda>i. XXH_readLE64 (drop (8 * i) input)" and ?p = "\<lambda>i. XXH_mult32to64 (lane_key input secret i) (drop_bit 32 (lane_key input secret i))"
  have "XXH3_scalarRound acc input secret i = (let acc = acc[i XOR 1 := acc ! (i XOR 1) + ?d i] in acc[i := acc ! i + ?p i])" for acc i
    by (simp add: XXH3_scalarRound_def Let_def mult32to64_low lane_key_def mult.commute)
  then show "foldl (\<lambda>acc i. XXH3_scalarRound acc input secret i) acc [n..<8] =
      take n acc @ map (\<lambda>i. lane_acc input secret (acc ! i) i) [n..<8]"
    using eight_from(1) [OF assms, of ?d ?p] by (simp only: lane_acc_def)
  have "XXH3_scalarScrambleRound acc secret i = acc[i := lane_scramble secret (acc ! i) i]" for acc i
    by (simp add: XXH3_scalarScrambleRound_def Let_def lane_scramble_def mult.commute)
  then show "foldl (\<lambda>acc i. XXH3_scalarScrambleRound acc secret i) acc [n..<8] =
      take n acc @ map (\<lambda>i. lane_scramble secret (acc ! i) i) [n..<8]"
    using eight_from(2) [OF assms, of "lane_scramble secret"] by (simp only:)
qed

lemma scalar_lanes:
  assumes "length acc = 8"
  shows "XXH3_accumulate_512_scalar acc input secret = map (\<lambda>i. lane_acc input secret (acc ! i) i) [0..<8]"
    and "XXH3_scrambleAcc_scalar acc secret = map (\<lambda>i. lane_scramble secret (acc ! i) i) [0..<8]"
  using scalar_from [OF assms, of 0]
  by (simp_all add: XXH3_accumulate_512_scalar_def XXH3_scrambleAcc_scalar_def XXH_ACC_NB_def XXH_STRIPE_LEN_def)

section \<open>Loops over registers\<close>

lemma blocks_loop:
  assumes "\<And>i x. length x = w \<Longrightarrow> length (g i x) = w" "w * m \<le> length acc"
  shows "foldl (\<lambda>acc i. take (w * i) acc @ g i (take w (drop (w * i) acc)) @ drop (w * i + w) acc) acc [0..<m] =
    concat (map (\<lambda>i. g i (take w (drop (w * i) acc))) [0..<m]) @ drop (w * m) acc"
  using assms(2)
proof (induction m)
  case (Suc m)
  let ?c = "concat (map (\<lambda>i. g i (take w (drop (w * i) acc))) [0..<m])"
  have "length ?c = w * m"
    using Suc.prems assms(1) by (simp add: length_concat comp_def) (induction m, simp_all)
  then show ?case using Suc by (simp add: add.commute)
qed simp

lemma concat_lanes: "concat (map (\<lambda>i. map (\<lambda>k. F (w * i + k)) [0..<w]) [0..<m]) = map F [0..<w * m]"
proof (induction m)
  case (Suc m)
  have "map (\<lambda>k. F (w * m + k)) [0..<w] = map F [w * m..<w * m + w]"
    by (rule nth_equalityI) simp_all
  moreover have "[0..<w * Suc m] = [0..<w * m] @ [w * m..<w * m + w]"
    using upt_add_eq_append [of 0 "w * m" w] by (simp add: add.commute)
  ultimately show ?case using Suc by simp
qed simp

lemma concat_map_concat: "concat (map f (concat xss)) = concat (map (\<lambda>xs. concat (map f xs)) xss)"
  by (induction xss) simp_all

lemma offset: "8 * k + 8 * w * i = 8 * (w * i + k :: nat)"
  by (simp add: algebra_simps)

lemma offset_2: "8 * k + 16 * i = 8 * (2 * i + k :: nat)" "8 * k + i * 16 = 8 * (2 * i + k :: nat)"
  by simp_all

lemma xor_1_block: "even w \<Longrightarrow> (w * i + k) XOR 1 = w * i + (k XOR 1 :: nat)"
  by (auto simp: xor_Suc_0_eq elim!: oddE)

lemma xor_1_less: "even w \<Longrightarrow> k < w \<Longrightarrow> k XOR 1 < (w :: nat)"
  by (auto simp: xor_Suc_0_eq elim!: evenE)

lemma register_loop:
  assumes "w * m \<le> length acc"
    and "\<And>i x. length x = w \<Longrightarrow> length (g i x) = w"
    and "\<And>i. i < m \<Longrightarrow> g i (take w (drop (w * i) acc)) = map (\<lambda>k. F (w * i + k)) [0..<w]"
  shows "foldl (\<lambda>acc i. take (w * i) acc @ g i (take w (drop (w * i) acc)) @ drop (w * i + w) acc) acc [0..<m] =
    map F [0..<w * m] @ drop (w * m) acc"
proof -
  have "concat (map (\<lambda>i. g i (take w (drop (w * i) acc))) [0..<m]) = concat (map (\<lambda>i. map (\<lambda>k. F (w * i + k)) [0..<w]) [0..<m])"
    using assms(3) by (intro arg_cong [of _ _ concat] map_cong) simp_all
  then show ?thesis using blocks_loop [of w g m acc, OF assms(2,1)] by (simp add: concat_lanes)
qed

text \<open>
  Registers of \<open>w\<close> elements: \<open>rd\<close> and \<open>ls\<close> move them from and to memory. A loop over an array of
  registers that computes each element of the result from the element with its number.
\<close>

locale registers =
  fixes rd :: "uint64 list \<Rightarrow> 'v" and ls :: "'v \<Rightarrow> uint64 list" and w :: nat
  assumes even_width: "even w"
    and length_ls [simp]: "length (ls v) = w"
    and ls_rd [simp]: "length xs = w \<Longrightarrow> ls (rd xs) = xs"
begin

lemma array_loop:
  assumes "w * m \<le> length acc"
    and "\<And>i k v. i < m \<Longrightarrow> k < w \<Longrightarrow> ls (step i v) ! k = F (ls v ! k) (w * i + k)"
  shows "foldl (\<lambda>acc i. take (w * i) acc @ ls (step i (rd (take w (drop (w * i) acc)))) @ drop (w * i + w) acc) acc [0..<m] =
    map (\<lambda>j. F (acc ! j) j) [0..<w * m] @ drop (w * m) acc"
proof (rule register_loop [where g = "\<lambda>i x. ls (step i (rd x))"])
  fix i assume i: "i < m"
  then have "w * Suc i \<le> w * m" by (intro mult_le_mono2) simp
  then have len: "length (take w (drop (w * i) acc)) = w" "w * i \<le> length acc" using assms(1) by simp_all
  show "ls (step i (rd (take w (drop (w * i) acc)))) = map (\<lambda>k. F (acc ! (w * i + k)) (w * i + k)) [0..<w]"
    using i len by (intro nth_equalityI) (simp_all add: assms(2) ls_rd [OF len(1)])
qed (simp_all add: assms(1))

lemma xor_1: "i < w \<Longrightarrow> i XOR 1 < w"
  using even_width by (rule xor_1_less)

lemma xor_1_lane: "(w * i + k) XOR 1 = w * i + (k XOR 1)"
  using even_width by (rule xor_1_block)

end

section \<open>Halves of an element\<close>

lemma mult32to64_cong:
  "(ucast x :: uint32) = ucast x' \<Longrightarrow> (ucast y :: uint32) = ucast y' \<Longrightarrow> XXH_mult32to64 x y = XXH_mult32to64 x' y'"
  by (simp add: XXH_mult32to64_def)

lemma unat_low: "unat (ucast x :: uint32) = unat (x :: uint64) mod 2 ^ 32"
  by (simp add: unsigned_ucast_eq take_bit_eq_mod)

lemma unat_high: "unat (drop_bit 32 x :: uint64) = unat x div 2 ^ 32"
  by (simp only: unat_drop_bit_eq) (simp add: drop_bit_eq_div)

lemma halves_eq:
  assumes "(ucast x :: uint32) = ucast y" "(ucast (drop_bit 32 x) :: uint32) = ucast (drop_bit 32 y)"
  shows "x = (y :: uint64)"
proof (rule word_eq_unatI)
  have small: "unat z div 2 ^ 32 < 2 ^ 32" for z :: uint64 using unat_bound64 [of z] by (simp add: less_mult_imp_div_less)
  have lo: "unat x mod 2 ^ 32 = unat y mod 2 ^ 32" using arg_cong [OF assms(1), of unat] by (simp only: unat_low)
  have "unat x div 2 ^ 32 mod 2 ^ 32 = unat y div 2 ^ 32 mod 2 ^ 32"
    using arg_cong [OF assms(2), of unat] by (simp add: unat_low unat_high)
  then have hi: "unat x div 2 ^ 32 = unat y div 2 ^ 32" using small [of x] small [of y] by (simp only: mod_less)
  have "unat x = unat x div 2 ^ 32 * 2 ^ 32 + unat x mod 2 ^ 32" by (simp only: div_mult_mod_eq)
  also have "\<dots> = unat y div 2 ^ 32 * 2 ^ 32 + unat y mod 2 ^ 32" by (simp only: lo hi)
  also have "\<dots> = unat y" by (simp only: div_mult_mod_eq)
  finally show "unat x = unat y" .
qed

text \<open>The product with a prime of 32 bits from its two halves, as the kernels compute it.\<close>

lemma mult_halves:
  "XXH_mult32to64 x (ucast p) + push_bit 32 (XXH_mult32to64 (drop_bit 32 x) (ucast p)) = x * ucast (p :: uint32)"
proof (rule word_eq_unatI)
  let ?lo = "unat x mod 2 ^ 32" and ?hi = "unat x div 2 ^ 32" and ?p = "unat p"
  have small: "?p < 2 ^ 32" using unsigned_less [of p] by simp
  then have p32: "?p mod 2 ^ 32 = ?p" by simp
  have p: "unat (ucast p :: uint64) = ?p" using small by (simp only: unsigned_ucast_eq) (rule take_bit_nat_eq_self, simp)
  have hi: "?hi mod 2 ^ 32 = ?hi" using unat_bound64 [of x] by (simp add: less_mult_imp_div_less)
  have "unat (XXH_mult32to64 x (ucast p) + push_bit 32 (XXH_mult32to64 (drop_bit 32 x) (ucast p))) =
      (?lo * ?p + ?hi * ?p * 2 ^ 32) mod 2 ^ 64"
    by (simp only: push_bit_eq_mult unat_word_ariths mult32to64 unat_high p p32 hi unat_pow2)
      (simp add: mod_simps)
  also have "?lo * ?p + ?hi * ?p * 2 ^ 32 = (?hi * 2 ^ 32 + ?lo) * ?p" by (simp only: algebra_simps)
  also have "?hi * 2 ^ 32 + ?lo = unat x" by (simp only: div_mult_mod_eq)
  also have "unat x * ?p mod 2 ^ 64 = unat (x * ucast p)" by (simp add: unat_word_ariths p)
  finally show "unat (XXH_mult32to64 x (ucast p) + push_bit 32 (XXH_mult32to64 (drop_bit 32 x) (ucast p))) = unat (x * ucast p)" .
qed

lemma low_of_ucast: "ucast (ucast p :: uint64) = (p :: uint32)"
  by (rule bit_word_eqI) (simp add: bit_unsigned_iff)

section \<open>x86\<close>

text \<open>The element \<open>j\<close> of a register seen as elements of 32 bits.\<close>

definition dword :: "uint64 list \<Rightarrow> nat \<Rightarrow> uint32" where
  "dword ls j = ucast (drop_bit (32 * (j mod 2)) (ls ! (j div 2)))"

locale x86_intrinsics = registers "of_lanes ops" "lanes ops" w
  for ops :: "'v x86" and w :: nat +
  assumes shuffle_imm: "mm_shuffle ops n3 n2 n1 n0 = 64 * n3 + 16 * n2 + 4 * n1 + n0"
    and lanes_set_epi64x: "length xs = w \<Longrightarrow> lanes ops (set_epi64x ops xs) = rev xs"
    and lanes_xor: "i < w \<Longrightarrow> lanes ops (xor_si ops a b) ! i = lanes ops a ! i XOR lanes ops b ! i"
    and lanes_add: "i < w \<Longrightarrow> lanes ops (add_epi64 ops a b) ! i = lanes ops a ! i + lanes ops b ! i"
    and lanes_srli: "i < w \<Longrightarrow> lanes ops (srli_epi64 ops a k) ! i = drop_bit k (lanes ops a ! i)"
    and lanes_slli: "i < w \<Longrightarrow> lanes ops (slli_epi64 ops a k) ! i = push_bit k (lanes ops a ! i)"
    and lanes_shuffle: "j < 2 * w \<Longrightarrow>
      dword (lanes ops (shuffle_epi32 ops a imm)) j = dword (lanes ops a) (4 * (j div 4) + imm div 4 ^ (j mod 4) mod 4)"
    and lanes_mul: "i < w \<Longrightarrow> lanes ops (mul_epu32 ops a b) ! i =
      ucast (dword (lanes ops a) (2 * i)) * ucast (dword (lanes ops b) (2 * i))"
    and lanes_set1_epi32: "j < 2 * w \<Longrightarrow> dword (lanes ops (set1_epi32 ops c)) j = c"
begin

lemma mul: "i < w \<Longrightarrow> lanes ops (mul_epu32 ops a b) ! i = XXH_mult32to64 (lanes ops a ! i) (lanes ops b ! i)"
  by (simp add: lanes_mul dword_def XXH_mult32to64_def)

lemma dword_halves: "dword ls (2 * i) = ucast (ls ! i)" "dword ls (Suc (2 * i)) = ucast (drop_bit 32 (ls ! i))"
  by (simp_all add: dword_def)

lemma shuffle_high:
  assumes "i < w"
  shows "(ucast (lanes ops (shuffle_epi32 ops a (mm_shuffle ops 0 3 0 1)) ! i) :: uint32) = ucast (drop_bit 32 (lanes ops a ! i))"
proof -
  have "4 * (2 * i div 4) + mm_shuffle ops 0 3 0 1 div 4 ^ (2 * i mod 4) mod 4 = Suc (2 * i)"
  proof (cases "even i")
    case True
    then obtain n where "i = 2 * n" by (rule evenE)
    then show ?thesis by (simp add: shuffle_imm)
  next
    case False
    then obtain n where i: "i = 2 * n + 1" by (rule oddE)
    have "2 * i div 4 = n" "2 * i mod 4 = 2" unfolding i by presburger+
    then show ?thesis by (simp add: shuffle_imm i)
  qed
  then show ?thesis using assms lanes_shuffle [of "2 * i" a "mm_shuffle ops 0 3 0 1"] by (simp add: dword_halves)
qed

lemma shuffle_swap:
  assumes "i < w"
  shows "lanes ops (shuffle_epi32 ops a (mm_shuffle ops 1 0 3 2)) ! i = lanes ops a ! (i XOR 1)"
proof -
  have n: "4 * (2 * i div 4) + mm_shuffle ops 1 0 3 2 div 4 ^ (2 * i mod 4) mod 4 = 2 * (i XOR 1) \<and>
      4 * (Suc (2 * i) div 4) + mm_shuffle ops 1 0 3 2 div 4 ^ (Suc (2 * i) mod 4) mod 4 = Suc (2 * (i XOR 1))"
  proof (cases "even i")
    case True
    then obtain n where i: "i = 2 * n" by (rule evenE)
    have "Suc (2 * i) = 1 + 4 * n" by (simp add: i)
    then show ?thesis by (simp add: shuffle_imm i xor_Suc_0_eq)
  next
    case False
    then obtain n where i: "i = 2 * n + 1" by (rule oddE)
    have "2 * i div 4 = n" "2 * i mod 4 = 2" "Suc (2 * i) div 4 = n" "Suc (2 * i) mod 4 = 3" unfolding i by presburger+
    moreover have "i XOR 1 = 2 * n" by (simp add: i xor_Suc_0_eq)
    ultimately show ?thesis by (simp add: shuffle_imm)
  qed
  show ?thesis
    using assms n lanes_shuffle [of "2 * i" a "mm_shuffle ops 1 0 3 2"] lanes_shuffle [of "Suc (2 * i)" a "mm_shuffle ops 1 0 3 2"]
    by (intro halves_eq) (simp_all add: dword_halves)
qed

lemma lane_accumulate:
  assumes "i < w"
  shows "lanes ops (accumulate_x86 ops a d k) ! i =
    lanes ops a ! i + lanes ops d ! (i XOR 1) +
    XXH_mult32to64 (lanes ops d ! i XOR lanes ops k ! i) (drop_bit 32 (lanes ops d ! i XOR lanes ops k ! i))"
  using assms
  by (simp add: accumulate_x86_def Let_def lanes_add shuffle_swap mul lanes_xor
      mult32to64_cong [OF refl shuffle_high] del: One_nat_def)

lemma lane_scramble_x86:
  assumes "i < w"
  shows "lanes ops (scramble_x86 ops (set1_epi32 ops p) a k) ! i = (XXH_xorshift64 (lanes ops a ! i) 47 XOR lanes ops k ! i) * ucast p"
proof -
  have p: "(ucast (lanes ops (set1_epi32 ops p) ! i) :: uint32) = ucast (ucast p :: uint64)"
    using lanes_set1_epi32 [of "2 * i" p] assms by (simp add: dword_halves low_of_ucast)
  let ?x = "xor_si ops (xor_si ops a (srli_epi64 ops a 47)) k"
  have "lanes ops (scramble_x86 ops (set1_epi32 ops p) a k) ! i = lanes ops ?x ! i * ucast p"
    using assms
    by (simp add: scramble_x86_def Let_def lanes_add lanes_slli mul
        mult32to64_cong [OF shuffle_high refl] mult32to64_cong [OF refl p] mult_halves del: One_nat_def)
  then show ?thesis using assms by (simp add: lanes_xor lanes_srli XXH_xorshift64_def)
qed

lemma lanes_loadu: "i < w \<Longrightarrow> lanes ops (loadu_si ops w p) ! i = XXH_readLE64 (drop (8 * i) p)"
  by (simp add: loadu_si_def)

text \<open>The loops over the registers of an array of accumulators, and the loop that makes the secret.\<close>

lemma accumulate_loop:
  assumes "length acc = w * m"
  shows "foldl (\<lambda>acc i. xacc_set ops w acc i
      (accumulate_x86 ops (xacc_get ops w acc i) (loadu_si ops w (drop (8 * w * i) input)) (loadu_si ops w (drop (8 * w * i) secret))))
    acc [0..<m] = map (\<lambda>j. lane_acc input secret (acc ! j) j) [0..<w * m]"
proof -
  have "lanes ops (accumulate_x86 ops v (loadu_si ops w (drop (8 * w * i) input)) (loadu_si ops w (drop (8 * w * i) secret))) ! k =
      lane_acc input secret (lanes ops v ! k) (w * i + k)" if "k < w" for i k v
    using that xor_1 [OF that]
    by (simp add: lane_accumulate lanes_loadu lane_acc_def lane_key_def xor_1_lane offset del: One_nat_def)
  from array_loop [of m acc "\<lambda>i v. accumulate_x86 ops v (loadu_si ops w (drop (8 * w * i) input)) (loadu_si ops w (drop (8 * w * i) secret))"
      "lane_acc input secret", OF _ this]
  show ?thesis using assms by (simp add: xacc_set_def xacc_get_def)
qed

lemma scramble_loop:
  assumes "length acc = w * m"
  shows "foldl (\<lambda>acc i. xacc_set ops w acc i
      (scramble_x86 ops (set1_epi32 ops XXH_PRIME32_1) (xacc_get ops w acc i) (loadu_si ops w (drop (8 * w * i) secret))))
    acc [0..<m] = map (\<lambda>j. lane_scramble secret (acc ! j) j) [0..<w * m]"
proof -
  have "lanes ops (scramble_x86 ops (set1_epi32 ops XXH_PRIME32_1) v (loadu_si ops w (drop (8 * w * i) secret))) ! k =
      lane_scramble secret (lanes ops v ! k) (w * i + k)" if "k < w" for i k v
    using that by (simp add: lane_scramble_x86 lanes_loadu lane_scramble_def offset)
  from array_loop [of m acc "\<lambda>i v. scramble_x86 ops (set1_epi32 ops XXH_PRIME32_1) v (loadu_si ops w (drop (8 * w * i) secret))"
      "lane_scramble secret", OF _ this]
  show ?thesis using assms by (simp add: xacc_set_def xacc_get_def)
qed

lemma init_loop:
  assumes "\<And>k. k < w \<Longrightarrow> lanes ops seed ! k = (if even k then seed64 else - seed64)"
  shows "concat (map (\<lambda>i. concat (map to_bytes (lanes ops (add_epi64 ops (loadu_si ops w (drop (8 * w * i) XXH3_kSecret)) seed)))) [0..<m]) =
    concat (map (\<lambda>i. to_bytes (lane_secret seed64 i)) [0..<w * m])"
proof -
  have "lanes ops (add_epi64 ops (loadu_si ops w (drop (8 * w * i) XXH3_kSecret)) seed) = map (\<lambda>k. lane_secret seed64 (w * i + k)) [0..<w]" for i
    using even_width
    by (intro nth_equalityI) (simp_all add: lanes_add lanes_loadu assms lane_secret_def offset)
  then have "concat (map (\<lambda>i. concat (map to_bytes (lanes ops (add_epi64 ops (loadu_si ops w (drop (8 * w * i) XXH3_kSecret)) seed)))) [0..<m]) =
      concat (map to_bytes (concat (map (\<lambda>i. map (\<lambda>k. lane_secret seed64 (w * i + k)) [0..<w]) [0..<m])))"
    by (simp add: concat_map_concat comp_def)
  then show ?thesis by (simp add: concat_lanes comp_def)
qed

end

locale avx512_intrinsics = x86_intrinsics ops 8 for ops :: "'v x86" +
  assumes lanes_set1_epi64: "i < 8 \<Longrightarrow> lanes ops (set1_epi64 ops x) ! i = x"
    and lanes_set1_epi8: "i < 8 \<Longrightarrow> lanes ops (set1_epi8 ops c) ! i = of_bytes (replicate 8 c)"
    and lanes_mask_sub: "i < 8 \<Longrightarrow> lanes ops (mask_sub_epi64 ops src k a b) ! i =
      (if bit k i then lanes ops a ! i - lanes ops b ! i else lanes ops src ! i)"

section \<open>NEON\<close>

locale neon_intrinsics = registers "q_of ops" "q_lanes ops" 2
  for ops :: "('q, 'd) neon" +
  assumes q_ext: "k < 2 \<Longrightarrow> q_lanes ops (vextq_u64 ops a b k) = take 2 (drop k (q_lanes ops a @ q_lanes ops b))"
    and q_eor: "i < 2 \<Longrightarrow> q_lanes ops (veorq_u64 ops a b) ! i = q_lanes ops a ! i XOR q_lanes ops b ! i"
    and q_add: "i < 2 \<Longrightarrow> q_lanes ops (vaddq_u64 ops a b) ! i = q_lanes ops a ! i + q_lanes ops b ! i"
    and q_shr: "i < 2 \<Longrightarrow> q_lanes ops (vshrq_n_u64 ops a k) ! i = drop_bit k (q_lanes ops a ! i)"
    and q_shl: "i < 2 \<Longrightarrow> q_lanes ops (vshlq_n_u64 ops a k) ! i = push_bit k (q_lanes ops a ! i)"
    and d_movn: "i < 2 \<Longrightarrow> d_lanes ops (vmovn_u64 ops a) ! i = ucast (q_lanes ops a ! i)"
    and d_shrn: "i < 2 \<Longrightarrow> d_lanes ops (vshrn_n_u64 ops a k) ! i = ucast (drop_bit k (q_lanes ops a ! i))"
    and d_dup: "i < 2 \<Longrightarrow> d_lanes ops (vdup_n_u32 ops c) ! i = c"
    and q_mull: "i < 2 \<Longrightarrow> q_lanes ops (vmull_u32 ops d e) ! i = ucast (d_lanes ops d ! i) * ucast (d_lanes ops e ! i)"
    and q_mlal: "i < 2 \<Longrightarrow> q_lanes ops (vmlal_u32 ops a d e) ! i =
      q_lanes ops a ! i + ucast (d_lanes ops d ! i) * ucast (d_lanes ops e ! i)"
begin

lemma ext_swap:
  assumes "i < 2"
  shows "q_lanes ops (vextq_u64 ops a a 1) ! i = q_lanes ops a ! (i XOR 1)"
proof -
  obtain x y where a: "q_lanes ops a = [x, y]" using length_ls [of a] by (cases "q_lanes ops a"; cases "tl (q_lanes ops a)") auto
  have "q_lanes ops (vextq_u64 ops a a 1) = [y, x]" using q_ext [of 1 a a] by (simp add: a)
  then show ?thesis using assms by (auto simp: a less_2_cases_iff)
qed

lemma lane_accumulate:
  assumes "i < 2"
  shows "q_lanes ops (accumulate_neon ops a d k) ! i =
    q_lanes ops a ! i + q_lanes ops d ! (i XOR 1) +
    XXH_mult32to64 (q_lanes ops d ! i XOR q_lanes ops k ! i) (drop_bit 32 (q_lanes ops d ! i XOR q_lanes ops k ! i))"
  using assms
  by (simp add: accumulate_neon_def XXH_SPLIT_IN_PLACE_def Let_def q_add q_mlal ext_swap d_movn d_shrn q_eor
      XXH_mult32to64_def add.assoc del: One_nat_def)

lemma lane_scramble_neon:
  assumes "i < 2"
  shows "q_lanes ops (scramble_neon ops (vdup_n_u32 ops p) a k) ! i = (XXH_xorshift64 (q_lanes ops a ! i) 47 XOR q_lanes ops k ! i) * ucast p"
proof -
  let ?x = "veorq_u64 ops (veorq_u64 ops a (vshrq_n_u64 ops a 47)) k"
  have "q_lanes ops (scramble_neon ops (vdup_n_u32 ops p) a k) ! i = q_lanes ops ?x ! i * ucast p"
    using assms mult_halves [of "q_lanes ops ?x ! i" p]
    by (simp add: scramble_neon_def XXH_SPLIT_IN_PLACE_def Let_def q_mlal q_shl q_mull d_movn d_shrn d_dup
        XXH_mult32to64_def low_of_ucast add.commute)
  then show ?thesis using assms by (simp add: q_eor q_shr XXH_xorshift64_def)
qed

lemma lanes_vld1q: "i < 2 \<Longrightarrow> q_lanes ops (XXH_vld1q_u64 ops p) ! i = XXH_readLE64 (drop (8 * i) p)"
  by (auto simp: XXH_vld1q_u64_def less_2_cases_iff)

lemma accumulate_loop:
  assumes "2 * m \<le> length acc"
  shows "foldl (\<lambda>acc i. neon_set ops acc i
      (accumulate_neon ops (neon_get ops acc i) (XXH_vld1q_u64 ops (drop (i * 16) input)) (XXH_vld1q_u64 ops (drop (i * 16) secret))))
    acc [0..<m] = map (\<lambda>j. lane_acc input secret (acc ! j) j) [0..<2 * m] @ drop (2 * m) acc"
proof -
  have "q_lanes ops (accumulate_neon ops v (XXH_vld1q_u64 ops (drop (i * 16) input)) (XXH_vld1q_u64 ops (drop (i * 16) secret))) ! k =
      lane_acc input secret (q_lanes ops v ! k) (2 * i + k)" if "k < 2" for i k v
    using that xor_1 [OF that]
    by (simp add: lane_accumulate lanes_vld1q lane_acc_def lane_key_def xor_1_lane offset_2 del: One_nat_def)
  from array_loop [of m acc "\<lambda>i v. accumulate_neon ops v (XXH_vld1q_u64 ops (drop (i * 16) input)) (XXH_vld1q_u64 ops (drop (i * 16) secret))"
      "lane_acc input secret", OF assms this]
  show ?thesis by (simp add: neon_set_def neon_get_def)
qed

lemma scramble_loop:
  assumes "2 * m \<le> length acc"
  shows "foldl (\<lambda>acc i. neon_set ops acc i
      (scramble_neon ops (vdup_n_u32 ops XXH_PRIME32_1) (neon_get ops acc i) (XXH_vld1q_u64 ops (drop (i * 16) secret))))
    acc [0..<m] = map (\<lambda>j. lane_scramble secret (acc ! j) j) [0..<2 * m] @ drop (2 * m) acc"
proof -
  have "q_lanes ops (scramble_neon ops (vdup_n_u32 ops XXH_PRIME32_1) v (XXH_vld1q_u64 ops (drop (i * 16) secret))) ! k =
      lane_scramble secret (q_lanes ops v ! k) (2 * i + k)" if "k < 2" for i k v
    using that by (simp add: lane_scramble_neon lanes_vld1q lane_scramble_def offset_2)
  from array_loop [of m acc "\<lambda>i v. scramble_neon ops (vdup_n_u32 ops XXH_PRIME32_1) v (XXH_vld1q_u64 ops (drop (i * 16) secret))"
      "lane_scramble secret", OF assms this]
  show ?thesis by (simp add: neon_set_def neon_get_def)
qed

text \<open>The scalar rounds leave the lanes below \<open>n\<close>, which are the ones the registers are loaded from.\<close>

lemma kernels:
  assumes "length acc = 8" "n \<in> {2, 4, 6, 8}"
  shows "XXH3_accumulate_512_neon n ops acc input secret = XXH3_accumulate_512_scalar acc input secret"
    and "XXH3_scrambleAcc_neon n ops acc secret = XXH3_scrambleAcc_scalar acc secret"
proof -
  have n: "n \<in> {0, 2, 4, 6, 8}" "2 * (n div 2) = n" "n \<le> 8" using assms(2) by auto
  have upt: "[0..<8] = [0..<n] @ [n..<8]" using upt_add_eq_append [of 0 n "8 - n"] n(3) by simp
  show "XXH3_accumulate_512_neon n ops acc input secret = XXH3_accumulate_512_scalar acc input secret"
    using n assms(1)
    by (simp add: XXH3_accumulate_512_neon_def XXH_ACC_NB_def XXH_STRIPE_LEN_def scalar_from accumulate_loop scalar_lanes upt nth_append cong: map_cong)
  show "XXH3_scrambleAcc_neon n ops acc secret = XXH3_scrambleAcc_scalar acc secret"
    using n assms(1)
    by (simp add: XXH3_scrambleAcc_neon_def XXH_ACC_NB_def XXH_STRIPE_LEN_def scalar_from scramble_loop scalar_lanes upt nth_append cong: map_cong)
qed

end

section \<open>VSX\<close>

locale vsx_intrinsics = registers "vec_of ops" "vec_lanes ops" 2
  for ops :: "'v vsx" +
  assumes vec_xor: "i < 2 \<Longrightarrow> vec_lanes ops (vec_xor ops a b) ! i = vec_lanes ops a ! i XOR vec_lanes ops b ! i"
    and vec_add: "i < 2 \<Longrightarrow> vec_lanes ops (vec_add ops a b) ! i = vec_lanes ops a ! i + vec_lanes ops b ! i"
    and vec_shl: "i < 2 \<Longrightarrow> vec_lanes ops (vec_shl ops a b) ! i = push_bit (unat (vec_lanes ops b ! i) mod 64) (vec_lanes ops a ! i)"
    and vec_shr: "i < 2 \<Longrightarrow> vec_lanes ops (vec_shr ops a b) ! i = drop_bit (unat (vec_lanes ops b ! i) mod 64) (vec_lanes ops a ! i)"
    and vec_rl: "i < 2 \<Longrightarrow> vec_lanes ops (vec_rl ops a b) ! i =
      XXH_rotl64 (vec_lanes ops a ! i) (unat (vec_lanes ops b ! i) mod 64)"
    and vec_revb: "i < 2 \<Longrightarrow> vec_lanes ops (vec_revb ops a) ! i = of_bytes (rev (to_bytes (vec_lanes ops a ! i)))"
    and vec_mulo: "i < 2 \<Longrightarrow> vec_lanes ops (vec_mulo ops a b) ! i =
      ucast (dword (vec_lanes ops a) (2 * i)) * ucast (dword (vec_lanes ops b) (2 * i))"
    and vec_mule: "i < 2 \<Longrightarrow> vec_lanes ops (vec_mule ops a b) ! i =
      ucast (dword (vec_lanes ops a) (2 * i + 1)) * ucast (dword (vec_lanes ops b) (2 * i + 1))"
    and vec_permi: "i < 2 \<Longrightarrow> vec_lanes ops (vec_permi ops a a 2) ! i = vec_lanes ops a ! (1 - i)"
begin

lemma mulo: "i < 2 \<Longrightarrow> vec_lanes ops (vec_mulo ops a b) ! i = XXH_mult32to64 (vec_lanes ops a ! i) (vec_lanes ops b ! i)"
  by (simp add: vec_mulo dword_def XXH_mult32to64_def)

lemma mule: "i < 2 \<Longrightarrow> vec_lanes ops (vec_mule ops a b) ! i =
    XXH_mult32to64 (drop_bit 32 (vec_lanes ops a ! i)) (drop_bit 32 (vec_lanes ops b ! i))"
  by (simp add: vec_mule dword_def XXH_mult32to64_def)

lemma low_of_rotl32: "(ucast (XXH_rotl64 x 32) :: uint32) = ucast (drop_bit 32 x)"
  by (rule bit_word_eqI) (simp add: XXH_rotl64_def bit_unsigned_iff bit_simps)

lemma lane_accumulate:
  assumes "i < 2"
  shows "vec_lanes ops (accumulate_vsx ops a d k) ! i =
    vec_lanes ops a ! i + vec_lanes ops d ! (i XOR 1) +
    XXH_mult32to64 (vec_lanes ops d ! i XOR vec_lanes ops k ! i) (drop_bit 32 (vec_lanes ops d ! i XOR vec_lanes ops k ! i))"
proof -
  have "[32, 32] ! i = (32 :: uint64)" "1 - i = i XOR 1" using assms by (auto simp: less_2_cases_iff)
  then show ?thesis
    using assms
    by (simp add: accumulate_vsx_def Let_def vec_add mulo vec_rl vec_xor vec_permi mult32to64_cong [OF refl low_of_rotl32]
        del: One_nat_def)
qed

lemma u32x2_halves: "(ucast (u32x2 p) :: uint32) = p" "(ucast (drop_bit 32 (u32x2 p)) :: uint32) = p"
  by (rule bit_word_eqI, auto simp: u32x2_def bit_unsigned_iff bit_simps dest: bit_imp_le_length)+

lemma lane_scramble_vsx:
  assumes "i < 2"
  shows "vec_lanes ops (scramble_vsx ops a k) ! i = (XXH_xorshift64 (vec_lanes ops a ! i) 47 XOR vec_lanes ops k ! i) * ucast XXH_PRIME32_1"
proof -
  have c: "[32, 32] ! i = (32 :: uint64)" "[47, 47] ! i = (47 :: uint64)" "[p, p] ! i = p" for p :: uint64
    using assms by (auto simp: less_2_cases_iff)
  let ?x = "vec_xor ops (vec_xor ops a (vec_shr ops a (vec_of ops [47, 47]))) k"
  have "vec_lanes ops (scramble_vsx ops a k) ! i = vec_lanes ops ?x ! i * ucast XXH_PRIME32_1"
    using assms mult_halves [of "vec_lanes ops ?x ! i" XXH_PRIME32_1]
    by (simp add: scramble_vsx_def Let_def vec_add vec_shl mulo mule c XXH_mult32to64_def u32x2_halves low_of_ucast)
  then show ?thesis using assms by (simp add: vec_xor vec_shr c XXH_xorshift64_def)
qed

lemma lanes_vec_loadu:
  assumes "i < 2" "16 \<le> length p"
  shows "vec_lanes ops (XXH_vec_loadu be be ops p) ! i = XXH_readLE64 (drop (8 * i) p)"
proof -
  have "of_bytes (rev (to_bytes (of_bytes (rev (take 8 bs)) :: uint64))) = XXH_readLE64 bs" if "8 \<le> length bs" for bs
    using that by (simp add: to_of_bytes XXH_readLE64_def XXH_read64_def)
  then show ?thesis
    using assms by (auto simp: XXH_vec_loadu_def Let_def vec_revb less_2_cases_iff XXH_readLE64_def XXH_read64_def)
qed

lemma kernel_accumulate:
  assumes "length acc = 8" "64 \<le> length input" "64 \<le> length secret"
  shows "XXH3_accumulate_512_vsx be be ops acc input secret = XXH3_accumulate_512_scalar acc input secret"
proof -
  have "vec_lanes ops (accumulate_vsx ops v (XXH_vec_loadu be be ops (drop (16 * i) input)) (XXH_vec_loadu be be ops (drop (16 * i) secret))) ! k =
      lane_acc input secret (vec_lanes ops v ! k) (2 * i + k)" if "i < 4" "k < 2" for i k v
    using that xor_1 [OF that(2)] assms
    by (simp add: lane_accumulate lanes_vec_loadu lane_acc_def lane_key_def xor_1_lane offset_2 del: One_nat_def)
  from array_loop [of 4 acc "\<lambda>i v. accumulate_vsx ops v (XXH_vec_loadu be be ops (drop (16 * i) input)) (XXH_vec_loadu be be ops (drop (16 * i) secret))"
      "lane_acc input secret", OF _ this]
  show "XXH3_accumulate_512_vsx be be ops acc input secret = XXH3_accumulate_512_scalar acc input secret"
    using assms by (simp add: XXH3_accumulate_512_vsx_def XXH_STRIPE_LEN_def vsx_set_def vsx_get_def scalar_lanes)
qed

lemma kernel_scramble:
  assumes "length acc = 8" "64 \<le> length secret"
  shows "XXH3_scrambleAcc_vsx be be ops acc secret = XXH3_scrambleAcc_scalar acc secret"
proof -
  have "vec_lanes ops (scramble_vsx ops v (XXH_vec_loadu be be ops (drop (16 * i) secret))) ! k =
      lane_scramble secret (vec_lanes ops v ! k) (2 * i + k)" if "i < 4" "k < 2" for i k v
    using that assms by (simp add: lane_scramble_vsx lanes_vec_loadu lane_scramble_def offset_2)
  from array_loop [of 4 acc "\<lambda>i v. scramble_vsx ops v (XXH_vec_loadu be be ops (drop (16 * i) secret))" "lane_scramble secret", OF _ this]
  show "XXH3_scrambleAcc_vsx be be ops acc secret = XXH3_scrambleAcc_scalar acc secret"
    using assms by (simp add: XXH3_scrambleAcc_vsx_def XXH_STRIPE_LEN_def vsx_set_def vsx_get_def scalar_lanes)
qed

end

section \<open>The kernels of x86\<close>

lemma kernels_sse2:
  assumes "x86_intrinsics ops 2" "length acc = 8"
  shows "XXH3_accumulate_512_sse2 ops acc input secret = XXH3_accumulate_512_scalar acc input secret"
    and "XXH3_scrambleAcc_sse2 ops acc secret = XXH3_scrambleAcc_scalar acc secret"
  using x86_intrinsics.accumulate_loop [OF assms(1), of acc 4 input secret] x86_intrinsics.scramble_loop [OF assms(1), of acc 4 secret]
  by (simp_all add: assms(2) XXH3_accumulate_512_sse2_def XXH3_scrambleAcc_sse2_def scalar_lanes XXH_STRIPE_LEN_def)

lemma kernels_avx2:
  assumes "x86_intrinsics ops 4" "length acc = 8"
  shows "XXH3_accumulate_512_avx2 ops acc input secret = XXH3_accumulate_512_scalar acc input secret"
    and "XXH3_scrambleAcc_avx2 ops acc secret = XXH3_scrambleAcc_scalar acc secret"
  using x86_intrinsics.accumulate_loop [OF assms(1), of acc 2 input secret] x86_intrinsics.scramble_loop [OF assms(1), of acc 2 secret]
  by (simp_all add: assms(2) XXH3_accumulate_512_avx2_def XXH3_scrambleAcc_avx2_def scalar_lanes XXH_STRIPE_LEN_def)

lemma kernels_avx512:
  assumes "x86_intrinsics ops 8" "length acc = 8"
  shows "XXH3_accumulate_512_avx512 ops acc input secret = XXH3_accumulate_512_scalar acc input secret"
    and "XXH3_scrambleAcc_avx512 ops acc secret = XXH3_scrambleAcc_scalar acc secret"
  using x86_intrinsics.accumulate_loop [OF assms(1), of acc 1 input secret] x86_intrinsics.scramble_loop [OF assms(1), of acc 1 secret]
  by (simp_all add: assms(2) XXH3_accumulate_512_avx512_def XXH3_scrambleAcc_avx512_def scalar_lanes)

text \<open>The secret of a seed, element by element.\<close>

lemma initCustomSecret_lanes: "XXH3_initCustomSecret_scalar seed = concat (map (\<lambda>i. to_bytes (lane_secret seed i)) [0..<24])"
proof -
  have "foldl (\<lambda>cs i.
      let lo = XXH_readLE64 (drop (16 * i) XXH3_kSecret) + seed; hi = XXH_readLE64 (drop (16 * i + 8) XXH3_kSecret) - seed;
          cs = XXH_writeLE64 cs (16 * i) lo
      in XXH_writeLE64 cs (16 * i + 8) hi) (replicate 192 0) [0..<m] =
    concat (map (\<lambda>i. to_bytes (lane_secret seed i)) [0..<2 * m]) @ replicate (192 - 16 * m) 0" if "m \<le> 12" for m
    using that
  proof (induction m)
    case (Suc m)
    have "length (concat (map (\<lambda>i. to_bytes (lane_secret seed i)) [0..<k])) = 8 * k" for k
      by (induction k) (simp_all add: sizeof_word_def)
    then show ?case
      using Suc by (simp add: Let_def XXH_writeLE64_def XXH_memcpy_def lane_secret_def sizeof_word_def add.commute [of 8 "16 * m"])
  qed simp
  from this [of 12] show ?thesis by (simp add: XXH3_initCustomSecret_scalar_def XXH_SECRET_DEFAULT_SIZE_def)
qed

lemma initCustomSecret_sse2:
  assumes "x86_intrinsics ops 2"
  shows "XXH3_initCustomSecret_sse2 ops seed = XXH3_initCustomSecret_scalar seed"
proof -
  have "lanes ops (set_epi64x ops [0 - seed, seed]) ! k = (if even k then seed else - seed)" if "k < 2" for k
    using that by (auto simp: x86_intrinsics.lanes_set_epi64x [OF assms] less_2_cases_iff)
  from x86_intrinsics.init_loop [OF assms this, of 12] show ?thesis
    by (simp add: XXH3_initCustomSecret_sse2_def XXH_SECRET_DEFAULT_SIZE_def initCustomSecret_lanes Let_def)
qed

lemma initCustomSecret_avx2:
  assumes "x86_intrinsics ops 4"
  shows "XXH3_initCustomSecret_avx2 ops seed = XXH3_initCustomSecret_scalar seed"
proof -
  have "lanes ops (set_epi64x ops [0 - seed, seed, 0 - seed, seed]) ! k = (if even k then seed else - seed)" if "k < 4" for k
  proof -
    have "k \<in> {0, 1, 2, 3}" using that by auto
    then show ?thesis by (elim insertE emptyE) (simp_all add: x86_intrinsics.lanes_set_epi64x [OF assms])
  qed
  from x86_intrinsics.init_loop [OF assms this, of 6] show ?thesis
    by (simp add: XXH3_initCustomSecret_avx2_def initCustomSecret_lanes Let_def upt_rec)
qed

lemma of_bytes_zeros: "of_bytes (replicate n 0) = 0"
  by (induction n) simp_all

lemma initCustomSecret_avx512:
  assumes "avx512_intrinsics ops"
  shows "XXH3_initCustomSecret_avx512 ops seed = XXH3_initCustomSecret_scalar seed"
proof -
  let ?pos = "set1_epi64 ops seed"
  have "lanes ops (mask_sub_epi64 ops ?pos 0xAA (set1_epi8 ops 0) ?pos) ! k = (if even k then seed else - seed)" if "k < 8" for k
  proof -
    have "k \<in> {7, 6, 5, 4, 3, 2, 1, 0}" using that by (elim byte_position [of k, simplified]) simp
    then have "bit (0xAA :: nat) k \<longleftrightarrow> odd k" by (elim insertE emptyE) (simp_all add: bit_0)
    moreover have "of_bytes (replicate 8 0) = (0 :: uint64)" by (rule of_bytes_zeros)
    ultimately show ?thesis
      using that by (simp add: avx512_intrinsics.lanes_mask_sub [OF assms] avx512_intrinsics.lanes_set1_epi64 [OF assms]
          avx512_intrinsics.lanes_set1_epi8 [OF assms])
  qed
  from x86_intrinsics.init_loop [OF avx512_intrinsics.axioms(1) [OF assms] this, of 3] show ?thesis
    by (simp add: XXH3_initCustomSecret_avx512_def XXH_SECRET_DEFAULT_SIZE_def initCustomSecret_lanes Let_def)
qed

section \<open>Whole inputs\<close>

text \<open>
  The intrinsics of the target do what is documented; \<open>XXH3_NEON_LANES\<close> is what the static assertion of the
  code allows, and \<open>XXH_VSX_BE\<close> tells the byte order of the machine.
\<close>

fun vector_ok :: "('v, 'q, 'd) XXH_VECTOR_TYPE \<Rightarrow> bool" where
  "vector_ok XXH_SCALAR \<longleftrightarrow> True"
| "vector_ok (XXH_SSE2 ops) \<longleftrightarrow> x86_intrinsics ops 2"
| "vector_ok (XXH_AVX2 ops) \<longleftrightarrow> x86_intrinsics ops 4"
| "vector_ok (XXH_AVX512 ops) \<longleftrightarrow> avx512_intrinsics ops"
| "vector_ok (XXH_NEON n ops) \<longleftrightarrow> n \<in> {2, 4, 6, 8} \<and> neon_intrinsics ops"
| "vector_ok (XXH_VSX big be ops) \<longleftrightarrow> (big \<longleftrightarrow> be) \<and> vsx_intrinsics ops"

text \<open>The kernels of a target are those of the scalar version on whole arrays of accumulators and whole stripes.\<close>

definition same_kernels :: "f_accumulate_512 \<Rightarrow> f_scrambleAcc \<Rightarrow> bool" where
  "same_kernels f_acc512 f_scramble \<longleftrightarrow>
     (\<forall>acc input secret. length acc = 8 \<and> 64 \<le> length input \<and> 64 \<le> length secret \<longrightarrow>
        f_acc512 acc input secret = XXH3_accumulate_512_scalar acc input secret) \<and>
     (\<forall>acc secret. length acc = 8 \<and> 64 \<le> length secret \<longrightarrow> f_scramble acc secret = XXH3_scrambleAcc_scalar acc secret)"

lemma same_kernelsD:
  assumes "same_kernels f_acc512 f_scramble" "length acc = 8" "64 \<le> length secret"
  shows "64 \<le> length input \<Longrightarrow> f_acc512 acc input secret = XXH3_accumulate_512_scalar acc input secret"
    and "f_scramble acc secret = XXH3_scrambleAcc_scalar acc secret"
  using assms by (simp_all add: same_kernels_def)

lemma vector_kernels:
  assumes "vector_ok vec"
  shows "same_kernels (XXH3_accumulate_512 vec) (XXH3_scrambleAcc vec)"
  using assms
  by (cases vec)
    (simp_all add: same_kernels_def kernels_sse2 kernels_avx2 kernels_avx512 [OF avx512_intrinsics.axioms(1)]
      neon_intrinsics.kernels vsx_intrinsics.kernel_accumulate vsx_intrinsics.kernel_scramble)

lemma vector_secret:
  assumes "vector_ok vec"
  shows "XXH3_initCustomSecret size_opt vec seed = XXH3_initCustomSecret_scalar seed"
  using assms
  by (cases vec) (simp_all add: XXH3_initCustomSecret_def initCustomSecret_sse2 initCustomSecret_avx2 initCustomSecret_avx512)

lemma same_accumulate:
  assumes "same_kernels f_acc512 f_scramble" "length acc = 8" "64 * n \<le> length input" "8 * n + 56 \<le> length secret"
  shows "XXH3_accumulate acc input secret n f_acc512 = XXH3_accumulate acc input secret n XXH3_accumulate_512_scalar \<and>
    length (XXH3_accumulate acc input secret n XXH3_accumulate_512_scalar) = 8"
  using assms(3,4)
proof (induction n)
  case 0
  show ?case using assms(2) by (simp add: XXH3_accumulate_def)
next
  case (Suc n)
  then have IH: "XXH3_accumulate acc input secret n f_acc512 = XXH3_accumulate acc input secret n XXH3_accumulate_512_scalar"
    "length (XXH3_accumulate acc input secret n XXH3_accumulate_512_scalar) = 8" by simp_all
  have "64 \<le> length (drop (n * 64) input)" "64 \<le> length (drop (n * 8) secret)" using Suc.prems by simp_all
  then show ?case
    using IH same_kernelsD(1) [OF assms(1) IH(2)]
    by (simp add: XXH3_accumulate_def XXH_STRIPE_LEN_def XXH_SECRET_CONSUME_RATE_def scalar_lanes)
qed

lemma same_internal_loop:
  assumes "same_kernels f_acc512 f_scramble" "64 < length input" "72 \<le> length secret"
  shows "XXH3_hashLong_internal_loop XXH3_INIT_ACC input secret f_acc512 f_scramble =
    XXH3_hashLong_internal_loop XXH3_INIT_ACC input secret XXH3_accumulate_512_scalar XXH3_scrambleAcc_scalar"
proof -
  define k where "k = (length secret - 64) div 8"
  define nb where "nb = (length input - 1) div (64 * k)"
  have k: "0 < k" "8 * k + 64 \<le> length secret" using assms(3) by (auto simp: k_def)
  have nb: "nb * (64 * k) \<le> length input - 1" by (simp only: nb_def div_times_less_eq_dividend)
  let ?block = "\<lambda>f s acc n. s (XXH3_accumulate acc (drop (n * (64 * k)) input) secret k f) (drop (length secret - 64) secret)"
  have blocks: "foldl (?block f_acc512 f_scramble) XXH3_INIT_ACC [0..<n] = foldl (?block XXH3_accumulate_512_scalar XXH3_scrambleAcc_scalar) XXH3_INIT_ACC [0..<n] \<and>
      length (foldl (?block XXH3_accumulate_512_scalar XXH3_scrambleAcc_scalar) XXH3_INIT_ACC [0..<n]) = 8" if "n \<le> nb" for n
    using that
  proof (induction n)
    case 0
    show ?case by (simp add: XXH3_INIT_ACC_def)
  next
    case (Suc n)
    let ?acc = "foldl (?block XXH3_accumulate_512_scalar XXH3_scrambleAcc_scalar) XXH3_INIT_ACC [0..<n]"
    have "Suc n * (64 * k) \<le> nb * (64 * k)" using Suc.prems by (intro mult_le_mono1)
    then have "64 * k \<le> length (drop (n * (64 * k)) input)" using nb by simp
    moreover have "8 * k + 56 \<le> length secret" using k by simp
    moreover have acc: "length ?acc = 8" using Suc by simp
    ultimately have "XXH3_accumulate ?acc (drop (n * (64 * k)) input) secret k f_acc512 =
        XXH3_accumulate ?acc (drop (n * (64 * k)) input) secret k XXH3_accumulate_512_scalar"
      "length (XXH3_accumulate ?acc (drop (n * (64 * k)) input) secret k XXH3_accumulate_512_scalar) = 8"
      using same_accumulate [OF assms(1)] by blast+
    then show ?case using Suc k same_kernelsD(2) [OF assms(1)] by (simp add: scalar_lanes)
  qed
  let ?acc = "foldl (?block XXH3_accumulate_512_scalar XXH3_scrambleAcc_scalar) XXH3_INIT_ACC [0..<nb]"
  let ?r = "(length input - 1 - 64 * k * nb) div 64"
  have r: "length input - 1 - 64 * k * nb < 64 * k"
    unfolding nb_def using k(1) by (simp only: minus_mult_div_eq_mod) simp
  have "64 * ?r \<le> length input - 1 - 64 * k * nb" by (rule times_div_less_eq_dividend)
  then have "64 * ?r \<le> length (drop (nb * (64 * k)) input)" by (simp add: mult.commute)
  moreover have "8 * ?r + 56 \<le> length secret" using r k(2) by (simp add: div_less_iff_less_mult)
  ultimately have "XXH3_accumulate ?acc (drop (nb * (64 * k)) input) secret ?r f_acc512 =
      XXH3_accumulate ?acc (drop (nb * (64 * k)) input) secret ?r XXH3_accumulate_512_scalar"
    "length (XXH3_accumulate ?acc (drop (nb * (64 * k)) input) secret ?r XXH3_accumulate_512_scalar) = 8"
    using same_accumulate [OF assms(1)] blocks [of nb] by blast+
  moreover have "XXH3_hashLong_internal_loop XXH3_INIT_ACC input secret f s =
      f (XXH3_accumulate (foldl (?block f s) XXH3_INIT_ACC [0..<nb]) (drop (nb * (64 * k)) input) secret ?r f)
        (drop (length input - 64) input) (drop (length secret - 64 - 7) secret)" for f s
    by (simp only: XXH3_hashLong_internal_loop_def Let_def XXH_STRIPE_LEN_def XXH_SECRET_CONSUME_RATE_def
        XXH_SECRET_LASTACC_START_def k_def nb_def)
  moreover have "64 \<le> length (drop (length input - 64) input)" "64 \<le> length (drop (length secret - 64 - 7) secret)"
    using assms(2,3) by simp_all
  moreover have "foldl (?block f_acc512 f_scramble) XXH3_INIT_ACC [0..<nb] = ?acc" using blocks [of nb] by simp
  ultimately show ?thesis using same_kernelsD(1) [OF assms(1)] by (simp only:)
qed

section \<open>The intrinsics on lists of elements\<close>

text \<open>The documented behaviour as functions, of the number of an element: the laws can hold.\<close>

definition dwords :: "(nat \<Rightarrow> uint32) \<Rightarrow> nat \<Rightarrow> uint64" where
  "dwords f i = push_bit 32 (ucast (f (2 * i + 1))) OR ucast (f (2 * i))"

lemma dword_dwords: "j < 2 * w \<Longrightarrow> dword (map (dwords f) [0..<w]) j = f j"
proof -
  assume j: "j < 2 * w"
  then have d: "dword (map (dwords f) [0..<w]) j = ucast (drop_bit (32 * (j mod 2)) (dwords f (j div 2)))"
    by (simp add: dword_def less_mult_imp_div_less mult.commute)
  have h: "(ucast (push_bit 32 (ucast x) OR ucast y :: uint64) :: uint32) = y"
    "(ucast (drop_bit 32 (push_bit 32 (ucast x) OR ucast y :: uint64)) :: uint32) = x" for x y :: uint32
    by (rule bit_word_eqI, auto simp: bit_unsigned_iff bit_simps dest: bit_imp_le_length)+
  show "dword (map (dwords f) [0..<w]) j = f j"
  proof (cases "even j")
    case True
    then show ?thesis by (simp add: d dwords_def h)
  next
    case False
    then have "j mod 2 = 1" "2 * (j div 2) + 1 = j" by presburger+
    then show ?thesis by (simp only: d dwords_def h mult_1_right)
  qed
qed

lemma map_nth_width: "length xs = w \<Longrightarrow> map ((!) xs) [0..<w] = xs"
  by (rule nth_equalityI) simp_all

lemma pair_list: "length xs = 2 \<Longrightarrow> [xs ! 0, xs ! 1] = xs"
  by (cases xs; cases "tl xs") auto

definition x86_ref :: "nat \<Rightarrow> (nat \<Rightarrow> uint64) x86" where
  "x86_ref w = \<lparr>of_lanes = (\<lambda>xs i. xs ! i),
     lanes = (\<lambda>a. map a [0..<w]),
     mm_shuffle = (\<lambda>n3 n2 n1 n0. 64 * n3 + 16 * n2 + 4 * n1 + n0),
     set_epi64x = (\<lambda>xs i. rev xs ! i),
     xor_si = (\<lambda>a b i. a i XOR b i),
     shuffle_epi32 = (\<lambda>a imm. dwords (\<lambda>j. dword (map a [0..<w]) (4 * (j div 4) + imm div 4 ^ (j mod 4) mod 4))),
     mul_epu32 = (\<lambda>a b i. XXH_mult32to64 (a i) (b i)),
     add_epi64 = (\<lambda>a b i. a i + b i),
     srli_epi64 = (\<lambda>a k i. drop_bit k (a i)),
     slli_epi64 = (\<lambda>a k i. push_bit k (a i)),
     set1_epi32 = (\<lambda>c. dwords (\<lambda>_. c)),
     set1_epi64 = (\<lambda>x _. x),
     set1_epi8 = (\<lambda>c _. of_bytes (replicate 8 c)),
     mask_sub_epi64 = (\<lambda>src k a b i. if bit k i then a i - b i else src i)\<rparr>"

lemma x86_ref: "even w \<Longrightarrow> x86_intrinsics (x86_ref w) w"
  by unfold_locales
    (simp_all add: x86_ref_def dword_dwords XXH_mult32to64_def map_nth_width del: upt_Suc,
      simp_all add: dword_def)

interpretation sse2: x86_intrinsics "x86_ref 2" 2
  by (rule x86_ref) simp

interpretation avx2: x86_intrinsics "x86_ref 4" 4
  by (rule x86_ref) simp

interpretation avx512: avx512_intrinsics "x86_ref 8"
  by (rule avx512_intrinsics.intro, rule x86_ref, simp, unfold_locales) (simp_all add: x86_ref_def del: upt_Suc)

definition neon_ref :: "(nat \<Rightarrow> uint64, nat \<Rightarrow> uint32) neon" where
  "neon_ref = \<lparr>q_of = (\<lambda>xs i. xs ! i),
     q_lanes = (\<lambda>a. [a 0, a 1]),
     d_lanes = (\<lambda>d. [d 0, d 1]),
     vextq_u64 = (\<lambda>a b k i. if i + k < 2 then a (i + k) else b (i + k - 2)),
     veorq_u64 = (\<lambda>a b i. a i XOR b i),
     vaddq_u64 = (\<lambda>a b i. a i + b i),
     vshrq_n_u64 = (\<lambda>a k i. drop_bit k (a i)),
     vshlq_n_u64 = (\<lambda>a k i. push_bit k (a i)),
     vmovn_u64 = (\<lambda>a i. ucast (a i)),
     vshrn_n_u64 = (\<lambda>a k i. ucast (drop_bit k (a i))),
     vdup_n_u32 = (\<lambda>c _. c),
     vmull_u32 = (\<lambda>d e i. ucast (d i) * ucast (e i)),
     vmlal_u32 = (\<lambda>a d e i. a i + ucast (d i) * ucast (e i))\<rparr>"

interpretation neon: neon_intrinsics neon_ref
proof
  fix xs :: "uint64 list" assume "length xs = 2"
  then show "q_lanes neon_ref (q_of neon_ref xs) = xs"
    by (simp add: neon_ref_def pair_list del: One_nat_def)
next
  fix k :: nat and a b assume "k < 2"
  then show "q_lanes neon_ref (vextq_u64 neon_ref a b k) = take 2 (drop k (q_lanes neon_ref a @ q_lanes neon_ref b))"
    by (auto simp: neon_ref_def less_2_cases_iff)
qed (auto simp: neon_ref_def less_2_cases_iff)

definition vsx_ref :: "(nat \<Rightarrow> uint64) vsx" where
  "vsx_ref = \<lparr>vec_of = (\<lambda>xs i. xs ! i),
     vec_lanes = (\<lambda>a. [a 0, a 1]),
     vec_xor = (\<lambda>a b i. a i XOR b i),
     vec_add = (\<lambda>a b i. a i + b i),
     vec_shl = (\<lambda>a b i. push_bit (unat (b i) mod 64) (a i)),
     vec_shr = (\<lambda>a b i. drop_bit (unat (b i) mod 64) (a i)),
     vec_rl = (\<lambda>a b i. XXH_rotl64 (a i) (unat (b i) mod 64)),
     vec_revb = (\<lambda>a i. of_bytes (rev (to_bytes (a i)))),
     vec_mulo = (\<lambda>a b i. XXH_mult32to64 (a i) (b i)),
     vec_mule = (\<lambda>a b i. XXH_mult32to64 (drop_bit 32 (a i)) (drop_bit 32 (b i))),
     vec_permi = (\<lambda>a b k i. if i = 0 then a (k div 2) else b (k mod 2))\<rparr>"

interpretation vsx: vsx_intrinsics vsx_ref
proof
  fix xs :: "uint64 list" assume "length xs = 2"
  then show "vec_lanes vsx_ref (vec_of vsx_ref xs) = xs"
    by (simp add: vsx_ref_def pair_list del: One_nat_def)
qed (auto simp: vsx_ref_def less_2_cases_iff dword_def XXH_mult32to64_def)

section \<open>The choice of the kernels does not show\<close>

text \<open>
  (C11) On every target, with intrinsics that do what is documented, the kernels that
  \<open>XXH_VECTOR\<close> selects give the hashes of long inputs that the scalar kernels give: of 64 and of 128
  bits, with a secret or with a seed.
\<close>

theorem XXH_VECTOR_same_hash:
  assumes "vector_ok vec" "64 < length input" "72 \<le> length secret"
  shows "XXH3_hashLong_64b_internal input secret (XXH3_accumulate_512 vec) (XXH3_scrambleAcc vec) =
      XXH3_hashLong_64b_withSecret input seed secret \<and>
    XXH3_hashLong_64b_withSeed_internal opt input seed (XXH3_accumulate_512 vec) (XXH3_scrambleAcc vec) (XXH3_initCustomSecret opt vec) =
      XXH3_hashLong_64b_withSeed opt input seed secret \<and>
    XXH3_hashLong_128b_internal input secret (XXH3_accumulate_512 vec) (XXH3_scrambleAcc vec) =
      XXH3_hashLong_128b_withSecret input seed secret \<and>
    XXH3_hashLong_128b_withSeed_internal input seed (XXH3_accumulate_512 vec) (XXH3_scrambleAcc vec) (XXH3_initCustomSecret opt vec) =
      XXH3_hashLong_128b_withSeed input seed secret"
proof -
  note loop = same_internal_loop [OF vector_kernels [OF assms(1)] assms(2)]
  have "72 \<le> length (XXH3_initCustomSecret_scalar seed)" "72 \<le> length XXH3_kSecret"
    by (simp_all add: length_initCustomSecret length_kSecret)
  note loops = loop [OF assms(3)] loop [OF this(1)] loop [OF this(2)]
  show ?thesis
    by (simp add: XXH3_hashLong_64b_internal_def XXH3_hashLong_64b_withSecret_def XXH3_hashLong_64b_withSeed_internal_def
        XXH3_hashLong_64b_withSeed_def XXH3_hashLong_128b_internal_def XXH3_hashLong_128b_withSecret_def
        XXH3_hashLong_128b_withSeed_internal_def XXH3_hashLong_128b_withSeed_def loops vector_secret [OF assms(1)])
qed

definition vector_targets :: "(nat \<Rightarrow> uint64, nat \<Rightarrow> uint64, nat \<Rightarrow> uint32) XXH_VECTOR_TYPE list" where
  "vector_targets =
    [XXH_SCALAR, XXH_SSE2 (x86_ref 2), XXH_AVX2 (x86_ref 4), XXH_AVX512 (x86_ref 8), XXH_NEON 6 neon_ref, XXH_VSX False False vsx_ref,
     XXH_VSX True True vsx_ref]"

lemma vector_targets_ok: "list_all vector_ok vector_targets"
  by (simp add: vector_targets_def sse2.x86_intrinsics_axioms avx2.x86_intrinsics_axioms avx512.avx512_intrinsics_axioms
      neon.neon_intrinsics_axioms vsx.vsx_intrinsics_axioms)

theorem XXH_VECTOR_same_hash_witness:
  "list_all (\<lambda>vec. vector_ok vec \<and>
     XXH3_hashLong_64b_internal (replicate 300 7) XXH3_kSecret (XXH3_accumulate_512 vec) (XXH3_scrambleAcc vec) =
       XXH3_hashLong_64b_withSecret (replicate 300 7) 5 XXH3_kSecret) vector_targets"
proof -
  have "64 < length (replicate 300 7 :: byte list)" "72 \<le> length XXH3_kSecret" by (simp_all add: length_kSecret)
  then show ?thesis
    using vector_targets_ok XXH_VECTOR_same_hash [of _ "replicate 300 7" XXH3_kSecret 5] by (auto simp: list_all_iff)
qed

end
