(* ===== verification/Xxh3SimdStream.thy ===== *)
theory Xxh3SimdStream
  imports Xxh3SimdCorrect
begin

text \<open>
  The streaming interfaces of XXH3 as they are compiled for a target: the macros
  \<open>XXH3_accumulate_512\<close>, \<open>XXH3_scrambleAcc\<close> and \<open>XXH3_initCustomSecret\<close> are those of its
  \<open>XXH_VECTOR\<close>. They give the one-shot hashes, too.
\<close>

section \<open>The interfaces for a target\<close>

definition XXH3_update_on :: "('v, 'q, 'd) XXH_VECTOR_TYPE \<Rightarrow> XXH3_state \<Rightarrow> byte list option \<Rightarrow> XXH_errorcode \<times> XXH3_state" where
  "XXH3_update_on vec state input = XXH3_update state input (XXH3_accumulate_512 vec) (XXH3_scrambleAcc vec)"

definition XXH3_reset_withSeed_on ::
  "nat \<Rightarrow> ('v, 'q, 'd) XXH_VECTOR_TYPE \<Rightarrow> XXH3_state \<Rightarrow> uint64 \<Rightarrow> XXH_errorcode \<times> XXH3_state" where
  "XXH3_reset_withSeed_on size_opt vec statePtr seed =
     (if seed = 0 then XXH3_64bits_reset statePtr
      else
        let statePtr =
              (if seed \<noteq> seed3 statePtr \<or> extSecret statePtr \<noteq> None
               then statePtr\<lparr>customSecret := XXH3_initCustomSecret size_opt vec seed\<rparr> else statePtr)
        in (XXH_OK, XXH3_reset_internal statePtr seed None (of_nat XXH_SECRET_DEFAULT_SIZE)))"

definition XXH3_64bits_digest_on :: "('v, 'q, 'd) XXH_VECTOR_TYPE \<Rightarrow> nat \<Rightarrow> XXH3_state \<Rightarrow> uint64" where
  "XXH3_64bits_digest_on vec size_opt state =
     (let secret = secret_of state;
          total = unat (totalLen state)
      in if XXH3_MIDSIZE_MAX < total
         then
           let acc = XXH3_digest_long state secret (XXH3_accumulate_512 vec) (XXH3_scrambleAcc vec)
           in XXH3_mergeAccs acc (drop XXH_SECRET_MERGEACCS_START secret) (totalLen state * XXH_PRIME64_1)
         else if useSeed state \<noteq> 0
         then XXH3_64bits_withSeed size_opt (take total (buffer3 state)) (seed3 state)
         else XXH3_64bits_withSecret size_opt (take total (buffer3 state))
                (take (unat (secretLimit state) + XXH_STRIPE_LEN) secret))"

definition XXH3_128bits_digest_on :: "('v, 'q, 'd) XXH_VECTOR_TYPE \<Rightarrow> nat \<Rightarrow> XXH3_state \<Rightarrow> XXH128_hash" where
  "XXH3_128bits_digest_on vec size_opt state =
     (let secret = secret_of state;
          secretLen = unat (secretLimit state) + XXH_STRIPE_LEN;
          total = unat (totalLen state)
      in if XXH3_MIDSIZE_MAX < total
         then
           let acc = XXH3_digest_long state secret (XXH3_accumulate_512 vec) (XXH3_scrambleAcc vec)
           in merge_128b acc (take secretLen secret) (totalLen state)
         else if seed3 state \<noteq> 0
         then XXH3_128bits_withSeed size_opt (take total (buffer3 state)) (seed3 state)
         else XXH3_128bits_withSecret size_opt (take total (buffer3 state)) (take secretLen secret))"

definition feed_on :: "('v, 'q, 'd) XXH_VECTOR_TYPE \<Rightarrow> byte list list \<Rightarrow> XXH3_state \<Rightarrow> XXH3_state" where
  "feed_on vec chunks s = foldl (\<lambda>s chunk. snd (XXH3_update_on vec s (Some chunk))) s chunks"

section \<open>The kernels read one stripe\<close>

lemma readLE64_stripe:
  assumes "k + 8 \<le> 64"
  shows "XXH_readLE64 (drop k (take 64 p)) = XXH_readLE64 (drop k p)"
proof -
  have "take 8 (drop k (take 64 p)) = take 8 (drop k p)" using assms by (simp add: drop_take min_def)
  then show ?thesis by (simp add: XXH_readLE64_def XXH_read64_def)
qed

lemma loadu_stripe:
  assumes "k + 8 * w \<le> 64"
  shows "loadu_si ops w (drop k (take 64 p)) = loadu_si ops w (drop k p)"
proof -
  have "XXH_readLE64 (drop (8 * i) (drop k (take 64 p))) = XXH_readLE64 (drop (8 * i) (drop k p))" if "i < w" for i
    using assms that readLE64_stripe [of "8 * i + k" p] by simp
  then show ?thesis unfolding loadu_si_def by (intro arg_cong [of _ _ "of_lanes ops"] map_cong) simp_all
qed

lemma vld1q_stripe: "k + 16 \<le> 64 \<Longrightarrow> XXH_vld1q_u64 ops (drop k (take 64 p)) = XXH_vld1q_u64 ops (drop k p)"
  using readLE64_stripe [of k p] readLE64_stripe [of "8 + k" p] by (simp add: XXH_vld1q_u64_def)

lemma vec_loadu_stripe:
  assumes "k + 16 \<le> 64"
  shows "XXH_vec_loadu big be ops (drop k (take 64 p)) = XXH_vec_loadu big be ops (drop k p)"
proof -
  have "take 8 (drop j (take 64 p)) = take 8 (drop j p)" if "j + 8 \<le> 64" for j
    using that by (simp add: drop_take min_def)
  from this [of k] this [of "8 + k"] assms show ?thesis by (simp add: XXH_vec_loadu_def)
qed

lemma vector_kernel:
  assumes "vector_ok vec"
  shows "xxh3_kernel (XXH3_accumulate_512 vec)"
proof
  fix a :: accs and p s :: "byte list"
  have scalar: "XXH3_scalarRound b (take 64 p) s i = XXH3_scalarRound b p s i" if "i < 8" for b i
    using that readLE64_stripe [of "8 * i" p] by (simp add: XXH3_scalarRound_def mult.commute)
  show "XXH3_accumulate_512 vec a (take 64 p) s = XXH3_accumulate_512 vec a p s"
  proof (cases vec)
    case XXH_SCALAR
    then show ?thesis by (simp add: scalar.acc512_stripe)
  next
    case (XXH_SSE2 ops)
    show ?thesis
      unfolding XXH_SSE2 XXH3_accumulate_512.simps XXH3_accumulate_512_sse2_def XXH_STRIPE_LEN_def
      by (intro foldl_cong) (simp_all add: loadu_stripe)
  next
    case (XXH_AVX2 ops)
    show ?thesis
      unfolding XXH_AVX2 XXH3_accumulate_512.simps XXH3_accumulate_512_avx2_def XXH_STRIPE_LEN_def
      by (intro foldl_cong) (simp_all add: loadu_stripe)
  next
    case (XXH_AVX512 ops)
    then show ?thesis using loadu_stripe [of 0 8 ops p] by (simp add: XXH3_accumulate_512_avx512_def)
  next
    case (XXH_NEON n ops)
    then have "n \<le> 8" using assms by auto
    then have "foldl (\<lambda>acc i. XXH3_scalarRound acc (take 64 p) s i) a [n..<8] = foldl (\<lambda>acc i. XXH3_scalarRound acc p s i) a [n..<8]"
      by (intro foldl_cong) (simp_all add: scalar)
    moreover have "foldl (\<lambda>acc i. neon_set ops acc i
             (accumulate_neon ops (neon_get ops acc i) (XXH_vld1q_u64 ops (drop (i * 16) (take 64 p))) (XXH_vld1q_u64 ops (drop (i * 16) s))))
           b [0..<n div 2] =
        foldl (\<lambda>acc i. neon_set ops acc i
             (accumulate_neon ops (neon_get ops acc i) (XXH_vld1q_u64 ops (drop (i * 16) p)) (XXH_vld1q_u64 ops (drop (i * 16) s))))
           b [0..<n div 2]" for b
      using \<open>n \<le> 8\<close> by (intro foldl_cong) (simp_all add: vld1q_stripe)
    ultimately show ?thesis using XXH_NEON by (simp add: XXH3_accumulate_512_neon_def XXH_ACC_NB_def XXH_STRIPE_LEN_def)
  next
    case (XXH_VSX big be ops)
    show ?thesis
      unfolding XXH_VSX XXH3_accumulate_512.simps XXH3_accumulate_512_vsx_def XXH_STRIPE_LEN_def
      by (intro foldl_cong) (simp_all add: vec_loadu_stripe)
  qed
qed

section \<open>Feeding a state\<close>

lemma took_nil:
  assumes "xxh3_kernel f"
  shows "xxh3_kernel.took f g secret [] s = scalar.took secret [] s"
  by (simp add: xxh3_kernel.took_def [OF assms] xxh3_kernel.under_def [OF assms] xxh3_kernel.progress_def [OF assms]
      scalar.took_def scalar.under_def scalar.progress_def)

lemma feed_on_keeps: "useSeed (feed_on vec chunks s) = useSeed s" "seed3 (feed_on vec chunks s) = seed3 s"
  unfolding feed_on_def
  by (induction chunks rule: rev_induct)
    (simp_all add: XXH3_update_on_def XXH3_update_def Let_def case_prod_unfold split: option.split)

lemma digest_on_feed:
  assumes "vector_ok vec" "scalar.took secret [] s" "length (concat chunks) < 2 ^ 64"
  shows "XXH3_64bits_digest_on vec opt (feed_on vec chunks s) = XXH3_64bits_digest opt (feed chunks s)"
    and "XXH3_128bits_digest_on vec opt (feed_on vec chunks s) = XXH3_128bits_digest opt (feed chunks s)"
proof -
  note K = vector_kernel [OF assms(1)]
  define t where "t = feed_on vec chunks s"
  have took: "xxh3_kernel.took (XXH3_accumulate_512 vec) (XXH3_scrambleAcc vec) secret (concat chunks) t"
    using xxh3_kernel.took_chunks [OF K, of "XXH3_scrambleAcc vec" secret s chunks] assms(2,3)
    by (simp add: took_nil [OF K] t_def feed_on_def XXH3_update_on_def)
  have tot: "totalLen t = of_nat (length (concat chunks))" and sec: "secret_of t = secret"
    and lim: "unat (secretLimit t) = length secret - 64" and l: "136 \<le> length secret"
    using took unfolding xxh3_kernel.took_def [OF K] xxh3_kernel.progress_def [OF K] xxh3_kernel.under_def [OF K] by blast+
  have keep: "useSeed t = useSeed s" "seed3 t = seed3 s" by (simp_all add: t_def feed_on_keeps)
  have u: "unat (of_nat (length (concat chunks)) :: uint64) = length (concat chunks)" using assms(3) by (rule unat_of_nat64)
  have "(XXH3_64bits_digest_on vec opt t = XXH3_64bits_digest opt (feed chunks s)) \<and>
    (XXH3_128bits_digest_on vec opt t = XXH3_128bits_digest opt (feed chunks s))"
  proof (cases "240 < length (concat chunks)")
    case True
    have "XXH3_digest_long t secret (XXH3_accumulate_512 vec) (XXH3_scrambleAcc vec) =
        XXH3_hashLong_internal_loop XXH3_INIT_ACC (concat chunks) secret XXH3_accumulate_512_scalar XXH3_scrambleAcc_scalar"
      using xxh3_kernel.digest_long [OF K took True] same_internal_loop [OF vector_kernels [OF assms(1)], of "concat chunks" secret]
        True l by (simp del: length_concat)
    then show ?thesis
      using True l
      by (simp add: digest_feed [OF assms(2,3)] digest_128b_feed [OF assms(2,3)] XXH3_64bits_digest_on_def XXH3_128bits_digest_on_def
          Let_def tot u sec lim XXH3_MIDSIZE_MAX_def XXH3_hashLong_64b_internal_def XXH3_hashLong_128b_internal_def
          XXH_STRIPE_LEN_def del: length_concat)
  next
    case False
    then have "take (length (concat chunks)) (buffer3 t) = concat chunks"
      using xxh3_kernel.digest_short [OF K took] by (simp del: length_concat)
    then show ?thesis
      using False l
      by (simp add: digest_feed [OF assms(2,3)] digest_128b_feed [OF assms(2,3)] XXH3_64bits_digest_on_def XXH3_128bits_digest_on_def
          Let_def tot u sec lim XXH3_MIDSIZE_MAX_def XXH_STRIPE_LEN_def keep del: length_concat)
  qed
  then show "XXH3_64bits_digest_on vec opt (feed_on vec chunks s) = XXH3_64bits_digest opt (feed chunks s)"
    "XXH3_128bits_digest_on vec opt (feed_on vec chunks s) = XXH3_128bits_digest opt (feed chunks s)"
    by (simp_all add: t_def)
qed

lemma reset_withSeed_on:
  assumes "vector_ok vec"
  shows "XXH3_reset_withSeed_on opt vec s seed = XXH3_64bits_reset_withSeed s seed"
  by (simp add: XXH3_reset_withSeed_on_def XXH3_64bits_reset_withSeed_def vector_secret [OF assms])

text \<open>
  (C12) On every target, with intrinsics that do what is documented, the streaming interfaces give
  for every division of an input into chunks the one-shot hashes of 64 and of 128 bits that the
  scalar code gives, without a seed, with a seed and with a secret.
\<close>

theorem XXH_VECTOR_same_stream:
  assumes "vector_ok vec" "state_ok s" "length (concat chunks) < 2 ^ 64" "136 \<le> length secret" "length secret < 2 ^ 64"
  shows "XXH3_64bits_digest_on vec opt (feed_on vec chunks (snd (XXH3_64bits_reset s))) = XXH3_64bits opt' (concat chunks) \<and>
    XXH3_64bits_digest_on vec opt (feed_on vec chunks (snd (XXH3_reset_withSeed_on opt vec s seed))) =
      XXH3_64bits_withSeed opt' (concat chunks) seed \<and>
    XXH3_64bits_digest_on vec opt (feed_on vec chunks (snd (XXH3_64bits_reset_withSecret s (Some secret) (of_nat (length secret))))) =
      XXH3_64bits_withSecret opt' (concat chunks) secret \<and>
    XXH3_128bits_digest_on vec opt (feed_on vec chunks (snd (XXH3_64bits_reset s))) = XXH3_128bits opt' (concat chunks) \<and>
    XXH3_128bits_digest_on vec opt (feed_on vec chunks (snd (XXH3_reset_withSeed_on opt vec s seed))) =
      XXH3_128bits_withSeed opt' (concat chunks) seed \<and>
    XXH3_128bits_digest_on vec opt (feed_on vec chunks (snd (XXH3_64bits_reset_withSecret s (Some secret) (of_nat (length secret))))) =
      XXH3_128bits_withSecret opt' (concat chunks) secret"
proof -
  note feed = digest_on_feed [OF assms(1) _ assms(3)]
  have plain: "XXH3_64bits_digest_on vec opt (feed_on vec chunks (snd (XXH3_64bits_reset s))) = XXH3_64bits opt' (concat chunks) \<and>
      XXH3_128bits_digest_on vec opt (feed_on vec chunks (snd (XXH3_64bits_reset s))) = XXH3_128bits opt' (concat chunks)"
    using feed [OF reset_plain(1) [OF assms(2)]] stream_plain [OF assms(2,3)] stream_128b_plain [OF assms(2,3)] by simp
  have seed: "XXH3_64bits_digest_on vec opt (feed_on vec chunks (snd (XXH3_64bits_reset_withSeed s seed))) =
        XXH3_64bits_withSeed opt' (concat chunks) seed \<and>
      XXH3_128bits_digest_on vec opt (feed_on vec chunks (snd (XXH3_64bits_reset_withSeed s seed))) =
        XXH3_128bits_withSeed opt' (concat chunks) seed"
  proof (cases "seed = 0")
    case True
    then show ?thesis
      using feed [OF reset_plain(1) [OF assms(2)]] stream_seed [OF assms(2,3), of opt seed opt']
        stream_128b_seed [OF assms(2,3), of opt seed opt'] by (simp add: XXH3_64bits_reset_withSeed_def)
  next
    case False
    then show ?thesis
      using feed [OF reset_seed(1) [OF assms(2) False]] stream_seed [OF assms(2,3)] stream_128b_seed [OF assms(2,3)] by simp
  qed
  show ?thesis
    using plain seed feed [OF reset_secret(1) [OF assms(2,4,5)]] stream_secret [OF assms(2-5)] stream_128b_secret [OF assms(2-5)]
    by (simp add: reset_withSeed_on [OF assms(1)])
qed

theorem XXH_VECTOR_same_stream_witness:
  "list_all (\<lambda>vec. vector_ok vec \<and>
     XXH3_64bits_digest_on vec 0 (feed_on vec [replicate 1 0x61, replicate 300 0x62] (snd (XXH3_64bits_reset fresh_state))) =
       XXH3_64bits 0 (concat [replicate 1 0x61, replicate 300 0x62])) vector_targets"
proof -
  have ok: "state_ok fresh_state" "length (concat [replicate 1 0x61, replicate 300 0x62 :: byte list]) < 2 ^ 64"
    "136 \<le> length XXH3_kSecret" "length XXH3_kSecret < 2 ^ 64"
    by (simp_all add: state_ok_def fresh_state_def length_kSecret)
  then show ?thesis
    using vector_targets_ok XXH_VECTOR_same_stream [OF _ ok, of _ 0 0] unfolding list_all_iff by blast
qed

end
