(* ===== verification/Xxh3Target.thy ===== *)
theory Xxh3Target
  imports Xxh3SimdStream
begin

text \<open>
  XXH3 as a compiler sees it (\<open>xxhash.h\<close>): the macros that compiler, target and command line define,
  what the preprocessor derives from them, the reads, writes, swaps, rotations and products that it
  selects, and the functions of XXH3 over them. A target has its byte order, the width of its
  pointers and the builtin functions of its compiler. Where the macros describe the target and the
  builtins do what is documented, which is the locale \<open>described_target\<close>, every one of the functions is that
  of the little-endian, portable code; \<open>wrong_macro_changes_read\<close> shows that the description matters.
\<close>

section \<open>Macros\<close>

text \<open>A macro without a value counts as 1; an identifier that is no macro is 0 in an expression.\<close>

type_synonym macros = "string \<rightharpoonup> int"

definition is_defined :: "macros \<Rightarrow> string \<Rightarrow> bool" where
  "is_defined m x = (m x \<noteq> None)"

definition macro_value :: "macros \<Rightarrow> string \<Rightarrow> int" where
  "macro_value m x = (case m x of None \<Rightarrow> 0 | Some v \<Rightarrow> v)"

definition XXH_FORCE_MEMORY_ACCESS :: "macros \<Rightarrow> int option" where
  "XXH_FORCE_MEMORY_ACCESS m =
     (case m ''XXH_FORCE_MEMORY_ACCESS'' of
        Some v \<Rightarrow> Some v
      | None \<Rightarrow>
          if is_defined m ''__GNUC__'' \<and>
             \<not> (is_defined m ''__ARM_ARCH'' \<and> macro_value m ''__ARM_ARCH'' < 7 \<and> is_defined m ''__ARM_FEATURE_UNALIGNED'')
          then Some 1 else None)"

definition XXH_SIZE_OPT :: "macros \<Rightarrow> int" where
  "XXH_SIZE_OPT m =
     (case m ''XXH_SIZE_OPT'' of
        Some v \<Rightarrow> v
      | None \<Rightarrow> if (is_defined m ''__GNUC__'' \<or> is_defined m ''__clang__'') \<and> is_defined m ''__OPTIMIZE_SIZE__'' then 1 else 0)"

definition XXH_FORCE_ALIGN_CHECK :: "macros \<Rightarrow> int" where
  "XXH_FORCE_ALIGN_CHECK m =
     (case m ''XXH_FORCE_ALIGN_CHECK'' of
        Some v \<Rightarrow> v
      | None \<Rightarrow>
          if 1 \<le> XXH_SIZE_OPT m \<or>
             is_defined m ''__i386'' \<or> is_defined m ''__x86_64__'' \<or> is_defined m ''__aarch64__'' \<or>
             is_defined m ''__ARM_FEATURE_UNALIGNED'' \<or>
             is_defined m ''_M_IX86'' \<or> is_defined m ''_M_X64'' \<or> is_defined m ''_M_ARM64'' \<or> is_defined m ''_M_ARM''
          then 0 else 1)"

text \<open>\<open>check\<close> is the run-time test \<open>XXH_isLittleEndian\<close>, for targets that no macro describes.\<close>

definition XXH_CPU_LITTLE_ENDIAN :: "macros \<Rightarrow> bool \<Rightarrow> int" where
  "XXH_CPU_LITTLE_ENDIAN m check =
     (case m ''XXH_CPU_LITTLE_ENDIAN'' of
        Some v \<Rightarrow> v
      | None \<Rightarrow>
          if is_defined m ''_WIN32'' \<or> is_defined m ''__LITTLE_ENDIAN__'' \<or>
             is_defined m ''__BYTE_ORDER__'' \<and> macro_value m ''__BYTE_ORDER__'' = macro_value m ''__ORDER_LITTLE_ENDIAN__''
          then 1
          else if is_defined m ''__BIG_ENDIAN__'' \<or>
             is_defined m ''__BYTE_ORDER__'' \<and> macro_value m ''__BYTE_ORDER__'' = macro_value m ''__ORDER_BIG_ENDIAN__''
          then 0
          else if check then 1 else 0)"

section \<open>The vector extension\<close>

text \<open>The values of \<open>XXH_VECTOR_TYPE\<close>: 0 is scalar, 1 SSE2, 2 AVX2, 3 AVX512, 4 NEON, 5 VSX.\<close>

definition XXH_VECTOR :: "macros \<Rightarrow> int" where
  "XXH_VECTOR m =
     (case m ''XXH_VECTOR'' of
        Some v \<Rightarrow> v
      | None \<Rightarrow>
          if (is_defined m ''__ARM_NEON__'' \<or> is_defined m ''__ARM_NEON'' \<or>
              is_defined m ''_M_ARM'' \<or> is_defined m ''_M_ARM64'' \<or> is_defined m ''_M_ARM64EC'') \<and>
             (is_defined m ''_WIN32'' \<or> is_defined m ''__LITTLE_ENDIAN__'' \<or>
              is_defined m ''__BYTE_ORDER__'' \<and> macro_value m ''__BYTE_ORDER__'' = macro_value m ''__ORDER_LITTLE_ENDIAN__'')
          then 4
          else if is_defined m ''__AVX512F__'' then 3
          else if is_defined m ''__AVX2__'' then 2
          else if is_defined m ''__SSE2__'' \<or> is_defined m ''_M_AMD64'' \<or> is_defined m ''_M_X64'' \<or>
             is_defined m ''_M_IX86_FP'' \<and> macro_value m ''_M_IX86_FP'' = 2
          then 1
          else if is_defined m ''__PPC64__'' \<and> is_defined m ''__POWER8_VECTOR__'' \<or>
             is_defined m ''__s390x__'' \<and> is_defined m ''__VEC__'' \<and> is_defined m ''__GNUC__''
          then 5
          else 0)"

text \<open>\<open>None\<close>: the macro stays undefined.\<close>

definition XXH_ACC_ALIGN :: "macros \<Rightarrow> int option" where
  "XXH_ACC_ALIGN m =
     (case m ''XXH_ACC_ALIGN'' of
        Some v \<Rightarrow> Some v
      | None \<Rightarrow>
          if is_defined m ''XXH_X86DISPATCH'' then Some 64
          else if XXH_VECTOR m = 0 then Some 8
          else if XXH_VECTOR m = 1 then Some 16
          else if XXH_VECTOR m = 2 then Some 32
          else if XXH_VECTOR m = 4 then Some 16
          else if XXH_VECTOR m = 5 then Some 16
          else if XXH_VECTOR m = 3 then Some 64
          else None)"

definition XXH_SEC_ALIGN :: "macros \<Rightarrow> int option" where
  "XXH_SEC_ALIGN m =
     (if is_defined m ''XXH_X86DISPATCH'' \<or> XXH_VECTOR m = 1 \<or> XXH_VECTOR m = 2 \<or> XXH_VECTOR m = 3
      then XXH_ACC_ALIGN m else Some 8)"

definition XXH3_NEON_LANES :: "macros \<Rightarrow> int" where
  "XXH3_NEON_LANES m =
     (case m ''XXH3_NEON_LANES'' of
        Some v \<Rightarrow> v
      | None \<Rightarrow>
          if (is_defined m ''__aarch64__'' \<or> is_defined m ''__arm64__'' \<or> is_defined m ''_M_ARM64'' \<or> is_defined m ''_M_ARM64EC'') \<and>
             XXH_SIZE_OPT m \<le> 0
          then 6 else of_nat XXH_ACC_NB)"

definition XXH_VSX_BE :: "macros \<Rightarrow> int" where
  "XXH_VSX_BE m =
     (case m ''XXH_VSX_BE'' of
        Some v \<Rightarrow> v
      | None \<Rightarrow>
          if is_defined m ''__BIG_ENDIAN__'' \<or>
             is_defined m ''__BYTE_ORDER__'' \<and> macro_value m ''__BYTE_ORDER__'' = macro_value m ''__ORDER_BIG_ENDIAN__''
          then 1
          else if is_defined m ''__VEC_ELEMENT_REG_ORDER__'' \<and>
             macro_value m ''__VEC_ELEMENT_REG_ORDER__'' = macro_value m ''__ORDER_BIG_ENDIAN__''
          then 1
          else 0)"

text \<open>The static assertions of the kernels for AVX512 and AVX2, and what \<open>XXH3_createState\<close> aligns states for.\<close>

lemma static_asserts:
  assumes "m ''XXH_ACC_ALIGN'' = None"
  shows "XXH_VECTOR m = 3 \<Longrightarrow> XXH_SEC_ALIGN m = Some 64"
    and "XXH_VECTOR m = 2 \<Longrightarrow> \<exists>a \<le> 64. XXH_SEC_ALIGN m = Some a"
    and "XXH_ACC_ALIGN m = Some a \<Longrightarrow> a dvd 64"
  using assms by (auto simp: XXH_SEC_ALIGN_def XXH_ACC_ALIGN_def split: if_splits)

lemma vector_range:
  assumes "m ''XXH_VECTOR'' = None"
  shows "XXH_VECTOR m \<in> {0, 1, 2, 3, 4, 5}"
  using assms by (simp add: XXH_VECTOR_def)

lemma acc_align_defined:
  assumes "m ''XXH_VECTOR'' = None"
  shows "XXH_ACC_ALIGN m \<noteq> None"
  using vector_range [of m] assms by (auto simp: XXH_ACC_ALIGN_def split: option.splits)

section \<open>Targets\<close>

text \<open>
  The builtin functions of the compilers under one name each: \<open>_rotl\<close> and \<open>__builtin_rotateleft32\<close>
  are \<open>rotate32\<close>, \<open>_byteswap_ulong\<close> and \<open>__builtin_bswap32\<close> are \<open>bswap32\<close>, likewise with 64 bits. \<open>has_builtin\<close>
  answers \<open>__has_builtin\<close>, which is a macro itself.
\<close>

record builtins =
  umul128 :: "uint64 \<Rightarrow> uint64 \<Rightarrow> uint64 \<times> uint64"
  umulh :: "uint64 \<Rightarrow> uint64 \<Rightarrow> uint64"
  emulu :: "uint32 \<Rightarrow> uint32 \<Rightarrow> uint64"
  bswap32 :: "uint32 \<Rightarrow> uint32"
  bswap64 :: "uint64 \<Rightarrow> uint64"
  rotate32 :: "uint32 \<Rightarrow> nat \<Rightarrow> uint32"
  rotate64 :: "uint64 \<Rightarrow> nat \<Rightarrow> uint64"

record target =
  defs :: macros
  has_builtin :: "string \<Rightarrow> bool"
  big_endian :: bool
  ptr32 :: bool
  builtin :: builtins

section \<open>Swaps and rotations\<close>

definition XXH_GCC_VERSION :: "macros \<Rightarrow> int" where
  "XXH_GCC_VERSION m = macro_value m ''__GNUC__'' * 100 + macro_value m ''__GNUC_MINOR__''"

definition XXH_HAS_BUILTIN :: "target \<Rightarrow> string \<Rightarrow> bool" where
  "XXH_HAS_BUILTIN t x \<longleftrightarrow> is_defined (defs t) ''__has_builtin'' \<and> has_builtin t x"

definition builtin_rotations :: "target \<Rightarrow> bool" where
  "builtin_rotations t \<longleftrightarrow>
     \<not> is_defined (defs t) ''NO_CLANG_BUILTIN'' \<and> XXH_HAS_BUILTIN t ''__builtin_rotateleft32'' \<and>
       XXH_HAS_BUILTIN t ''__builtin_rotateleft64'' \<or>
     is_defined (defs t) ''_MSC_VER''"

definition XXH_rotl32_built :: "target \<Rightarrow> uint32 \<Rightarrow> nat \<Rightarrow> uint32" where
  "XXH_rotl32_built t x r =
     (if builtin_rotations t then rotate32 (builtin t) x r else push_bit r x OR drop_bit (32 - r) x)"

definition XXH_rotl64_built :: "target \<Rightarrow> uint64 \<Rightarrow> nat \<Rightarrow> uint64" where
  "XXH_rotl64_built t x r =
     (if builtin_rotations t then rotate64 (builtin t) x r else push_bit r x OR drop_bit (64 - r) x)"

definition XXH_swap32_built :: "target \<Rightarrow> uint32 \<Rightarrow> uint32" where
  "XXH_swap32_built t x =
     (if is_defined (defs t) ''_MSC_VER'' \<or> 403 \<le> XXH_GCC_VERSION (defs t) then bswap32 (builtin t) x else XXH_swap32 x)"

definition XXH_swap64_built :: "target \<Rightarrow> uint64 \<Rightarrow> uint64" where
  "XXH_swap64_built t x =
     (if is_defined (defs t) ''_MSC_VER'' \<or> 403 \<le> XXH_GCC_VERSION (defs t) then bswap64 (builtin t) x else XXH_swap64 x)"

section \<open>Reads and writes\<close>

text \<open>
  The value the machine finds at an address, in its own byte order, and the bytes it stores there.
  The code never reads past the bytes that it is given; what lies there counts as 0.
\<close>

definition XXH_read32_built :: "target \<Rightarrow> byte list \<Rightarrow> uint32" where
  "XXH_read32_built t ptr =
     (let bytes = take 4 (ptr @ replicate 4 0) in of_bytes (if big_endian t then rev bytes else bytes))"

definition XXH_read64_built :: "target \<Rightarrow> byte list \<Rightarrow> uint64" where
  "XXH_read64_built t ptr =
     (let bytes = take 8 (ptr @ replicate 8 0) in of_bytes (if big_endian t then rev bytes else bytes))"

definition native_bytes :: "target \<Rightarrow> uint64 \<Rightarrow> byte list" where
  "native_bytes t v = (if big_endian t then rev (to_bytes v) else to_bytes v)"

text \<open>The byte that \<open>XXH_isLittleEndian\<close> returns is 1 on a little-endian machine.\<close>

definition cpu_little_endian :: "target \<Rightarrow> bool" where
  "cpu_little_endian t = (XXH_CPU_LITTLE_ENDIAN (defs t) (\<not> big_endian t) \<noteq> 0)"

definition XXH_readLE32_built :: "target \<Rightarrow> byte list \<Rightarrow> uint32" where
  "XXH_readLE32_built t ptr =
     (if XXH_FORCE_MEMORY_ACCESS (defs t) = Some 3 then XXH_readLE32_shift (ptr @ replicate 4 0)
      else if cpu_little_endian t then XXH_read32_built t ptr
      else XXH_swap32_built t (XXH_read32_built t ptr))"

definition XXH_readLE64_built :: "target \<Rightarrow> byte list \<Rightarrow> uint64" where
  "XXH_readLE64_built t ptr =
     (if XXH_FORCE_MEMORY_ACCESS (defs t) = Some 3 then XXH_readLE64_shift (ptr @ replicate 8 0)
      else if cpu_little_endian t then XXH_read64_built t ptr
      else XXH_swap64_built t (XXH_read64_built t ptr))"

definition XXH_writeLE64_built :: "target \<Rightarrow> byte list \<Rightarrow> nat \<Rightarrow> uint64 \<Rightarrow> byte list" where
  "XXH_writeLE64_built t dst off v =
     (let v = (if \<not> cpu_little_endian t then XXH_swap64_built t v else v)
      in XXH_memcpy dst off (native_bytes t v))"

section \<open>Products\<close>

definition XXH_mult32to64_masks :: "uint64 \<Rightarrow> uint64 \<Rightarrow> uint64" where
  "XXH_mult32to64_masks x y = (x AND 0xFFFFFFFF) * (y AND 0xFFFFFFFF)"

definition XXH_mult32to64_built :: "target \<Rightarrow> uint64 \<Rightarrow> uint64 \<Rightarrow> uint64" where
  "XXH_mult32to64_built t x y =
     (if is_defined (defs t) ''XXH_DOXYGEN'' then XXH_mult32to64_masks x y
      else if is_defined (defs t) ''_MSC_VER'' \<and> is_defined (defs t) ''_M_IX86'' then emulu (builtin t) (ucast x) (ucast y)
      else ucast (ucast x :: uint32) * ucast (ucast y :: uint32))"

definition XXH_mult64to128_portable_built :: "target \<Rightarrow> uint64 \<Rightarrow> uint64 \<Rightarrow> XXH128_hash" where
  "XXH_mult64to128_portable_built t lhs rhs =
     (let lo_lo = XXH_mult32to64_built t (lhs AND 0xFFFFFFFF) (rhs AND 0xFFFFFFFF);
          hi_lo = XXH_mult32to64_built t (drop_bit 32 lhs) (rhs AND 0xFFFFFFFF);
          lo_hi = XXH_mult32to64_built t (lhs AND 0xFFFFFFFF) (drop_bit 32 rhs);
          hi_hi = XXH_mult32to64_built t (drop_bit 32 lhs) (drop_bit 32 rhs);
          cross = drop_bit 32 lo_lo + (hi_lo AND 0xFFFFFFFF) + lo_hi;
          upper = drop_bit 32 hi_lo + drop_bit 32 cross + hi_hi;
          lower = push_bit 32 cross OR (lo_lo AND 0xFFFFFFFF)
      in \<lparr>low64 = lower, high64 = upper\<rparr>)"

text \<open>\<open>_umul128\<close> returns the low half and writes the high one through its argument.\<close>

definition XXH_mult64to128_umul128 :: "(uint64 \<Rightarrow> uint64 \<Rightarrow> uint64 \<times> uint64) \<Rightarrow> uint64 \<Rightarrow> uint64 \<Rightarrow> XXH128_hash" where
  "XXH_mult64to128_umul128 mul lhs rhs =
     (let (product_low, product_high) = mul lhs rhs
      in \<lparr>low64 = product_low, high64 = product_high\<rparr>)"

definition XXH_mult64to128_umulh :: "(uint64 \<Rightarrow> uint64 \<Rightarrow> uint64) \<Rightarrow> uint64 \<Rightarrow> uint64 \<Rightarrow> XXH128_hash" where
  "XXH_mult64to128_umulh mul lhs rhs = \<lparr>low64 = lhs * rhs, high64 = mul lhs rhs\<rparr>"

definition XXH_mult64to128_built :: "target \<Rightarrow> uint64 \<Rightarrow> uint64 \<Rightarrow> XXH128_hash" where
  "XXH_mult64to128_built t lhs rhs =
     (let m = defs t
      in if (is_defined m ''__GNUC__'' \<or> is_defined m ''__clang__'') \<and> \<not> is_defined m ''__wasm__'' \<and> is_defined m ''__SIZEOF_INT128__'' \<or>
            is_defined m ''_INTEGRAL_MAX_BITS'' \<and> 128 \<le> macro_value m ''_INTEGRAL_MAX_BITS''
         then XXH_mult64to128 lhs rhs
         else if (is_defined m ''_M_X64'' \<or> is_defined m ''_M_IA64'') \<and> \<not> is_defined m ''_M_ARM64EC''
         then XXH_mult64to128_umul128 (umul128 (builtin t)) lhs rhs
         else if is_defined m ''_M_ARM64'' \<or> is_defined m ''_M_ARM64EC''
         then XXH_mult64to128_umulh (umulh (builtin t)) lhs rhs
         else XXH_mult64to128_portable_built t lhs rhs)"

definition add_input_hi_built :: "target \<Rightarrow> uint64 \<Rightarrow> uint64" where
  "add_input_hi_built t input_hi =
     (if ptr32 t
      then (input_hi AND 0xFFFFFFFF00000000) + XXH_mult32to64_built t (ucast (ucast input_hi :: uint32)) (ucast XXH_PRIME32_2)
      else input_hi + XXH_mult32to64_built t (ucast (ucast input_hi :: uint32)) (ucast (XXH_PRIME32_2 - 1)))"

section \<open>The products and the mixing\<close>

definition XXH3_mul128_fold64_built :: "target \<Rightarrow> uint64 \<Rightarrow> uint64 \<Rightarrow> uint64" where
  "XXH3_mul128_fold64_built t lhs rhs = (let product = XXH_mult64to128_built t lhs rhs in low64 product XOR high64 product)"

definition XXH3_rrmxmx_built :: "target \<Rightarrow> uint64 \<Rightarrow> uint64 \<Rightarrow> uint64" where
  "XXH3_rrmxmx_built t h64 n =
     (let h64 = h64 XOR (XXH_rotl64_built t h64 49 XOR XXH_rotl64_built t h64 24);
          h64 = h64 * 0x9FB21C651E98DF25;
          h64 = h64 XOR (drop_bit 35 h64 + n);
          h64 = h64 * 0x9FB21C651E98DF25
      in XXH_xorshift64 h64 28)"

section \<open>Up to 240 bytes, 64 bits\<close>

definition XXH3_len_1to3_64b_built :: "target \<Rightarrow> byte list \<Rightarrow> byte list \<Rightarrow> uint64 \<Rightarrow> uint64" where
  "XXH3_len_1to3_64b_built t input secret seed =
     (let n = length input;
          c1 = input ! 0; c2 = input ! (n div 2); c3 = input ! (n - 1);
          combined = push_bit 16 (ucast c1) OR push_bit 24 (ucast c2) OR push_bit 0 (ucast c3) OR
                     push_bit 8 (of_nat n :: uint32);
          bitflip = ucast (XXH_readLE32_built t secret XOR XXH_readLE32_built t (drop 4 secret)) + seed;
          keyed = ucast combined XOR bitflip
      in XXH64_avalanche keyed)"

definition XXH3_len_4to8_64b_built :: "target \<Rightarrow> byte list \<Rightarrow> byte list \<Rightarrow> uint64 \<Rightarrow> uint64" where
  "XXH3_len_4to8_64b_built t input secret seed =
     (let n = length input;
          seed = seed XOR push_bit 32 (ucast (XXH_swap32_built t (ucast seed)));
          input1 = XXH_readLE32_built t input;
          input2 = XXH_readLE32_built t (drop (n - 4) input);
          bitflip = (XXH_readLE64_built t (drop 8 secret) XOR XXH_readLE64_built t (drop 16 secret)) - seed;
          input64 = ucast input2 + push_bit 32 (ucast input1);
          keyed = input64 XOR bitflip
      in XXH3_rrmxmx_built t keyed (of_nat n))"

definition XXH3_len_9to16_64b_built :: "target \<Rightarrow> byte list \<Rightarrow> byte list \<Rightarrow> uint64 \<Rightarrow> uint64" where
  "XXH3_len_9to16_64b_built t input secret seed =
     (let n = length input;
          bitflip1 = (XXH_readLE64_built t (drop 24 secret) XOR XXH_readLE64_built t (drop 32 secret)) + seed;
          bitflip2 = (XXH_readLE64_built t (drop 40 secret) XOR XXH_readLE64_built t (drop 48 secret)) - seed;
          input_lo = XXH_readLE64_built t input XOR bitflip1;
          input_hi = XXH_readLE64_built t (drop (n - 8) input) XOR bitflip2;
          acc = of_nat n + XXH_swap64_built t input_lo + input_hi + XXH3_mul128_fold64_built t input_lo input_hi
      in XXH3_avalanche acc)"

definition XXH3_len_0to16_64b_built :: "target \<Rightarrow> byte list \<Rightarrow> byte list \<Rightarrow> uint64 \<Rightarrow> uint64" where
  "XXH3_len_0to16_64b_built t input secret seed =
     (let n = length input
      in if 8 < n then XXH3_len_9to16_64b_built t input secret seed
         else if 4 \<le> n then XXH3_len_4to8_64b_built t input secret seed
         else if n \<noteq> 0 then XXH3_len_1to3_64b_built t input secret seed
         else XXH64_avalanche (seed XOR (XXH_readLE64_built t (drop 56 secret) XOR XXH_readLE64_built t (drop 64 secret))))"

definition XXH3_mix16B_built :: "target \<Rightarrow> byte list \<Rightarrow> byte list \<Rightarrow> uint64 \<Rightarrow> uint64" where
  "XXH3_mix16B_built t input secret seed64 =
     (let input_lo = XXH_readLE64_built t input;
          input_hi = XXH_readLE64_built t (drop 8 input)
      in XXH3_mul128_fold64_built t
           (input_lo XOR (XXH_readLE64_built t secret + seed64))
           (input_hi XOR (XXH_readLE64_built t (drop 8 secret) - seed64)))"

primrec len_17to128_loop_built :: "target \<Rightarrow> byte list \<Rightarrow> byte list \<Rightarrow> uint64 \<Rightarrow> nat \<Rightarrow> uint64 \<Rightarrow> uint64" where
  "len_17to128_loop_built t input secret seed 0 acc =
     acc + XXH3_mix16B_built t input secret seed
         + XXH3_mix16B_built t (drop (length input - 16) input) (drop 16 secret) seed"
| "len_17to128_loop_built t input secret seed (Suc k) acc =
     (let i = Suc k
      in len_17to128_loop_built t input secret seed k
           (acc + XXH3_mix16B_built t (drop (16 * i) input) (drop (32 * i) secret) seed
                + XXH3_mix16B_built t (drop (length input - 16 * (i + 1)) input) (drop (32 * i + 16) secret) seed))"

definition XXH3_len_17to128_64b_built :: "target \<Rightarrow> byte list \<Rightarrow> byte list \<Rightarrow> uint64 \<Rightarrow> uint64" where
  "XXH3_len_17to128_64b_built t input secret seed =
     (let n = length input;
          mix = (\<lambda>i s. XXH3_mix16B_built t (drop i input) (drop s secret) seed);
          acc = of_nat n * XXH_PRIME64_1;
          acc =
            (if 1 \<le> XXH_SIZE_OPT (defs t) then len_17to128_loop_built t input secret seed ((n - 1) div 32) acc
             else
               let acc =
                     (if 32 < n
                      then
                        let acc =
                              (if 64 < n
                               then
                                 let acc = (if 96 < n then acc + mix 48 96 + mix (n - 64) 112 else acc)
                                 in acc + mix 32 64 + mix (n - 48) 80
                               else acc)
                        in acc + mix 16 32 + mix (n - 32) 48
                      else acc)
               in acc + mix 0 0 + mix (n - 16) 16)
      in XXH3_avalanche acc)"

definition XXH3_len_129to240_64b_built :: "target \<Rightarrow> byte list \<Rightarrow> byte list \<Rightarrow> uint64 \<Rightarrow> uint64" where
  "XXH3_len_129to240_64b_built t input secret seed =
     (let n = length input;
          acc = of_nat n * XXH_PRIME64_1;
          nbRounds = n div 16;
          acc = foldl (\<lambda>acc i. acc + XXH3_mix16B_built t (drop (16 * i) input) (drop (16 * i) secret) seed) acc [0..<8];
          acc = XXH3_avalanche acc;
          acc = foldl (\<lambda>acc i. acc +
                  XXH3_mix16B_built t (drop (16 * i) input) (drop (16 * (i - 8) + XXH3_MIDSIZE_STARTOFFSET) secret) seed)
                acc [8..<nbRounds];
          acc = acc + XXH3_mix16B_built t (drop (n - 16) input)
                        (drop (XXH3_SECRET_SIZE_MIN - XXH3_MIDSIZE_LASTOFFSET) secret) seed
      in XXH3_avalanche acc)"

section \<open>Up to 240 bytes, 128 bits\<close>

definition XXH3_len_1to3_128b_built :: "target \<Rightarrow> byte list \<Rightarrow> byte list \<Rightarrow> uint64 \<Rightarrow> XXH128_hash" where
  "XXH3_len_1to3_128b_built t input secret seed =
     (let n = length input;
          c1 = input ! 0; c2 = input ! (n div 2); c3 = input ! (n - 1);
          combinedl = push_bit 16 (ucast c1) OR push_bit 24 (ucast c2) OR push_bit 0 (ucast c3) OR
                      push_bit 8 (of_nat n :: uint32);
          combinedh = XXH_rotl32_built t (XXH_swap32_built t combinedl) 13;
          bitflipl = ucast (XXH_readLE32_built t secret XOR XXH_readLE32_built t (drop 4 secret)) + seed;
          bitfliph = ucast (XXH_readLE32_built t (drop 8 secret) XOR XXH_readLE32_built t (drop 12 secret)) - seed;
          keyed_lo = ucast combinedl XOR bitflipl;
          keyed_hi = ucast combinedh XOR bitfliph
      in \<lparr>low64 = XXH64_avalanche keyed_lo, high64 = XXH64_avalanche keyed_hi\<rparr>)"

definition XXH3_len_4to8_128b_built :: "target \<Rightarrow> byte list \<Rightarrow> byte list \<Rightarrow> uint64 \<Rightarrow> XXH128_hash" where
  "XXH3_len_4to8_128b_built t input secret seed =
     (let n = length input;
          seed = seed XOR push_bit 32 (ucast (XXH_swap32_built t (ucast seed)));
          input_lo = XXH_readLE32_built t input;
          input_hi = XXH_readLE32_built t (drop (n - 4) input);
          input_64 = ucast input_lo + push_bit 32 (ucast input_hi);
          bitflip = (XXH_readLE64_built t (drop 16 secret) XOR XXH_readLE64_built t (drop 24 secret)) + seed;
          keyed = input_64 XOR bitflip;
          m128 = XXH_mult64to128_built t keyed (XXH_PRIME64_1 + push_bit 2 (of_nat n));
          m128 = m128\<lparr>high64 := high64 m128 + push_bit 1 (low64 m128)\<rparr>;
          m128 = m128\<lparr>low64 := low64 m128 XOR drop_bit 3 (high64 m128)\<rparr>;
          m128 = m128\<lparr>low64 := XXH_xorshift64 (low64 m128) 35\<rparr>;
          m128 = m128\<lparr>low64 := low64 m128 * 0x9FB21C651E98DF25\<rparr>;
          m128 = m128\<lparr>low64 := XXH_xorshift64 (low64 m128) 28\<rparr>
      in m128\<lparr>high64 := XXH3_avalanche (high64 m128)\<rparr>)"

definition XXH3_len_9to16_128b_built :: "target \<Rightarrow> byte list \<Rightarrow> byte list \<Rightarrow> uint64 \<Rightarrow> XXH128_hash" where
  "XXH3_len_9to16_128b_built t input secret seed =
     (let n = length input;
          bitflipl = (XXH_readLE64_built t (drop 32 secret) XOR XXH_readLE64_built t (drop 40 secret)) - seed;
          bitfliph = (XXH_readLE64_built t (drop 48 secret) XOR XXH_readLE64_built t (drop 56 secret)) + seed;
          input_lo = XXH_readLE64_built t input;
          input_hi = XXH_readLE64_built t (drop (n - 8) input);
          m128 = XXH_mult64to128_built t (input_lo XOR input_hi XOR bitflipl) XXH_PRIME64_1;
          m128 = m128\<lparr>low64 := low64 m128 + push_bit 54 (of_nat (n - 1))\<rparr>;
          input_hi = input_hi XOR bitfliph;
          m128 = m128\<lparr>high64 := high64 m128 + add_input_hi_built t input_hi\<rparr>;
          m128 = m128\<lparr>low64 := low64 m128 XOR XXH_swap64_built t (high64 m128)\<rparr>;
          h128 = XXH_mult64to128_built t (low64 m128) XXH_PRIME64_2;
          h128 = h128\<lparr>high64 := high64 h128 + high64 m128 * XXH_PRIME64_2\<rparr>
      in \<lparr>low64 = XXH3_avalanche (low64 h128), high64 = XXH3_avalanche (high64 h128)\<rparr>)"

definition XXH3_len_0to16_128b_built :: "target \<Rightarrow> byte list \<Rightarrow> byte list \<Rightarrow> uint64 \<Rightarrow> XXH128_hash" where
  "XXH3_len_0to16_128b_built t input secret seed =
     (let n = length input
      in if 8 < n then XXH3_len_9to16_128b_built t input secret seed
         else if 4 \<le> n then XXH3_len_4to8_128b_built t input secret seed
         else if n \<noteq> 0 then XXH3_len_1to3_128b_built t input secret seed
         else
           let bitflipl = XXH_readLE64_built t (drop 64 secret) XOR XXH_readLE64_built t (drop 72 secret);
               bitfliph = XXH_readLE64_built t (drop 80 secret) XOR XXH_readLE64_built t (drop 88 secret)
           in \<lparr>low64 = XXH64_avalanche (seed XOR bitflipl), high64 = XXH64_avalanche (seed XOR bitfliph)\<rparr>)"

definition XXH128_mix32B_built :: "target \<Rightarrow> XXH128_hash \<Rightarrow> byte list \<Rightarrow> byte list \<Rightarrow> byte list \<Rightarrow> uint64 \<Rightarrow> XXH128_hash" where
  "XXH128_mix32B_built t acc input_1 input_2 secret seed =
     (let acc = acc\<lparr>low64 := low64 acc + XXH3_mix16B_built t input_1 secret seed\<rparr>;
          acc = acc\<lparr>low64 := low64 acc XOR (XXH_readLE64_built t input_2 + XXH_readLE64_built t (drop 8 input_2))\<rparr>;
          acc = acc\<lparr>high64 := high64 acc + XXH3_mix16B_built t input_2 (drop 16 secret) seed\<rparr>
      in acc\<lparr>high64 := high64 acc XOR (XXH_readLE64_built t input_1 + XXH_readLE64_built t (drop 8 input_1))\<rparr>)"

primrec len_17to128_128b_loop_built :: "target \<Rightarrow> byte list \<Rightarrow> byte list \<Rightarrow> uint64 \<Rightarrow> nat \<Rightarrow> XXH128_hash \<Rightarrow> XXH128_hash" where
  "len_17to128_128b_loop_built t input secret seed 0 acc =
     XXH128_mix32B_built t acc input (drop (length input - 16) input) secret seed"
| "len_17to128_128b_loop_built t input secret seed (Suc k) acc =
     (let i = Suc k
      in len_17to128_128b_loop_built t input secret seed k
           (XXH128_mix32B_built t acc (drop (16 * i) input) (drop (length input - 16 * (i + 1)) input) (drop (32 * i) secret) seed))"

definition XXH3_len_17to128_128b_built :: "target \<Rightarrow> byte list \<Rightarrow> byte list \<Rightarrow> uint64 \<Rightarrow> XXH128_hash" where
  "XXH3_len_17to128_128b_built t input secret seed =
     (let n = length input;
          mix = (\<lambda>acc i j s. XXH128_mix32B_built t acc (drop i input) (drop j input) (drop s secret) seed);
          acc = \<lparr>low64 = of_nat n * XXH_PRIME64_1, high64 = 0\<rparr>;
          acc =
            (if 1 \<le> XXH_SIZE_OPT (defs t) then len_17to128_128b_loop_built t input secret seed ((n - 1) div 32) acc
             else
               let acc =
                     (if 32 < n
                      then
                        let acc =
                              (if 64 < n
                               then
                                 let acc = (if 96 < n then mix acc 48 (n - 64) 96 else acc)
                                 in mix acc 32 (n - 48) 64
                               else acc)
                        in mix acc 16 (n - 32) 32
                      else acc)
               in mix acc 0 (n - 16) 0)
      in finish_128b n seed acc)"

definition XXH3_len_129to240_128b_built :: "target \<Rightarrow> byte list \<Rightarrow> byte list \<Rightarrow> uint64 \<Rightarrow> XXH128_hash" where
  "XXH3_len_129to240_128b_built t input secret seed =
     (let n = length input;
          nbRounds = n div 32;
          acc = \<lparr>low64 = of_nat n * XXH_PRIME64_1, high64 = 0\<rparr>;
          acc = foldl (\<lambda>acc i. XXH128_mix32B_built t acc (drop (32 * i) input) (drop (32 * i + 16) input)
                                  (drop (32 * i) secret) seed) acc [0..<4];
          acc = \<lparr>low64 = XXH3_avalanche (low64 acc), high64 = XXH3_avalanche (high64 acc)\<rparr>;
          acc = foldl (\<lambda>acc i. XXH128_mix32B_built t acc (drop (32 * i) input) (drop (32 * i + 16) input)
                                  (drop (XXH3_MIDSIZE_STARTOFFSET + 32 * (i - 4)) secret) seed) acc [4..<nbRounds];
          acc = XXH128_mix32B_built t acc (drop (n - 16) input) (drop (n - 32) input)
                  (drop (XXH3_SECRET_SIZE_MIN - XXH3_MIDSIZE_LASTOFFSET - 16) secret) (0 - seed)
      in finish_128b n seed acc)"

section \<open>The scalar kernels\<close>

definition XXH3_scalarRound_built :: "target \<Rightarrow> accs \<Rightarrow> byte list \<Rightarrow> byte list \<Rightarrow> nat \<Rightarrow> accs" where
  "XXH3_scalarRound_built t acc input secret lane =
     (let data_val = XXH_readLE64_built t (drop (lane * 8) input);
          data_key = data_val XOR XXH_readLE64_built t (drop (lane * 8) secret);
          acc = acc[lane XOR 1 := acc ! (lane XOR 1) + data_val]
      in acc[lane := acc ! lane + XXH_mult32to64_built t (data_key AND 0xFFFFFFFF) (drop_bit 32 data_key)])"

definition XXH3_accumulate_512_scalar_built :: "target \<Rightarrow> f_accumulate_512" where
  "XXH3_accumulate_512_scalar_built t acc input secret =
     foldl (\<lambda>acc i. XXH3_scalarRound_built t acc input secret i) acc [0..<XXH_ACC_NB]"

definition XXH3_scalarScrambleRound_built :: "target \<Rightarrow> accs \<Rightarrow> byte list \<Rightarrow> nat \<Rightarrow> accs" where
  "XXH3_scalarScrambleRound_built t acc secret lane =
     (let key64 = XXH_readLE64_built t (drop (lane * 8) secret);
          acc64 = acc ! lane;
          acc64 = XXH_xorshift64 acc64 47;
          acc64 = acc64 XOR key64;
          acc64 = acc64 * ucast XXH_PRIME32_1
      in acc[lane := acc64])"

definition XXH3_scrambleAcc_scalar_built :: "target \<Rightarrow> f_scrambleAcc" where
  "XXH3_scrambleAcc_scalar_built t acc secret = foldl (\<lambda>acc i. XXH3_scalarScrambleRound_built t acc secret i) acc [0..<XXH_ACC_NB]"

definition XXH3_initCustomSecret_scalar_built :: "target \<Rightarrow> f_initCustomSecret" where
  "XXH3_initCustomSecret_scalar_built t seed64 =
     foldl (\<lambda>customSecret i.
       let lo = XXH_readLE64_built t (drop (16 * i) XXH3_kSecret) + seed64;
           hi = XXH_readLE64_built t (drop (16 * i + 8) XXH3_kSecret) - seed64;
           customSecret = XXH_writeLE64_built t customSecret (16 * i) lo
       in XXH_writeLE64_built t customSecret (16 * i + 8) hi)
     (replicate XXH_SECRET_DEFAULT_SIZE 0) [0..<XXH_SECRET_DEFAULT_SIZE div 16]"

text \<open>The lanes that the kernels for NEON leave to the scalar code.\<close>

definition XXH3_accumulate_512_neon_built :: "target \<Rightarrow> nat \<Rightarrow> ('q, 'd) neon \<Rightarrow> f_accumulate_512" where
  "XXH3_accumulate_512_neon_built t n ops acc input secret =
     (let acc = foldl (\<lambda>acc i. XXH3_scalarRound_built t acc input secret i) acc [n..<XXH_ACC_NB]
      in foldl (\<lambda>acc i. neon_set ops acc i
             (accumulate_neon ops (neon_get ops acc i) (XXH_vld1q_u64 ops (drop (i * 16) input)) (XXH_vld1q_u64 ops (drop (i * 16) secret))))
           acc [0..<n div 2])"

definition XXH3_scrambleAcc_neon_built :: "target \<Rightarrow> nat \<Rightarrow> ('q, 'd) neon \<Rightarrow> f_scrambleAcc" where
  "XXH3_scrambleAcc_neon_built t n ops acc secret =
     (let prime = vdup_n_u32 ops XXH_PRIME32_1;
          acc = foldl (\<lambda>acc i. XXH3_scalarScrambleRound_built t acc secret i) acc [n..<XXH_ACC_NB]
      in foldl (\<lambda>acc i. neon_set ops acc i (scramble_neon ops prime (neon_get ops acc i) (XXH_vld1q_u64 ops (drop (i * 16) secret))))
           acc [0..<n div 2])"

section \<open>The kernels of a target\<close>

text \<open>The loads of the vector units are their own; \<open>vec\<close> carries the byte order of those of VSX.\<close>

fun XXH3_accumulate_512_built :: "target \<Rightarrow> ('v, 'q, 'd) XXH_VECTOR_TYPE \<Rightarrow> f_accumulate_512" where
  "XXH3_accumulate_512_built t (XXH_AVX512 ops) = XXH3_accumulate_512_avx512 ops"
| "XXH3_accumulate_512_built t (XXH_AVX2 ops) = XXH3_accumulate_512_avx2 ops"
| "XXH3_accumulate_512_built t (XXH_SSE2 ops) = XXH3_accumulate_512_sse2 ops"
| "XXH3_accumulate_512_built t (XXH_NEON n ops) = XXH3_accumulate_512_neon_built t n ops"
| "XXH3_accumulate_512_built t (XXH_VSX big be ops) = XXH3_accumulate_512_vsx big be ops"
| "XXH3_accumulate_512_built t XXH_SCALAR = XXH3_accumulate_512_scalar_built t"

fun XXH3_scrambleAcc_built :: "target \<Rightarrow> ('v, 'q, 'd) XXH_VECTOR_TYPE \<Rightarrow> f_scrambleAcc" where
  "XXH3_scrambleAcc_built t (XXH_AVX512 ops) = XXH3_scrambleAcc_avx512 ops"
| "XXH3_scrambleAcc_built t (XXH_AVX2 ops) = XXH3_scrambleAcc_avx2 ops"
| "XXH3_scrambleAcc_built t (XXH_SSE2 ops) = XXH3_scrambleAcc_sse2 ops"
| "XXH3_scrambleAcc_built t (XXH_NEON n ops) = XXH3_scrambleAcc_neon_built t n ops"
| "XXH3_scrambleAcc_built t (XXH_VSX big be ops) = XXH3_scrambleAcc_vsx big be ops"
| "XXH3_scrambleAcc_built t XXH_SCALAR = XXH3_scrambleAcc_scalar_built t"

definition XXH3_initCustomSecret_built :: "target \<Rightarrow> ('v, 'q, 'd) XXH_VECTOR_TYPE \<Rightarrow> f_initCustomSecret" where
  "XXH3_initCustomSecret_built t vec =
     (if 1 \<le> XXH_SIZE_OPT (defs t) then XXH3_initCustomSecret_scalar_built t
      else
        case vec of
          XXH_AVX512 ops \<Rightarrow> XXH3_initCustomSecret_avx512 ops
        | XXH_AVX2 ops \<Rightarrow> XXH3_initCustomSecret_avx2 ops
        | XXH_SSE2 ops \<Rightarrow> XXH3_initCustomSecret_sse2 ops
        | _ \<Rightarrow> XXH3_initCustomSecret_scalar_built t)"

section \<open>Long inputs\<close>

definition XXH3_mix2Accs_built :: "target \<Rightarrow> accs \<Rightarrow> byte list \<Rightarrow> uint64" where
  "XXH3_mix2Accs_built t acc secret =
     XXH3_mul128_fold64_built t (acc ! 0 XOR XXH_readLE64_built t secret) (acc ! 1 XOR XXH_readLE64_built t (drop 8 secret))"

definition XXH3_mergeAccs_built :: "target \<Rightarrow> accs \<Rightarrow> byte list \<Rightarrow> uint64 \<Rightarrow> uint64" where
  "XXH3_mergeAccs_built t acc secret start =
     XXH3_avalanche
       (foldl (\<lambda>result64 i. result64 + XXH3_mix2Accs_built t (drop (2 * i) acc) (drop (16 * i) secret)) start [0..<4])"

definition XXH3_hashLong_64b_internal_built ::
  "target \<Rightarrow> byte list \<Rightarrow> byte list \<Rightarrow> f_accumulate_512 \<Rightarrow> f_scrambleAcc \<Rightarrow> uint64" where
  "XXH3_hashLong_64b_internal_built t input secret f_acc512 f_scramble =
     (let acc = XXH3_hashLong_internal_loop XXH3_INIT_ACC input secret f_acc512 f_scramble
      in XXH3_mergeAccs_built t acc (drop XXH_SECRET_MERGEACCS_START secret) (of_nat (length input) * XXH_PRIME64_1))"

definition XXH3_hashLong_64b_withSeed_internal_built ::
  "target \<Rightarrow> byte list \<Rightarrow> uint64 \<Rightarrow> f_accumulate_512 \<Rightarrow> f_scrambleAcc \<Rightarrow> f_initCustomSecret \<Rightarrow> uint64" where
  "XXH3_hashLong_64b_withSeed_internal_built t input seed f_acc512 f_scramble f_initSec =
     (if XXH_SIZE_OPT (defs t) \<le> 0 \<and> seed = 0
      then XXH3_hashLong_64b_internal_built t input XXH3_kSecret f_acc512 f_scramble
      else let secret = f_initSec seed in XXH3_hashLong_64b_internal_built t input secret f_acc512 f_scramble)"

definition XXH3_64bits_internal_built ::
  "target \<Rightarrow> byte list \<Rightarrow> uint64 \<Rightarrow> byte list \<Rightarrow> (byte list \<Rightarrow> uint64 \<Rightarrow> byte list \<Rightarrow> uint64) \<Rightarrow> uint64" where
  "XXH3_64bits_internal_built t input seed64 secret f_hashLong =
     (if length input \<le> 16 then XXH3_len_0to16_64b_built t input secret seed64
      else if length input \<le> 128 then XXH3_len_17to128_64b_built t input secret seed64
      else if length input \<le> XXH3_MIDSIZE_MAX then XXH3_len_129to240_64b_built t input secret seed64
      else f_hashLong input seed64 secret)"

definition merge_128b_built :: "target \<Rightarrow> accs \<Rightarrow> byte list \<Rightarrow> uint64 \<Rightarrow> XXH128_hash" where
  "merge_128b_built t acc secret n =
     \<lparr>low64 = XXH3_mergeAccs_built t acc (drop XXH_SECRET_MERGEACCS_START secret) (n * XXH_PRIME64_1),
      high64 = XXH3_mergeAccs_built t acc (drop (length secret - 64 - XXH_SECRET_MERGEACCS_START) secret)
                 (NOT (n * XXH_PRIME64_2))\<rparr>"

definition XXH3_hashLong_128b_internal_built ::
  "target \<Rightarrow> byte list \<Rightarrow> byte list \<Rightarrow> f_accumulate_512 \<Rightarrow> f_scrambleAcc \<Rightarrow> XXH128_hash" where
  "XXH3_hashLong_128b_internal_built t input secret f_acc512 f_scramble =
     (let acc = XXH3_hashLong_internal_loop XXH3_INIT_ACC input secret f_acc512 f_scramble
      in merge_128b_built t acc secret (of_nat (length input)))"

definition XXH3_hashLong_128b_withSeed_internal_built ::
  "target \<Rightarrow> byte list \<Rightarrow> uint64 \<Rightarrow> f_accumulate_512 \<Rightarrow> f_scrambleAcc \<Rightarrow> f_initCustomSecret \<Rightarrow> XXH128_hash" where
  "XXH3_hashLong_128b_withSeed_internal_built t input seed64 f_acc512 f_scramble f_initSec =
     (if seed64 = 0 then XXH3_hashLong_128b_internal_built t input XXH3_kSecret f_acc512 f_scramble
      else let secret = f_initSec seed64 in XXH3_hashLong_128b_internal_built t input secret f_acc512 f_scramble)"

definition XXH3_128bits_internal_built ::
  "target \<Rightarrow> byte list \<Rightarrow> uint64 \<Rightarrow> byte list \<Rightarrow> (byte list \<Rightarrow> uint64 \<Rightarrow> byte list \<Rightarrow> XXH128_hash) \<Rightarrow> XXH128_hash" where
  "XXH3_128bits_internal_built t input seed64 secret f_hl128 =
     (if length input \<le> 16 then XXH3_len_0to16_128b_built t input secret seed64
      else if length input \<le> 128 then XXH3_len_17to128_128b_built t input secret seed64
      else if length input \<le> XXH3_MIDSIZE_MAX then XXH3_len_129to240_128b_built t input secret seed64
      else f_hl128 input seed64 secret)"

section \<open>Facts on words\<close>

named_theorems built \<open>functions of a build that are those of the portable code\<close>

lemma rotated_index:
  fixes r n w :: nat
  assumes "r < w" "n < w"
  shows "(n + w - r) mod w = (if r \<le> n then n - r else n + w - r)"
proof (cases "r \<le> n")
  case True
  then have "n + w - r = (n - r) + w" by simp
  then show ?thesis using True assms by (simp only: mod_add_self2) simp
qed (use assms in simp)

lemma rotl_of_shifts:
  assumes "0 < r" "r < LENGTH('a)"
  shows "word_rotl r (x :: 'a::len word) = push_bit r x OR drop_bit (LENGTH('a) - r) x"
proof (rule bit_word_eqI)
  fix n assume n: "n < LENGTH('a)"
  then show "bit (word_rotl r x) n = bit (push_bit r x OR drop_bit (LENGTH('a) - r) x) n"
    using assms rotated_index [OF assms(2) n]
    by (auto simp: bit_word_rotl_iff bit_or_iff bit_push_bit_iff bit_drop_bit_eq add.commute dest: bit_imp_le_length)
qed

lemmas rotl32_of_shifts = rotl_of_shifts [where 'a = 32, simplified]
lemmas rotl64_of_shifts = rotl_of_shifts [where 'a = 64, simplified]

lemma of_bytes_padded: "of_bytes (p @ replicate n 0) = of_bytes p"
  by (induction p) (simp_all add: of_bytes_zeros)

lemma unat_mod_32: "unat (ucast x :: uint32) = unat (x :: uint64) mod 2 ^ 32"
  by (simp add: unsigned_ucast_eq take_bit_eq_mod unat_mod)

lemma mult32to64_masks: "XXH_mult32to64_masks x y = XXH_mult32to64 x y"
proof (rule word_eq_unatI)
  have "unat x mod 2 ^ 32 * (unat y mod 2 ^ 32) < 2 ^ 32 * 2 ^ 32" by (intro mult_strict_mono) simp_all
  then show "unat (XXH_mult32to64_masks x y) = unat (XXH_mult32to64 x y)"
    by (simp add: XXH_mult32to64_masks_def mult32to64 unat_mult64 low32)
qed

lemma halves_of_product:
  "low64 (XXH_mult64to128 x y) = x * y" "high64 (XXH_mult64to128 x y) = of_nat (unat x * unat y div 2 ^ 64)"
proof -
  show "low64 (XXH_mult64to128 x y) = x * y"
    by (rule word_eq_unatI) (simp add: product128 unat_word_ariths)
  show "high64 (XXH_mult64to128 x y) = of_nat (unat x * unat y div 2 ^ 64)"
    using arg_cong [OF product128(1) [of x y], of "of_nat :: nat \<Rightarrow> uint64"] by simp
qed

section \<open>Targets that their macros describe\<close>

text \<open>
  What is documented of the builtins, and that the macros on the byte order tell that of the machine.
  The vector units other than VSX are those of little-endian machines.
\<close>

locale described_target =
  fixes t :: target
  assumes umul128: "umul128 (builtin t) x y = (x * y, of_nat (unat x * unat y div 2 ^ 64))"
    and umulh: "umulh (builtin t) x y = of_nat (unat x * unat y div 2 ^ 64)"
    and emulu: "unat (emulu (builtin t) a b) = unat a * unat b"
    and bswap32: "to_bytes (bswap32 (builtin t) a) = rev (to_bytes a)"
    and bswap64: "to_bytes (bswap64 (builtin t) x) = rev (to_bytes x)"
    and rotate32: "0 < r \<Longrightarrow> r < 32 \<Longrightarrow> rotate32 (builtin t) a r = word_rotl r a"
    and rotate64: "0 < r \<Longrightarrow> r < 64 \<Longrightarrow> rotate64 (builtin t) x r = word_rotl r x"
    and byte_order: "cpu_little_endian t \<longleftrightarrow> \<not> big_endian t"
    and vsx_order: "XXH_VECTOR (defs t) = 5 \<Longrightarrow> XXH_VSX_BE (defs t) \<noteq> 0 \<longleftrightarrow> big_endian t"
    and vector_order: "XXH_VECTOR (defs t) \<in> {1, 2, 3, 4} \<Longrightarrow> \<not> big_endian t"
begin

lemma swap32_built [simp, built]: "XXH_swap32_built t x = XXH_swap32 x"
proof -
  have "bswap32 (builtin t) x = of_bytes (rev (to_bytes x))"
    using arg_cong [OF bswap32 [of x], of "of_bytes :: byte list \<Rightarrow> uint32"] by (simp add: of_to_bytes)
  also have "\<dots> = XXH_swap32 x"
    using swap_of_bytes_32 [of "to_bytes x"] by (simp add: of_to_bytes sizeof_word_def)
  finally show ?thesis by (simp add: XXH_swap32_built_def)
qed

lemma swap64_built [simp, built]: "XXH_swap64_built t x = XXH_swap64 x"
proof -
  have "bswap64 (builtin t) x = of_bytes (rev (to_bytes x))"
    using arg_cong [OF bswap64 [of x], of "of_bytes :: byte list \<Rightarrow> uint64"] by (simp add: of_to_bytes)
  also have "\<dots> = XXH_swap64 x"
    using swap_of_bytes_64 [of "to_bytes x"] by (simp add: of_to_bytes sizeof_word_def)
  finally show ?thesis by (simp add: XXH_swap64_built_def)
qed

lemma rotl_built [simp]:
  "0 < r \<Longrightarrow> r < 32 \<Longrightarrow> XXH_rotl32_built t a r = XXH_rotl32 a r"
  "0 < r \<Longrightarrow> r < 64 \<Longrightarrow> XXH_rotl64_built t x r = XXH_rotl64 x r"
  by (simp_all add: XXH_rotl32_built_def XXH_rotl64_built_def XXH_rotl32_def XXH_rotl64_def rotate32 rotate64 rotl32_of_shifts rotl64_of_shifts)

lemma read32_built [simp, built]: "XXH_readLE32_built t p = XXH_readLE32 p"
proof -
  define bytes where "bytes = take 4 (p @ replicate 4 0)"
  have l: "length bytes = 4" by (simp add: bytes_def)
  have v: "XXH_readLE32 p = of_bytes bytes" "XXH_readLE32_shift (p @ replicate 4 0) = of_bytes bytes"
    by (simp_all add: bytes_def read32_shift(1) [symmetric] XXH_readLE32_def XXH_read32_def of_bytes_padded)
  show ?thesis
    using swap_of_bytes_32 [of "rev bytes"] byte_order l
    by (auto simp: XXH_readLE32_built_def XXH_read32_built_def v bytes_def [symmetric] Let_def simp del: take_append)
qed

lemma read64_built [simp, built]: "XXH_readLE64_built t p = XXH_readLE64 p"
proof -
  define bytes where "bytes = take 8 (p @ replicate 8 0)"
  have l: "length bytes = 8" by (simp add: bytes_def)
  have v: "XXH_readLE64 p = of_bytes bytes" "XXH_readLE64_shift (p @ replicate 8 0) = of_bytes bytes"
    by (simp_all add: bytes_def read64_shift(1) [symmetric] XXH_readLE64_def XXH_read64_def of_bytes_padded)
  show ?thesis
    using swap_of_bytes_64 [of "rev bytes"] byte_order l
    by (auto simp: XXH_readLE64_built_def XXH_read64_built_def v bytes_def [symmetric] Let_def simp del: take_append)
qed

lemma write64_built [simp, built]: "XXH_writeLE64_built t dst off v = XXH_writeLE64 dst off v"
proof -
  have "XXH_swap64 v = of_bytes (rev (to_bytes v))"
    using swap_of_bytes_64 [of "to_bytes v"] by (simp add: of_to_bytes sizeof_word_def)
  then have "rev (to_bytes (XXH_swap64 v)) = to_bytes v"
    by (simp add: to_of_bytes sizeof_word_def)
  then show ?thesis
    using byte_order by (auto simp: XXH_writeLE64_built_def XXH_writeLE64_def native_bytes_def Let_def)
qed

lemma mult32_built [simp, built]: "XXH_mult32to64_built t x y = XXH_mult32to64 x y"
proof -
  have "emulu (builtin t) (ucast x) (ucast y) = XXH_mult32to64 x y"
    by (rule word_eq_unatI) (simp add: emulu mult32to64 unat_mod_32)
  then show ?thesis by (simp add: XXH_mult32to64_built_def mult32to64_masks XXH_mult32to64_def)
qed

lemma mult64_built [simp, built]: "XXH_mult64to128_built t x y = XXH_mult64to128 x y"
proof -
  have p: "XXH_mult64to128_portable_built t x y = XXH_mult64to128 x y"
    by (simp only: XXH_mult64to128_portable_built_def mult32_built mult64to128_portable [symmetric] XXH_mult64to128_portable_def)
  have "XXH_mult64to128 x y = \<lparr>low64 = x * y, high64 = of_nat (unat x * unat y div 2 ^ 64)\<rparr>"
    by (intro XXH128_hash.equality) (simp_all add: halves_of_product)
  then show ?thesis
    by (simp only: XXH_mult64to128_built_def XXH_mult64to128_umul128_def XXH_mult64to128_umulh_def p umul128 umulh
        Let_def case_prod_conv if_cancel)
qed

lemma input_hi_built [simp, built]: "add_input_hi_built t x = add_input_hi False x"
  using add_input_hi_eq [of x] by (simp add: add_input_hi_built_def add_input_hi_def)

text \<open>The functions of XXH3, in the order of their calls.\<close>

lemma rotations [built]:
  "XXH_rotl32_built t a 13 = XXH_rotl32 a 13" "XXH_rotl64_built t x 49 = XXH_rotl64 x 49" "XXH_rotl64_built t x 24 = XXH_rotl64 x 24"
  by simp_all

lemma size_opt_nat [built]: "1 \<le> nat z \<longleftrightarrow> 1 \<le> z" "nat z \<le> 0 \<longleftrightarrow> z \<le> 0"
  by auto

lemma mixing_built [built]:
  "XXH3_mul128_fold64_built t = XXH3_mul128_fold64" "XXH3_rrmxmx_built t = XXH3_rrmxmx"
  unfolding built XXH3_mul128_fold64_built_def XXH3_mul128_fold64_def XXH3_rrmxmx_built_def XXH3_rrmxmx_def
  by (rule refl)+

lemma short_64b_built [built]:
  "XXH3_len_0to16_64b_built t = XXH3_len_0to16_64b"
  unfolding built XXH3_len_0to16_64b_built_def XXH3_len_0to16_64b_def XXH3_len_1to3_64b_built_def
    XXH3_len_1to3_64b_def XXH3_len_4to8_64b_built_def XXH3_len_4to8_64b_def XXH3_len_9to16_64b_built_def
    XXH3_len_9to16_64b_def
  by (rule refl)+

lemma mix16B_built [built]:
  "XXH3_mix16B_built t = XXH3_mix16B"
  unfolding built XXH3_mix16B_built_def XXH3_mix16B_def
  by (rule refl)+

lemma loop_64b_built [built]: "len_17to128_loop_built t input secret seed k acc = len_17to128_loop input secret seed k acc"
  by (induction k arbitrary: acc) (simp_all add: mix16B_built)

lemma middle_64b_built [built]:
  "XXH3_len_17to128_64b_built t = XXH3_len_17to128_64b (nat (XXH_SIZE_OPT (defs t)))"
  "XXH3_len_129to240_64b_built t = XXH3_len_129to240_64b"
  unfolding built XXH3_len_17to128_64b_built_def XXH3_len_17to128_64b_def XXH3_len_129to240_64b_built_def
    XXH3_len_129to240_64b_def
  by (rule refl)+

lemma short_128b_built [built]:
  "XXH3_len_0to16_128b_built t = XXH3_len_0to16_128b"
  unfolding built XXH3_len_0to16_128b_built_def XXH3_len_0to16_128b_def XXH3_len_1to3_128b_built_def
    XXH3_len_1to3_128b_def XXH3_len_4to8_128b_built_def XXH3_len_4to8_128b_def XXH3_len_9to16_128b_built_def
    XXH3_len_9to16_128b_def
  by (rule refl)+

lemma mix32B_built [built]:
  "XXH128_mix32B_built t = XXH128_mix32B"
  unfolding built XXH128_mix32B_built_def XXH128_mix32B_def
  by (rule refl)+

lemma loop_128b_built [built]:
  "len_17to128_128b_loop_built t input secret seed k acc = len_17to128_128b_loop input secret seed k acc"
  by (induction k arbitrary: acc) (simp_all add: mix32B_built)

lemma middle_128b_built [built]:
  "XXH3_len_17to128_128b_built t = XXH3_len_17to128_128b (nat (XXH_SIZE_OPT (defs t)))"
  "XXH3_len_129to240_128b_built t = XXH3_len_129to240_128b"
  unfolding built XXH3_len_17to128_128b_built_def XXH3_len_17to128_128b_def XXH3_len_129to240_128b_built_def
    XXH3_len_129to240_128b_def
  by (rule refl)+

lemma rounds_built [built]:
  "XXH3_scalarRound_built t = XXH3_scalarRound" "XXH3_scalarScrambleRound_built t = XXH3_scalarScrambleRound"
  unfolding built XXH3_scalarRound_built_def XXH3_scalarRound_def XXH3_scalarScrambleRound_built_def
    XXH3_scalarScrambleRound_def
  by (rule refl)+

lemma scalar_kernels_built [built]:
  "XXH3_accumulate_512_scalar_built t = XXH3_accumulate_512_scalar"
  "XXH3_scrambleAcc_scalar_built t = XXH3_scrambleAcc_scalar"
  "XXH3_initCustomSecret_scalar_built t = XXH3_initCustomSecret_scalar"
  unfolding built XXH3_accumulate_512_scalar_built_def XXH3_accumulate_512_scalar_def
    XXH3_scrambleAcc_scalar_built_def XXH3_scrambleAcc_scalar_def XXH3_initCustomSecret_scalar_built_def
    XXH3_initCustomSecret_scalar_def
  by (rule refl)+

lemma neon_kernels_built [built]:
  "XXH3_accumulate_512_neon_built t = XXH3_accumulate_512_neon"
  "XXH3_scrambleAcc_neon_built t = XXH3_scrambleAcc_neon"
  unfolding built XXH3_accumulate_512_neon_built_def XXH3_accumulate_512_neon_def
    XXH3_scrambleAcc_neon_built_def XXH3_scrambleAcc_neon_def
  by (rule refl)+

lemma kernels_built [built]:
  "XXH3_accumulate_512_built t vec = XXH3_accumulate_512 vec"
  "XXH3_scrambleAcc_built t vec = XXH3_scrambleAcc vec"
  "XXH3_initCustomSecret_built t vec = XXH3_initCustomSecret (nat (XXH_SIZE_OPT (defs t))) vec"
  by (cases vec; simp only: XXH3_accumulate_512.simps XXH3_accumulate_512_built.simps XXH3_scrambleAcc.simps XXH3_scrambleAcc_built.simps
      XXH3_initCustomSecret_built_def XXH3_initCustomSecret_def size_opt_nat XXH_VECTOR_TYPE.case neon_kernels_built scalar_kernels_built)+

lemma merge_built [built]:
  "XXH3_mergeAccs_built t = XXH3_mergeAccs" "merge_128b_built t = merge_128b"
  unfolding built XXH3_mergeAccs_built_def XXH3_mergeAccs_def XXH3_mix2Accs_built_def XXH3_mix2Accs_def
    merge_128b_built_def merge_128b_def
  by (rule refl)+

lemma long_built [built]:
  "XXH3_hashLong_64b_internal_built t = XXH3_hashLong_64b_internal"
  "XXH3_hashLong_64b_withSeed_internal_built t = XXH3_hashLong_64b_withSeed_internal (nat (XXH_SIZE_OPT (defs t)))"
  "XXH3_hashLong_128b_internal_built t = XXH3_hashLong_128b_internal"
  "XXH3_hashLong_128b_withSeed_internal_built t = XXH3_hashLong_128b_withSeed_internal"
  unfolding built XXH3_hashLong_64b_internal_built_def XXH3_hashLong_64b_internal_def
    XXH3_hashLong_64b_withSeed_internal_built_def XXH3_hashLong_64b_withSeed_internal_def
    XXH3_hashLong_128b_internal_built_def XXH3_hashLong_128b_internal_def XXH3_hashLong_128b_withSeed_internal_built_def
    XXH3_hashLong_128b_withSeed_internal_def
  by (rule refl)+

lemma internal_built [built]:
  "XXH3_64bits_internal_built t = XXH3_64bits_internal (nat (XXH_SIZE_OPT (defs t)))"
  "XXH3_128bits_internal_built t = XXH3_128bits_internal (nat (XXH_SIZE_OPT (defs t)))"
  unfolding built XXH3_64bits_internal_built_def XXH3_64bits_internal_def XXH3_128bits_internal_built_def
    XXH3_128bits_internal_def
  by (rule refl)+

end

text \<open>Reference builtins.\<close>

definition builtins_ref :: builtins where
  "builtins_ref = \<lparr>umul128 = (\<lambda>x y. (x * y, of_nat (unat x * unat y div 2 ^ 64))),
     umulh = (\<lambda>x y. of_nat (unat x * unat y div 2 ^ 64)),
     emulu = (\<lambda>a b. ucast a * ucast b),
     bswap32 = (\<lambda>a. of_bytes (rev (to_bytes a))), bswap64 = (\<lambda>x. of_bytes (rev (to_bytes x))),
     rotate32 = (\<lambda>a r. word_rotl r a), rotate64 = (\<lambda>x r. word_rotl r x)\<rparr>"

lemma builtins_ref:
  "umul128 builtins_ref x y = (x * y, of_nat (unat x * unat y div 2 ^ 64))"
  "umulh builtins_ref x y = of_nat (unat x * unat y div 2 ^ 64)"
  "unat (emulu builtins_ref a b) = unat a * unat b"
  "to_bytes (bswap32 builtins_ref a) = rev (to_bytes a)" "to_bytes (bswap64 builtins_ref x) = rev (to_bytes x)"
  "rotate32 builtins_ref a r = word_rotl r a" "rotate64 builtins_ref x r = word_rotl r x"
proof -
  have u: "unat (ucast c :: uint64) = unat c" for c :: uint32
    using unsigned_less [of c, where 'a = nat] by (simp add: unsigned_ucast_eq take_bit_nat_eq_self)
  have "unat a * unat b < 2 ^ 32 * 2 ^ 32" 
    using unsigned_less [of a, where 'a = nat] unsigned_less [of b, where 'a = nat] by (intro mult_strict_mono') simp_all
  then show "unat (emulu builtins_ref a b) = unat a * unat b"
    by (simp add: builtins_ref_def unat_mult64 u)
qed (simp_all add: builtins_ref_def to_of_bytes sizeof_word_def)

text \<open>
  Targets with these builtins, for the macros and the byte order of a machine: GCC for size on x86-64;
  Visual C++ on x86 and on ARM64; GCC on ARM of 32 bits; clang on a big-endian PowerPC, with its rotations;
  an unknown compiler on a big-endian machine without a macro, and one that loads by bytes there.
\<close>

definition target_of :: "macros \<Rightarrow> bool \<Rightarrow> bool \<Rightarrow> target" where
  "target_of m big narrow = \<lparr>defs = m,
     has_builtin = (\<lambda>x. x \<in> {''__builtin_rotateleft32'', ''__builtin_rotateleft64''}),
     big_endian = big, ptr32 = narrow, builtin = builtins_ref\<rparr>"

definition described :: "(macros \<times> bool \<times> bool) list" where
  "described =
    [([''__GNUC__'' \<mapsto> 12, ''__OPTIMIZE_SIZE__'' \<mapsto> 1, ''__x86_64__'' \<mapsto> 1, ''__SSE2__'' \<mapsto> 1, ''__SIZEOF_INT128__'' \<mapsto> 16,
       ''__BYTE_ORDER__'' \<mapsto> 1234, ''__ORDER_LITTLE_ENDIAN__'' \<mapsto> 1234, ''__ORDER_BIG_ENDIAN__'' \<mapsto> 4321], False, False),
     ([''_MSC_VER'' \<mapsto> 1930, ''_M_IX86'' \<mapsto> 600, ''_WIN32'' \<mapsto> 1], False, True),
     ([''_MSC_VER'' \<mapsto> 1930, ''_M_ARM64'' \<mapsto> 1, ''_WIN32'' \<mapsto> 1], False, False),
     ([''__GNUC__'' \<mapsto> 12, ''__arm__'' \<mapsto> 1, ''__ARM_NEON'' \<mapsto> 1, ''__LITTLE_ENDIAN__'' \<mapsto> 1], False, True),
     ([''__clang__'' \<mapsto> 1, ''__has_builtin'' \<mapsto> 1, ''__PPC64__'' \<mapsto> 1, ''__POWER8_VECTOR__'' \<mapsto> 1, ''__BIG_ENDIAN__'' \<mapsto> 1], True, False),
     (\<lambda>_. None, True, False),
     ([''XXH_FORCE_MEMORY_ACCESS'' \<mapsto> 3, ''XXH_VECTOR'' \<mapsto> 0], True, True),
     ([''XXH_VECTOR'' \<mapsto> 3], False, False)]"

definition targets :: "target list" where
  "targets = map (\<lambda>(m, big, narrow). target_of m big narrow) described"

lemma described_select:
  "map (XXH_VECTOR \<circ> fst) described = [1, 0, 4, 4, 5, 0, 0, 3]"
  "map (XXH_SIZE_OPT \<circ> fst) described = [1, 0, 0, 0, 0, 0, 0, 0]"
  "map (XXH3_NEON_LANES \<circ> fst) described = [8, 8, 6, 8, 8, 8, 8, 8]"
  "map (XXH_FORCE_MEMORY_ACCESS \<circ> fst) described = [Some 1, None, None, Some 1, None, None, Some 3, None]"
  by code_simp+

lemma described_orders:
  "list_all (\<lambda>(m, big, narrow). (XXH_CPU_LITTLE_ENDIAN m (\<not> big) \<noteq> 0 \<longleftrightarrow> \<not> big) \<and>
     (XXH_VECTOR m = 5 \<longrightarrow> (XXH_VSX_BE m \<noteq> 0 \<longleftrightarrow> big)) \<and> (XXH_VECTOR m \<in> {1, 2, 3, 4} \<longrightarrow> \<not> big)) described"
  by code_simp

lemma target_of_described:
  assumes "(m, big, narrow) \<in> set described"
  shows "described_target (target_of m big narrow)"
  using assms described_orders
  by unfold_locales (auto simp: target_of_def builtins_ref cpu_little_endian_def list_all_iff)

lemma targets_described: "t \<in> set targets \<Longrightarrow> described_target t"
  by (auto simp: targets_def intro: target_of_described)

interpretation x86_64: described_target "hd targets"
  by (rule targets_described) (simp add: targets_def described_def)

text \<open>
  The description is needed: told that a little-endian machine is not one, the code swaps what it reads.
\<close>

lemma wrong_macro_changes_read:
  "XXH_readLE32_built (target_of [''XXH_CPU_LITTLE_ENDIAN'' \<mapsto> 0] False narrow) [1, 0, 0, 0] \<noteq> XXH_readLE32 [1, 0, 0, 0]"
proof -
  have "XXH_FORCE_MEMORY_ACCESS [''XXH_CPU_LITTLE_ENDIAN'' \<mapsto> 0] = None" "\<not> 403 \<le> XXH_GCC_VERSION [''XXH_CPU_LITTLE_ENDIAN'' \<mapsto> 0]"
    by code_simp+
  then show ?thesis
    by (simp add: XXH_readLE32_built_def XXH_read32_built_def XXH_swap32_built_def target_of_def cpu_little_endian_def
        XXH_CPU_LITTLE_ENDIAN_def is_defined_def XXH_swap32_def XXH_readLE32_def XXH_read32_def)
qed

end
