(* ===== verification/Xxh3Build.thy ===== *)
theory Xxh3Build
  imports Xxh3Target
begin

text \<open>
  XXH3 as it is built (\<open>xxhash.h\<close>): the vector kernels that the macros of a target select over the
  instructions of its processor, with the detours that \<open>XXH_SPLIT_IN_PLACE\<close> and \<open>XXH_vec_revb\<close> take for
  some compilers, and the six one-shot functions over them. On every target that its macros describe, the
  hashes are those of the portable scalar code.
\<close>

section \<open>The instruction set\<close>

text \<open>
  The intrinsics of every target. \<open>vzip_32\<close> is the instruction that \<open>XXH_SPLIT_IN_PLACE\<close> uses on
  ARM of 32 bits; the reinterpretation of its result as a vector of words is left implicit.
  \<open>vec_perm\<close> picks bytes.
\<close>

record ('v, 'q, 'd) isa =
  sse2_ops :: "'v x86"
  avx2_ops :: "'v x86"
  avx512_ops :: "'v x86"
  neon_ops :: "('q, 'd) neon"
  vzip_32 :: "'q \<Rightarrow> 'q"
  vget_low_u32 :: "'q \<Rightarrow> 'd"
  vget_high_u32 :: "'q \<Rightarrow> 'd"
  vsx_ops :: "'v vsx"
  vec_perm :: "'v \<Rightarrow> 'v \<Rightarrow> byte list \<Rightarrow> 'v"

definition XXH_SPLIT_IN_PLACE_vzip :: "('v, 'q, 'd) isa \<Rightarrow> 'q \<Rightarrow> 'd \<times> 'd" where
  "XXH_SPLIT_IN_PLACE_vzip isa v = (let v = vzip_32 isa v in (vget_low_u32 isa v, vget_high_u32 isa v))"

definition vByteSwap :: "byte list" where
  "vByteSwap = [0x07, 0x06, 0x05, 0x04, 0x03, 0x02, 0x01, 0x00, 0x0F, 0x0E, 0x0D, 0x0C, 0x0B, 0x0A, 0x09, 0x08]"

definition XXH_vec_revb :: "('v, 'q, 'd) isa \<Rightarrow> 'v \<Rightarrow> 'v" where
  "XXH_vec_revb isa v = vec_perm isa v v vByteSwap"

text \<open>
  The operations that the kernels see: the narrowing moves of NEON occur in \<open>XXH_SPLIT_IN_PLACE\<close>
  only, so that splitting in place takes their part; the polyfill takes that of \<open>vec_revb\<close>.
\<close>

definition neon_built :: "macros \<Rightarrow> ('v, 'q, 'd) isa \<Rightarrow> ('q, 'd) neon" where
  "neon_built m isa =
     (if \<not> is_defined m ''XXH_NO_VZIP_HACK'' \<and> (is_defined m ''__GNUC__'' \<or> is_defined m ''__clang__'') \<and>
         (is_defined m ''__arm__'' \<or> is_defined m ''__thumb__'' \<or> is_defined m ''_M_ARM'')
      then (neon_ops isa)\<lparr>vmovn_u64 := (\<lambda>v. fst (XXH_SPLIT_IN_PLACE_vzip isa v)),
             vshrn_n_u64 := (\<lambda>v k. if k = 32 then snd (XXH_SPLIT_IN_PLACE_vzip isa v) else vshrn_n_u64 (neon_ops isa) v k)\<rparr>
      else neon_ops isa)"

definition vsx_built :: "macros \<Rightarrow> ('v, 'q, 'd) isa \<Rightarrow> 'v vsx" where
  "vsx_built m isa =
     (if is_defined m ''__POWER9_VECTOR__'' \<or> is_defined m ''__clang__'' \<and> is_defined m ''__s390x__''
      then vsx_ops isa else (vsx_ops isa)\<lparr>vec_revb := XXH_vec_revb isa\<rparr>)"

text \<open>The chain of conditions that defines \<open>XXH3_accumulate_512\<close> and \<open>XXH3_scrambleAcc\<close>.\<close>

definition vector_built :: "target \<Rightarrow> ('v, 'q, 'd) isa \<Rightarrow> ('v, 'q, 'd) XXH_VECTOR_TYPE" where
  "vector_built t isa =
     (let m = defs t
      in if XXH_VECTOR m = 3 then XXH_AVX512 (avx512_ops isa)
         else if XXH_VECTOR m = 2 then XXH_AVX2 (avx2_ops isa)
         else if XXH_VECTOR m = 1 then XXH_SSE2 (sse2_ops isa)
         else if XXH_VECTOR m = 4 then XXH_NEON (nat (XXH3_NEON_LANES m)) (neon_built m isa)
         else if XXH_VECTOR m = 5 then XXH_VSX (big_endian t) (XXH_VSX_BE m \<noteq> 0) (vsx_built m isa)
         else XXH_SCALAR)"

text \<open>
  What is documented of the instructions. The bytes of a vector of a big-endian machine are those
  of its elements from the most significant one on.
\<close>

definition be_bytes :: "uint64 list \<Rightarrow> byte list" where
  "be_bytes ls = concat (map (\<lambda>x. rev (to_bytes x)) ls)"

locale instruction_set =
  sse2: x86_intrinsics "sse2_ops isa" 2 +
  avx2: x86_intrinsics "avx2_ops isa" 4 +
  avx512: avx512_intrinsics "avx512_ops isa" +
  neon: neon_intrinsics "neon_ops isa" +
  vsx: vsx_intrinsics "vsx_ops isa"
  for isa :: "('v, 'q, 'd) isa" +
  assumes vzip: "j < 4 \<Longrightarrow>
      dword (q_lanes (neon_ops isa) (vzip_32 isa v)) j = dword (q_lanes (neon_ops isa) v) ([0, 2, 1, 3] ! j)"
    and low_words: "i < 2 \<Longrightarrow> d_lanes (neon_ops isa) (vget_low_u32 isa v) ! i = dword (q_lanes (neon_ops isa) v) i"
    and high_words: "i < 2 \<Longrightarrow> d_lanes (neon_ops isa) (vget_high_u32 isa v) ! i = dword (q_lanes (neon_ops isa) v) (2 + i)"
    and perm: "length c = 16 \<Longrightarrow> be_bytes (vec_lanes (vsx_ops isa) (vec_perm isa a b c)) =
      map (\<lambda>k. (be_bytes (vec_lanes (vsx_ops isa) a) @ be_bytes (vec_lanes (vsx_ops isa) b)) ! (unat k mod 32)) c"
begin

lemma split_in_place:
  assumes "i < 2"
  shows "d_lanes (neon_ops isa) (fst (XXH_SPLIT_IN_PLACE_vzip isa v)) ! i = ucast (q_lanes (neon_ops isa) v ! i)"
    and "d_lanes (neon_ops isa) (snd (XXH_SPLIT_IN_PLACE_vzip isa v)) ! i = ucast (drop_bit 32 (q_lanes (neon_ops isa) v ! i))"
proof -
  have "i = 0 \<or> i = 1" using assms by auto
  then show "d_lanes (neon_ops isa) (fst (XXH_SPLIT_IN_PLACE_vzip isa v)) ! i = ucast (q_lanes (neon_ops isa) v ! i)"
    "d_lanes (neon_ops isa) (snd (XXH_SPLIT_IN_PLACE_vzip isa v)) ! i = ucast (drop_bit 32 (q_lanes (neon_ops isa) v ! i))"
    using vzip [of 0 v] vzip [of 1 v] vzip [of 2 v] vzip [of 3 v]
    by (auto simp: XXH_SPLIT_IN_PLACE_vzip_def Let_def low_words high_words dword_def simp del: One_nat_def)
qed

lemma neon_built_ok: "neon_intrinsics (neon_built m isa)"
proof (cases "neon_built m isa = neon_ops isa")
  case True
  then show ?thesis by (simp add: neon.neon_intrinsics_axioms)
next
  case False
  then have "neon_built m isa = (neon_ops isa)\<lparr>vmovn_u64 := (\<lambda>v. fst (XXH_SPLIT_IN_PLACE_vzip isa v)),
      vshrn_n_u64 := (\<lambda>v k. if k = 32 then snd (XXH_SPLIT_IN_PLACE_vzip isa v) else vshrn_n_u64 (neon_ops isa) v k)\<rparr>"
    by (simp add: neon_built_def split: if_splits)
  then show ?thesis
    by unfold_locales (simp_all add: split_in_place neon.even_width neon.length_ls neon.ls_rd neon.q_ext neon.q_eor neon.q_add neon.q_shr
        neon.q_shl neon.d_shrn neon.d_dup neon.q_mull neon.q_mlal)
qed

lemma revb_polyfill:
  assumes "i < 2"
  shows "vec_lanes (vsx_ops isa) (XXH_vec_revb isa v) ! i = of_bytes (rev (to_bytes (vec_lanes (vsx_ops isa) v ! i)))"
proof -
  obtain x y where v: "vec_lanes (vsx_ops isa) v = [x, y]"
    using pair_list [OF vsx.length_ls [of v]] by metis
  obtain r s where rs: "vec_lanes (vsx_ops isa) (XXH_vec_revb isa v) = [r, s]"
    using pair_list [OF vsx.length_ls [of "XXH_vec_revb isa v"]] by metis
  have l: "length (to_bytes z) = 8" for z :: uint64 by (simp add: sizeof_word_def)
  obtain x0 x1 x2 x3 x4 x5 x6 x7 where x: "to_bytes x = [x0, x1, x2, x3, x4, x5, x6, x7]" by (rule length_8 [OF l])
  obtain y0 y1 y2 y3 y4 y5 y6 y7 where y: "to_bytes y = [y0, y1, y2, y3, y4, y5, y6, y7]" by (rule length_8 [OF l])
  have "rev (to_bytes r) @ rev (to_bytes s) = to_bytes x @ to_bytes y"
    using perm [of vByteSwap v v] rs by (simp add: XXH_vec_revb_def be_bytes_def v x y vByteSwap_def)
  then have "rev (to_bytes r) = to_bytes x \<and> rev (to_bytes s) = to_bytes y"
    by (simp add: sizeof_word_def append_eq_append_conv)
  then have "to_bytes r = rev (to_bytes x)" "to_bytes s = rev (to_bytes y)"
    by (metis rev_rev_ident)+
  then have "r = of_bytes (rev (to_bytes x))" "s = of_bytes (rev (to_bytes y))"
    using of_to_bytes [of r] of_to_bytes [of s] by simp_all
  then show ?thesis using assms by (auto simp: v rs less_2_cases_iff)
qed

end

text \<open>A reference instruction set, whose vectors are functions from the number of an element.\<close>

definition isa_ref :: "(nat \<Rightarrow> uint64, nat \<Rightarrow> uint64, nat \<Rightarrow> uint32) isa" where
  "isa_ref = \<lparr>sse2_ops = x86_ref 2, avx2_ops = x86_ref 4, avx512_ops = x86_ref 8, neon_ops = neon_ref,
     vzip_32 = (\<lambda>v. dwords (\<lambda>j. dword [v 0, v 1] ([0, 2, 1, 3] ! j))),
     vget_low_u32 = (\<lambda>v i. dword [v 0, v 1] i),
     vget_high_u32 = (\<lambda>v i. dword [v 0, v 1] (2 + i)),
     vsx_ops = vsx_ref,
     vec_perm = (\<lambda>a b c i. let bs = map (\<lambda>k. (be_bytes [a 0, a 1] @ be_bytes [b 0, b 1]) ! (unat k mod 32)) c
        in of_bytes (rev (take 8 (drop (8 * i) bs))))\<rparr>"

lemma be_of_bytes:
  assumes "length bs = 16"
  shows "be_bytes [of_bytes (rev (take 8 bs)), of_bytes (rev (drop 8 bs))] = bs"
proof -
  have "to_bytes (of_bytes (rev (take 8 bs)) :: uint64) = rev (take 8 bs)" "to_bytes (of_bytes (rev (drop 8 bs)) :: uint64) = rev (drop 8 bs)"
    using assms by (simp_all add: to_of_bytes)
  then show ?thesis by (simp add: be_bytes_def)
qed

interpretation ref: instruction_set isa_ref
proof -
  have words: "dword [dwords f 0, dwords f 1] j = f j" if "j < 4" for f j
    using dword_dwords [of j 2 f] that by (simp add: numeral_2_eq_2)
  have "instruction_set_axioms isa_ref"
    by unfold_locales
      (auto simp: isa_ref_def neon_ref_def vsx_ref_def words [unfolded One_nat_def] be_of_bytes less_2_cases_iff Let_def)
  then show "instruction_set isa_ref"
    by (intro instruction_set.intro)
      (simp_all add: isa_ref_def sse2.x86_intrinsics_axioms avx2.x86_intrinsics_axioms avx512.avx512_intrinsics_axioms
        neon.neon_intrinsics_axioms vsx.vsx_intrinsics_axioms)
qed

section \<open>The hashes in a build\<close>

definition XXH3_64bits_built :: "target \<Rightarrow> ('v, 'q, 'd) isa \<Rightarrow> byte list \<Rightarrow> uint64" where
  "XXH3_64bits_built t isa input =
     (let vec = vector_built t isa
      in XXH3_64bits_internal_built t input 0 XXH3_kSecret
           (\<lambda>input seed secret. XXH3_hashLong_64b_internal_built t input XXH3_kSecret
              (XXH3_accumulate_512_built t vec) (XXH3_scrambleAcc_built t vec)))"

definition XXH3_64bits_withSecret_built :: "target \<Rightarrow> ('v, 'q, 'd) isa \<Rightarrow> byte list \<Rightarrow> byte list \<Rightarrow> uint64" where
  "XXH3_64bits_withSecret_built t isa input secret =
     (let vec = vector_built t isa
      in XXH3_64bits_internal_built t input 0 secret
           (\<lambda>input seed secret. XXH3_hashLong_64b_internal_built t input secret
              (XXH3_accumulate_512_built t vec) (XXH3_scrambleAcc_built t vec)))"

definition XXH3_64bits_withSeed_built :: "target \<Rightarrow> ('v, 'q, 'd) isa \<Rightarrow> byte list \<Rightarrow> uint64 \<Rightarrow> uint64" where
  "XXH3_64bits_withSeed_built t isa input seed =
     (let vec = vector_built t isa
      in XXH3_64bits_internal_built t input seed XXH3_kSecret
           (\<lambda>input seed secret. XXH3_hashLong_64b_withSeed_internal_built t input seed
              (XXH3_accumulate_512_built t vec) (XXH3_scrambleAcc_built t vec) (XXH3_initCustomSecret_built t vec)))"

definition XXH3_128bits_built :: "target \<Rightarrow> ('v, 'q, 'd) isa \<Rightarrow> byte list \<Rightarrow> XXH128_hash" where
  "XXH3_128bits_built t isa input =
     (let vec = vector_built t isa
      in XXH3_128bits_internal_built t input 0 XXH3_kSecret
           (\<lambda>input seed secret. XXH3_hashLong_128b_internal_built t input XXH3_kSecret
              (XXH3_accumulate_512_built t vec) (XXH3_scrambleAcc_built t vec)))"

definition XXH3_128bits_withSecret_built :: "target \<Rightarrow> ('v, 'q, 'd) isa \<Rightarrow> byte list \<Rightarrow> byte list \<Rightarrow> XXH128_hash" where
  "XXH3_128bits_withSecret_built t isa input secret =
     (let vec = vector_built t isa
      in XXH3_128bits_internal_built t input 0 secret
           (\<lambda>input seed secret. XXH3_hashLong_128b_internal_built t input secret
              (XXH3_accumulate_512_built t vec) (XXH3_scrambleAcc_built t vec)))"

definition XXH3_128bits_withSeed_built :: "target \<Rightarrow> ('v, 'q, 'd) isa \<Rightarrow> byte list \<Rightarrow> uint64 \<Rightarrow> XXH128_hash" where
  "XXH3_128bits_withSeed_built t isa input seed =
     (let vec = vector_built t isa
      in XXH3_128bits_internal_built t input seed XXH3_kSecret
           (\<lambda>input seed secret. XXH3_hashLong_128b_withSeed_internal_built t input seed
              (XXH3_accumulate_512_built t vec) (XXH3_scrambleAcc_built t vec) (XXH3_initCustomSecret_built t vec)))"

lemma neon_lanes_default: "m ''XXH3_NEON_LANES'' = None \<Longrightarrow> XXH3_NEON_LANES m \<in> {2, 4, 6, 8}"
  by (simp add: XXH3_NEON_LANES_def XXH_ACC_NB_def XXH_STRIPE_LEN_def)

context instruction_set
begin

lemma vsx_built_ok: "vsx_intrinsics (vsx_built m isa)"
proof (cases "vsx_built m isa = vsx_ops isa")
  case True
  then show ?thesis by (simp add: vsx.vsx_intrinsics_axioms)
next
  case False
  then have "vsx_built m isa = (vsx_ops isa)\<lparr>vec_revb := XXH_vec_revb isa\<rparr>"
    by (simp add: vsx_built_def split: if_splits)
  then show ?thesis
    by unfold_locales (simp_all add: revb_polyfill vsx.even_width vsx.length_ls vsx.ls_rd vsx.vec_xor vsx.vec_add vsx.vec_shl
        vsx.vec_shr vsx.vec_rl vsx.vec_mulo vsx.vec_mule vsx.vec_permi)
qed

lemma vector_built_ok:
  assumes "described_target t" "XXH_VECTOR (defs t) = 4 \<Longrightarrow> XXH3_NEON_LANES (defs t) \<in> {2, 4, 6, 8}"
  shows "vector_ok (vector_built t isa)"
  using assms(2) described_target.vsx_order [OF assms(1)]
  by (auto simp: vector_built_def neon_built_ok vsx_built_ok sse2.x86_intrinsics_axioms avx2.x86_intrinsics_axioms
      avx512.avx512_intrinsics_axioms Let_def)

end

lemma built_64:
  assumes "described_target t" "vector_ok (vector_built t isa)"
  shows "XXH3_64bits_built t isa input = XXH3_64bits opt input"
    and "XXH3_64bits_withSeed_built t isa input seed = XXH3_64bits_withSeed opt input seed"
    and "72 \<le> length secret \<Longrightarrow> XXH3_64bits_withSecret_built t isa input secret = XXH3_64bits_withSecret opt input secret"
  using length_kSecret length_initCustomSecret [of seed]
  by (auto simp: XXH3_64bits_built_def XXH3_64bits_withSeed_built_def XXH3_64bits_withSecret_built_def
      described_target.internal_built [OF assms(1)] described_target.long_built [OF assms(1)]
      described_target.kernels_built [OF assms(1)] XXH3_64bits_def
      XXH3_64bits_withSeed_def XXH3_64bits_withSecret_def XXH3_hashLong_64b_default_def XXH3_hashLong_64b_withSecret_def
      hashLong_withSeed XXH3_hashLong_64b_withSeed_internal_def XXH3_hashLong_64b_internal_def vector_secret [OF assms(2)]
      same_internal_loop [OF vector_kernels [OF assms(2)]] Let_def initCustomSecret_0
      intro!: internal_size_opt)

lemma built_128:
  assumes "described_target t" "vector_ok (vector_built t isa)"
  shows "XXH3_128bits_built t isa input = XXH3_128bits opt input"
    and "XXH3_128bits_withSeed_built t isa input seed = XXH3_128bits_withSeed opt input seed"
    and "72 \<le> length secret \<Longrightarrow> XXH3_128bits_withSecret_built t isa input secret = XXH3_128bits_withSecret opt input secret"
  using length_kSecret length_initCustomSecret [of seed]
  by (auto simp: XXH3_128bits_built_def XXH3_128bits_withSeed_built_def XXH3_128bits_withSecret_built_def
      described_target.internal_built [OF assms(1)] described_target.long_built [OF assms(1)]
      described_target.kernels_built [OF assms(1)] XXH3_128bits_def
      XXH3_128bits_withSeed_def XXH3_128bits_withSecret_def XXH3_hashLong_128b_default_def XXH3_hashLong_128b_withSecret_def
      hashLong_128b_withSeed XXH3_hashLong_128b_withSeed_internal_def XXH3_hashLong_128b_internal_def vector_secret [OF assms(2)]
      same_internal_loop [OF vector_kernels [OF assms(2)]] Let_def initCustomSecret_0
      intro!: internal_128b_size_opt)

text \<open>
  (C13) On every target whose macros tell its byte order and whose compiler's builtins and processor's
  instructions do what is documented, of either byte order, with whatever way to read memory, to swap, to rotate
  and to multiply, kernel and size option the macros select, the six one-shot functions of XXH3 return what
  the portable scalar code of a little-endian machine returns. \<open>XXH3_NEON_LANES\<close> has to be positive, even and at most 8, as the code asserts.
\<close>

theorem XXH3_same_hash_in_every_build:
  assumes "described_target t" "instruction_set isa" "XXH_VECTOR (defs t) = 4 \<longrightarrow> XXH3_NEON_LANES (defs t) \<in> {2, 4, 6, 8}"
    and "XXH3_SECRET_SIZE_MIN \<le> length secret"
  shows "XXH3_64bits_built t isa input = XXH3_64bits opt input \<and>
    XXH3_64bits_withSeed_built t isa input seed = XXH3_64bits_withSeed opt input seed \<and>
    XXH3_64bits_withSecret_built t isa input secret = XXH3_64bits_withSecret opt input secret \<and>
    XXH3_128bits_built t isa input = XXH3_128bits opt input \<and>
    XXH3_128bits_withSeed_built t isa input seed = XXH3_128bits_withSeed opt input seed \<and>
    XXH3_128bits_withSecret_built t isa input secret = XXH3_128bits_withSecret opt input secret"
proof -
  have ok: "vector_ok (vector_built t isa)"
    using instruction_set.vector_built_ok [OF assms(2,1)] assms(3) by blast
  show ?thesis
    using assms(4) built_64 [OF assms(1) ok] built_128 [OF assms(1) ok] by (simp add: XXH3_SECRET_SIZE_MIN_def)
qed

text \<open>On each of the targets above, the reference instruction set takes the place of the processor's.\<close>

theorem XXH3_same_hash_in_every_build_witness:
  "list_all (\<lambda>t. described_target t \<and> (XXH_VECTOR (defs t) = 4 \<longrightarrow> XXH3_NEON_LANES (defs t) \<in> {2, 4, 6, 8}) \<and>
     XXH3_64bits_withSeed_built t isa_ref (replicate 300 7) 5 = XXH3_64bits_withSeed 0 (replicate 300 7) 5 \<and>
     XXH3_128bits_withSecret_built t isa_ref (replicate 300 7) XXH3_kSecret = XXH3_128bits_withSecret 0 (replicate 300 7) XXH3_kSecret)
   targets"
proof -
  have "XXH3_SECRET_SIZE_MIN \<le> length XXH3_kSecret" by (simp add: length_kSecret XXH3_SECRET_SIZE_MIN_def)
  moreover have "\<forall>t \<in> set targets. XXH3_NEON_LANES (defs t) \<in> {2, 4, 6, 8}"
    using described_select(3) by (auto simp: targets_def described_def target_of_def)
  ultimately show ?thesis
    using XXH3_same_hash_in_every_build [OF targets_described ref.instruction_set_axioms, of _ XXH3_kSecret "replicate 300 7" 0 5]
      targets_described
    by (auto simp: list_all_iff)
qed

end
