(* ===== verification/XxhState.thy ===== *)
theory XxhState
  imports AllocatorCorrect Xxh128
begin

text \<open>
  How the states of the streaming interfaces are created, copied and freed (\<open>xxhash.h\<close>), on the
  heap of the C library of \<open>Allocator\<close>, and the layout of the structures in memory.
\<close>

section \<open>Version\<close>

definition XXH_VERSION_MAJOR :: uint32 where "XXH_VERSION_MAJOR = 0"
definition XXH_VERSION_MINOR :: uint32 where "XXH_VERSION_MINOR = 8"
definition XXH_VERSION_RELEASE :: uint32 where "XXH_VERSION_RELEASE = 1"

definition XXH_VERSION_NUMBER :: uint32 where
  "XXH_VERSION_NUMBER = XXH_VERSION_MAJOR * 100 * 100 + XXH_VERSION_MINOR * 100 + XXH_VERSION_RELEASE"

definition XXH_versionNumber :: uint32 where
  "XXH_versionNumber = XXH_VERSION_NUMBER"

section \<open>Memory\<close>

definition XXH_malloc :: "libc \<Rightarrow> size_t \<Rightarrow> heap world \<Rightarrow> addr \<times> heap world" where
  "XXH_malloc c s w = c_realloc c NULL s w"

definition XXH_free :: "addr \<Rightarrow> heap world \<Rightarrow> heap world" where
  "XXH_free p w = c_free p w"

definition XXH_alignedMalloc :: "libc \<Rightarrow> size_t \<Rightarrow> size_t \<Rightarrow> heap world \<Rightarrow> addr \<times> heap world" where
  "XXH_alignedMalloc c s align w =
     (let (base, w) = XXH_malloc c (s + align) w
      in if base \<noteq> NULL
         then
           let offset = align - (base AND (align - 1));
               ptr = base + offset
           in (ptr, w\<lparr>mem := (mem w)(ptr - 1 := ucast offset)\<rparr>)
         else (NULL, w))"

definition XXH_alignedFree :: "addr \<Rightarrow> heap world \<Rightarrow> heap world" where
  "XXH_alignedFree p w =
     (if p \<noteq> NULL
      then
        let offset = mem w (p - 1);
            base = p - ucast offset
        in XXH_free base w
      else w)"

section \<open>XXH32 and XXH64\<close>

definition sizeof_XXH32_state :: size_t where "sizeof_XXH32_state = 48"
definition sizeof_XXH64_state :: size_t where "sizeof_XXH64_state = 88"

definition XXH32_createState :: "libc \<Rightarrow> heap world \<Rightarrow> addr \<times> heap world" where
  "XXH32_createState c w = XXH_malloc c sizeof_XXH32_state w"

definition XXH32_freeState :: "addr \<Rightarrow> heap world \<Rightarrow> XXH_errorcode \<times> heap world" where
  "XXH32_freeState statePtr w = (XXH_OK, XXH_free statePtr w)"

definition XXH32_copyState :: "addr \<Rightarrow> addr \<Rightarrow> heap world \<Rightarrow> heap world" where
  "XXH32_copyState dstState srcState w = memcpy dstState srcState sizeof_XXH32_state w"

definition XXH64_createState :: "libc \<Rightarrow> heap world \<Rightarrow> addr \<times> heap world" where
  "XXH64_createState c w = XXH_malloc c sizeof_XXH64_state w"

definition XXH64_freeState :: "addr \<Rightarrow> heap world \<Rightarrow> XXH_errorcode \<times> heap world" where
  "XXH64_freeState statePtr w = (XXH_OK, XXH_free statePtr w)"

definition XXH64_copyState :: "addr \<Rightarrow> addr \<Rightarrow> heap world \<Rightarrow> heap world" where
  "XXH64_copyState dstState srcState w = memcpy dstState srcState sizeof_XXH64_state w"

section \<open>XXH3\<close>

definition sizeof_XXH3_state :: size_t where "sizeof_XXH3_state = 576"

text \<open>The seed is at offset 552.\<close>

definition XXH3_INITSTATE :: "addr \<Rightarrow> heap world \<Rightarrow> heap world" where
  "XXH3_INITSTATE statePtr w = w\<lparr>mem := store64 (statePtr + 552) 0 (mem w)\<rparr>"

definition XXH3_createState :: "libc \<Rightarrow> heap world \<Rightarrow> addr \<times> heap world" where
  "XXH3_createState c w =
     (let (state, w) = XXH_alignedMalloc c sizeof_XXH3_state 64 w
      in if state = NULL then (NULL, w) else (state, XXH3_INITSTATE state w))"

definition XXH3_freeState :: "addr \<Rightarrow> heap world \<Rightarrow> XXH_errorcode \<times> heap world" where
  "XXH3_freeState statePtr w = (XXH_OK, XXH_alignedFree statePtr w)"

definition XXH3_copyState :: "addr \<Rightarrow> addr \<Rightarrow> heap world \<Rightarrow> heap world" where
  "XXH3_copyState dst_state src_state w = memcpy dst_state src_state sizeof_XXH3_state w"

section \<open>The structures in memory\<close>

definition bytes_at :: "(addr \<Rightarrow> byte) \<Rightarrow> addr \<Rightarrow> nat \<Rightarrow> byte list" where
  "bytes_at m p n = map (\<lambda>i. m (p + of_nat i)) [0..<n]"

definition load32 :: "(addr \<Rightarrow> byte) \<Rightarrow> addr \<Rightarrow> uint32" where
  "load32 m p = of_bytes (bytes_at m p 4)"

text \<open>\<open>XXH32_state_s\<close>, \<open>XXH64_state_s\<close> and \<open>XXH3_state_s\<close>; \<open>ext\<close> is the external secret at an address.\<close>

definition XXH32_state_at :: "(addr \<Rightarrow> byte) \<Rightarrow> addr \<Rightarrow> XXH32_state" where
  "XXH32_state_at m p =
     \<lparr>total_len_32 = load32 m p, large_len = load32 m (p + 4),
      v32 = (load32 m (p + 8), load32 m (p + 12), load32 m (p + 16), load32 m (p + 20)),
      mem32 = bytes_at m (p + 24) 16, memsize32 = load32 m (p + 40)\<rparr>"

definition XXH64_state_at :: "(addr \<Rightarrow> byte) \<Rightarrow> addr \<Rightarrow> XXH64_state" where
  "XXH64_state_at m p =
     \<lparr>total_len = load64 m p, v64 = (load64 m (p + 8), load64 m (p + 16), load64 m (p + 24), load64 m (p + 32)),
      mem64 = bytes_at m (p + 40) 32, memsize64 = load32 m (p + 72)\<rparr>"

definition XXH3_state_at :: "(addr \<Rightarrow> byte list) \<Rightarrow> (addr \<Rightarrow> byte) \<Rightarrow> addr \<Rightarrow> XXH3_state" where
  "XXH3_state_at ext m p =
     \<lparr>acc3 = map (\<lambda>i. load64 m (p + of_nat (8 * i))) [0..<8],
      customSecret = bytes_at m (p + 64) 192,
      buffer3 = bytes_at m (p + 256) 256,
      bufferedSize = load32 m (p + 512), useSeed = load32 m (p + 516),
      nbStripesSoFar = load64 m (p + 520), totalLen = load64 m (p + 528),
      nbStripesPerBlock = load64 m (p + 536), secretLimit = load64 m (p + 544),
      seed3 = load64 m (p + 552),
      extSecret = (let q = load64 m (p + 568) in if q = NULL then None else Some (ext q))\<rparr>"

section \<open>Aligned blocks\<close>

lemma low_bits: "unat (b AND (2 ^ k - 1 :: addr)) = unat b mod 2 ^ k"
  by (simp only: mask_minus unat_take_bit64 flip: take_bit_eq_mask)

text \<open>Where the pointer lies in the block that starts at \<open>b\<close>.\<close>

lemma aligned_offset:
  fixes b s :: addr
  assumes "k \<le> 7" "unat b + (unat s + 2 ^ k) \<le> 2 ^ 64" "0 < unat s"
  defines "off \<equiv> 2 ^ k - (b AND (2 ^ k - 1))"
  shows "unat off = 2 ^ k - unat b mod 2 ^ k" "1 \<le> unat off" "unat off \<le> 2 ^ k" "unat off < 256"
    "unat (b + off) = unat b + unat off" "2 ^ k dvd unat (b + off)" "ucast (ucast off :: byte) = off"
proof -
  have r: "unat b mod 2 ^ k < 2 ^ k" by simp
  have p: "unat (2 ^ k :: addr) = 2 ^ k" using assms(1) by (intro unat_pow2) simp
  show u: "unat off = 2 ^ k - unat b mod 2 ^ k"
    unfolding off_def using r by (subst unat_sub64) (simp_all only: low_bits p less_imp_le)
  then show "1 \<le> unat off" and le: "unat off \<le> 2 ^ k" using r by (simp_all add: Suc_le_eq)
  have "(2 :: nat) ^ k \<le> 2 ^ 7" using assms(1) by (intro power_increasing) simp_all
  then show small: "unat off < 256" using le by simp
  show b: "unat (b + off) = unat b + unat off" using assms(2,3) le by (intro unat_add64) linarith
  have "unat b + unat off = unat b - unat b mod 2 ^ k + 2 ^ k" using r mod_less_eq_dividend [of "unat b" "2 ^ k"] u by linarith
  also have "unat b - unat b mod 2 ^ k = unat b div 2 ^ k * 2 ^ k" by (simp only: minus_mod_eq_div_mult)
  finally show "2 ^ k dvd unat (b + off)" by (simp add: b)
  show "ucast (ucast off :: byte) = off"
    using small by (intro word_eq_unatI) (simp add: unsigned_ucast_eq take_bit_eq_mod unat_mod)
qed

text \<open>
  For alignments of 8 to 128 bytes the aligned allocation returns NULL, with nothing changed, or
  a pointer with that alignment to \<open>s\<close> bytes inside a new block, behind its start; freeing it, with
  the byte before it unchanged, gives back exactly that block.
\<close>

lemma XXH_alignedMalloc_free:
  assumes "places_ok c" "heap_ok (os w)" "3 \<le> k" "k \<le> 7" "0 < s" "unat s + 2 ^ k < 2 ^ 64"
    and r: "XXH_alignedMalloc c s (2 ^ k) w = (p, w')"
  shows "p = NULL \<and> w' = w \<or>
    p \<noteq> NULL \<and> 2 ^ k dvd unat p \<and> heap_ok (os w') \<and>
    (\<exists>base. os w' = (base, unat s + 2 ^ k) # os w \<and> unat base < unat p \<and> unat p + unat s \<le> unat base + (unat s + 2 ^ k)) \<and>
    (\<forall>m. m (p - 1) = mem w' (p - 1) \<longrightarrow> XXH_alignedFree p (w'\<lparr>mem := m\<rparr>) = w\<lparr>mem := m\<rparr>)"
proof -
  obtain b w1 where b: "c_realloc c NULL (s + 2 ^ k) w = (b, w1)" by (cases "c_realloc c NULL (s + 2 ^ k) w")
  have n: "unat (s + 2 ^ k) = unat s + 2 ^ k"
    using assms(4,6) unat_pow2 [of k] by (subst unat_add64) simp_all
  show ?thesis
  proof (cases "b = NULL")
    case True
    then show ?thesis using b r by (auto simp: XXH_alignedMalloc_def XXH_malloc_def c_realloc_def Let_def split: if_splits)
  next
    case False
    define off :: addr where "off = 2 ^ k - (b AND (2 ^ k - 1))"
    note g = c_realloc_ok [OF assms(1,2) b False]
    have space: "unat b + (unat s + 2 ^ k) \<le> 2 ^ 64" using g(2) by (simp add: n)
    note o = aligned_offset [OF assms(4) space, folded off_def]
    have s: "0 < unat s" using assms(5) by (simp add: word_less_nat_alt)
    have p: "p = b + off" and w': "w' = w1\<lparr>mem := (mem w1)(b + off - 1 := ucast off)\<rparr>"
      using r b False by (auto simp: XXH_alignedMalloc_def XXH_malloc_def Let_def off_def)
    have os: "os w' = (b, unat s + 2 ^ k) # os w" using g(3) assms(2) by (simp add: w' n heap_drop_NULL)
    then have os1: "os w1 = (b, unat s + 2 ^ k) # os w" by (simp add: w')
    have "\<forall>n. (b, n) \<notin> set (os w)"
      using g(4) os by (auto simp: w' heap_ok_def image_iff)
    then have fresh: "heap_drop b (os w) = os w" by (auto simp: heap_drop_def filter_id_conv)
    have pn: "unat p = unat b + unat off" using o(5) s by (simp add: p)
    then have p0: "p \<noteq> NULL" using o(2) s by auto
    have "XXH_alignedFree p (w'\<lparr>mem := m\<rparr>) = w\<lparr>mem := m\<rparr>" if "m (p - 1) = mem w' (p - 1)" for m
      using that p0 o(7) s False fresh
      by (intro world.equality) (simp_all add: XXH_alignedFree_def XXH_free_def c_free_def os1 heap_drop_def p w')
    moreover have "2 ^ k dvd unat p" using o(6) s by (simp add: p)
    moreover have "heap_ok (os w')" using g(4) by (simp add: w')
    moreover have "unat b < unat p" "unat p + unat s \<le> unat b + (unat s + 2 ^ k)" using pn o(2,3) s by simp_all
    ultimately show ?thesis using p0 os by blast
  qed
qed

section \<open>States\<close>

lemma bytes_at_copy: "a + n \<le> unat sz \<Longrightarrow>
    bytes_at (mem (memcpy dst src sz w)) (dst + of_nat a) n = bytes_at (mem w) (src + of_nat a) n"
  using unat_bound64 [of sz]
  by (simp add: bytes_at_def memcpy_def add.assoc word_less_nat_alt unat_of_nat64 flip: of_nat_add)

lemma load32_copy: "a + 4 \<le> unat sz \<Longrightarrow> load32 (mem (memcpy dst src sz w)) (dst + of_nat a) = load32 (mem w) (src + of_nat a)"
  by (simp add: load32_def bytes_at_copy)

lemma load64_bytes_at: "load64 m p = of_bytes (bytes_at m p 8)"
  by (simp only: load64_bytes bytes_at_def)

lemma load64_copy: "a + 8 \<le> unat sz \<Longrightarrow> load64 (mem (memcpy dst src sz w)) (dst + of_nat a) = load64 (mem w) (src + of_nat a)"
  by (simp only: load64_bytes_at bytes_at_copy)

lemmas load32_copies = load32_copy [where a = 0, simplified] load32_copy [where a = "numeral k" for k, simplified]
lemmas load64_copies = load64_copy [where a = 0, simplified] load64_copy [where a = "numeral k" for k, simplified]
lemmas bytes_copies = bytes_at_copy [where a = "numeral k" for k, simplified]

lemma copyState:
  "XXH32_state_at (mem (XXH32_copyState dst src w)) dst = XXH32_state_at (mem w) src"
  "XXH64_state_at (mem (XXH64_copyState dst src w)) dst = XXH64_state_at (mem w) src"
  by (simp_all add: XXH32_state_at_def XXH32_copyState_def sizeof_XXH32_state_def XXH64_state_at_def XXH64_copyState_def
      sizeof_XXH64_state_def load32_copies load64_copies bytes_copies)

lemma copyState3: "XXH3_state_at ext (mem (XXH3_copyState dst src w)) dst = XXH3_state_at ext (mem w) src"
proof -
  have "load64 (mem (memcpy dst src 576 w)) (dst + of_nat (8 * i)) = load64 (mem w) (src + of_nat (8 * i))" if "i < 8" for i
    using that by (intro load64_copy) simp
  then show ?thesis
    by (simp add: XXH3_state_at_def XXH3_copyState_def sizeof_XXH3_state_def load32_copies load64_copies bytes_copies Let_def
        del: of_nat_mult)
qed

text \<open>
  (C25) A state made by \<open>XXH3_createState\<close> is aligned to 64 bytes and is one that every reset
  accepts, whatever the memory held before; a copy of it to another place is the same state; and
  \<open>XXH3_freeState\<close> gives back its block, whatever was written to the 576 bytes of the state.
\<close>

theorem XXH3_createState_lifecycle:
  assumes "places_ok c" "heap_ok (os w)" "XXH3_createState c w = (p, w')"
  shows "p = NULL \<and> w' = w \<or>
    p \<noteq> NULL \<and> 64 dvd unat p \<and> state_ok (XXH3_state_at ext (mem w') p) \<and>
    XXH3_state_at ext (mem (XXH3_copyState dst p w')) dst = XXH3_state_at ext (mem w') p \<and>
    (\<forall>m. (\<forall>x. unat x < unat p \<or> unat p + 576 \<le> unat x \<longrightarrow> m x = mem w' x) \<longrightarrow>
      XXH3_freeState p (w'\<lparr>mem := m\<rparr>) = (XXH_OK, w\<lparr>mem := m\<rparr>))"
proof -
  obtain q w1 where q: "XXH_alignedMalloc c 576 (2 ^ 6) w = (q, w1)" by (cases "XXH_alignedMalloc c 576 (2 ^ 6) w")
  have c: "XXH3_createState c w = (if q = NULL then (NULL, w1) else (q, XXH3_INITSTATE q w1))"
    using q by (simp add: XXH3_createState_def sizeof_XXH3_state_def)
  note a = XXH_alignedMalloc_free [OF assms(1,2) _ _ _ _ q, simplified]
  show ?thesis
  proof (cases "q = NULL")
    case True
    then show ?thesis using a c assms(3) by simp
  next
    case False
    then have p: "p = q" and w': "w' = w1\<lparr>mem := store64 (q + 552) 0 (mem w1)\<rparr>"
      using c assms(3) by (simp_all add: XXH3_INITSTATE_def)
    have a64: "64 dvd unat q" and h: "heap_ok (os w1)"
      and blk: "\<exists>base. os w1 = (base, 640) # os w \<and> unat base < unat q \<and> unat q + 576 \<le> unat base + 640"
      and free: "\<And>m. m (q - 1) = mem w1 (q - 1) \<Longrightarrow> XXH_alignedFree q (w1\<lparr>mem := m\<rparr>) = w\<lparr>mem := m\<rparr>"
      using a False by simp_all
    obtain base where base: "os w1 = (base, 640) # os w" "unat base < unat q" "unat q + 576 \<le> unat base + 640"
      using blk by blast
    have "unat base + 640 \<le> 2 ^ 64" using heap_okD(3) [OF h, of base 640] by (simp add: base(1))
    then have q64: "unat q + 576 \<le> 2 ^ 64" using base(3) by simp
    have q1: "unat (q - 1) = unat q - 1" using base(2) by (subst unat_sub64) simp_all
    have "XXH3_freeState q (w'\<lparr>mem := m\<rparr>) = (XXH_OK, w\<lparr>mem := m\<rparr>)"
      if "\<forall>x. unat x < unat q \<or> unat q + 576 \<le> unat x \<longrightarrow> m x = mem w' x" for m
    proof -
      have u: "unat (q + 552) = unat q + 552" using q64 by (subst unat_add64) simp_all
      have "unat (q - 1) < unat q" using q1 base(2) by linarith
      then have "m (q - 1) = mem w' (q - 1)" using that by blast
      also have "\<dots> = store64 (q + 552) 0 (mem w1) (q - 1)" by (simp add: w')
      also have "\<dots> = mem w1 (q - 1)" using q1 q64 base(2) by (intro store64_outside) (simp_all only: u, linarith+)
      finally show ?thesis using free [of m] by (simp add: XXH3_freeState_def w')
    qed
    moreover have "state_ok (XXH3_state_at ext (mem w') q)"
      by (simp add: state_ok_def XXH3_state_at_def bytes_at_def w')
    ultimately show ?thesis using False a64 copyState3 by (simp add: p)
  qed
qed

theorem XXH3_createState_lifecycle_witness:
  "\<exists>w'. XXH3_createState sample_libc sample_heap = (0x10040, w') \<and>
     64 dvd unat (0x10040 :: addr) \<and> state_ok (XXH3_state_at (\<lambda>_. []) (mem w') 0x10040) \<and>
     XXH3_freeState 0x10040 w' = (XXH_OK, sample_heap\<lparr>mem := mem w'\<rparr>)"
proof -
  obtain w' where w': "XXH3_createState sample_libc sample_heap = (fst (XXH3_createState sample_libc sample_heap), w')"
    by (cases "XXH3_createState sample_libc sample_heap") simp
  have p: "fst (XXH3_createState sample_libc sample_heap) = 0x10040" by code_simp
  have ok: "places_ok sample_libc" "heap_ok (os sample_heap)" using sys_repD [OF sample_rep] .
  from XXH3_createState_lifecycle [OF ok w', of "\<lambda>_. []" 0] show ?thesis
    using w' by (simp add: p) (elim conjE, drule spec [of _ "mem w'"], simp)
qed

end
