(* ===== verification/SearchPath.thy ===== *)
theory SearchPath
  imports Strings Allocator
begin

text \<open>
  \<open>searchpath.c\<close>: looking a program up along PATH. What the process and the file system say is a
  parameter: the environment, \<open>confstr\<close>, \<open>stat\<close> and the ids of the user. A string is the list of its
  bytes, as in the theory of strings, and the buffer a list beside its address.
\<close>

section \<open>The system\<close>

record file_stat =
  fs_mode :: uint32
  fs_uid :: uint32
  fs_gid :: uint32

text \<open>\<open>cs_path n\<close> is what \<open>confstr(_CS_PATH, buf, n)\<close> returns and the string it leaves in the buffer.\<close>

record search_env =
  path_var :: "byte list option"
  cs_path :: "size_t \<Rightarrow> size_t \<times> byte list"
  stat_file :: "byte list \<Rightarrow> int + file_stat"
  real_uid :: uint32
  real_gid :: uint32

definition S_ISREG :: "uint32 \<Rightarrow> bool" where
  "S_ISREG m \<longleftrightarrow> m AND 0xF000 = 0x8000"

definition S_IXUSR :: uint32 where "S_IXUSR = 0x40"
definition S_IXGRP :: uint32 where "S_IXGRP = 0x8"
definition S_IXOTH :: uint32 where "S_IXOTH = 0x1"

section \<open>The search\<close>

definition statfile :: "search_env \<Rightarrow> byte list \<Rightarrow> uint32 \<Rightarrow> uint32 \<Rightarrow> int" where
  "statfile env p uid gid =
     (case stat_file env p of
        Inl errno \<Rightarrow> VSC_ERROR errno
      | Inr st \<Rightarrow>
          if \<not> S_ISREG (fs_mode st) then VSC_ERROR EACCES
          else if fs_mode st AND S_IXOTH \<noteq> 0 then 0
          else if fs_mode st AND S_IXGRP \<noteq> 0 \<and> fs_gid st = gid then 0
          else if fs_mode st AND S_IXUSR \<noteq> 0 \<and> fs_uid st = uid then 0
          else VSC_ERROR EACCES)"

text \<open>
  The two loops over PATH, whose variable \<open>o\<close> is the bytes up to \<open>pend\<close>; \<open>c\<close> is the distance to
  the next colon or to \<open>pend\<close>. The code's \<open>strchr\<close> also looks behind \<open>pend\<close> when the last entry
  has been seen, without using what it finds.
\<close>

definition entry_len :: "byte list \<Rightarrow> nat" where
  "entry_len rest = (case memchr rest 0x3A of None \<Rightarrow> length rest | Some c \<Rightarrow> c)"

function longest_entry :: "size_t \<Rightarrow> byte list \<Rightarrow> size_t" where
  "longest_entry dlen rest =
     (if rest = [] then dlen
      else
        let c = entry_len rest; dist = of_nat c
        in longest_entry (if dist > dlen then dist else dlen) (drop (c + 1) rest))"
  by pat_completeness auto
termination by (relation "measure (\<lambda>(_, rest). length rest)") auto

declare longest_entry.simps [simp del]

text \<open>\<open>strncpy\<close> of a whole entry, the slash and the name; \<open>None\<close> is a write past the end of the buffer.\<close>

fun strncpy :: "byte list \<Rightarrow> nat \<Rightarrow> byte list \<Rightarrow> byte list option" where
  "strncpy buf i [] = Some buf"
| "strncpy buf i (b # bs) = Option.bind (poke buf i b) (\<lambda>buf. strncpy buf (i + 1) bs)"

definition fill_path :: "byte list \<Rightarrow> byte list \<Rightarrow> byte list \<Rightarrow> byte list option" where
  "fill_path buf entry f =
     Option.bind (strncpy buf 0 entry) (\<lambda>buf.
     Option.bind (poke buf (length entry) 0x2F) (\<lambda>buf.
     map_option snd (vsc_strcpy buf (length entry + 1) f)))"

text \<open>The buffer and the length of the entry it was found in, if any.\<close>

function search_loop ::
  "search_env \<Rightarrow> byte list \<Rightarrow> uint32 \<Rightarrow> uint32 \<Rightarrow> byte list \<Rightarrow> byte list \<Rightarrow> (byte list \<times> nat option) option" where
  "search_loop env f uid gid buf rest =
     (if rest = [] then Some (buf, None)
      else
        let dist = entry_len rest
        in case fill_path buf (take dist rest) f of
             None \<Rightarrow> None
           | Some buf \<Rightarrow>
               if statfile env (takeWhile (\<lambda>b. b \<noteq> 0) buf) uid gid < 0
               then search_loop env f uid gid buf (drop (dist + 1) rest)
               else Some (buf, Some dist))"
  by pat_completeness auto
termination by (relation "measure (\<lambda>(_, _, _, _, _, rest). length rest)") auto

declare search_loop.simps [simp del]

text \<open>PATH or the default of the system, or the error.\<close>

definition search_path_var :: "search_env \<Rightarrow> int + byte list" where
  "search_path_var env =
     (case path_var env of
        Some (b # bs) \<Rightarrow> Inr (b # bs)
      | _ \<Rightarrow>
          let (n, _) = cs_path env 0
          in if n = 0 then Inl (VSC_ERROR EINVAL)
             else let (r, path) = cs_path env n
                  in if r \<noteq> 0 then Inl (VSC_ERROR EINVAL) else Inr path)"

text \<open>
  The status, what \<open>*s\<close> points to afterwards (nothing when it is not written), what \<open>*len\<close> holds
  (nothing when \<open>len\<close> is NULL) and the world.
\<close>

definition vsc_searchpatha ::
  "search_env \<Rightarrow> byte list \<Rightarrow> size_t option \<Rightarrow> 's VscAllocator \<Rightarrow> 's world \<Rightarrow>
   (int \<times> (addr \<times> byte list) option \<times> size_t option \<times> 's world) option" where
  "vsc_searchpatha env f len a w =
     (case search_path_var env of
        Inl r \<Rightarrow> Some (r, None, len, w)
      | Inr path \<Rightarrow>
          let dlen = longest_entry 0 path;
              flen = strlen f + 1;
              dlen = dlen + (flen + 1)
          in case vsc_xcalloc a dlen 1 w of
               None \<Rightarrow> None
             | Some (buf, w) \<Rightarrow>
                 if buf = NULL then Some (VSC_ERROR ENOMEM, None, len, w)
                 else
                   (case search_loop env f (real_uid env) (real_gid env) (replicate (unat dlen) 0) path of
                      None \<Rightarrow> None
                    | Some (bs, None) \<Rightarrow> Some (VSC_ERROR ENOENT, None, len, vsc_xfree a buf w)
                    | Some (bs, Some dist) \<Rightarrow> Some (0, Some (buf, bs), map_option (\<lambda>_. of_nat dist + flen) len, w)))"

definition vsc_searchpath ::
  "search_env \<Rightarrow> libc \<Rightarrow> byte list \<Rightarrow> size_t option \<Rightarrow> heap world \<Rightarrow>
   (int \<times> (addr \<times> byte list) option \<times> size_t option \<times> heap world) option" where
  "vsc_searchpath env c f len w = vsc_searchpatha env f len (vsclib_system_allocator c) w"

section \<open>Facts\<close>

text \<open>The entries the code looks at: the fields between the colons, but an empty last one.\<close>

definition path_entries :: "byte list \<Rightarrow> byte list list" where
  "path_entries path =
     (let es = split_fields 0x3A path in if last es = [] then butlast es else es)"

definition candidate :: "byte list \<Rightarrow> byte list \<Rightarrow> byte list" where
  "candidate f e = e @ [0x2F] @ f"

lemma entry_len_le: "entry_len rest \<le> length rest"
  by (auto simp: entry_len_def split: option.split dest: memchr_le)

lemma path_entries_Nil [simp]: "path_entries [] = []"
  by (simp add: path_entries_def)

lemma path_entries_step:
  assumes "rest \<noteq> []"
  shows "path_entries rest = take (entry_len rest) rest # path_entries (drop (entry_len rest + 1) rest)"
proof (cases "memchr rest 0x3A")
  case None
  then show ?thesis using assms by (simp add: entry_len_def path_entries_def fields_memchr [of "0x3A" rest])
next
  case (Some n)
  then show ?thesis by (simp add: entry_len_def path_entries_def Let_def fields_memchr [of "0x3A" rest])
qed

lemma cstring_drop: "cstring s \<Longrightarrow> cstring (drop n s)" and cstring_take: "cstring s \<Longrightarrow> cstring (take n s)"
  by (auto simp: cstring_def dest: in_set_dropD in_set_takeD)

lemma longest_entry_bounds:
  assumes "length rest < 2 ^ 64"
  shows "unat (longest_entry dlen rest) \<ge> unat dlen \<and>
    (\<forall>e\<in>set (path_entries rest). length e \<le> unat (longest_entry dlen rest)) \<and>
    unat (longest_entry dlen rest) \<le> max (unat dlen) (length rest)"
  using assms
proof (induction dlen rest rule: longest_entry.induct)
  case (1 dlen rest)
  show ?case
  proof (cases "rest = []")
    case True
    then show ?thesis by (simp add: longest_entry.simps [of dlen])
  next
    case False
    let ?c = "entry_len rest"
    define d where "d = (if (of_nat ?c :: size_t) > dlen then of_nat ?c else dlen)"
    have c: "unat (of_nat ?c :: size_t) = ?c" using entry_len_le [of rest] 1 by (intro unat_of_nat64) simp
    have d: "unat d \<ge> unat dlen" "unat d \<ge> ?c" "unat d \<le> max (unat dlen) ?c"
      using c by (auto simp: d_def word_less_nat_alt)
    have "longest_entry dlen rest = longest_entry d (drop (?c + 1) rest)"
      using False by (simp add: longest_entry.simps [of dlen rest] d_def Let_def)
    moreover have "unat (longest_entry d (drop (?c + 1) rest)) \<ge> unat d \<and>
        (\<forall>e\<in>set (path_entries (drop (?c + 1) rest)). length e \<le> unat (longest_entry d (drop (?c + 1) rest))) \<and>
        unat (longest_entry d (drop (?c + 1) rest)) \<le> max (unat d) (length rest - (?c + 1))"
      using 1(1) [OF False refl refl] 1(2) by (simp add: d_def [symmetric])
    ultimately show ?thesis using d entry_len_le [of rest] by (auto simp: path_entries_step [OF False])
  qed
qed

lemma strncpy_fits:
  "i + length bs \<le> length buf \<Longrightarrow> strncpy buf i bs = Some (take i buf @ bs @ drop (i + length bs) buf)"
proof (induction bs arbitrary: buf i)
  case (Cons b bs)
  then have "strncpy (buf[i := b]) (i + 1) bs = Some (take (i + 1) (buf[i := b]) @ bs @ drop (i + 1 + length bs) (buf[i := b]))"
    by (intro Cons.IH) simp
  moreover have "take (i + 1) (buf[i := b]) = take i buf @ [b]" using Cons.prems by (simp add: take_Suc_conv_app_nth)
  ultimately show ?case using Cons.prems by (simp add: poke_def)
qed simp

lemma fill_path_fits:
  assumes "cstring f" "length e + length f + 2 \<le> length buf"
  shows "fill_path buf e f = Some (candidate f e @ 0 # drop (length e + length f + 2) buf)"
proof -
  let ?b1 = "e @ drop (length e) buf"
  have b2: "?b1[length e := 0x2F] = (e @ [0x2F]) @ drop (length e + 1) buf"
    using assms(2) by (simp add: list_update_append upd_conv_take_nth_drop Cons_nth_drop_Suc [symmetric])
  have "vsc_stpcpy ((e @ [0x2F]) @ drop (length e + 1) buf) (length e + 1) f =
      Some (length e + 1 + length f, (e @ [0x2F]) @ f @ 0 # drop (length e + length f + 2) buf)"
    using assms by (subst vsc_stpcpy_fits) (simp_all add: drop_drop add.commute add.left_commute)
  then show ?thesis
    using assms strncpy_fits [of 0 e buf] b2
    by (simp add: fill_path_def poke_def vsc_strcpy_def candidate_def)
qed

lemma search_loop_finds:
  assumes "cstring f" "cstring rest" "\<forall>e\<in>set (path_entries rest). length e + length f + 2 \<le> length buf"
  shows "case find (\<lambda>e. \<not> statfile env (candidate f e) uid gid < 0) (path_entries rest) of
      None \<Rightarrow> \<exists>bs. search_loop env f uid gid buf rest = Some (bs, None)
    | Some e \<Rightarrow> \<exists>bs. search_loop env f uid gid buf rest = Some (bs, Some (length e)) \<and> length bs = length buf \<and>
        take (length (candidate f e) + 1) bs = candidate f e @ [0]"
  using assms
proof (induction env f uid gid buf rest rule: search_loop.induct)
  case (1 env f uid gid buf rest)
  show ?case
  proof (cases "rest = []")
    case True
    then show ?thesis by (simp add: search_loop.simps [of env f])
  next
    case False
    let ?n = "entry_len rest"
    let ?e = "take ?n rest"
    define b where "b = candidate f ?e @ 0 # drop (length ?e + length f + 2) buf"
    have len: "length ?e = ?n" using entry_len_le [of rest] by simp
    have es: "path_entries rest = ?e # path_entries (drop (?n + 1) rest)" by (rule path_entries_step [OF False])
    then have fits: "length ?e + length f + 2 \<le> length buf" using 1(4) by simp
    have fill: "fill_path buf ?e f = Some b" unfolding b_def by (rule fill_path_fits) (use 1(2) fits in simp_all)
    have lb: "length b = length buf" using fits by (simp add: b_def candidate_def)
    have "\<forall>x\<in>set (candidate f ?e). x \<noteq> 0"
      using 1(2,3) by (auto simp: candidate_def cstring_def dest: in_set_takeD)
    then have tw: "takeWhile (\<lambda>x. x \<noteq> 0) b = candidate f ?e" by (simp add: b_def takeWhile_append2)
    show ?thesis
    proof (cases "statfile env (candidate f ?e) uid gid < 0")
      case True
      have "search_loop env f uid gid buf rest = search_loop env f uid gid b (drop (?n + 1) rest)"
        using False True fill tw by (simp add: search_loop.simps [of env f uid gid buf rest] Let_def)
      then show ?thesis
        using 1(1) [OF False refl fill] True tw 1(2) cstring_drop [OF 1(3)] 1(4) es lb by (simp split: option.splits)
    next
      case F: False
      then have "search_loop env f uid gid buf rest = Some (b, Some ?n)"
        using False fill tw by (simp add: search_loop.simps [of env f uid gid buf rest] Let_def)
      then show ?thesis using es F lb len by (auto simp: b_def)
    qed
  qed
qed

section \<open>Properties\<close>

text \<open>
  (C19) Looking a program up. With PATH set, \<open>vsc_searchpatha\<close> returns and never writes past its buffer.
  It finds the first entry of PATH in which \<open>statfile\<close> accepts the program, and then gives the path, with
  its length; with none it returns ENOENT, without memory ENOMEM, and leaves \<open>*s\<close> and \<open>*len\<close> alone.
\<close>

theorem vsc_searchpath_finds_first:
  assumes "search_path_var env = Inr path" "cstring f" "cstring path" "length path + length f + 2 < 2 ^ 64"
  shows "\<exists>r s l w'. vsc_searchpatha env f len a w = Some (r, s, l, w') \<and>
    (r = VSC_ERROR ENOMEM \<and> s = None \<and> l = len \<or>
     (case find (\<lambda>e. \<not> statfile env (candidate f e) (real_uid env) (real_gid env) < 0) (path_entries path) of
        None \<Rightarrow> r = VSC_ERROR ENOENT \<and> s = None \<and> l = len
      | Some e \<Rightarrow> r = 0 \<and> l = map_option (\<lambda>_. of_nat (length (candidate f e))) len \<and>
          (\<exists>p bs. s = Some (p, bs) \<and> p \<noteq> NULL \<and> take (length (candidate f e) + 1) bs = candidate f e @ [0])))"
proof -
  define d where "d = longest_entry 0 path"
  have d: "\<forall>e\<in>set (path_entries path). length e \<le> unat d" "unat d \<le> length path"
    using longest_entry_bounds [of path 0] assms(4) by (simp_all add: d_def)
  have "d + (strlen f + 1 + 1) = of_nat (unat d + length f + 2)" by (simp add: strlen_def add_ac)
  then have size: "unat (d + (strlen f + 1 + 1)) = unat d + length f + 2"
    using d(2) assms(4) by (subst \<open>d + _ = _\<close>, intro unat_of_nat64) simp
  obtain p w1 where p: "vsc_xcalloc a (d + (strlen f + 1 + 1)) 1 w = Some (p, w1)"
    using vsc_xcalloc_no_abort [of a "d + (strlen f + 1 + 1)" 1 w] by auto
  let ?buf = "replicate (unat d + length f + 2) 0"
  have run: "vsc_searchpatha env f len a w =
      (if p = NULL then Some (VSC_ERROR ENOMEM, None, len, w1)
       else case search_loop env f (real_uid env) (real_gid env) ?buf path of
          None \<Rightarrow> None
        | Some (bs, None) \<Rightarrow> Some (VSC_ERROR ENOENT, None, len, vsc_xfree a p w1)
        | Some (bs, Some dist) \<Rightarrow> Some (0, Some (p, bs), map_option (\<lambda>_. of_nat dist + (strlen f + 1)) len, w1))"
    by (simp only: vsc_searchpatha_def assms(1) sum.case Let_def d_def [symmetric] p option.case prod.case size)
  have "\<forall>e\<in>set (path_entries path). length e + length f + 2 \<le> length ?buf" using d(1) by simp
  from search_loop_finds [OF assms(2,3) this, of env "real_uid env" "real_gid env"] show ?thesis
    by (cases "p = NULL") (auto simp: run strlen_def candidate_def add_ac split: option.splits)
qed

text \<open>
  Without PATH the search never takes place: \<open>confstr\<close> returns the size of the value, which is not 0,
  both times it is called, and the code takes the second answer for an error.
\<close>

lemma searchpath_without_PATH:
  assumes "path_var env = None \<or> path_var env = Some []" "\<And>n. fst (cs_path env n) = fst (cs_path env 0)"
  shows "vsc_searchpatha env f len a w = Some (VSC_ERROR EINVAL, None, len, w)"
proof -
  have "search_path_var env = Inl (VSC_ERROR EINVAL)"
    using assms(1) assms(2) [of "fst (cs_path env 0)"] by (auto simp: search_path_var_def split: prod.split)
  then show ?thesis by (simp add: vsc_searchpatha_def)
qed

definition sample_env :: search_env where
  "sample_env = \<lparr>path_var = Some [0x61, 0x3A, 0x62, 0x63], cs_path = (\<lambda>_. (0, [])),
     stat_file = (\<lambda>p. if p = [0x62, 0x63, 0x2F, 0x66] then Inr \<lparr>fs_mode = 0x81ED, fs_uid = 0, fs_gid = 0\<rparr> else Inl ENOENT),
     real_uid = 1000, real_gid = 1000\<rparr>"

theorem vsc_searchpath_finds_first_witness:
  "\<exists>p bs w. vsc_searchpatha sample_env [0x66] (Some 0) (fixed_allocator 0x1000 0 16) sample_world =
      Some (0, Some (p, bs), Some 4, w) \<and> take 5 bs = [0x62, 0x63, 0x2F, 0x66, 0]"
proof -
  have "map_option fst (vsc_searchpatha sample_env [0x66] (Some 0) (fixed_allocator 0x1000 0 16) sample_world) = Some 0"
    by code_simp
  moreover have found: "find (\<lambda>e. \<not> statfile sample_env (candidate [0x66] e) (real_uid sample_env) (real_gid sample_env) < 0)
      (path_entries [0x61, 0x3A, 0x62, 0x63]) = Some [0x62, 0x63]"
    by code_simp
  have path: "search_path_var sample_env = Inr [0x61, 0x3A, 0x62, 0x63]"
    by (simp add: search_path_var_def sample_env_def)
  obtain r s l w where o: "vsc_searchpatha sample_env [0x66] (Some 0) (fixed_allocator 0x1000 0 16) sample_world = Some (r, s, l, w)"
    "r = VSC_ERROR ENOMEM \<or> r = 0 \<and> l = Some 4 \<and>
       (\<exists>p bs. s = Some (p, bs) \<and> take (Suc (Suc (Suc (Suc (Suc 0))))) bs = [0x62, 0x63, 0x2F, 0x66, 0])"
    using vsc_searchpath_finds_first [OF path, of "[0x66]" "Some 0" "fixed_allocator 0x1000 0 16" sample_world]
    unfolding found by (auto simp: cstring_def candidate_def)
  ultimately show ?thesis by (auto simp: numeral_eq_Suc)
qed

end
