(* ===== verification/Report.thy ===== *)
theory Report
  imports Stdio Allocator
begin

text \<open>
  \<open>vsprintfa.c\<close>: a formatted string in a block of its own, and \<open>error.c\<close>: an error message on a
  stream. What a format makes of its arguments is a parameter: \<open>vsnprintf\<close> as a function of the
  size of its buffer, and the text that \<open>vfprintf\<close> prints, none when it fails.
\<close>

section \<open>Formatted strings (vsprintfa.c)\<close>

text \<open>The result and what is stored; the buffer is NULL when the size is 0.\<close>

type_synonym formatter = "size_t \<Rightarrow> int \<times> byte list"

text \<open>
  The address of the string, NULL on an error, and the contents of its block. \<open>++nreq\<close> is on
  \<open>int\<close>, which C leaves undefined at its maximum; the model counts on.
\<close>

definition vsc_vasprintfa ::
  "'s VscAllocator \<Rightarrow> formatter \<Rightarrow> 's world \<Rightarrow> (addr \<times> byte list \<times> 's world) option" where
  "vsc_vasprintfa a vsnprintf w =
     (let (nreq, _) = vsnprintf 0
      in if nreq < 0 then Some (NULL, [], w)
         else
           let nreq = nreq + 1
           in case vsc_xalloc a (word_of_int nreq) w of
                None \<Rightarrow> None
              | Some (s, w) \<Rightarrow>
                  if s = NULL then Some (NULL, [], w)
                  else
                    let (r, bs) = vsnprintf (word_of_int nreq)
                    in if r \<noteq> nreq - 1 then Some (NULL, [], vsc_xfree a s w) else Some (s, bs, w))"

definition vsc_vasprintf :: "libc \<Rightarrow> formatter \<Rightarrow> heap world \<Rightarrow> (addr \<times> byte list \<times> heap world) option" where
  "vsc_vasprintf c vsnprintf w = vsc_vasprintfa (vsclib_system_allocator c) vsnprintf w"

definition vsc_asprintfa ::
  "'s VscAllocator \<Rightarrow> formatter \<Rightarrow> 's world \<Rightarrow> (addr \<times> byte list \<times> 's world) option" where
  "vsc_asprintfa a vsnprintf w = vsc_vasprintfa a vsnprintf w"

definition vsc_asprintf :: "libc \<Rightarrow> formatter \<Rightarrow> heap world \<Rightarrow> (addr \<times> byte list \<times> heap world) option" where
  "vsc_asprintf c vsnprintf w = vsc_vasprintfa (vsclib_system_allocator c) vsnprintf w"

section \<open>Error messages (error.c)\<close>

definition vsc_isprint :: "int \<Rightarrow> bool" where
  "vsc_isprint c \<longleftrightarrow> (word_of_int c :: uint32) - 0x20 < 0x5F"

definition fprintf :: "byte list \<Rightarrow> FILE \<Rightarrow> int \<times> FILE" where
  "fprintf bs f = (let (k, f) = write_bytes bs f in if k = length bs then (int k, f) else (- 1, f))"

text \<open>The digits \<open>%08x\<close> prints for a value of 32 bits.\<close>

definition hex8 :: "uint32 \<Rightarrow> byte list" where
  "hex8 v = map (\<lambda>i. ascii ''0123456789abcdef'' ! unat (drop_bit (4 * i) v AND 0xF)) (rev [0..<8])"

text \<open>The message for a code of the library, if it has one.\<close>

definition library_message :: "int \<Rightarrow> byte list option" where
  "library_message err =
     (if err = VSC_ERROR_SUCCESS then Some (ascii ''Success'')
      else if err = VSC_ERROR_EOF then Some (ascii ''End of file'')
      else if err = VSC_ERROR_STACKOFLOW then Some (ascii ''Stack overflow'')
      else if err = VSC_ERROR_STACKUFLOW then Some (ascii ''Stack underflow'')
      else None)"

definition unknown_message :: "int \<Rightarrow> byte list" where
  "unknown_message err =
     (let c0 = drop_bit 24 (- err) AND 0xFF; c1 = drop_bit 16 (- err) AND 0xFF;
          c2 = drop_bit 8 (- err) AND 0xFF; c3 = drop_bit 0 (- err) AND 0xFF
      in if \<not> vsc_isprint c0 \<or> \<not> vsc_isprint c1 \<or> \<not> vsc_isprint c2 \<or> \<not> vsc_isprint c3
         then ascii ''Unknown error 0x'' @ hex8 (word_of_int (- err))
         else ascii ''Unknown error '' @ [0x27] @ map word_of_int [c0, c1, c2, c3] @ [0x27])"

text \<open>
  \<open>strerror_r\<close> gives its result and the string it stores, of at most 127 bytes; \<open>errno\<close> is what a
  failing call leaves.
\<close>

definition vsc_vfperror ::
  "(int \<Rightarrow> int \<times> byte list) \<Rightarrow> int \<Rightarrow> FILE \<Rightarrow> int \<Rightarrow> byte list option \<Rightarrow> int \<times> FILE" where
  "vsc_vfperror strerror_r errno fp err text =
     (let (r, fp) = (case text of None \<Rightarrow> (- 1, fp) | Some bs \<Rightarrow> fprintf bs fp)
      in if r < 0 then (VSC_ERROR errno, fp)
         else
           let (failed, errmsg) =
                 (if VSC_ERROR_IS_SYSTEM err then
                    let (r, errbuf) = strerror_r (VSC_UNERROR err) in (r < 0, Some errbuf)
                  else (False, library_message err))
           in if failed then (VSC_ERROR errno, fp)
              else
                let line = (case errmsg of Some m \<Rightarrow> m | None \<Rightarrow> unknown_message err);
                    (r, fp) = fprintf (ascii '': '' @ line @ [10]) fp
                in if r < 0 then (VSC_ERROR EIO, fp) else (0, fp))"

definition vsc_fperror ::
  "(int \<Rightarrow> int \<times> byte list) \<Rightarrow> int \<Rightarrow> FILE \<Rightarrow> int \<Rightarrow> byte list option \<Rightarrow> int \<times> FILE" where
  "vsc_fperror strerror_r errno fp err text = vsc_vfperror strerror_r errno fp err text"

text \<open>
  On Windows \<open>strerror_s\<close> gives an error number and the string it stores; the code passes it \<open>errno\<close>
  and stores its result there.
\<close>

definition vsc_vfperror_win32 ::
  "(int \<Rightarrow> int \<times> byte list) \<Rightarrow> int \<Rightarrow> FILE \<Rightarrow> int \<Rightarrow> byte list option \<Rightarrow> int \<times> FILE" where
  "vsc_vfperror_win32 strerror_s errno fp err text =
     (let (r, fp) = (case text of None \<Rightarrow> (- 1, fp) | Some bs \<Rightarrow> fprintf bs fp)
      in if r < 0 then (VSC_ERROR errno, fp)
         else
           let (errno, errmsg) =
                 (if VSC_ERROR_IS_SYSTEM err then let (errno, errbuf) = strerror_s errno in (errno, Some errbuf)
                  else (0, library_message err))
           in if errno \<noteq> 0 then (VSC_ERROR errno, fp)
              else
                let line = (case errmsg of Some m \<Rightarrow> m | None \<Rightarrow> unknown_message err);
                    (r, fp) = fprintf (ascii '': '' @ line @ [10]) fp
                in if r < 0 then (VSC_ERROR EIO, fp) else (0, fp))"

section \<open>Properties\<close>

text \<open>What \<open>vsnprintf\<close> is documented to do for a text of less than 2^31 - 1 bytes.\<close>

definition formats :: "formatter \<Rightarrow> byte list \<Rightarrow> bool" where
  "formats vsnprintf bs \<longleftrightarrow> length bs < 2 ^ 31 - 1 \<and>
     (\<forall>n. fst (vsnprintf n) = int (length bs) \<and> (unat n > length bs \<longrightarrow> snd (vsnprintf n) = bs @ [0]))"

text \<open>The string is the whole text with its NUL, in a block of exactly that size, or NULL without memory.\<close>

lemma vsc_vasprintfa_formats:
  assumes "formats vsnprintf bs"
  shows "vsc_vasprintfa a vsnprintf w =
    (case vsc_xalloc a (of_nat (length bs + 1)) w of
       None \<Rightarrow> None
     | Some (s, w) \<Rightarrow> Some (if s = NULL then (NULL, [], w) else (s, bs @ [0], w)))"
proof -
  have n: "word_of_int (int (length bs) + 1) = (of_nat (length bs + 1) :: size_t)" by simp
  have "unat (of_nat (length bs + 1) :: size_t) = length bs + 1"
    using assms by (intro unat_of_nat64) (simp add: formats_def)
  then have second: "vsnprintf (of_nat (length bs + 1)) = (int (length bs), bs @ [0])"
    using assms by (simp add: formats_def prod_eq_iff)
  obtain b where first: "vsnprintf 0 = (int (length bs), b)"
    using assms by (metis formats_def prod.collapse)
  show ?thesis
    by (cases "vsc_xalloc a (of_nat (length bs + 1)) w")
      (auto simp only: vsc_vasprintfa_def first second Let_def prod.case n option.case split: if_splits)
qed

lemma fprintf_fits:
  "length bs \<le> froom f \<Longrightarrow> fprintf bs f = (int (length bs), f\<lparr>fdata := fdata f @ bs, froom := froom f - length bs\<rparr>)"
  by (simp add: fprintf_def write_bytes_fits)

text \<open>The line printed for an error: the text, a colon and the message of the system or the library.\<close>

definition error_line :: "(int \<Rightarrow> int \<times> byte list) \<Rightarrow> int \<Rightarrow> byte list \<Rightarrow> byte list" where
  "error_line strerror_r err text =
     text @ ascii '': '' @
     (if VSC_ERROR_IS_SYSTEM err then snd (strerror_r (VSC_UNERROR err))
      else case library_message err of Some m \<Rightarrow> m | None \<Rightarrow> unknown_message err) @ [10]"

lemma vsc_vfperror_line:
  assumes "\<And>e. 0 \<le> fst (strerror_r e)" "length (error_line strerror_r err text) \<le> froom fp"
  shows "vsc_vfperror strerror_r errno fp err (Some text) =
    (0, fp\<lparr>fdata := fdata fp @ error_line strerror_r err text,
           froom := froom fp - length (error_line strerror_r err text)\<rparr>)"
proof -
  define msg where "msg = (if VSC_ERROR_IS_SYSTEM err then snd (strerror_r (VSC_UNERROR err))
      else case library_message err of Some m \<Rightarrow> m | None \<Rightarrow> unknown_message err)"
  let ?m = "ascii '': '' @ msg @ [10]"
  have el: "error_line strerror_r err text = text @ ?m" by (simp add: error_line_def msg_def)
  obtain r s where se: "strerror_r (VSC_UNERROR err) = (r, s)" "\<not> r < 0"
    using assms(1) [of "VSC_UNERROR err"] by (metis not_less prod.collapse)
  let ?f = "fp\<lparr>fdata := fdata fp @ text, froom := froom fp - length text\<rparr>"
  have head: "fprintf text fp = (int (length text), ?f)" using assms(2) by (intro fprintf_fits) (simp add: el)
  have line: "fprintf ?m ?f = (int (length ?m), ?f\<lparr>fdata := fdata ?f @ ?m, froom := froom ?f - length ?m\<rparr>)"
    using assms(2) by (intro fprintf_fits) (simp add: el)
  have "vsc_vfperror strerror_r errno fp err (Some text) =
      (let (r, fp) = fprintf ?m ?f in if r < 0 then (VSC_ERROR EIO, fp) else (0, fp))"
    using se(2) by (simp add: vsc_vfperror_def head se(1) msg_def Let_def)
  then show ?thesis by (simp add: line el)
qed

lemma error_texts:
  "unknown_message VSC_ERROR_UNKNOWN = ascii ''Unknown error '' @ [0x27] @ ascii '' UNK'' @ [0x27]"
  "unknown_message 5 = ascii ''Unknown error 0xfffffffb''"
  "library_message VSC_ERROR_EOF = Some (ascii ''End of file'')"
  by code_simp+

text \<open>On Windows every code of the system prints the message of \<open>errno\<close>; the other codes print what POSIX prints.\<close>

lemma vsc_vfperror_win32_ignores_code:
  assumes "VSC_ERROR_IS_SYSTEM err" "VSC_ERROR_IS_SYSTEM err'"
  shows "vsc_vfperror_win32 strerror_s errno fp err text = vsc_vfperror_win32 strerror_s errno fp err' text"
  using assms by (simp add: vsc_vfperror_win32_def Let_def case_prod_beta)

lemma vsc_vfperror_win32_library:
  assumes "\<not> VSC_ERROR_IS_SYSTEM err"
  shows "vsc_vfperror_win32 strerror_s errno fp err text = vsc_vfperror strerror_r errno fp err text"
  using assms by (simp add: vsc_vfperror_win32_def vsc_vfperror_def Let_def case_prod_beta)

end
