(* ===== verification/Getline.thy ===== *)
theory Getline
  imports AllocatorCorrect
begin

text \<open>
  \<open>getline.c\<close>: reading a line of a stream into a buffer that grows. The functions work on the
  buffer in memory; what they do is stated on the blocks of an allocator that meets the contract
  \<open>block_allocator\<close>, and then for the system allocator.
\<close>

definition SSIZE_MAX :: size_t where
  "SSIZE_MAX = 0x7FFFFFFFFFFFFFFF"

text \<open>The status or length, what \<open>*lineptr\<close> and \<open>*n\<close> hold, the stream and the world.\<close>

type_synonym 's line_result = "(int \<times> addr \<times> size_t \<times> FILE \<times> 's world) option"

definition poke :: "addr \<Rightarrow> byte \<Rightarrow> 's world \<Rightarrow> 's world" where
  "poke p v w = w\<lparr>mem := (mem w)(p := v)\<rparr>"

text \<open>Room for two more bytes: \<open>Inl\<close> is an early return, \<open>Inr\<close> the buffer, its size and \<open>cur_pos\<close>.\<close>

definition getdelim_grow ::
  "'s VscAllocator \<Rightarrow> addr \<Rightarrow> size_t \<Rightarrow> addr \<Rightarrow> 's world \<Rightarrow>
   ((int + addr \<times> size_t \<times> addr) \<times> 's world) option" where
  "getdelim_grow a lineptr n cur w =
     (if sint (lineptr + n - cur) < 2 then
        if SSIZE_MAX div 2 < n then Some (Inl (VSC_ERROR EOVERFLOW), w)
        else (case vsc_xrealloc a lineptr (n * 2) w of
                None \<Rightarrow> None
              | Some (p, w) \<Rightarrow>
                  if p = NULL then Some (Inl (VSC_ERROR ENOMEM), w)
                  else Some (Inr (p, n * 2, p + (cur - lineptr)), w))
      else Some (Inr (lineptr, n, cur), w))"

definition getdelim_finish :: "addr \<Rightarrow> size_t \<Rightarrow> addr \<Rightarrow> FILE \<Rightarrow> 's world \<Rightarrow> 's line_result" where
  "getdelim_finish lineptr n cur f w = Some (sint (cur - lineptr), lineptr, n, f, poke cur 0 w)"

lemma getc_eof: "readable f = 0 \<Longrightarrow> fst (getc f) = EOF"
  by (simp add: getc_def read_bytes_def Let_def readable_def)

lemma getc_char:
  assumes "0 < readable f"
  shows "getc f = (uint (fdata f ! fpos f), f\<lparr>fpos := fpos f + 1\<rparr>)"
proof -
  have "fpos f < length (fdata f)" using assms readable_le [of f] by simp
  then have "take 1 (drop (fpos f) (fdata f)) = [fdata f ! fpos f]" by (simp add: take_Suc_conv_app_nth)
  then show ?thesis using assms by (simp add: getc_def read_bytes_def Let_def min_def)
qed

function getdelim_loop ::
  "'s VscAllocator \<Rightarrow> int \<Rightarrow> addr \<Rightarrow> size_t \<Rightarrow> addr \<Rightarrow> FILE \<Rightarrow> 's world \<Rightarrow> 's line_result" where
  "getdelim_loop a delim lineptr n cur f w =
     (let c = fst (getc f); f' = snd (getc f)
      in if ferror f' \<or> (c = EOF \<and> cur = lineptr) then Some (VSC_ERROR_EOF, lineptr, n, f', w)
         else if c = EOF then getdelim_finish lineptr n cur f' w
         else
           (case getdelim_grow a lineptr n cur w of
              None \<Rightarrow> None
            | Some (Inl r, w) \<Rightarrow> Some (r, lineptr, n, f', w)
            | Some (Inr (lineptr, n, cur), w) \<Rightarrow>
                if c = delim then getdelim_finish lineptr n (cur + 1) f' (poke cur (word_of_int c) w)
                else getdelim_loop a delim lineptr n (cur + 1) f' (poke cur (word_of_int c) w)))"
  by pat_completeness auto
termination
proof (relation "measure (\<lambda>(a, delim, lineptr, n, cur, f, w). readable f)")
  fix f :: FILE and c :: int and f'
  assume "c = fst (getc f)" "f' = snd (getc f)" "c \<noteq> EOF"
  then have "0 < readable f" using getc_eof by fastforce
  then show "((a, delim, x, y, z, f', v), a, delim, lineptr, n, cur, f, w) \<in>
      measure (\<lambda>(a, delim, lineptr, n, cur, f, w). readable f)"
    for a :: "'s VscAllocator" and delim x y z v lineptr n cur w
    using \<open>f' = snd (getc f)\<close> by (auto simp: getc_char readable_def split: option.splits)
qed simp

declare getdelim_loop.simps [simp del]

text \<open>A pointer argument that may be NULL is an option: what it points to.\<close>

definition vsc_getdelima ::
  "'s VscAllocator \<Rightarrow> addr option \<Rightarrow> size_t option \<Rightarrow> int \<Rightarrow> FILE option \<Rightarrow> 's world \<Rightarrow>
   (int \<times> addr option \<times> size_t option \<times> FILE option \<times> 's world) option" where
  "vsc_getdelima a lineptr n delim stream w =
     (let pack = map_option (\<lambda>(r, p, n, f, w). (r, Some p, Some n, Some f, w))
      in case (lineptr, n, stream) of
           (Some p, Some n, Some f) \<Rightarrow>
             if p = NULL then
               (case vsc_xalloc a 128 w of
                  None \<Rightarrow> None
                | Some (p, w) \<Rightarrow>
                    if p = NULL then Some (VSC_ERROR ENOMEM, Some NULL, Some 128, stream, w)
                    else pack (getdelim_loop a delim p 128 p f w))
             else pack (getdelim_loop a delim p n p f w)
         | _ \<Rightarrow> Some (VSC_ERROR EINVAL, lineptr, n, stream, w))"

definition vsc_getdelim ::
  "libc \<Rightarrow> addr option \<Rightarrow> size_t option \<Rightarrow> int \<Rightarrow> FILE option \<Rightarrow> heap world \<Rightarrow>
   (int \<times> addr option \<times> size_t option \<times> FILE option \<times> heap world) option" where
  "vsc_getdelim c lineptr n delim stream w = vsc_getdelima (vsclib_system_allocator c) lineptr n delim stream w"

definition vsc_getlinea ::
  "addr option \<Rightarrow> size_t option \<Rightarrow> FILE option \<Rightarrow> 's VscAllocator \<Rightarrow> 's world \<Rightarrow>
   (int \<times> addr option \<times> size_t option \<times> FILE option \<times> 's world) option" where
  "vsc_getlinea lineptr n stream a w = vsc_getdelima a lineptr n 10 stream w"

definition vsc_getline ::
  "libc \<Rightarrow> addr option \<Rightarrow> size_t option \<Rightarrow> FILE option \<Rightarrow> heap world \<Rightarrow>
   (int \<times> addr option \<times> size_t option \<times> FILE option \<times> heap world) option" where
  "vsc_getline c lineptr n stream w = vsc_getlinea lineptr n stream (vsclib_system_allocator c) w"

section \<open>The line\<close>

fun line_of :: "int \<Rightarrow> byte list \<Rightarrow> byte list" where
  "line_of delim [] = []"
| "line_of delim (b # bs) = b # (if uint b = delim then [] else line_of delim bs)"

definition rest :: "FILE \<Rightarrow> byte list" where
  "rest f = drop (fpos f) (fdata f)"

lemma sint_small: "unat (x :: 64 word) < 2 ^ 63 \<Longrightarrow> sint x = int (unat x)"
proof -
  assume x: "unat x < 2 ^ 63"
  have "int (unat x) < int (2 ^ 63)" using x by (rule of_nat_less_iff [THEN iffD2])
  then have "uint x < 2 ^ 63" by simp
  then show "sint x = int (unat x)" using order_trans [OF _ uint_nonnegative [of x], of "- (2 ^ 63)"]
    by (simp add: sint_uint signed_take_bit_int_eq_self_iff)
qed

text \<open>
  \<open>good\<close> streams do not fail when read. \<open>buffer\<close>: in the world \<open>w\<close> the block at \<open>p\<close> has the \<open>n\<close> bytes
  \<open>bs\<close>, and they start with what has been read, \<open>acc\<close>, with room for the terminator.
\<close>

definition good :: "FILE \<Rightarrow> bool" where
  "good f \<longleftrightarrow> fbad f = None \<and> \<not> ferror f"

lemma good_getc:
  assumes "good f"
  shows "rest f = [] \<Longrightarrow> fst (getc f) = EOF \<and> good (snd (getc f)) \<and> fpos (snd (getc f)) = fpos f \<and> fdata (snd (getc f)) = fdata f"
    and "rest f = b # xs \<Longrightarrow> getc f = (uint b, f\<lparr>fpos := fpos f + 1\<rparr>) \<and> rest (f\<lparr>fpos := fpos f + 1\<rparr>) = xs \<and> good (f\<lparr>fpos := fpos f + 1\<rparr>)"
proof -
  have r: "readable f = length (rest f)" using assms by (simp add: good_def readable_def rest_def)
  show "fst (getc f) = EOF \<and> good (snd (getc f)) \<and> fpos (snd (getc f)) = fpos f \<and> fdata (snd (getc f)) = fdata f" if "rest f = []"
    using that r assms by (auto simp: good_def getc_def read_bytes_def Let_def read_fails_def)
  assume b: "rest f = b # xs"
  then have "fdata f ! fpos f = b" by (metis rest_def hd_drop_conv_nth list.sel(1) drop_eq_Nil list.distinct(1) not_le)
  moreover have "drop (Suc (fpos f)) (fdata f) = xs" using b by (metis rest_def drop_Suc tl_drop list.sel(3))
  ultimately show "getc f = (uint b, f\<lparr>fpos := fpos f + 1\<rparr>) \<and> rest (f\<lparr>fpos := fpos f + 1\<rparr>) = xs \<and> good (f\<lparr>fpos := fpos f + 1\<rparr>)"
    using b r assms getc_char [of f] by (simp add: rest_def good_def)
qed

text \<open>The blocks \<open>H'\<close> are the blocks \<open>H\<close>, but for the one at \<open>p\<close>, which is at \<open>p'\<close> now.\<close>

definition moved :: "(addr \<Rightarrow> byte list option) \<Rightarrow> addr \<Rightarrow> (addr \<Rightarrow> byte list option) \<Rightarrow> addr \<Rightarrow> bool" where
  "moved H p H' p' \<longleftrightarrow> (p' = p \<or> H p' = None) \<and> (\<exists>bs. H' = (H(p := None))(p' \<mapsto> bs))"

lemma moved_refl: "H p = Some bs \<Longrightarrow> moved H p H p"
  by (auto simp: moved_def intro!: exI [of _ bs])

lemma moved_trans: "moved H p H' p' \<Longrightarrow> moved H' p' H'' p'' \<Longrightarrow> moved H p H'' p''"
proof -
  assume "moved H p H' p'" "moved H' p' H'' p''"
  then obtain bs bs' where 1: "p' = p \<or> H p' = None" "H' = (H(p := None))(p' \<mapsto> bs)"
    and 2: "p'' = p' \<or> H' p'' = None" "H'' = (H'(p' := None))(p'' \<mapsto> bs')"
    unfolding moved_def by blast
  have "H'(p' := None) = H(p := None)" using 1 by (auto simp: fun_eq_iff)
  moreover have "p'' = p \<or> H p'' = None" using 1 2(1) by (cases "p'' = p'") (auto split: if_splits)
  ultimately show "moved H p H'' p''" using 2(2) by (auto simp: moved_def)
qed

context block_allocator begin

definition buffer :: "'s world \<Rightarrow> (addr \<Rightarrow> byte list option) \<Rightarrow> addr \<Rightarrow> size_t \<Rightarrow> byte list \<Rightarrow> bool" where
  "buffer w H p n acc \<longleftrightarrow> rep w H \<and> unat n < 2 ^ 63 \<and>
     (\<exists>bs. H p = Some bs \<and> length bs = unat n \<and> length acc < unat n \<and> take (length acc) bs = acc)"

lemma poke_buffer:
  assumes "buffer w H p n acc"
  shows "\<exists>bs. length bs = unat n \<and> take (Suc (length acc)) bs = acc @ [v] \<and>
    rep (poke (p + of_nat (length acc)) v w) (H(p \<mapsto> bs)) \<and> moved H p (H(p \<mapsto> bs)) p"
proof -
  obtain bs where bs: "rep w H" "H p = Some bs" "length bs = unat n" "length acc < unat n" "take (length acc) bs = acc"
    using assms by (auto simp: buffer_def)
  then have "rep (poke (p + of_nat (length acc)) v w) (H(p \<mapsto> bs[length acc := v]))" by (simp add: poke_def storeD)
  moreover have "take (Suc (length acc)) (bs[length acc := v]) = acc @ [v]" using bs by (simp add: take_Suc_conv_app_nth)
  ultimately show ?thesis using bs(3) by (auto simp: moved_def intro!: exI [of _ "bs[length acc := v]"])
qed

lemma space_left:
  assumes "buffer w H p n acc"
  shows "sint (p + n - (p + of_nat (length acc))) < 2 \<longleftrightarrow> unat n < length acc + 2"
proof -
  have b: "unat n < 2 ^ 63" "length acc < unat n" using assms by (auto simp: buffer_def)
  have d: "p + n - (p + of_nat (length acc)) = n - of_nat (length acc)" by simp
  have "unat (n - of_nat (length acc)) = unat n - length acc" using b by (simp add: unat_sub64 unat_of_nat64)
  moreover from this have "sint (n - of_nat (length acc)) = int (unat (n - of_nat (length acc)))" using b by (intro sint_small) simp
  ultimately show ?thesis unfolding d using b by (simp only:) linarith
qed

text \<open>What \<open>getdelim_grow\<close> returns: the old buffer or a larger one, or one of the two errors.\<close>

lemma grow_buffer:
  assumes b: "buffer w H p n acc" and lim: "2 ^ 63 \<le> limit"
  shows "\<exists>res w'. getdelim_grow a p n (p + of_nat (length acc)) w = Some (res, w') \<and>
    (case res of
       Inl r \<Rightarrow> (r = VSC_ERROR ENOMEM \<or> r = VSC_ERROR EOVERFLOW) \<and> rep w' H
     | Inr (p', n', cur) \<Rightarrow> cur = p' + of_nat (length acc) \<and> length acc + 2 \<le> unat n' \<and>
         (\<exists>H'. buffer w' H' p' n' acc \<and> moved H p H' p'))"
proof -
  obtain bs where bs: "rep w H" "H p = Some bs" "length bs = unat n" "length acc < unat n" "take (length acc) bs = acc"
    "unat n < 2 ^ 63"
    using b by (auto simp: buffer_def)
  consider "\<not> unat n < length acc + 2" | "unat n < length acc + 2" "SSIZE_MAX div 2 < n"
    | "unat n < length acc + 2" "\<not> SSIZE_MAX div 2 < n" by blast
  then show ?thesis
  proof cases
    case 1
    then show ?thesis using space_left [OF b] b moved_refl [where H=H, OF bs(2)] by (auto simp: getdelim_grow_def)
  next
    case 2
    then show ?thesis using space_left [OF b] bs(1) by (simp add: getdelim_grow_def)
  next
    case 3
    have "unat (SSIZE_MAX div 2) = 2 ^ 62 - 1" by (simp add: SSIZE_MAX_def unat_div)
    then have n: "unat n < 2 ^ 62" using 3(2) by (simp add: word_less_nat_alt)
    then have n2: "unat (n * 2) = unat n * 2" by (simp add: unat_mult64)
    have "n * 2 \<noteq> 0" using n2 bs(4) by auto
    have small: "unat (n * 2) < limit" using n n2 lim by simp
    obtain q w' where q: "vsc_xrealloc a p (n * 2) w = Some (q, w')"
      "q = NULL \<and> rep w' H \<or> q \<noteq> NULL \<and> (q = p \<or> H q = None) \<and>
        (\<exists>bs'. length bs' = unat (n * 2) \<and> rep w' ((H(p := None))(q \<mapsto> bs')) \<and> take (length bs) bs' = take (unat (n * 2)) bs)"
      using xrealloc_spec [OF bs(1) small \<open>n * 2 \<noteq> 0\<close> bs(2)] by blast
    show ?thesis
    proof (cases "q = NULL")
      case True
      then show ?thesis using 3 q space_left [OF b] by (simp add: getdelim_grow_def)
    next
      case False
      then obtain bs' where bs': "q = p \<or> H q = None" "length bs' = unat n * 2" "rep w' ((H(p := None))(q \<mapsto> bs'))"
        "take (unat n) bs' = bs"
        using q(2) bs(3) n2 by auto
      have "take (length acc) bs' = take (length acc) (take (unat n) bs')" using bs(4) by (simp add: min_def)
      also have "\<dots> = acc" using bs'(4) bs(5) by simp
      finally have "buffer w' ((H(p := None))(q \<mapsto> bs')) q (n * 2) acc"
        using bs' bs(4) n n2 by (auto simp: buffer_def)
      moreover have "moved H p ((H(p := None))(q \<mapsto> bs')) q" using bs'(1) by (auto simp: moved_def)
      ultimately show ?thesis using 3 q(1) False space_left [OF b] n2 bs(4) by (auto simp: getdelim_grow_def)
    qed
  qed
qed

text \<open>The outcome of reading on: \<open>l\<close> is the rest of the line, \<open>acc\<close> what the buffer held of it.\<close>

definition line_outcome ::
  "(addr \<Rightarrow> byte list option) \<Rightarrow> addr \<Rightarrow> FILE \<Rightarrow> byte list \<Rightarrow> byte list \<Rightarrow> 's line_result \<Rightarrow> bool" where
  "line_outcome H p f acc l res \<longleftrightarrow> (\<exists>r p' n' f' w' H' bs. res = Some (r, p', n', f', w') \<and>
     rep w' H' \<and> moved H p H' p' \<and> H' p' = Some bs \<and> length bs = unat n' \<and>
     (if acc @ l = [] then r = VSC_ERROR_EOF \<and> H' = H
      else r = int (length (acc @ l)) \<and> take (length (acc @ l) + 1) bs = acc @ l @ [0] \<and> fpos f' = fpos f + length l \<or>
        r = VSC_ERROR ENOMEM \<or> r = VSC_ERROR EOVERFLOW))"

lemma line_outcome_fpos: "fpos f = fpos g \<Longrightarrow> line_outcome H p f acc l res = line_outcome H p g acc l res"
  by (simp add: line_outcome_def)

lemma finish_outcome:
  assumes "buffer w H p n acc" "acc \<noteq> []"
  shows "line_outcome H p f acc [] (getdelim_finish p n (p + of_nat (length acc)) f w)"
proof -
  obtain bs where bs: "length bs = unat n" "take (Suc (length acc)) bs = acc @ [0]"
    "rep (poke (p + of_nat (length acc)) 0 w) (H(p \<mapsto> bs))" "moved H p (H(p \<mapsto> bs)) p"
    using poke_buffer [OF assms(1)] by blast
  have "length acc < 2 ^ 63" using assms(1) by (auto simp: buffer_def)
  then have "sint (p + of_nat (length acc) - p) = int (length acc)"
    using sint_small [of "of_nat (length acc)"] by (simp add: unat_of_nat64)
  then show ?thesis using bs assms(2) by (auto simp: line_outcome_def getdelim_finish_def)
qed

lemma line_outcome_moved:
  assumes "line_outcome H' p' f' (acc @ [b]) l res" "moved H p H' p'" "fpos f' = Suc (fpos f)"
  shows "line_outcome H p f acc (b # l) res"
  using assms(1,3) moved_trans [OF assms(2)] unfolding line_outcome_def
  by (elim exE conjE) (intro exI conjI, assumption+, auto)

lemma buffer_snoc:
  assumes "buffer w H p n acc" "length acc + 2 \<le> unat n"
  shows "\<exists>H'. buffer (poke (p + of_nat (length acc)) b w) H' p n (acc @ [b]) \<and> moved H p H' p"
proof -
  obtain bs where "length bs = unat n" "take (Suc (length acc)) bs = acc @ [b]"
    "rep (poke (p + of_nat (length acc)) b w) (H(p \<mapsto> bs))" "moved H p (H(p \<mapsto> bs)) p"
    using poke_buffer [OF assms(1)] by blast
  then show ?thesis using assms by (auto simp: buffer_def intro!: exI [of _ "H(p \<mapsto> bs)"])
qed

lemma loop_outcome:
  assumes "buffer w H p n acc" "good f" "2 ^ 63 \<le> limit"
  shows "line_outcome H p f acc (line_of delim (rest f)) (getdelim_loop a delim p n (p + of_nat (length acc)) f w)"
  using assms(1,2)
proof (induction "rest f" arbitrary: w H p n acc f)
  case Nil
  note g = good_getc(1) [OF Nil.prems(2) Nil.hyps [symmetric]]
  have small: "length acc < 2 ^ 64" using Nil.prems(1) unat_bound64 [of n] by (auto simp: buffer_def)
  have cur: "p + of_nat (length acc) = p \<longleftrightarrow> acc = []" using small by (auto simp flip: unat_eq_zero simp: unat_of_nat64)
  obtain bs where "rep w H" "H p = Some bs" "length bs = unat n" using Nil.prems(1) by (auto simp: buffer_def)
  show ?case
  proof (cases "acc = []")
    case True
    then show ?thesis
      using g Nil.hyps [symmetric] \<open>rep w H\<close> \<open>H p = Some bs\<close> \<open>length bs = unat n\<close> moved_refl [where H=H, OF \<open>H p = Some bs\<close>]
      by (auto simp: getdelim_loop.simps [of a delim p n p] line_outcome_def)
  next
    case False
    have "getdelim_loop a delim p n (p + of_nat (length acc)) f w =
        getdelim_finish p n (p + of_nat (length acc)) (snd (getc f)) w"
      using False g cur by (subst getdelim_loop.simps) (auto simp: good_def)
    then show ?thesis
      using finish_outcome [OF Nil.prems(1) False, of "snd (getc f)"] line_outcome_fpos [of f "snd (getc f)"] g
        Nil.hyps [symmetric]
      by simp
  qed
next
  case (Cons b xs)
  let ?f = "f\<lparr>fpos := fpos f + 1\<rparr>"
  have g: "getc f = (uint b, ?f)" "rest ?f = xs" "good ?f" using good_getc(2) [OF Cons.prems(2) Cons.hyps(2) [symmetric]] by simp_all
  have "uint b \<noteq> EOF" using uint_nonnegative [of b] unfolding EOF_def by linarith
  moreover have "\<not> ferror ?f" using g(3) by (simp add: good_def)
  ultimately have nE: "uint b \<noteq> EOF" "\<not> ferror ?f" .
  have step: "getdelim_loop a delim p n (p + of_nat (length acc)) f w =
     (case getdelim_grow a p n (p + of_nat (length acc)) w of
              None \<Rightarrow> None
            | Some (Inl r, w) \<Rightarrow> Some (r, p, n, ?f, w)
            | Some (Inr (p, n, cur), w) \<Rightarrow>
                if uint b = delim then getdelim_finish p n (cur + 1) ?f (poke cur (word_of_int (uint b)) w)
                else getdelim_loop a delim p n (cur + 1) ?f (poke cur (word_of_int (uint b)) w))"
    using nE by (subst getdelim_loop.simps) (simp add: Let_def g(1) split: option.split sum.split)
  obtain res w' where gr: "getdelim_grow a p n (p + of_nat (length acc)) w = Some (res, w')"
    "case res of
       Inl r \<Rightarrow> (r = VSC_ERROR ENOMEM \<or> r = VSC_ERROR EOVERFLOW) \<and> rep w' H
     | Inr (p', n', cur) \<Rightarrow> cur = p' + of_nat (length acc) \<and> length acc + 2 \<le> unat n' \<and>
         (\<exists>H'. buffer w' H' p' n' acc \<and> moved H p H' p')"
    using grow_buffer [OF Cons.prems(1) assms(3)] by blast
  show ?case
  proof (cases res)
    case (Inl r)
    obtain bs where "H p = Some bs" "length bs = unat n" using Cons.prems(1) by (auto simp: buffer_def)
    then show ?thesis using gr Inl step moved_refl [where H=H, OF \<open>H p = Some bs\<close>] Cons.hyps(2) [symmetric]
      by (auto simp: line_outcome_def)
  next
    case (Inr t)
    obtain p' n' cur where t: "t = (p', n', cur)" by (metis prod_cases3)
    then obtain H' where 1: "cur = p' + of_nat (length acc)" "length acc + 2 \<le> unat n'" "buffer w' H' p' n' acc" "moved H p H' p'"
      using gr(2) Inr by auto
    obtain H'' where 2: "buffer (poke cur b w') H'' p' n' (acc @ [b])" "moved H' p' H'' p'"
      using buffer_snoc [OF 1(3,2)] 1(1) by blast
    have cur: "cur + 1 = p' + of_nat (length (acc @ [b]))" by (simp add: 1(1))
    have "line_outcome H'' p' ?f (acc @ [b]) (if uint b = delim then [] else line_of delim xs)
       (if uint b = delim then getdelim_finish p' n' (cur + 1) ?f (poke cur b w')
        else getdelim_loop a delim p' n' (cur + 1) ?f (poke cur b w'))"
    proof (cases "uint b = delim")
      case True
      have "line_outcome H'' p' ?f (acc @ [b]) [] (getdelim_finish p' n' (cur + 1) ?f (poke cur b w'))"
        unfolding cur by (rule finish_outcome [OF 2(1)]) simp
      then show ?thesis by (simp only: if_P [OF True])
    next
      case False
      have "line_outcome H'' p' ?f (acc @ [b]) (line_of delim xs)
          (getdelim_loop a delim p' n' (cur + 1) ?f (poke cur b w'))"
        unfolding cur using Cons.hyps(1) [OF g(2) [symmetric] 2(1) g(3)] by (simp only: g(2))
      then show ?thesis by (simp only: if_not_P [OF False])
    qed
    from line_outcome_moved [OF this moved_trans [OF 1(4) 2(2)], of f]
    have "line_outcome H p f acc (line_of delim (b # xs))
       (if uint b = delim then getdelim_finish p' n' (cur + 1) ?f (poke cur b w')
        else getdelim_loop a delim p' n' (cur + 1) ?f (poke cur b w'))" by simp
    moreover have "word_of_int (uint b) = b" by simp
    ultimately show ?thesis
      by (simp only: step gr(1) Inr t option.case sum.case prod.case Cons.hyps(2) [symmetric])
  qed
qed

lemma getdelima_outcome:
  assumes "rep w H" "good f" "2 ^ 63 \<le> limit" "p = NULL \<or> (\<exists>bs. H p = Some bs \<and> length bs = unat n \<and> 0 < unat n \<and> unat n < 2 ^ 63)"
  shows "\<exists>r p' n' f' w' H'. vsc_getdelima a (Some p) (Some n) delim (Some f) w = Some (r, Some p', Some n', Some f', w') \<and>
     rep w' H' \<and> H'(p' := None) = H(p := None, p' := None) \<and>
     (let l = line_of delim (rest f)
      in if l = [] then r = VSC_ERROR_EOF \<or> p = NULL \<and> r = VSC_ERROR ENOMEM
         else r = int (length l) \<and> fpos f' = fpos f + length l \<and>
             (\<exists>bs. H' p' = Some bs \<and> length bs = unat n' \<and> take (length l + 1) bs = l @ [0]) \<or>
           r = VSC_ERROR ENOMEM \<or> r = VSC_ERROR EOVERFLOW)"
proof -
  let ?res = "\<lambda>p n w. getdelim_loop a delim p n p f w"
  have run: ?thesis
    if b: "buffer v G q m []" "G(q := None) = H(p := None)"
      and eq: "vsc_getdelima a (Some p) (Some n) delim (Some f) w =
        map_option (\<lambda>(r, p, n, f, w). (r, Some p, Some n, Some f, w)) (?res q m v)" for v G q m
  proof -
    have "line_outcome G q f [] (line_of delim (rest f)) (?res q m v)"
      using loop_outcome [OF b(1) assms(2,3)] by simp
    then obtain r p' n' f' w' H' bs where o: "?res q m v = Some (r, p', n', f', w')" "rep w' H'" "moved G q H' p'"
      "H' p' = Some bs" "length bs = unat n'"
      "if line_of delim (rest f) = [] then r = VSC_ERROR_EOF \<and> H' = G
       else r = int (length (line_of delim (rest f))) \<and> take (length (line_of delim (rest f)) + 1) bs = line_of delim (rest f) @ [0] \<and>
         fpos f' = fpos f + length (line_of delim (rest f)) \<or> r = VSC_ERROR ENOMEM \<or> r = VSC_ERROR EOVERFLOW"
      unfolding line_outcome_def append_Nil by blast
    have H': "H'(p' := None) = H(p := None, p' := None)"
    proof -
      obtain ds where "H' = (G(q := None))(p' \<mapsto> ds)" using o(3) unfolding moved_def by blast
      then show ?thesis by (simp add: b(2))
    qed
    have res: "vsc_getdelima a (Some p) (Some n) delim (Some f) w = Some (r, Some p', Some n', Some f', w')" by (simp add: eq o(1))
    show ?thesis
      unfolding Let_def
    proof (intro exI conjI, rule res, rule o(2), rule H')
      show "if line_of delim (rest f) = [] then r = VSC_ERROR_EOF \<or> p = NULL \<and> r = VSC_ERROR ENOMEM
        else r = int (length (line_of delim (rest f))) \<and> fpos f' = fpos f + length (line_of delim (rest f)) \<and>
             (\<exists>bs. H' p' = Some bs \<and> length bs = unat n' \<and>
               take (length (line_of delim (rest f)) + 1) bs = line_of delim (rest f) @ [0]) \<or>
           r = VSC_ERROR ENOMEM \<or> r = VSC_ERROR EOVERFLOW"
        using o(4-6) by (cases "line_of delim (rest f) = []") auto
    qed
  qed
  show ?thesis
  proof (cases "p = NULL")
    case False
    then obtain bs where "H p = Some bs" "length bs = unat n" "0 < unat n" "unat n < 2 ^ 63" using assms(4) by blast
    then show ?thesis using assms(1) False by (intro run [of w H p n]) (auto simp: buffer_def vsc_getdelima_def)
  next
    case True
    obtain q v where q: "vsc_xalloc a 128 w = Some (q, v)"
      "q = NULL \<and> rep v H \<or> q \<noteq> NULL \<and> H q = None \<and> (\<exists>bs. length bs = 128 \<and> rep v (H(q \<mapsto> bs)))"
      using xalloc_spec [OF assms(1), of 128] assms(3) by auto
    show ?thesis
    proof (cases "q = NULL")
      case False
      then obtain bs where "length bs = 128" "rep v (H(q \<mapsto> bs))" using q(2) by blast
      moreover have "(H(q \<mapsto> bs))(q := None) = H(p := None)" using True False q(2) null [OF assms(1)] by auto
      ultimately show ?thesis using True False q(1)
        by (intro run [of v "H(q \<mapsto> bs)" q 128]) (auto simp: buffer_def vsc_getdelima_def)
    qed (use q True null [OF assms(1)] in \<open>auto simp: vsc_getdelima_def Let_def\<close>)
  qed
qed

end

text \<open>
  (C18) \<open>vsc_getline\<close> on the system allocator. From a stream that does not fail, with \<open>*lineptr\<close> NULL or
  a block of \<open>*n\<close> bytes, the call returns; at the end of the stream with \<open>VSC_ERROR_EOF\<close>, otherwise
  with the length of the next line, the newline included, which is then in the block
  \<open>*lineptr\<close> of \<open>*n\<close> bytes, followed by a NUL, and the stream stands behind the line; or with ENOMEM or
  EOVERFLOW. No block but the one at \<open>*lineptr\<close> changes, whatever the outcome.
\<close>

theorem vsc_getline_reads_line:
  assumes "sys_rep c w H" "good f"
    and "p = NULL \<or> (\<exists>bs. H p = Some bs \<and> length bs = unat n \<and> 0 < unat n \<and> unat n < 2 ^ 63)"
  shows "\<exists>r p' n' f' w' H'. vsc_getline c (Some p) (Some n) (Some f) w = Some (r, Some p', Some n', Some f', w') \<and>
     sys_rep c w' H' \<and> H'(p' := None) = H(p := None, p' := None) \<and>
     (let l = line_of 10 (rest f)
      in if l = [] then r = VSC_ERROR_EOF \<or> p = NULL \<and> r = VSC_ERROR ENOMEM
         else r = int (length l) \<and> fpos f' = fpos f + length l \<and>
             (\<exists>bs. H' p' = Some bs \<and> length bs = unat n' \<and> take (length l + 1) bs = l @ [0]) \<or>
           r = VSC_ERROR ENOMEM \<or> r = VSC_ERROR EOVERFLOW)"
  unfolding vsc_getline_def vsc_getlinea_def
  by (rule sysalloc.getdelima_outcome [OF assms(1,2) _ assms(3)]) simp

definition sample_stream :: FILE where
  "sample_stream = \<lparr>fdata = [0x68, 0x69, 10, 0x78], fpos = 0, froom = 0, fbad = None, fnoseek = None, fdesc = 3,
     feof = False, ferror = False\<rparr>"

theorem vsc_getline_reads_line_witness:
  "\<exists>p' n' f' w' H' bs. vsc_getline sample_libc (Some NULL) (Some 0) (Some sample_stream) sample_heap =
      Some (3, Some p', Some n', Some f', w') \<and>
     sys_rep sample_libc w' H' \<and> H' p' = Some bs \<and> take 4 bs = [0x68, 0x69, 10, 0] \<and> fpos f' = 3"
proof -
  have "map_option fst (vsc_getline sample_libc (Some NULL) (Some 0) (Some sample_stream) sample_heap) = Some 3"
    by code_simp
  moreover have l: "good sample_stream" "line_of 10 (rest sample_stream) = [0x68, 0x69, 10]" "fpos sample_stream = 0"
    by (simp_all add: good_def rest_def sample_stream_def)
  obtain r p' n' f' w' H' where o: "vsc_getline sample_libc (Some NULL) (Some 0) (Some sample_stream) sample_heap =
       Some (r, Some p', Some n', Some f', w')" "sys_rep sample_libc w' H'"
    "r = 3 \<and> fpos f' = Suc (Suc (Suc 0)) \<and>
       (\<exists>bs. H' p' = Some bs \<and> length bs = unat n' \<and> take (Suc (Suc (Suc (Suc 0)))) bs = [0x68, 0x69, 10, 0]) \<or>
     r = VSC_ERROR ENOMEM \<or> r = VSC_ERROR EOVERFLOW"
    using vsc_getline_reads_line [OF sample_rep l(1), of NULL 0] by (auto simp: Let_def l)
  ultimately show ?thesis by (auto simp: numeral_eq_Suc)
qed

end
