(* ===== verification/Freadall.thy ===== *)
theory Freadall
  imports Getline
begin

text \<open>
  \<open>freadall.c\<close> on Linux: reading a whole stream into a block that grows. What the system says
  of a descriptor (\<open>fstat\<close> and the three \<open>ioctl\<close> requests) is a parameter, an errno or an answer.
  The callbacks see and change the state only. Loops that may not end are partial functions.
\<close>

section \<open>The system\<close>

datatype file_type = S_IFREG | S_IFDIR | S_IFBLK | S_IFOTHER

record stat =
  st_mode :: file_type
  st_size :: size_t
  st_blksize :: size_t

record system =
  fstat :: "int \<Rightarrow> int + stat"
  BLKGETSIZE64 :: "int \<Rightarrow> int + size_t"
  BLKGETSIZE :: "int \<Rightarrow> int + size_t"
  BLKIOOPT :: "int \<Rightarrow> int + uint32"

section \<open>The state (iodef.h)\<close>

text \<open>\<open>vsc_blksize_t\<close> is signed; the code only adds it to sizes, which is the same on words.\<close>

record VscFreadallState =
  file_size :: size_t
  blk_size :: size_t
  bytes_read :: size_t
  statbuf :: stat

definition default_state :: VscFreadallState where
  "default_state = \<lparr>file_size = 0, blk_size = 4096, bytes_read = 0,
     statbuf = \<lparr>st_mode = S_IFOTHER, st_size = 0, st_blksize = 0\<rparr>\<rparr>"

section \<open>The size of the stream\<close>

definition get_size_ioctl :: "system \<Rightarrow> int \<Rightarrow> size_t \<Rightarrow> int \<times> size_t" where
  "get_size_ioctl sys fd sz =
     (case BLKGETSIZE64 sys fd of
        Inr s \<Rightarrow> (0, s)
      | Inl _ \<Rightarrow> (case BLKGETSIZE sys fd of Inl errno \<Rightarrow> (VSC_ERROR errno, sz) | Inr s \<Rightarrow> (0, s * 512)))"

definition get_blksize_ioctl :: "system \<Rightarrow> int \<Rightarrow> size_t \<Rightarrow> int \<times> size_t" where
  "get_blksize_ioctl sys fd blksize =
     (case BLKIOOPT sys fd of
        Inl errno \<Rightarrow> (VSC_ERROR errno, blksize)
      | Inr b \<Rightarrow> if b = 0 then (VSC_ERROR ENOTSUP, blksize) else (0, ucast b))"

definition get_size_seektell :: "FILE \<Rightarrow> size_t \<Rightarrow> int \<times> size_t \<times> FILE" where
  "get_size_seektell f sz =
     (let (r, f) = vsc_fseeko f 0 2
      in if r < 0 then (r, sz, f)
         else let off = vsc_ftello f in if off < 0 then (off, sz, f) else (0, word_of_int off, f))"

definition get_sizes :: "system \<Rightarrow> FILE \<Rightarrow> int \<times> VscFreadallState \<times> FILE" where
  "get_sizes sys f =
     (let state = default_state; fd = vsc_fileno f
      in if fd < 0 then
           if fd \<noteq> VSC_ERROR EBADF then (fd, state, f)
           else let (_, sz, f) = get_size_seektell f (file_size state) in (0, state\<lparr>file_size := sz\<rparr>, f)
         else
           (case fstat sys fd of
              Inl errno \<Rightarrow> (VSC_ERROR errno, state, f)
            | Inr st \<Rightarrow>
                let state = state\<lparr>statbuf := st\<rparr>
                in if st_mode st = S_IFDIR then (VSC_ERROR EISDIR, state, f)
                   else
                     let state = state\<lparr>blk_size := st_blksize st\<rparr>
                     in (case st_mode st of
                           S_IFREG \<Rightarrow> (0, state\<lparr>file_size := st_size st\<rparr>, f)
                         | S_IFBLK \<Rightarrow>
                             let (r, sz) = get_size_ioctl sys fd (file_size state);
                                 (_, sz, f) = (if r < 0 then get_size_seektell f sz else (r, sz, f));
                                 (_, b) = get_blksize_ioctl sys fd (blk_size state)
                             in (0, state\<lparr>file_size := sz, blk_size := b\<rparr>, f)
                         | _ \<Rightarrow> (0, state\<lparr>file_size := 0\<rparr>, f))))"

section \<open>Reading\<close>

type_synonym init_proc = "VscFreadallState \<Rightarrow> addr \<Rightarrow> int \<times> VscFreadallState"
type_synonym chunk_proc = "VscFreadallState \<Rightarrow> addr \<Rightarrow> int"

definition default_init_proc :: init_proc where
  "default_init_proc state usr = (0, state)"

definition default_chunk_proc :: chunk_proc where
  "default_chunk_proc state usr = 0"

text \<open>The bytes \<open>fread\<close> stores at \<open>p\<close>.\<close>

primrec store_bytes :: "addr \<Rightarrow> byte list \<Rightarrow> 's world \<Rightarrow> 's world" where
  "store_bytes p [] w = w"
| "store_bytes p (b # bs) w = store_bytes (p + 1) bs (poke p b w)"

partial_function (option) grow_size :: "size_t \<Rightarrow> size_t \<Rightarrow> size_t \<Rightarrow> size_t option" where
  "grow_size bytes fsize blk = (if bytes \<ge> fsize then grow_size bytes (fsize + blk) blk else Some fsize)"

text \<open>The head of the loop's body: the status, the buffer and the state; the buffer is freed when it cannot grow.\<close>

definition make_room ::
  "'s VscAllocator \<Rightarrow> addr \<Rightarrow> VscFreadallState \<Rightarrow> 's world \<Rightarrow>
   (int \<times> addr \<times> VscFreadallState \<times> 's world) option" where
  "make_room a p state w =
     (if p = NULL \<or> bytes_read state \<ge> file_size state then
        Option.bind (grow_size (bytes_read state) (file_size state) (blk_size state)) (\<lambda>fsize.
        Option.bind (vsc_xrealloc a p fsize w) (\<lambda>(q, w).
          if q = NULL then Some (VSC_ERROR ENOMEM, NULL, state, vsc_xfree a p w)
          else Some (0, q, state\<lparr>file_size := fsize\<rparr>, w)))
      else Some (0, p, state, w))"

text \<open>The status, the buffer, the state, the stream and the world when the loop is left.\<close>

partial_function (option) freadall_loop ::
  "chunk_proc \<Rightarrow> addr \<Rightarrow> 's VscAllocator \<Rightarrow> addr \<Rightarrow> VscFreadallState \<Rightarrow> FILE \<Rightarrow> 's world \<Rightarrow>
   (int \<times> addr \<times> VscFreadallState \<times> FILE \<times> 's world) option" where
  "freadall_loop chunk usr a p state f w =
     (if feof f \<or> ferror f then Some (0, p, state, f, w)
      else
        Option.bind (make_room a p state w)
          (\<lambda>(r, p, state, w).
            if r < 0 then Some (r, p, state, f, w)
            else
              let (k, bs, f) = fread 1 (unat (file_size state - bytes_read state)) f;
                  w = store_bytes (p + bytes_read state) bs w;
                  state = state\<lparr>bytes_read := bytes_read state + of_nat k\<rparr>
              in if chunk state usr < 0 then Some (VSC_ERROR ECANCELED, NULL, state, f, vsc_xfree a p w)
                 else freadall_loop chunk usr a p state f w))"

declare grow_size.simps [code] freadall_loop.simps [code]

text \<open>
  The status, what \<open>*ptr\<close> and \<open>*size\<close> hold (when a pointer argument is NULL, nothing), the stream
  and the world.
\<close>

definition vsc_freadalla_ex ::
  "system \<Rightarrow> addr option \<Rightarrow> size_t option \<Rightarrow> FILE option \<Rightarrow> init_proc option \<Rightarrow> chunk_proc option \<Rightarrow> addr \<Rightarrow>
   's VscAllocator option \<Rightarrow> 's world \<Rightarrow> (int \<times> addr option \<times> size_t option \<times> FILE option \<times> 's world) option" where
  "vsc_freadalla_ex sys ptr sz stream init chunk usr a w =
     (case (ptr, sz, stream, init, chunk, a) of
        (Some _, Some _, Some f, Some init, Some chunk, Some a) \<Rightarrow>
          let save = vsc_ftello f
          in if save < 0 \<and> save \<noteq> VSC_ERROR EBADF \<and> save \<noteq> VSC_ERROR ESPIPE then Some (- 1, ptr, sz, stream, w)
             else
               let (r, state, f) = get_sizes sys f
               in if r < 0 then Some (r, ptr, sz, Some f, w)
                  else
                    let (r, f) = (if save \<ge> 0 then vsc_fseeko f save 0 else (0, f))
                    in if r < 0 then Some (r, ptr, sz, Some f, w)
                       else
                         let state = (if save \<ge> 0 \<and> file_size state > 0
                                      then state\<lparr>file_size := file_size state - word_of_int save\<rparr> else state);
                             state = (if file_size state > 0 then state\<lparr>file_size := file_size state + 1\<rparr>
                                      else state\<lparr>file_size := blk_size state\<rparr>);
                             state = state\<lparr>bytes_read := 0\<rparr>;
                             (r, user_state) = init state usr
                         in if r < 0 then Some (VSC_ERROR ECANCELED, ptr, sz, Some f, w)
                            else
                              let state = state\<lparr>file_size := file_size user_state, blk_size := blk_size user_state\<rparr>
                              in (case freadall_loop chunk usr a NULL state f w of
                                    None \<Rightarrow> None
                                  | Some (r, p, state, f, w) \<Rightarrow>
                                      if r < 0 then Some (r, ptr, sz, Some f, w)
                                      else if ferror f then Some (VSC_ERROR EIO, ptr, sz, Some f, vsc_xfree a p w)
                                      else Some (0, Some p, Some (bytes_read state), Some f, w))
      | _ \<Rightarrow> Some (VSC_ERROR EINVAL, ptr, sz, stream, w))"

definition vsc_freadalla ::
  "system \<Rightarrow> addr option \<Rightarrow> size_t option \<Rightarrow> FILE option \<Rightarrow> 's VscAllocator option \<Rightarrow> 's world \<Rightarrow>
   (int \<times> addr option \<times> size_t option \<times> FILE option \<times> 's world) option" where
  "vsc_freadalla sys ptr sz f a w =
     vsc_freadalla_ex sys ptr sz f (Some default_init_proc) (Some default_chunk_proc) NULL a w"

definition vsc_freadall ::
  "system \<Rightarrow> libc \<Rightarrow> addr option \<Rightarrow> size_t option \<Rightarrow> FILE option \<Rightarrow> heap world \<Rightarrow>
   (int \<times> addr option \<times> size_t option \<times> FILE option \<times> heap world) option" where
  "vsc_freadall sys c ptr sz f w = vsc_freadalla sys ptr sz f (Some (vsclib_system_allocator c)) w"

definition vsc_freadall_ex ::
  "system \<Rightarrow> libc \<Rightarrow> addr option \<Rightarrow> size_t option \<Rightarrow> FILE option \<Rightarrow> init_proc option \<Rightarrow> chunk_proc option \<Rightarrow> addr \<Rightarrow>
   heap world \<Rightarrow> (int \<times> addr option \<times> size_t option \<times> FILE option \<times> heap world) option" where
  "vsc_freadall_ex sys c ptr sz f init chunk usr w =
     vsc_freadalla_ex sys ptr sz f init chunk usr (Some (vsclib_system_allocator c)) w"

end
