(* ===== verification/FreadallCorrect.thy ===== *)
theory FreadallCorrect
  imports Freadall
begin

text \<open>
  Reading a whole stream: the loop of \<open>vsc_freadalla_ex\<close> ends, and then the block holds exactly
  what could be read of the stream, first on an allocator that meets the contract
  \<open>block_allocator\<close>, then for \<open>vsc_freadall\<close> on the system allocator.
\<close>

section \<open>Streams\<close>

definition avail :: "FILE \<Rightarrow> byte list" where
  "avail f = take (readable f) (drop (fpos f) (fdata f))"

lemma length_avail: "length (avail f) = readable f"
  using readable_le [of f] by (simp add: avail_def)

text \<open>A read of \<open>n\<close> bytes, one byte an item: what it gets, and how the stream is left.\<close>

lemma fread_bytes:
  assumes "0 < n"
  obtains f' where "fread 1 n f = (min n (readable f), take n (avail f), f')" "avail f' = drop n (avail f)"
    "readable f' = readable f - n" "read_fails f' = read_fails f"
    "n \<le> readable f \<Longrightarrow> feof f' = feof f \<and> ferror f' = ferror f"
    "readable f < n \<Longrightarrow> feof f' \<or> ferror f'"
    "readable f < n \<Longrightarrow> ferror f' = (ferror f \<or> read_fails f)"
proof
  let ?f = "snd (read_bytes n f)"
  have r: "readable ?f = readable f - min n (readable f)"
    by (auto simp: read_bytes_def Let_def readable_def split: option.splits)
  have bs: "fst (read_bytes n f) = take n (avail f)" by (auto simp: read_bytes_def Let_def avail_def min_def)
  then show "fread 1 n f = (min n (readable f), take n (avail f), ?f)"
    using assms by (simp add: fread_def length_avail prod.case_eq_if)
  show "readable ?f = readable f - n" using r by simp
  have "fpos ?f = fpos f + min n (readable f)" "fdata ?f = fdata f" by (simp_all add: read_bytes_def Let_def)
  then show "avail ?f = drop n (avail f)" using r by (simp add: avail_def drop_take add.commute min_def)
  show "read_fails ?f = read_fails f" by (auto simp: read_bytes_def Let_def read_fails_def split: option.splits)
qed (auto simp: read_bytes_def Let_def min_def)

lemma grow_size_ends:
  assumes "0 < blk" "unat bytes + unat blk < 2 ^ 63" "unat fsize < 2 ^ 63"
  shows "\<exists>s. grow_size bytes fsize blk = Some s \<and> bytes < s \<and> fsize \<le> s \<and> unat s \<le> max (unat fsize) (unat bytes + unat blk)"
  using assms(3)
proof (induction "unat bytes - unat fsize" arbitrary: fsize rule: less_induct)
  case less
  show ?case
  proof (cases "bytes \<ge> fsize")
    case False
    then show ?thesis by (auto simp: grow_size.simps [of bytes fsize])
  next
    case True
    have pos: "0 < unat blk" using assms(1) by (simp add: word_less_nat_alt)
    have u: "unat (fsize + blk) = unat fsize + unat blk" using True assms(2) by (simp add: unat_add64 word_le_nat_alt)
    have le: "fsize \<le> fsize + blk" by (simp add: word_le_nat_alt u)
    show ?thesis
    proof (cases "bytes \<ge> fsize + blk")
      case False
      then show ?thesis using True u pos
        by (simp add: grow_size.simps [of bytes fsize] grow_size.simps [of bytes "fsize + blk"] word_le_nat_alt
            word_less_nat_alt not_le)
    next
      case 2: True
      have "unat bytes - unat (fsize + blk) < unat bytes - unat fsize" using 2 u pos by (simp add: word_le_nat_alt)
      moreover have "unat (fsize + blk) < 2 ^ 63" using 2 assms(2) by (simp add: word_le_nat_alt)
      ultimately obtain s where "grow_size bytes (fsize + blk) blk = Some s" "bytes < s" "fsize + blk \<le> s"
        "unat s \<le> max (unat (fsize + blk)) (unat bytes + unat blk)"
        using less.hyps by blast
      then show ?thesis using True 2 le u by (auto simp: grow_size.simps [of bytes fsize] word_le_nat_alt)
    qed
  qed
qed

text \<open>
  The streams of the theorems below: without an earlier error, positioned in their data, seekable
  or not for one of the two reasons the code accepts, and of a size the system reports
  truthfully if at all; not a directory.
\<close>

definition stream_ok :: "system \<Rightarrow> FILE \<Rightarrow> bool" where
  "stream_ok sys f \<longleftrightarrow> \<not> ferror f \<and> fpos f \<le> length (fdata f) \<and> length (fdata f) < 2 ^ 61 \<and>
     (fnoseek f = None \<or> fnoseek f \<in> {Some EBADF, Some ESPIPE} \<and> \<not> feof f) \<and>
     (0 \<le> fdesc f \<longrightarrow>
       (case fstat sys (fdesc f) of
          Inl _ \<Rightarrow> False
        | Inr st \<Rightarrow> st_mode st \<noteq> S_IFDIR \<and> 0 < st_blksize st \<and> unat (st_blksize st) < 2 ^ 61 \<and>
           (st_mode st = S_IFREG \<longrightarrow> st_size st = of_nat (length (fdata f))) \<and>
           (st_mode st = S_IFBLK \<longrightarrow>
              (case BLKGETSIZE64 sys (fdesc f) of Inr s \<Rightarrow> s = of_nat (length (fdata f)) | Inl _ \<Rightarrow>
                case BLKGETSIZE sys (fdesc f) of Inr s \<Rightarrow> s * 512 = of_nat (length (fdata f)) | Inl e \<Rightarrow> 0 < e \<and> e < 2 ^ 16))))"

lemma unat_bound32: "unat (x :: uint32) < 2 ^ 32"
  using unsigned_less [of x] by simp

lemma seektell:
  assumes "stream_ok sys f"
  shows "\<exists>r e p sz. get_size_seektell f 0 = (r, sz, f\<lparr>fpos := p, feof := e\<rparr>) \<and> (sz = 0 \<or> sz = of_nat (length (fdata f))) \<and>
    (fnoseek f \<noteq> None \<longrightarrow> f\<lparr>fpos := p, feof := e\<rparr> = f)"
proof (cases "fnoseek f")
  case None
  then have "get_size_seektell f 0 = (0, of_nat (length (fdata f)), f\<lparr>fpos := length (fdata f), feof := False\<rparr>)"
    by (simp add: get_size_seektell_def vsc_fseeko_def fseeko_def vsc_ftello_def ftello_def Let_def)
  then show ?thesis using None
    by (intro exI [of _ 0] exI [of _ False] exI [of _ "length (fdata f)"] exI [of _ "of_nat (length (fdata f))"]) simp
next
  case (Some e)
  then have "get_size_seektell f 0 = (VSC_ERROR e, 0, f\<lparr>fpos := fpos f, feof := feof f\<rparr>)"
    using assms by (auto simp: stream_ok_def get_size_seektell_def vsc_fseeko_def fseeko_def Let_def)
  then show ?thesis
    by (intro exI [of _ "VSC_ERROR e"] exI [of _ "feof f"] exI [of _ "fpos f"] exI [of _ 0]) simp
qed

lemma get_sizes_ok:
  assumes "stream_ok sys f"
  shows "\<exists>st e p. get_sizes sys f = (0, st, f\<lparr>fpos := p, feof := e\<rparr>) \<and>
    (file_size st = 0 \<or> file_size st = of_nat (length (fdata f))) \<and> 0 < blk_size st \<and> unat (blk_size st) < 2 ^ 61 \<and>
    (fnoseek f \<noteq> None \<longrightarrow> f\<lparr>fpos := p, feof := e\<rparr> = f)"
proof -
  obtain r e p sz where sk: "get_size_seektell f 0 = (r, sz, f\<lparr>fpos := p, feof := e\<rparr>)"
    "sz = 0 \<or> sz = of_nat (length (fdata f))" "fnoseek f \<noteq> None \<longrightarrow> f\<lparr>fpos := p, feof := e\<rparr> = f"
    using seektell [OF assms] by blast
  have same: "f = f\<lparr>fpos := fpos f, feof := feof f\<rparr>" by simp
  show ?thesis
  proof (cases "fdesc f < 0")
    case True
    then have "get_sizes sys f = (0, default_state\<lparr>file_size := sz\<rparr>, f\<lparr>fpos := p, feof := e\<rparr>)"
      using sk(1) by (simp add: get_sizes_def vsc_fileno_def fileno_def default_state_def Let_def)
    then show ?thesis using sk(2,3) by (auto simp: default_state_def)
  next
    case False
    then obtain st where st: "fstat sys (fdesc f) = Inr st" "st_mode st \<noteq> S_IFDIR" "0 < st_blksize st" "unat (st_blksize st) < 2 ^ 61"
      using assms by (auto simp: stream_ok_def split: sum.splits)
    have sizes: "st_mode st = S_IFREG \<Longrightarrow> st_size st = of_nat (length (fdata f))"
      "st_mode st = S_IFBLK \<Longrightarrow>
              (case BLKGETSIZE64 sys (fdesc f) of Inr s \<Rightarrow> s = of_nat (length (fdata f)) | Inl _ \<Rightarrow>
                case BLKGETSIZE sys (fdesc f) of Inr s \<Rightarrow> s * 512 = of_nat (length (fdata f)) | Inl e \<Rightarrow> 0 < e \<and> e < 2 ^ 16)"
      using assms False st(1) by (auto simp: stream_ok_def)
    let ?st = "default_state\<lparr>statbuf := st, blk_size := st_blksize st\<rparr>"
    have fd: "vsc_fileno f = fdesc f" using False by (simp add: vsc_fileno_def fileno_def)
    show ?thesis
    proof (cases "st_mode st")
      case S_IFBLK
      obtain r0 s0 where g: "get_size_ioctl sys (fdesc f) 0 = (r0, s0)" by fastforce
      obtain r1 b where b: "get_blksize_ioctl sys (fdesc f) (st_blksize st) = (r1, b)" by fastforce
      have "(ucast (x :: uint32) :: size_t) \<noteq> 0" "unat (ucast x :: size_t) < 2 ^ 61" if "x \<noteq> 0" for x
      proof -
        have "unat x \<noteq> 0" "unat x < 2 ^ 32" using that unat_bound32 [of x] by (simp_all add: unat_eq_zero)
        moreover from this have "unat (ucast x :: size_t) = unat x" by (simp add: unsigned_ucast_eq take_bit_nat_eq_self)
        ultimately show "(ucast x :: size_t) \<noteq> 0" "unat (ucast x :: size_t) < 2 ^ 61" by auto
      qed
      then have blk: "0 < b" "unat b < 2 ^ 61"
        using b st(3,4) by (auto simp: get_blksize_ioctl_def word_gt_0 split: sum.splits if_splits)
      have s0: "if r0 < 0 then s0 = 0 else s0 = of_nat (length (fdata f))"
        using g sizes(2) [OF S_IFBLK] by (auto simp: get_size_ioctl_def VSC_ERROR_neg split: sum.splits)
      have eq: "get_sizes sys f = (if r0 < 0 then (0, ?st\<lparr>file_size := sz, blk_size := b\<rparr>, f\<lparr>fpos := p, feof := e\<rparr>)
          else (0, ?st\<lparr>file_size := s0, blk_size := b\<rparr>, f))"
        using False st(1,2) S_IFBLK g b sk(1) s0 by (simp add: get_sizes_def fd Let_def default_state_def)
      show ?thesis
      proof (cases "r0 < 0")
        case True
        then show ?thesis using eq sk(2,3) blk s0 by (intro exI [of _ "?st\<lparr>file_size := sz, blk_size := b\<rparr>"] exI [of _ e] exI [of _ p]) simp
      next
        case False
        then show ?thesis using eq blk s0
          by (intro exI [of _ "?st\<lparr>file_size := s0, blk_size := b\<rparr>"] exI [of _ "feof f"] exI [of _ "fpos f"]) simp
      qed
    qed (use False st sizes in
        \<open>auto simp: get_sizes_def fd Let_def default_state_def intro!: exI [of _ "feof f"] exI [of _ "fpos f"]\<close>)
  qed
qed

context block_allocator begin

lemma xrealloc_fresh:
  assumes "rep w H" "unat sz < limit" "sz \<noteq> 0"
  shows "\<exists>q w'. vsc_xrealloc a NULL sz w = Some (q, w') \<and>
    (q = NULL \<and> rep w' H \<or> q \<noteq> NULL \<and> H q = None \<and> (\<exists>bs. length bs = unat sz \<and> rep w' (H(q \<mapsto> bs))))"
proof -
  have "vsc_xalloc_ex a NULL sz VSC_ALLOC_REALLOC 0 w = vsc_xalloc_ex a NULL sz VSC_ALLOC_REALLOC (alignment a) w"
    by (simp add: vsc_xalloc_ex_def)
  then show ?thesis
    using xalloc_ex_fresh [OF assms(1,2), of VSC_ALLOC_REALLOC] assms(3) by (auto simp: vsc_xrealloc_def alloc_flags)
qed

lemma store_bytes_block:
  assumes "rep w H" "H p = Some ds" "k + length bs \<le> length ds"
  shows "rep (store_bytes (p + of_nat k) bs w) (H(p \<mapsto> take k ds @ bs @ drop (k + length bs) ds))"
  using assms
proof (induction bs arbitrary: w H ds k)
  case Nil
  then show ?case by (simp add: fun_upd_idem)
next
  case (Cons b bs)
  let ?w = "poke (p + of_nat k) b w" and ?ds = "ds[k := b]"
  define G where "G = H(p \<mapsto> ?ds)"
  have G: "G p = Some ?ds" "G(p \<mapsto> x) = H(p \<mapsto> x)" for x by (simp_all add: G_def)
  have "rep ?w G" unfolding G_def using Cons.prems unfolding poke_def by (intro storeD) auto
  note ih = Cons.IH [where H=G, OF this G(1), of "Suc k"]
  have "rep (store_bytes (p + of_nat (Suc k)) bs ?w) (H(p \<mapsto> take (Suc k) ?ds @ bs @ drop (Suc k + length bs) ?ds))"
    using ih Cons.prems(3) by (simp add: G_def fun_upd_def cong: if_cong)
  moreover have "take (Suc k) ?ds = take k ds @ [b]" using Cons.prems(3) by (simp add: take_Suc_conv_app_nth)
  moreover have "drop (Suc k + length bs) ?ds = drop (Suc k + length bs) ds" by simp
  ultimately show ?case by (simp add: add.assoc add.commute [of "of_nat k" 1] fun_upd_def)
qed

text \<open>The buffer at \<open>p\<close>, when there is one, beside the blocks \<open>H\<close>: it holds \<open>acc\<close>.\<close>

definition filled :: "'s world \<Rightarrow> (addr \<Rightarrow> byte list option) \<Rightarrow> addr \<Rightarrow> VscFreadallState \<Rightarrow> byte list \<Rightarrow> bool" where
  "filled w H p st acc \<longleftrightarrow> bytes_read st = of_nat (length acc) \<and> length acc \<le> unat (file_size st) \<and>
     (if p = NULL then acc = [] \<and> rep w H
      else H p = None \<and> (\<exists>ds. length ds = unat (file_size st) \<and> take (length acc) ds = acc \<and> rep w (H(p \<mapsto> ds))))"

lemma filled_free: "filled w H p st acc \<Longrightarrow> rep (vsc_xfree a p w) H"
  using xfree_spec [of w "H(p \<mapsto> ds)" p for ds]
  by (auto simp: filled_def vsc_xfree_def fun_upd_idem split: if_splits)

text \<open>One pass through the head of the loop: room for at least one more byte, or ENOMEM.\<close>

lemma room:
  assumes f: "filled w H p st acc" and blk: "0 < blk_size st" "length acc + unat (blk_size st) < 2 ^ 63"
    and fs: "unat (file_size st) < 2 ^ 63" and lim: "2 ^ 63 \<le> limit"
  shows "(\<exists>st' w'. make_room a p st w = Some (VSC_ERROR ENOMEM, NULL, st', w') \<and> rep w' H) \<or>
    (\<exists>q s w'. make_room a p st w = Some (0, q, st\<lparr>file_size := s\<rparr>, w') \<and> q \<noteq> NULL \<and> filled w' H q (st\<lparr>file_size := s\<rparr>) acc \<and>
       length acc < unat s \<and> unat s < 2 ^ 63)"
proof -
  have acc: "length acc < 2 ^ 63" "unat (bytes_read st) = length acc" "length acc \<le> unat (file_size st)"
    using f blk(2) by (auto simp: filled_def unat_of_nat64)
  show ?thesis
  proof (cases "p = NULL \<or> bytes_read st \<ge> file_size st")
    case False
    then have "length acc < unat (file_size st)" using acc by (simp add: word_le_nat_alt not_le)
    then have "make_room a p st w = Some (0, p, st\<lparr>file_size := file_size st\<rparr>, w) \<and> p \<noteq> NULL \<and>
        filled w H p (st\<lparr>file_size := file_size st\<rparr>) acc \<and> length acc < unat (file_size st) \<and> unat (file_size st) < 2 ^ 63"
      using False f fs by (simp add: make_room_def)
    then show ?thesis by blast
  next
    case True
    obtain s where s: "grow_size (bytes_read st) (file_size st) (blk_size st) = Some s" "bytes_read st < s" "file_size st \<le> s"
      "unat s \<le> max (unat (file_size st)) (unat (bytes_read st) + unat (blk_size st))"
      using grow_size_ends [of "blk_size st" "bytes_read st" "file_size st"] blk fs acc(2) by auto
    have s63: "unat s < 2 ^ 63" using s(4) fs blk(2) acc(2) by simp
    then have sl: "unat s < limit" "s \<noteq> 0" "length acc < unat s" using lim s(2) acc(2) by (auto simp: word_less_nat_alt)
    have step: "make_room a p st w = Option.bind (vsc_xrealloc a p s w) (\<lambda>(q, w).
        if q = NULL then Some (VSC_ERROR ENOMEM, NULL, st, vsc_xfree a p w) else Some (0, q, st\<lparr>file_size := s\<rparr>, w))"
      using True s(1) by (auto simp: make_room_def)
    have goal: ?thesis if "vsc_xrealloc a p s w = Some (q, w')"
      "q = NULL \<and> rep (vsc_xfree a p w') H \<or> q \<noteq> NULL \<and> H q = None \<and>
         (\<exists>ds. length ds = unat s \<and> take (length acc) ds = acc \<and> rep w' (H(q \<mapsto> ds)))" for q w'
      using that sl(3) s63 acc f by (cases "q = NULL") (auto simp: step filled_def)
    show ?thesis
    proof (cases "p = NULL")
      case True
      then have "acc = []" "rep w H" using f by (auto simp: filled_def)
      moreover obtain q w' where "vsc_xrealloc a NULL s w = Some (q, w')"
        "q = NULL \<and> rep w' H \<or> q \<noteq> NULL \<and> H q = None \<and> (\<exists>bs. length bs = unat s \<and> rep w' (H(q \<mapsto> bs)))"
        using xrealloc_fresh [OF calculation(2) sl(1,2)] by blast
      ultimately show ?thesis using True by (intro goal [of q w']) (auto simp: vsc_xfree_def)
    next
      case False
      then obtain ds where ds: "H p = None" "length ds = unat (file_size st)" "take (length acc) ds = acc" "rep w (H(p \<mapsto> ds))"
        using f by (auto simp: filled_def)
      obtain q w' where q: "vsc_xrealloc a p s w = Some (q, w')"
        "q = NULL \<and> rep w' (H(p \<mapsto> ds)) \<or> q \<noteq> NULL \<and> (q = p \<or> (H(p \<mapsto> ds)) q = None) \<and>
          (\<exists>bs'. length bs' = unat s \<and> rep w' ((H(p \<mapsto> ds, p := None))(q \<mapsto> bs')) \<and> take (length ds) bs' = take (unat s) ds)"
        using xrealloc_spec [where H="H(p \<mapsto> ds)", OF ds(4) sl(1,2), of p ds] by auto
      show ?thesis
      proof (cases "q = NULL")
        case True
        then show ?thesis using q xfree_spec [where H="H(p \<mapsto> ds)", of w' p] ds(1)
          by (intro goal [OF q(1)]) (auto simp: fun_upd_idem)
      next
        case 2: False
        then obtain bs' where bs': "q = p \<or> (H(p \<mapsto> ds)) q = None" "length bs' = unat s"
          "rep w' ((H(p \<mapsto> ds, p := None))(q \<mapsto> bs'))" "take (length ds) bs' = take (unat s) ds"
          using q(2) by blast
        have "H(p \<mapsto> ds, p := None) = H" using ds(1) by (simp add: fun_upd_idem)
        moreover have "take (length acc) bs' = take (length acc) (take (length ds) bs')" using acc(3) ds(2) by (simp add: min_def)
        moreover have "\<dots> = acc" using bs'(4) ds(3) sl(3) by (simp add: min_def)
        moreover have "H q = None" using bs'(1) ds(1) by (auto split: if_splits)
        ultimately show ?thesis using 2 bs'(2,3) by (intro goal [OF q(1)]) auto
      qed
    qed
  qed
qed

text \<open>The outcome of the loop, from where the rest \<open>avail f\<close> is still to be read.\<close>

definition read_outcome ::
  "(addr \<Rightarrow> byte list option) \<Rightarrow> chunk_proc \<Rightarrow> addr \<Rightarrow> byte list \<Rightarrow> bool \<Rightarrow>
   (int \<times> addr \<times> VscFreadallState \<times> FILE \<times> 's world) option \<Rightarrow> bool" where
  "read_outcome H chunk usr whole fails res \<longleftrightarrow> (\<exists>r q st f w. res = Some (r, q, st, f, w) \<and>
     (r = 0 \<and> filled w H q st whole \<and> q \<noteq> NULL \<and> ferror f = fails \<or>
      r = VSC_ERROR ENOMEM \<and> rep w H \<or>
      r = VSC_ERROR ECANCELED \<and> rep w H \<and> (\<exists>st. chunk st usr < 0)))"

lemma filled_read:
  assumes f: "filled w H q st acc" and n: "length acc + length bs \<le> unat (file_size st)" "unat (file_size st) < 2 ^ 63"
    and q: "q \<noteq> NULL"
  shows "filled (store_bytes (q + bytes_read st) bs w) H q (st\<lparr>bytes_read := bytes_read st + of_nat (length bs)\<rparr>) (acc @ bs)"
proof -
  obtain ds where ds: "H q = None" "length ds = unat (file_size st)" "take (length acc) ds = acc" "rep w (H(q \<mapsto> ds))"
    using f q by (auto simp: filled_def)
  have "rep (store_bytes (q + of_nat (length acc)) bs w)
      (H(q \<mapsto> ds, q \<mapsto> take (length acc) ds @ bs @ drop (length acc + length bs) ds))"
    using ds(2) n(1) by (intro store_bytes_block [where H="H(q \<mapsto> ds)", OF ds(4)]) auto
  then show ?thesis using f ds(1-3) q n(1)
    by (auto simp: filled_def intro!: exI [of _ "acc @ bs @ drop (length acc + length bs) ds"])
qed

lemma loop_reads:
  assumes "filled w H p st acc" "\<not> feof f" "\<not> ferror f" "0 < blk_size st"
    "length acc + readable f + unat (blk_size st) < 2 ^ 63" "unat (file_size st) < 2 ^ 63" and lim: "2 ^ 63 \<le> limit"
  shows "read_outcome H chunk usr (acc @ avail f) (read_fails f) (freadall_loop chunk usr a p st f w)"
  using assms(1-6)
proof (induction "readable f" arbitrary: w p st acc f rule: less_induct)
  case less
  let ?read = "\<lambda>q st w. (case fread 1 (unat (file_size st - bytes_read st)) f of (k, bs, f) \<Rightarrow>
      let w = store_bytes (q + bytes_read st) bs w;
          st = st\<lparr>bytes_read := bytes_read st + of_nat k\<rparr>
      in if chunk st usr < 0 then Some (VSC_ERROR ECANCELED, NULL, st, f, vsc_xfree a q w)
         else freadall_loop chunk usr a q st f w)"
  note loop = freadall_loop.simps [of chunk usr a p st f w]
  have blk: "length acc + unat (blk_size st) < 2 ^ 63" using less.prems(5) by simp
  from room [OF less.prems(1,4) blk less.prems(6) lim] show ?case
  proof (elim disjE exE conjE)
    fix st' w' assume "rep w' H" and "make_room a p st w = Some (VSC_ERROR ENOMEM, NULL, st', w')"
    then show ?thesis using less.prems(2,3) by (simp add: loop read_outcome_def)
  next
    fix q s w'
    assume st: "make_room a p st w = Some (0, q, st\<lparr>file_size := s\<rparr>, w')"
      and q: "q \<noteq> NULL" and fl: "filled w' H q (st\<lparr>file_size := s\<rparr>) acc" and s: "length acc < unat s" "unat s < 2 ^ 63"
    define n where "n = unat s - length acc"
    have n: "0 < n" "unat (s - bytes_read st) = n"
      using s fl by (auto simp: n_def filled_def unat_sub64 unat_of_nat64)
    have run: "freadall_loop chunk usr a p st f w = ?read q (st\<lparr>file_size := s\<rparr>) w'"
      using less.prems(2,3) st by (simp add: loop Let_def split: prod.split)
    obtain f' where f': "fread 1 n f = (min n (readable f), take n (avail f), f')" "avail f' = drop n (avail f)"
      "readable f' = readable f - n" "read_fails f' = read_fails f"
      "n \<le> readable f \<Longrightarrow> feof f' = feof f \<and> ferror f' = ferror f"
      "readable f < n \<Longrightarrow> feof f' \<or> ferror f'"
      "readable f < n \<Longrightarrow> ferror f' = (ferror f \<or> read_fails f)"
      using fread_bytes [OF n(1), of f] by metis
    let ?bs = "take n (avail f)"
    have k: "length ?bs = min n (readable f)" by (simp add: length_avail min.commute)
    define st2 where "st2 = st\<lparr>file_size := s, bytes_read := bytes_read st + of_nat (length ?bs)\<rparr>"
    define w2 where "w2 = store_bytes (q + bytes_read st) ?bs w'"
    have fl2: "filled w2 H q st2 (acc @ ?bs)"
      using filled_read [OF fl _ _ q, of ?bs] s k by (simp add: n_def st2_def w2_def)
    have run2: "freadall_loop chunk usr a p st f w =
      (if chunk st2 usr < 0 then Some (VSC_ERROR ECANCELED, NULL, st2, f', vsc_xfree a q w2)
       else freadall_loop chunk usr a q st2 f' w2)"
      unfolding run by (simp add: n(2) f'(1) Let_def st2_def w2_def length_avail min.commute del: One_nat_def)
    show ?thesis
    proof (cases "chunk st2 usr < 0")
      case True
      then show ?thesis using filled_free [OF fl2] by (auto simp: run2 read_outcome_def)
    next
      case ok: False
      show ?thesis
      proof (cases "n \<le> readable f")
        case True
        have "read_outcome H chunk usr ((acc @ ?bs) @ avail f') (read_fails f') (freadall_loop chunk usr a q st2 f' w2)"
        proof (rule less.hyps [OF _ fl2])
          show "readable f' < readable f" using True n(1) f'(3) by simp
          show "\<not> feof f'" "\<not> ferror f'" using f'(5) True less.prems(2,3) by simp_all
          show "0 < blk_size st2" "unat (file_size st2) < 2 ^ 63" using less.prems(4) s(2) by (simp_all add: st2_def)
          show "length (acc @ ?bs) + readable f' + unat (blk_size st2) < 2 ^ 63"
            using less.prems(5) f'(3) True k by (simp add: st2_def)
        qed
        then show ?thesis using ok f'(2,4) by (simp add: run2)
      next
        case False
        then have "freadall_loop chunk usr a q st2 f' w2 = Some (0, q, st2, f', w2)"
          using f'(6) by (simp add: freadall_loop.simps [of chunk usr a q])
        moreover have "?bs = avail f" using False by (simp add: length_avail)
        ultimately show ?thesis using ok False fl2 q f'(7) less.prems(3) by (auto simp: run2 read_outcome_def)
      qed
    qed
  qed
qed

lemma freadalla_outcome:
  assumes rep: "rep w H" and ok: "stream_ok sys f" and lim: "2 ^ 63 \<le> limit"
  shows "\<exists>r ptr' sz' f' w'. vsc_freadalla_ex sys (Some ptr) (Some sz) (Some f) (Some default_init_proc) (Some chunk) usr (Some a) w =
      Some (r, Some ptr', Some sz', Some f', w') \<and>
    (r = 0 \<and> \<not> read_fails f \<and> sz' = of_nat (length (avail f)) \<and> ptr' \<noteq> NULL \<and> H ptr' = None \<and>
       (\<exists>ds. rep w' (H(ptr' \<mapsto> ds)) \<and> take (length (avail f)) ds = avail f \<and> length (avail f) \<le> length ds) \<or>
     r < 0 \<and> ptr' = ptr \<and> sz' = sz \<and> rep w' H \<and>
       (r = VSC_ERROR EIO \<and> read_fails f \<or> r = VSC_ERROR ENOMEM \<or> r = VSC_ERROR ECANCELED \<and> (\<exists>st. chunk st usr < 0)))"
proof -
  obtain st e p where gs: "get_sizes sys f = (0, st, f\<lparr>fpos := p, feof := e\<rparr>)"
    "file_size st = 0 \<or> file_size st = of_nat (length (fdata f))" "0 < blk_size st" "unat (blk_size st) < 2 ^ 61"
    "fnoseek f \<noteq> None \<longrightarrow> f\<lparr>fpos := p, feof := e\<rparr> = f"
    using get_sizes_ok [OF ok] by blast
  have f: "\<not> ferror f" "fpos f \<le> length (fdata f)" "length (fdata f) < 2 ^ 61"
    "fnoseek f = None \<or> fnoseek f \<in> {Some EBADF, Some ESPIPE} \<and> \<not> feof f"
    using ok by (auto simp: stream_ok_def)
  define g where "g = (if fnoseek f = None then f\<lparr>feof := False\<rparr> else f)"
  define fs where "fs = (if fnoseek f = None \<and> 0 < file_size st then file_size st - of_nat (fpos f) else file_size st)"
  define fs' where "fs' = (if 0 < fs then fs + 1 else blk_size st)"
  define st' where "st' = st\<lparr>file_size := fs', bytes_read := 0\<rparr>"
  have g: "avail g = avail f" "readable g = readable f" "read_fails g = read_fails f" "\<not> feof g" "\<not> ferror g"
    using f(1,4) by (auto simp: g_def avail_def readable_def read_fails_def split: option.splits)
  have run: "vsc_freadalla_ex sys (Some ptr) (Some sz) (Some f) (Some default_init_proc) (Some chunk) usr (Some a) w =
      (case freadall_loop chunk usr a NULL st' g w of
         None \<Rightarrow> None
       | Some (r, p, state, f, w) \<Rightarrow>
           if r < 0 then Some (r, Some ptr, Some sz, Some f, w)
           else if ferror f then Some (VSC_ERROR EIO, Some ptr, Some sz, Some f, vsc_xfree a p w)
           else Some (0, Some p, Some (bytes_read state), Some f, w))"
  proof (cases "fnoseek f")
    case None
    have save: "vsc_ftello f = int (fpos f)" "vsc_fseeko (f\<lparr>fpos := p, feof := e\<rparr>) (int (fpos f)) 0 = (0, g)"
      using None by (simp_all add: vsc_ftello_def ftello_def vsc_fseeko_def fseeko_def g_def Let_def)
    show ?thesis
      using None by (simp add: vsc_freadalla_ex_def Let_def save gs(1) default_init_proc_def st'_def fs'_def fs_def word_gt_0)
  next
    case (Some e')
    then have save: "vsc_ftello f = VSC_ERROR e'" "e' = EBADF \<or> e' = ESPIPE" and g': "f\<lparr>fpos := p, feof := e\<rparr> = g"
      using f(4) gs(5) by (auto simp: vsc_ftello_def ftello_def g_def)
    then show ?thesis
      using Some by (auto simp: vsc_freadalla_ex_def Let_def gs(1) default_init_proc_def st'_def fs'_def fs_def word_gt_0)
  qed
  have fs: "unat fs < 2 ^ 61"
  proof -
    have "unat (file_size st) < 2 ^ 61" "file_size st = 0 \<or> unat (file_size st) = length (fdata f)"
      using gs(2) f(3) by (auto simp: unat_of_nat64)
    then show ?thesis using f(2,3) by (auto simp: fs_def unat_sub64 unat_of_nat64)
  qed
  have fs': "unat fs' < 2 ^ 62" using fs gs(4) unat_add64 [of fs 1] by (simp add: fs'_def)
  have "read_outcome H chunk usr ([] @ avail g) (read_fails g) (freadall_loop chunk usr a NULL st' g w)"
  proof (rule loop_reads)
    show "filled w H NULL st' []" using rep by (simp add: filled_def st'_def)
    show "length [] + readable g + unat (blk_size st') < 2 ^ 63"
      using readable_le [of f] f(3) gs(4) g(2) by (simp add: st'_def)
  qed (use g gs(3) fs' lim in \<open>simp_all add: st'_def\<close>)
  then obtain r q s1 f1 w1 where o: "freadall_loop chunk usr a NULL st' g w = Some (r, q, s1, f1, w1)"
    "r = 0 \<and> filled w1 H q s1 (avail f) \<and> q \<noteq> NULL \<and> ferror f1 = read_fails f \<or>
     r = VSC_ERROR ENOMEM \<and> rep w1 H \<or> r = VSC_ERROR ECANCELED \<and> rep w1 H \<and> (\<exists>st. chunk st usr < 0)"
    unfolding read_outcome_def append_Nil g(1,3) by blast
  from o(2) show ?thesis
  proof (elim disjE conjE)
    assume r: "r = 0" "filled w1 H q s1 (avail f)" "q \<noteq> NULL" "ferror f1 = read_fails f"
    then obtain ds where "rep w1 (H(q \<mapsto> ds))" "take (length (avail f)) ds = avail f" "length (avail f) \<le> length ds"
      "H q = None" "bytes_read s1 = of_nat (length (avail f))"
      by (auto simp: filled_def)
    then show ?thesis using r(1,3,4) filled_free [OF r(2)] by (cases "read_fails f") (auto simp: run o(1))
  qed (auto simp: run o(1))
qed

end

lemma default_chunk_proc_ok: "\<not> default_chunk_proc state usr < 0"
  by (simp add: default_chunk_proc_def)


definition sample_system :: system where
  "sample_system = \<lparr>fstat = (\<lambda>_. Inr \<lparr>st_mode = S_IFREG, st_size = 4, st_blksize = 16\<rparr>),
     BLKGETSIZE64 = (\<lambda>_. Inl ENOTSUP), BLKGETSIZE = (\<lambda>_. Inl ENOTSUP), BLKIOOPT = (\<lambda>_. Inl ENOTSUP)\<rparr>"


end
