(* ===== verification/EnumGroups.thy ===== *)
theory EnumGroups
  imports Strings FreadallCorrect
begin

text \<open>
  \<open>enum_groups.c\<close>: calling back for every group a user belongs to. The group database is a
  parameter: its state and the three calls that walk through it. What \<open>getgrent_r\<close> stores in the
  buffer is the group it returns.
\<close>

section \<open>The group database\<close>

record group =
  gr_name :: "byte list"
  gr_gid :: uint32
  gr_mem :: "byte list list"

record passwd =
  pw_name :: "byte list"
  pw_gid :: uint32

text \<open>\<open>setgrent\<close> gives what it leaves in errno, \<open>getgrent_r\<close> its result and the group found.\<close>

record 'g grdb =
  setgrent :: "'g \<Rightarrow> int \<times> 'g"
  getgrent_r :: "size_t \<Rightarrow> 'g \<Rightarrow> int \<times> group option \<times> 'g"
  endgrent :: "'g \<Rightarrow> 'g"

type_synonym 'u VscEnumGroupsProc = "group \<Rightarrow> 'u \<Rightarrow> int \<times> 'u"

section \<open>Enumeration\<close>

text \<open>The callback for one group: at once for the user's own, else when the user is a member of it.\<close>

fun members_loop :: "'u VscEnumGroupsProc \<Rightarrow> passwd \<Rightarrow> group \<Rightarrow> byte list list \<Rightarrow> 'u \<Rightarrow> int \<times> 'u" where
  "members_loop proc pw g [] u = (0, u)"
| "members_loop proc pw g (m # ms) u =
     (if strcmp (pw_name pw) m \<noteq> 0 then members_loop proc pw g ms u else proc g u)"

definition visit_group :: "'u VscEnumGroupsProc \<Rightarrow> passwd \<Rightarrow> group \<Rightarrow> 'u \<Rightarrow> int \<times> 'u" where
  "visit_group proc pw g u =
     (if gr_gid g = pw_gid pw then proc g u else members_loop proc pw g (gr_mem g) u)"

definition group_buffer ::
  "'s VscAllocator \<Rightarrow> addr \<Rightarrow> size_t \<Rightarrow> int \<Rightarrow> 's world \<Rightarrow> (addr \<times> 's world) option" where
  "group_buffer a buf buflen rc w =
     (if buf = NULL \<or> rc = ERANGE then vsc_xrealloc a buf buflen w else Some (buf, w))"

text \<open>The status, the buffer, the states of the database and of the callback and the world.\<close>

partial_function (option) groups_loop ::
  "'g grdb \<Rightarrow> passwd \<Rightarrow> 'u VscEnumGroupsProc \<Rightarrow> 's VscAllocator \<Rightarrow> addr \<Rightarrow> size_t \<Rightarrow> int \<Rightarrow> 'g \<Rightarrow> 'u \<Rightarrow> 's world \<Rightarrow>
   (int \<times> addr \<times> 'g \<times> 'u \<times> 's world) option" where
  "groups_loop db pw proc a buf buflen rc gs u w =
     Option.bind (group_buffer a buf buflen rc w) (\<lambda>(buf2, w).
       if buf2 = NULL then Some (VSC_ERROR ENOMEM, buf, gs, u, w)
       else
         let (rc, g, gs) = getgrent_r db buflen gs
         in if rc = ENOENT then Some (0, buf2, gs, u, w)
            else if rc = ERANGE then groups_loop db pw proc a buf2 (buflen * 2) rc gs u w
            else if rc \<noteq> 0 then Some (VSC_ERROR rc, buf2, gs, u, w)
            else
              let (ret, u) = visit_group proc pw (the g) u
              in if ret \<noteq> 0 then Some (ret, buf2, gs, u, w)
                 else groups_loop db pw proc a buf2 buflen rc gs u w)"

declare groups_loop.simps [code]

definition vsc_enum_groupsa ::
  "'g grdb \<Rightarrow> passwd \<Rightarrow> 'u VscEnumGroupsProc \<Rightarrow> 's VscAllocator \<Rightarrow> 'g \<Rightarrow> 'u \<Rightarrow> 's world \<Rightarrow>
   (int \<times> 'g \<times> 'u \<times> 's world) option" where
  "vsc_enum_groupsa db pw proc a gs u w =
     (let (errno, gs) = setgrent db gs
      in if errno \<noteq> 0 then Some (VSC_ERROR errno, gs, u, w)
         else
           (case groups_loop db pw proc a NULL 2048 0 gs u w of
              None \<Rightarrow> None
            | Some (ret, buf, gs, u, w) \<Rightarrow>
                Some (ret, endgrent db gs, u, if buf \<noteq> NULL then vsc_xfree a buf w else w)))"

definition vsc_enum_groups ::
  "'g grdb \<Rightarrow> passwd \<Rightarrow> 'u VscEnumGroupsProc \<Rightarrow> libc \<Rightarrow> 'g \<Rightarrow> 'u \<Rightarrow> heap world \<Rightarrow>
   (int \<times> 'g \<times> 'u \<times> heap world) option" where
  "vsc_enum_groups db pw proc c gs u w = vsc_enum_groupsa db pw proc (vsclib_system_allocator c) gs u w"

section \<open>What the enumeration should do\<close>

definition in_group :: "passwd \<Rightarrow> group \<Rightarrow> bool" where
  "in_group pw g \<longleftrightarrow> gr_gid g = pw_gid pw \<or> pw_name pw \<in> set (gr_mem g)"

fun run_groups :: "'u VscEnumGroupsProc \<Rightarrow> group list \<Rightarrow> 'u \<Rightarrow> int \<times> 'u" where
  "run_groups proc [] u = (0, u)"
| "run_groups proc (g # gs) u = (let (r, u) = proc g u in if r \<noteq> 0 then (r, u) else run_groups proc gs u)"

text \<open>
  A database in a state where it will deliver the groups \<open>xs\<close>, each when the buffer has the size
  it needs, and ENOENT behind the last.
\<close>

fun serves :: "'g grdb \<Rightarrow> (group \<times> nat) list \<Rightarrow> 'g \<Rightarrow> bool" where
  "serves db [] gs \<longleftrightarrow> (\<forall>n. fst (getgrent_r db n gs) = ENOENT)"
| "serves db ((g, k) # xs) gs \<longleftrightarrow>
     (\<forall>n. if unat n < k then fst (getgrent_r db n gs) = ERANGE \<and> snd (snd (getgrent_r db n gs)) = gs
          else \<exists>gs'. getgrent_r db n gs = (0, Some g, gs') \<and> serves db xs gs')"

definition group_ok :: "passwd \<Rightarrow> group \<times> nat \<Rightarrow> bool" where
  "group_ok pw = (\<lambda>(g, k). k \<le> 2 ^ 62 \<and> (\<forall>m\<in>set (gr_mem g). cstring m))"

lemma members_loop_iff:
  assumes "cstring (pw_name pw)" "\<forall>m\<in>set ms. cstring m"
  shows "members_loop proc pw g ms u = (if pw_name pw \<in> set ms then proc g u else (0, u))"
  using assms(2) by (induction ms) (auto simp: strcmp_eq [OF assms(1)])

lemma visit_group_iff:
  assumes "cstring (pw_name pw)" "group_ok pw (g, k)"
  shows "visit_group proc pw g u = (if in_group pw g then proc g u else (0, u))"
  using assms members_loop_iff [OF assms(1), of "gr_mem g"]
  by (auto simp: visit_group_def in_group_def group_ok_def)

text \<open>The outcome of a walk: the callback's, or ENOMEM after the callback ran for some of the groups.\<close>

definition walked :: "'u VscEnumGroupsProc \<Rightarrow> group list \<Rightarrow> 'u \<Rightarrow> int \<Rightarrow> 'u \<Rightarrow> bool" where
  "walked proc xs u r u' \<longleftrightarrow>
     (r, u') = run_groups proc xs u \<or>
     r = VSC_ERROR ENOMEM \<and> (\<exists>n. run_groups proc (take n xs) u = (0, u'))"

lemma walked_ENOMEM: "walked proc xs u (VSC_ERROR ENOMEM) u"
  unfolding walked_def by (intro disjI2 conjI refl exI [of _ 0]) simp

lemma walked_next:
  assumes "walked proc xs u1 r u'" "proc g u = (0, u1)"
  shows "walked proc (g # xs) u r u'"
  using assms(1) unfolding walked_def
proof (elim disjE conjE exE)
  fix n assume "r = VSC_ERROR ENOMEM" "run_groups proc (take n xs) u1 = (0, u')"
  then show "(r, u') = run_groups proc (g # xs) u \<or>
      r = VSC_ERROR ENOMEM \<and> (\<exists>n. run_groups proc (take n (g # xs)) u = (0, u'))"
    using assms(2) by (intro disjI2 conjI exI [of _ "Suc n"]) simp_all
qed (use assms(2) in simp)

context block_allocator begin

definition holds :: "'s world \<Rightarrow> (addr \<Rightarrow> byte list option) \<Rightarrow> addr \<Rightarrow> bool" where
  "holds w H buf \<longleftrightarrow> (if buf = NULL then rep w H else H buf = None \<and> (\<exists>bs. rep w (H(buf \<mapsto> bs))))"

lemma holds_free: "holds w H buf \<Longrightarrow> rep (if buf \<noteq> NULL then vsc_xfree a buf w else w) H"
  using xfree_spec [of w "H(buf \<mapsto> bs)" buf for bs]
  by (auto simp: holds_def vsc_xfree_def fun_upd_idem split: if_splits)

lemma group_buffer_ok:
  assumes "holds w H buf" "unat buflen < limit" "0 < unat buflen"
  shows "\<exists>q w'. group_buffer a buf buflen rc w = Some (q, w') \<and> (if q = NULL then holds w' H buf else holds w' H q)"
proof (cases "buf = NULL")
  case True
  have "buflen \<noteq> 0" using assms(3) by auto
  with True show ?thesis using assms xrealloc_fresh [of w H buflen] by (auto simp: group_buffer_def holds_def)
next
  case False
  have n: "buflen \<noteq> 0" using assms(3) by auto
  from False obtain bs where bs: "rep w (H(buf \<mapsto> bs))" "H buf = None" using assms(1) by (auto simp: holds_def)
  have "\<exists>q w'. vsc_xrealloc a buf buflen w = Some (q, w') \<and> (if q = NULL then holds w' H buf else holds w' H q)"
    using xrealloc_spec [OF bs(1) assms(2) n, of buf bs] bs False
    by (fastforce simp: holds_def fun_upd_idem split: if_splits)
  then show ?thesis using assms(1) False by (auto simp: group_buffer_def)
qed

lemma groups_loop_walks:
  assumes "serves db xs gs" "list_all (group_ok pw) xs" "cstring (pw_name pw)"
    and "holds w H buf" "0 < unat buflen" "unat buflen < 2 ^ 63" "2 ^ 63 \<le> limit"
  shows "\<exists>r buf' gs' u' w'. groups_loop db pw proc a buf buflen rc gs u w = Some (r, buf', gs', u', w') \<and>
    holds w' H buf' \<and> walked proc (filter (in_group pw) (map fst xs)) u r u'"
  using assms
proof (induction xs arbitrary: gs w buf buflen rc u)
  case Nil
  obtain q w1 where q: "group_buffer a buf buflen rc w = Some (q, w1)" "if q = NULL then holds w1 H buf else holds w1 H q"
    using group_buffer_ok [OF Nil.prems(4) _ Nil.prems(5), of rc] Nil.prems(6,7) by auto
  obtain g gs' where e: "getgrent_r db buflen gs = (ENOENT, g, gs')"
    using Nil.prems(1) by (metis prod.collapse serves.simps(1))
  have "groups_loop db pw proc a buf buflen rc gs u w =
      Some (if q = NULL then (VSC_ERROR ENOMEM, buf, gs, u, w1) else (0, q, gs', u, w1))"
    by (simp add: groups_loop.simps [of db pw proc a buf] q(1) e)
  then show ?case using q(2) by (cases "q = NULL") (auto simp: walked_def)
next
  case (Cons x xs)
  obtain g k where x: "x = (g, k)" by fastforce
  have k: "k \<le> 2 ^ 62" "group_ok pw (g, k)" using Cons.prems(2) by (simp_all add: x group_ok_def)
  show ?case using Cons.prems(1,4-6)
  proof (induction "k - unat buflen" arbitrary: gs w buf buflen rc rule: less_induct)
    case less
    obtain q w1 where q: "group_buffer a buf buflen rc w = Some (q, w1)" "if q = NULL then holds w1 H buf else holds w1 H q"
      using group_buffer_ok [OF less.prems(2) _ less.prems(3), of rc] less.prems(4) Cons.prems(7) by auto
    note loop = groups_loop.simps [of db pw proc a buf buflen rc gs u w, unfolded q(1) Option.bind.simps prod.case]
    show ?case
    proof (cases "q = NULL")
      case True
      then show ?thesis using q(2) walked_ENOMEM by (auto simp: loop)
    next
      case q0: False
      show ?thesis
      proof (cases "unat buflen < k")
        case True
        then obtain g' where e: "getgrent_r db buflen gs = (ERANGE, g', gs)"
          using less.prems(1) unfolding x serves.simps by (metis prod.collapse)
        have two: "unat (buflen * 2) = 2 * unat buflen" using True k(1) by (subst unat_mult64) simp_all
        have "groups_loop db pw proc a buf buflen rc gs u w = groups_loop db pw proc a q (buflen * 2) ERANGE gs u w1"
          using q0 by (simp add: loop e)
        then show ?thesis
          using less.hyps [of "buflen * 2" gs w1 q ERANGE] less.prems(1,3) q(2) q0 True k(1) by (simp add: two)
      next
        case False
        then obtain gs' where e: "getgrent_r db buflen gs = (0, Some g, gs')" "serves db xs gs'"
          using less.prems(1) [unfolded x serves.simps, THEN spec [of _ buflen]] by auto
        obtain ret u1 where v: "visit_group proc pw g u = (ret, u1)" by fastforce
        have run: "groups_loop db pw proc a buf buflen rc gs u w =
            (if ret \<noteq> 0 then Some (ret, q, gs', u1, w1) else groups_loop db pw proc a q buflen 0 gs' u1 w1)"
          using q0 by (simp add: loop e v)
        have holds: "holds w1 H q" using q(2) q0 by simp
        have visit: "(ret, u1) = (if in_group pw g then proc g u else (0, u))"
          using visit_group_iff [OF Cons.prems(3) k(2), of proc u] v by simp
        show ?thesis
        proof (cases "ret = 0")
          case True
          obtain r b g2 u2 w2 where rest: "groups_loop db pw proc a q buflen 0 gs' u1 w1 = Some (r, b, g2, u2, w2)"
            "holds w2 H b" "walked proc (filter (in_group pw) (map fst xs)) u1 r u2"
            using Cons.IH [OF e(2) _ Cons.prems(3) holds less.prems(3,4) Cons.prems(7), of 0 u1] Cons.prems(2) by auto
          moreover have "walked proc (filter (in_group pw) (map fst (x # xs))) u r u2"
            using visit True walked_next [OF rest(3)] rest(3) by (auto simp: x split: if_splits)
          ultimately show ?thesis using True by (simp add: run)
        next
          case False
          then have "in_group pw g" "proc g u = (ret, u1)" using visit by (auto split: if_splits)
          then show ?thesis using False holds by (simp add: run x walked_def)
        qed
      qed
    qed
  qed
qed

end


definition sample_groups :: "(group \<times> nat) list" where
  "sample_groups = [(\<lparr>gr_name = [0x61], gr_gid = 1, gr_mem = [[0x75]]\<rparr>, 10),
     (\<lparr>gr_name = [0x62], gr_gid = 2, gr_mem = [[0x76]]\<rparr>, 3000), (\<lparr>gr_name = [0x63], gr_gid = 3, gr_mem = []\<rparr>, 10)]"

definition list_db :: "(group \<times> nat) list grdb" where
  "list_db = \<lparr>setgrent = (\<lambda>gs. (0, sample_groups)),
     getgrent_r = (\<lambda>n gs. case gs of [] \<Rightarrow> (ENOENT, None, []) | (g, k) # xs \<Rightarrow>
       if unat n < k then (ERANGE, None, gs) else (0, Some g, xs)),
     endgrent = (\<lambda>gs. [])\<rparr>"

lemma list_db_serves: "serves list_db xs xs"
  by (induction xs) (auto simp: list_db_def)


end
