(* ===== verification/Files.thy ===== *)
theory Files
  imports Stdio Allocator
begin

text \<open>
  \<open>vsc_fopen\<close> and \<open>vsc_chdir\<close> on the system allocator, \<open>time.c\<close> (the branch of Linux), and what
  \<open>vsc_fnullify\<close> does to the descriptors of a process.
\<close>

section \<open>Files (fopena.c, chdir.c)\<close>

definition vsc_fopen ::
  "'o posix \<Rightarrow> libc \<Rightarrow> string \<Rightarrow> string \<Rightarrow> FILE option \<Rightarrow> 'o \<Rightarrow> int \<times> FILE option \<times> 'o" where
  "vsc_fopen px c pathname mode fp s = vsc_fopena px pathname mode fp (vsclib_system_allocator c) s"

definition vsc_chdir :: "'o posix \<Rightarrow> libc \<Rightarrow> string \<Rightarrow> 'o \<Rightarrow> int \<times> 'o" where
  "vsc_chdir px c path s = vsc_chdira px path (vsclib_system_allocator c) s"

section \<open>The counter (time.c)\<close>

record timespec =
  tv_sec :: int
  tv_nsec :: int

text \<open>What the two clocks answer, nothing when they fail; \<open>None\<close> is \<open>abort()\<close>.\<close>

definition vsc_counter_ns :: "timespec option \<Rightarrow> timespec option \<Rightarrow> uint64 option" where
  "vsc_counter_ns monotonic_raw monotonic =
     (case (monotonic_raw, monotonic) of
        (Some ts, _) \<Rightarrow> Some (word_of_int (tv_sec ts) * 1000000000 + word_of_int (tv_nsec ts))
      | (None, Some ts) \<Rightarrow> Some (word_of_int (tv_sec ts) * 1000000000 + word_of_int (tv_nsec ts))
      | (None, None) \<Rightarrow> None)"

text \<open>For 584 years the counter is the clock in nanoseconds, so it is monotonic when the clock is.\<close>

lemma vsc_counter_ns_exact:
  assumes "0 \<le> tv_sec ts" "0 \<le> tv_nsec ts" "tv_sec ts * 1000000000 + tv_nsec ts < 2 ^ 64"
  shows "map_option uint (vsc_counter_ns (Some ts) m) = Some (tv_sec ts * 1000000000 + tv_nsec ts)"
proof -
  have "word_of_int (tv_sec ts) * 1000000000 + word_of_int (tv_nsec ts) =
      (word_of_int (tv_sec ts * 1000000000 + tv_nsec ts) :: uint64)"
    by simp
  then have "uint (word_of_int (tv_sec ts) * 1000000000 + word_of_int (tv_nsec ts) :: uint64) =
      (tv_sec ts * 1000000000 + tv_nsec ts) mod 2 ^ 64"
    by (simp only: uint_word_of_int) simp
  also have "\<dots> = tv_sec ts * 1000000000 + tv_nsec ts" using assms by (intro mod_pos_pos_trivial) simp_all
  finally show ?thesis by (simp add: vsc_counter_ns_def)
qed

section \<open>Descriptors and \<open>vsc_fnullify\<close>\<close>

text \<open>
  A process as the list of its open descriptors and what each refers to. \<open>open\<close> takes the lowest
  free one, \<open>dup2\<close> makes the new one refer to the same file.
\<close>

definition process :: "(int \<times> string) list posix" where
  "process =
     \<lparr>sys_open = (\<lambda>p flags s. let fd = hd (filter (\<lambda>i. i \<notin> fst ` set s) (map int [0..<length s + 1])) in (fd, 0, (fd, p) # s)),
      sys_dup2 = (\<lambda>old new s. case map_of s old of
          None \<Rightarrow> (- 1, EBADF, s)
        | Some p \<Rightarrow> (new, 0, (new, p) # filter (\<lambda>x. fst x \<noteq> new) s)),
      sys_close = (\<lambda>fd s. if fd \<in> fst ` set s then (0, 0, filter (\<lambda>x. fst x \<noteq> fd) s) else (- 1, EBADF, s)),
      sys_chdir = (\<lambda>p s. (0, 0, s)),
      sys_fopen = (\<lambda>p mode s. (None, ENOENT, s))\<rparr>"

text \<open>
  A successful \<open>vsc_fnullify\<close> leaves the descriptor open that it got for the null device: in a
  process with the three standard descriptors, nullifying the stream of descriptor 1 opens descriptor 3.
\<close>

lemma vsc_fnullify_leaks_descriptor:
  "vsc_fnullify process (Some \<lparr>fdata = [], fpos = 0, froom = 0, fbad = None, fnoseek = None, fdesc = 1, feof = False, ferror = False\<rparr>)
     [(0, ''tty''), (1, ''tty''), (2, ''tty'')] =
   (1, [(1, ''/dev/null''), (3, ''/dev/null''), (0, ''tty''), (2, ''tty'')])"
  by code_simp

end
