(* ===== verification/Windows.thy ===== *)
theory Windows
  imports Strings
begin

text \<open>
  The Windows branch of the library: \<open>util_win32.c\<close>, the conversions of strings and the search for a
  program. The calls of the Windows API are parameters. \<open>wchar_t\<close> has 16 bits there.
\<close>

section \<open>Error codes (util_win32.c)\<close>

abbreviation (input) "EBUSY \<equiv> (16 :: int)"

definition ERROR_FILE_NOT_FOUND :: uint32 where "ERROR_FILE_NOT_FOUND = 2"
definition ERROR_PATH_NOT_FOUND :: uint32 where "ERROR_PATH_NOT_FOUND = 3"
definition ERROR_ACCESS_DENIED :: uint32 where "ERROR_ACCESS_DENIED = 5"
definition ERROR_PATH_BUSY :: uint32 where "ERROR_PATH_BUSY = 148"

definition vsci_map_win32err :: "uint32 \<Rightarrow> int" where
  "vsci_map_win32err e =
     (if e = ERROR_FILE_NOT_FOUND \<or> e = ERROR_PATH_NOT_FOUND then VSC_ERROR ENOENT
      else if e = ERROR_PATH_BUSY then VSC_ERROR EBUSY
      else if e = ERROR_ACCESS_DENIED then VSC_ERROR EACCES
      else VSC_ERROR EINVAL)"

section \<open>Conversions (cstrtowstr_win32.c, wstrtocstr_win32.c)\<close>

text \<open>
  The conversions, given the text and the size of the buffer (0 for none): the number of characters,
  0 on an error, what is stored, and the error.
\<close>

record winapi =
  MultiByteToWideChar :: "byte list \<Rightarrow> int \<Rightarrow> int \<times> uint16 list \<times> uint32"
  WideCharToMultiByte :: "uint16 list \<Rightarrow> int \<Rightarrow> int \<times> byte list \<times> uint32"
  SearchPathW :: "uint16 list \<Rightarrow> uint32 \<Rightarrow> uint32 \<times> uint16 list \<times> uint32"

definition INT_MAX :: size_t where
  "INT_MAX = 0x7FFFFFFF"

text \<open>The status, the new string with its address, the length and the world; nothing is written on an error.\<close>

definition vsc_cstrtowstra ::
  "winapi \<Rightarrow> byte list \<Rightarrow> 's VscAllocator \<Rightarrow> 's world \<Rightarrow> (int \<times> (addr \<times> uint16 list \<times> size_t) option \<times> 's world) option" where
  "vsc_cstrtowstra api s a w =
     (let len = strlen s + 1
      in if len \<ge> INT_MAX then Some (VSC_ERROR EOVERFLOW, None, w)
         else
           let (x, _, e) = MultiByteToWideChar api (s @ [0]) 0
           in if x = 0 then Some (vsci_map_win32err e, None, w)
              else
                (case vsc_xcalloc a (word_of_int x) 2 w of
                   None \<Rightarrow> None
                 | Some (ws, w) \<Rightarrow>
                     if ws = NULL then Some (VSC_ERROR ENOMEM, None, w)
                     else
                       let (x, wide, e) = MultiByteToWideChar api (s @ [0]) x
                       in if x = 0 then Some (vsci_map_win32err e, None, vsc_xfree a ws w)
                          else Some (0, Some (ws, wide, word_of_int x), w)))"

text \<open>\<open>s\<close> is the address of the caller's pointer, which the error path frees.\<close>

definition vsc_wstrtocstra ::
  "winapi \<Rightarrow> uint16 list \<Rightarrow> addr \<Rightarrow> 's VscAllocator \<Rightarrow> 's world \<Rightarrow>
   (int \<times> (addr \<times> byte list \<times> size_t) option \<times> 's world) option" where
  "vsc_wstrtocstra api ws s a w =
     (let len = of_nat (length ws) + 1 :: size_t
      in if len \<ge> INT_MAX then Some (VSC_ERROR EOVERFLOW, None, w)
         else
           let (x, _, e) = WideCharToMultiByte api (ws @ [0]) 0
           in if x = 0 then Some (vsci_map_win32err e, None, w)
              else
                (case vsc_xcalloc a (word_of_int x) 1 w of
                   None \<Rightarrow> None
                 | Some (t, w) \<Rightarrow>
                     if t = NULL then Some (VSC_ERROR ENOMEM, None, w)
                     else
                       let (x, bytes, e) = WideCharToMultiByte api (ws @ [0]) x
                       in if x = 0 then Some (vsci_map_win32err e, None, vsc_xfree a s w)
                          else Some (0, Some (t, bytes, word_of_int x), w)))"

definition vsc_cstrtowstr ::
  "winapi \<Rightarrow> libc \<Rightarrow> byte list \<Rightarrow> heap world \<Rightarrow> (int \<times> (addr \<times> uint16 list \<times> size_t) option \<times> heap world) option" where
  "vsc_cstrtowstr api c s w = vsc_cstrtowstra api s (vsclib_system_allocator c) w"

definition vsc_wstrtocstr ::
  "winapi \<Rightarrow> libc \<Rightarrow> uint16 list \<Rightarrow> addr \<Rightarrow> heap world \<Rightarrow>
   (int \<times> (addr \<times> byte list \<times> size_t) option \<times> heap world) option" where
  "vsc_wstrtocstr api c ws s w = vsc_wstrtocstra api ws s (vsclib_system_allocator c) w"

section \<open>The search for a program (searchpath_win32.c)\<close>

text \<open>
  \<open>of_addr\<close> is the address of the local variable \<open>of\<close>. Strings are read up to their NUL. The label
  \<open>done\<close> is \<open>finish\<close>, with the last answer of the API and its error.
\<close>

definition until_nul :: "uint16 list \<Rightarrow> uint16 list" where
  "until_nul ws = takeWhile (\<lambda>c. c \<noteq> 0) ws"

definition finish ::
  "'s VscAllocator \<Rightarrow> uint32 \<times> uint32 \<Rightarrow> int \<Rightarrow> addr \<Rightarrow> addr \<Rightarrow> 's world \<Rightarrow> int \<times> 's world" where
  "finish a answer r ws wfile w =
     (let (x, e) = answer;
          r = (if x = 0 then vsci_map_win32err e else r);
          w = (if ws \<noteq> NULL then vsc_xfree a ws w else w);
          w = (if wfile \<noteq> NULL then vsc_xfree a wfile w else w)
      in (r, w))"

definition vsc_searchpatha_win32 ::
  "winapi \<Rightarrow> byte list \<Rightarrow> addr \<Rightarrow> 's VscAllocator \<Rightarrow> 's world \<Rightarrow> (int \<times> (addr \<times> byte list \<times> size_t) option \<times> 's world) option" where
  "vsc_searchpatha_win32 api f of_addr a w =
     (case vsc_cstrtowstra api f a w of
        None \<Rightarrow> None
      | Some (r, None, w) \<Rightarrow> Some (r, None, w)
      | Some (r, Some (wfile, wide, _), w) \<Rightarrow>
          let (x, _, e) = SearchPathW api (until_nul wide) 0
          in if x = 0 then (let (r, w) = finish a (x, e) r NULL wfile w in Some (r, None, w))
             else
               (case vsc_xcalloc a (ucast x) 2 w of
                  None \<Rightarrow> None
                | Some (ws, w) \<Rightarrow>
                    if ws = NULL then (let (r, w) = finish a (x, e) (VSC_ERROR ENOMEM) NULL wfile w in Some (r, None, w))
                    else
                      let (x, path, e) = SearchPathW api (until_nul wide) x
                      in if x = 0 then (let (r, w) = finish a (x, e) r ws wfile w in Some (r, None, w))
                         else
                           (case vsc_wstrtocstra api (until_nul path) of_addr a w of
                              None \<Rightarrow> None
                            | Some (r, t, w) \<Rightarrow> (let (r, w) = finish a (x, e) r ws wfile w in Some (r, t, w)))))"

definition vsc_searchpath_win32 ::
  "winapi \<Rightarrow> libc \<Rightarrow> byte list \<Rightarrow> addr \<Rightarrow> heap world \<Rightarrow> (int \<times> (addr \<times> byte list \<times> size_t) option \<times> heap world) option" where
  "vsc_searchpath_win32 api c f of_addr w = vsc_searchpatha_win32 api f of_addr (vsclib_system_allocator c) w"

section \<open>Facts\<close>

lemma vsci_map_win32err_neg: "vsci_map_win32err e < 0"
  by (simp add: vsci_map_win32err_def VSC_ERROR_def)

text \<open>
  When the second call of \<open>WideCharToMultiByte\<close> fails, the function frees the caller's variable
  instead of its own block, which stays allocated.
\<close>

lemma vsc_wstrtocstra_frees_argument:
  assumes "WideCharToMultiByte api (ws @ [0]) 0 = (n, b, e)" "n \<noteq> 0"
    and "WideCharToMultiByte api (ws @ [0]) n = (0, b', e')"
    and "of_nat (length ws) + 1 < INT_MAX" "vsc_xcalloc a (word_of_int n) 1 w = Some (t, w')" "t \<noteq> NULL"
  shows "vsc_wstrtocstra api ws s a w = Some (vsci_map_win32err e', None, vsc_xfree a s w')"
  using assms by (auto simp: vsc_wstrtocstra_def Let_def dest: leD)

end
