(* ===== verification/WindowsFiles.thy ===== *)
theory WindowsFiles
  imports Windows Files AllocatorCorrect
begin

text \<open>
  The Windows branches of the files that also have one for POSIX: \<open>sysmem.c\<close>, \<open>fopena.c\<close>,
  \<open>chdir.c\<close>, \<open>time.c\<close> with the counters of Windows and of Mach. The strings they
  convert are freed again, but for one error path. The calls of the systems are parameters.
\<close>

section \<open>The heap (sysmem.c)\<close>

text \<open>The heap of a process is a heap like the one of the C library; \<open>hHeap\<close> is what \<open>GetProcessHeap\<close> answers.\<close>

definition HEAP_ZERO_MEMORY :: uint32 where "HEAP_ZERO_MEMORY = 8"

definition HeapAlloc :: "libc \<Rightarrow> uint32 \<Rightarrow> size_t \<Rightarrow> heap world \<Rightarrow> addr \<times> heap world" where
  "HeapAlloc c flags sz w =
     (let (p, w) = c_realloc c NULL sz w
      in if p \<noteq> NULL \<and> flags AND HEAP_ZERO_MEMORY \<noteq> 0 then (p, w\<lparr>mem := memset p 0 sz (mem w)\<rparr>) else (p, w))"

definition vsc_sys_malloc_win32 :: "libc \<Rightarrow> addr \<Rightarrow> size_t \<Rightarrow> heap world \<Rightarrow> addr \<times> heap world" where
  "vsc_sys_malloc_win32 c hHeap sz w = (if hHeap = NULL then (NULL, w) else HeapAlloc c 0 sz w)"

definition vsc_sys_calloc_win32 :: "libc \<Rightarrow> addr \<Rightarrow> size_t \<Rightarrow> size_t \<Rightarrow> heap world \<Rightarrow> addr \<times> heap world" where
  "vsc_sys_calloc_win32 c hHeap nmemb sz w =
     (if sz > 0 \<and> nmemb > SIZE_MAX div sz then (NULL, w)
      else if hHeap = NULL then (NULL, w)
      else HeapAlloc c HEAP_ZERO_MEMORY (sz * nmemb) w)"

definition vsc_sys_free_win32 :: "addr \<Rightarrow> heap world \<Rightarrow> heap world" where
  "vsc_sys_free_win32 p w = c_free p w"

definition vsc_sys_realloc_win32 :: "libc \<Rightarrow> addr \<Rightarrow> addr \<Rightarrow> size_t \<Rightarrow> heap world \<Rightarrow> addr \<times> heap world" where
  "vsc_sys_realloc_win32 c hHeap ptr sz w =
     (if hHeap = NULL then (NULL, w)
      else if ptr = NULL then HeapAlloc c 0 sz w
      else c_realloc c ptr sz w)"

section \<open>Files (fopena.c, chdir.c)\<close>

text \<open>What \<open>_wfopen\<close> and \<open>SetCurrentDirectoryW\<close> answer, with \<open>errno\<close> or the last error.\<close>

record 'o winfiles =
  wfopen :: "uint16 list \<Rightarrow> uint16 list \<Rightarrow> 'o \<Rightarrow> FILE option \<times> int \<times> 'o"
  SetCurrentDirectoryW :: "uint16 list \<Rightarrow> 'o \<Rightarrow> bool \<times> uint32 \<times> 'o"

text \<open>The status, what \<open>*fp\<close> holds, the world and the system.\<close>

definition vsc_fopena_win32 ::
  "winapi \<Rightarrow> 'o winfiles \<Rightarrow> byte list \<Rightarrow> byte list \<Rightarrow> FILE option \<Rightarrow> 's VscAllocator \<Rightarrow> 's world \<Rightarrow> 'o \<Rightarrow>
   (int \<times> FILE option \<times> 's world \<times> 'o) option" where
  "vsc_fopena_win32 api fs pathname mode fp a w s =
     (case vsc_cstrtowstra api pathname a w of
        None \<Rightarrow> None
      | Some (r, None, w) \<Rightarrow> Some (r, fp, w, s)
      | Some (r, Some (wpath, path, _), w) \<Rightarrow>
          (case vsc_cstrtowstra api mode a w of
             None \<Rightarrow> None
           | Some (r, None, w) \<Rightarrow> Some (r, fp, vsc_xfree a wpath w, s)
           | Some (r, Some (wmode, wide, _), w) \<Rightarrow>
               let (f, errno, s) = wfopen fs (until_nul path) (until_nul wide) s;
                   r = (case f of None \<Rightarrow> VSC_ERROR errno | Some _ \<Rightarrow> r);
                   w = vsc_xfree a wmode w;
                   w = vsc_xfree a wpath w
               in Some (if r < 0 then (r, fp, w, s) else (0, f, w, s))))"

definition vsc_chdira_win32 ::
  "winapi \<Rightarrow> 'o winfiles \<Rightarrow> byte list \<Rightarrow> 's VscAllocator \<Rightarrow> 's world \<Rightarrow> 'o \<Rightarrow> (int \<times> 's world \<times> 'o) option" where
  "vsc_chdira_win32 api fs path a w s =
     (case vsc_cstrtowstra api path a w of
        None \<Rightarrow> None
      | Some (r, None, w) \<Rightarrow> Some (r, w, s)
      | Some (r, Some (wpath, wide, _), w) \<Rightarrow>
          let (ok, e, s) = SetCurrentDirectoryW fs (until_nul wide) s;
              r = (if \<not> ok then vsci_map_win32err e else 0)
          in Some (r, vsc_xfree a wpath w, s))"

definition vsc_fopen_win32 ::
  "winapi \<Rightarrow> 'o winfiles \<Rightarrow> libc \<Rightarrow> byte list \<Rightarrow> byte list \<Rightarrow> FILE option \<Rightarrow> heap world \<Rightarrow> 'o \<Rightarrow>
   (int \<times> FILE option \<times> heap world \<times> 'o) option" where
  "vsc_fopen_win32 api fs c pathname mode fp w s = vsc_fopena_win32 api fs pathname mode fp (vsclib_system_allocator c) w s"

definition vsc_chdir_win32 ::
  "winapi \<Rightarrow> 'o winfiles \<Rightarrow> libc \<Rightarrow> byte list \<Rightarrow> heap world \<Rightarrow> 'o \<Rightarrow> (int \<times> heap world \<times> 'o) option" where
  "vsc_chdir_win32 api fs c path w s = vsc_chdira_win32 api fs path (vsclib_system_allocator c) w s"

section \<open>Counters (time.c)\<close>

text \<open>
  The static variable is passed and returned; \<open>None\<close> is \<open>abort()\<close>. The ticks and the frequency
  are signed 64-bit numbers, which the arithmetic takes as unsigned.
\<close>

definition vsc_counter_ns_win32 :: "int option \<Rightarrow> int option \<Rightarrow> int \<Rightarrow> (uint64 \<times> int) option" where
  "vsc_counter_ns_win32 query_frequency query_counter frequency =
     (case (if frequency = 0 then query_frequency else Some frequency) of
        None \<Rightarrow> None
      | Some frequency \<Rightarrow>
          (case query_counter of
             None \<Rightarrow> None
           | Some ticks \<Rightarrow> Some ((word_of_int ticks * 1000000000) div word_of_int frequency, frequency)))"

definition vsc_counter_ns_mach ::
  "(uint32 \<times> uint32) option \<Rightarrow> uint64 \<Rightarrow> uint32 \<times> uint32 \<Rightarrow> (uint64 \<times> uint32 \<times> uint32) option" where
  "vsc_counter_ns_mach timebase_info continuous_time timebase =
     (case (if fst timebase = 0 \<and> snd timebase = 0 then timebase_info else Some timebase) of
        None \<Rightarrow> None
      | Some (numer, denom) \<Rightarrow> Some ((continuous_time * ucast numer) div ucast denom, numer, denom))"

text \<open>With the usual 10 MHz the product wraps around after half an hour, and the counter goes back.\<close>

lemma vsc_counter_ns_win32_goes_back:
  "map_option fst (vsc_counter_ns_win32 (Some 10000000) (Some 18446744073) 0) = Some 1844674407300"
  "map_option fst (vsc_counter_ns_win32 (Some 10000000) (Some 18446744074) 0) = Some 29"
  by code_simp+

text \<open>Until then it is the time in nanoseconds.\<close>

lemma vsc_counter_ns_win32_exact:
  assumes "0 \<le> ticks" "ticks * 1000000000 < 2 ^ 64" "0 < frequency" "frequency < 2 ^ 63"
  shows "map_option (uint \<circ> fst) (vsc_counter_ns_win32 (Some frequency) (Some ticks) 0) = Some (ticks * 1000000000 div frequency)"
proof -
  have "uint (word_of_int ticks * 1000000000 :: uint64) = uint (word_of_int (ticks * 1000000000) :: uint64)" by simp
  also have "\<dots> = ticks * 1000000000" using assms by (simp only: uint_word_of_int) simp
  finally have t: "uint (word_of_int ticks * 1000000000 :: uint64) = ticks * 1000000000" .
  have "uint (word_of_int frequency :: uint64) = frequency" using assms by (simp only: uint_word_of_int) simp
  then show ?thesis using assms t by (simp add: vsc_counter_ns_win32_def uint_div)
qed

text \<open>The check of \<open>vsc_sys_calloc\<close> lets no product of the sizes pass that wraps around.\<close>

lemma vsc_sys_calloc_win32_no_wrap:
  assumes "2 ^ 64 \<le> unat nmemb * unat sz"
  shows "vsc_sys_calloc_win32 c hHeap nmemb sz w = (NULL, w)"
proof -
  have "0 < unat sz" using assms by (cases "unat sz") simp_all
  moreover have "(2 ^ 64 - 1) div unat sz < unat nmemb"
    using assms calculation by (subst div_less_iff_less_mult) simp_all
  then have "SIZE_MAX div sz < nmemb" by (simp add: word_less_nat_alt unat_div unat_SIZE_MAX)
  ultimately show ?thesis by (simp add: vsc_sys_calloc_win32_def word_less_nat_alt)
qed

section \<open>What becomes of the temporary strings\<close>

text \<open>
  What the API documents: the results of the conversions are counts of an \<open>int\<close>, zero on an error;
  \<open>_wfopen\<close> sets \<open>errno\<close> when it fails. Any call may fail, also a second conversion into a buffer
  of the size that the first one asked for (\<open>conversion_fails\<close>).
\<close>

definition api_ok :: "winapi \<Rightarrow> bool" where
  "api_ok api \<longleftrightarrow>
     (\<forall>s n. 0 \<le> fst (MultiByteToWideChar api s n) \<and> fst (MultiByteToWideChar api s n) < 2 ^ 31) \<and>
     (\<forall>s n. 0 \<le> fst (WideCharToMultiByte api s n) \<and> fst (WideCharToMultiByte api s n) < 2 ^ 31)"

definition conversion_fails :: "winapi \<Rightarrow> uint16 list \<Rightarrow> bool" where
  "conversion_fails api ws \<longleftrightarrow>
     (let x = fst (WideCharToMultiByte api (ws @ [0]) 0)
      in x \<noteq> 0 \<and> fst (WideCharToMultiByte api (ws @ [0]) x) = 0)"

definition files_ok :: "'o winfiles \<Rightarrow> bool" where
  "files_ok fs \<longleftrightarrow> (\<forall>p m s e s'. wfopen fs p m s = (None, e, s') \<longrightarrow> 0 < e \<and> e < 2 ^ 16)"

lemma unat_count: "0 \<le> x \<Longrightarrow> x < 2 ^ 31 \<Longrightarrow> unat (word_of_int x :: size_t) = nat x"
  by (simp add: unat_eq_nat_uint uint_word_of_int)

context block_allocator begin

lemma xfree_new: "rep w (H(p \<mapsto> bs)) \<Longrightarrow> H p = None \<Longrightarrow> rep (vsc_xfree a p w) H"
  using xfree_spec [of w "H(p \<mapsto> bs)" p] by (simp add: fun_upd_idem)

lemma cstrtowstra_spec:
  assumes "rep w H" "api_ok api" "2 ^ 33 \<le> limit" "limit \<le> 2 ^ 64"
  obtains r w' where "vsc_cstrtowstra api s a w = Some (r, None, w')" "r < 0" "rep w' H"
    | p wide n w' bs where "vsc_cstrtowstra api s a w = Some (0, Some (p, wide, n), w')" "p \<noteq> NULL" "H p = None" "rep w' (H(p \<mapsto> bs))"
proof (cases "INT_MAX \<le> strlen s + 1")
  case True
  then show ?thesis using that(1) assms(1) by (simp add: vsc_cstrtowstra_def VSC_ERROR_def)
next
  case False
  obtain x b e where x: "MultiByteToWideChar api (s @ [0]) 0 = (x, b, e)" by (metis prod_cases3)
  have range: "0 \<le> x" "x < 2 ^ 31" using assms(2) x by (auto simp: api_ok_def dest!: spec [of _ "s @ [0]"] spec [of _ 0])
  show ?thesis
  proof (cases "x = 0")
    case True
    then show ?thesis using that(1) assms(1) False x by (simp add: vsc_cstrtowstra_def vsci_map_win32err_neg)
  next
    case x0: False
    have "unat (word_of_int x :: size_t) * unat (2 :: size_t) < limit" using range assms(3) by (simp add: unat_count)
    from xcalloc_spec [OF assms(1) this assms(4)] obtain p w1 bs where p: "vsc_xcalloc a (word_of_int x) 2 w = Some (p, w1)"
      "p = NULL \<and> rep w1 H \<or> p \<noteq> NULL \<and> H p = None \<and> rep w1 (H(p \<mapsto> bs))" by blast
    obtain y wide e' where y: "MultiByteToWideChar api (s @ [0]) x = (y, wide, e')" by (metis prod_cases3)
    consider "p = NULL" "rep w1 H" | "p \<noteq> NULL" "y = 0" "rep (vsc_xfree a p w1) H"
      | "p \<noteq> NULL" "y \<noteq> 0" "H p = None" "rep w1 (H(p \<mapsto> bs))"
      using p(2) by (cases "p = NULL"; cases "y = 0") (auto intro: xfree_new)
    then show ?thesis
    proof cases
      case 1
      then show ?thesis using that(1) False x0 by (simp add: vsc_cstrtowstra_def x p(1) VSC_ERROR_def)
    next
      case 2
      then show ?thesis using that(1) False x0 by (simp add: vsc_cstrtowstra_def x p(1) y vsci_map_win32err_neg)
    next
      case 3
      then show ?thesis using that(2) False x0 by (simp add: vsc_cstrtowstra_def x p(1) y)
    qed
  qed
qed

lemma fopena_win32_spec:
  assumes "rep w H" "api_ok api" "2 ^ 33 \<le> limit" "limit \<le> 2 ^ 64" "files_ok fs"
  shows "\<exists>r fp' w' s'. vsc_fopena_win32 api fs pathname mode fp a w s = Some (r, fp', w', s') \<and> rep w' H \<and>
    (r < 0 \<and> fp' = fp \<or> r = 0 \<and> fp' \<noteq> None)"
proof (rule cstrtowstra_spec [OF assms(1-4), of pathname])
  fix r w' assume "vsc_cstrtowstra api pathname a w = Some (r, None, w')" "r < 0" "rep w' H"
  then show ?thesis by (simp add: vsc_fopena_win32_def)
next
  fix p path n w1 bs
  assume p: "vsc_cstrtowstra api pathname a w = Some (0, Some (p, path, n), w1)" "p \<noteq> NULL" "H p = None" "rep w1 (H(p \<mapsto> bs))"
  show ?thesis
  proof (rule cstrtowstra_spec [OF p(4) assms(2-4), of mode])
    fix r w' assume "vsc_cstrtowstra api mode a w1 = Some (r, None, w')" "r < 0" "rep w' (H(p \<mapsto> bs))"
    then show ?thesis using p xfree_new by (simp add: vsc_fopena_win32_def)
  next
    fix q wide n' w2 bs'
    assume q: "vsc_cstrtowstra api mode a w1 = Some (0, Some (q, wide, n'), w2)" "q \<noteq> NULL" "(H(p \<mapsto> bs)) q = None"
      "rep w2 (H(p \<mapsto> bs, q \<mapsto> bs'))"
    have "rep (vsc_xfree a p (vsc_xfree a q w2)) H" using xfree_new [OF xfree_new [OF q(4,3)] p(3)] .
    moreover obtain f e s' where f: "wfopen fs (until_nul path) (until_nul wide) s = (f, e, s')" by (metis prod_cases3)
    moreover have "VSC_ERROR e < 0" if "f = None"
      using assms(5) f that VSC_ERROR_neg unfolding files_ok_def by blast
    ultimately show ?thesis
      using p q by (cases f) (simp_all add: vsc_fopena_win32_def Let_def)
  qed
qed

lemma chdira_win32_spec:
  assumes "rep w H" "api_ok api" "2 ^ 33 \<le> limit" "limit \<le> 2 ^ 64"
  shows "\<exists>r w' s'. vsc_chdira_win32 api fs path a w s = Some (r, w', s') \<and> rep w' H \<and> r \<le> 0"
proof (rule cstrtowstra_spec [OF assms, of path])
  fix r w' assume "vsc_cstrtowstra api path a w = Some (r, None, w')" "r < 0" "rep w' H"
  then show ?thesis by (simp add: vsc_chdira_win32_def)
next
  fix p wide n w1 bs
  assume p: "vsc_cstrtowstra api path a w = Some (0, Some (p, wide, n), w1)" "p \<noteq> NULL" "H p = None" "rep w1 (H(p \<mapsto> bs))"
  obtain ok e s' where "SetCurrentDirectoryW fs (until_nul wide) s = (ok, e, s')" by (metis prod_cases3)
  then show ?thesis
    using p xfree_new [OF p(4,3)] less_imp_le [OF vsci_map_win32err_neg] by (simp add: vsc_chdira_win32_def)
qed

lemma wstrtocstra_spec:
  assumes "rep w H" "api_ok api" "2 ^ 33 \<le> limit" "limit \<le> 2 ^ 64"
  obtains r w' where "vsc_wstrtocstra api ws s a w = Some (r, None, w')" "r < 0" "rep w' H"
    | p bytes n w' bs where "vsc_wstrtocstra api ws s a w = Some (0, Some (p, bytes, n), w')" "p \<noteq> NULL" "H p = None" "rep w' (H(p \<mapsto> bs))"
    | r p w' bs where "vsc_wstrtocstra api ws s a w = Some (r, None, vsc_xfree a s w')" "r < 0" "H p = None" "rep w' (H(p \<mapsto> bs))"
        "conversion_fails api ws"
proof (cases "INT_MAX \<le> of_nat (length ws) + 1")
  case True
  then show ?thesis using that(1) assms(1) by (simp add: vsc_wstrtocstra_def VSC_ERROR_def)
next
  case False
  obtain x b e where x: "WideCharToMultiByte api (ws @ [0]) 0 = (x, b, e)" by (metis prod_cases3)
  obtain y bytes e' where y: "WideCharToMultiByte api (ws @ [0]) x = (y, bytes, e')" by (metis prod_cases3)
  have api: "0 \<le> x" "x < 2 ^ 31"
    using assms(2) x by (auto simp: api_ok_def dest!: spec [of _ "ws @ [0]"] spec [of _ 0])
  show ?thesis
  proof (cases "x = 0")
    case True
    then show ?thesis using that(1) assms(1) False x by (simp add: vsc_wstrtocstra_def vsci_map_win32err_neg)
  next
    case x0: False
    have "unat (word_of_int x :: size_t) * unat (1 :: size_t) < limit" using api assms(3) by (simp add: unat_count)
    from xcalloc_spec [OF assms(1) this assms(4)] obtain p w1 bs where p: "vsc_xcalloc a (word_of_int x) 1 w = Some (p, w1)"
      "p = NULL \<and> rep w1 H \<or> p \<noteq> NULL \<and> H p = None \<and> rep w1 (H(p \<mapsto> bs))" by blast
    consider "p = NULL" | "p \<noteq> NULL" "y \<noteq> 0" | "p \<noteq> NULL" "y = 0" by blast
    then show ?thesis
    proof cases
      case 1
      then show ?thesis using that(1) p False x0 by (simp add: vsc_wstrtocstra_def x VSC_ERROR_def)
    next
      case 2
      then have "vsc_wstrtocstra api ws s a w = Some (0, Some (p, bytes, word_of_int y), w1)"
        using p False x0 by (simp add: vsc_wstrtocstra_def x y)
      then show ?thesis using that(2) p(2) 2 by blast
    next
      case 3
      then have "vsc_wstrtocstra api ws s a w = Some (vsci_map_win32err e', None, vsc_xfree a s w1)"
        using p False x0 by (simp add: vsc_wstrtocstra_def x y)
      moreover have "conversion_fails api ws" using 3 x0 by (simp add: conversion_fails_def x y)
      ultimately show ?thesis using that(3) p(2) 3 vsci_map_win32err_neg by blast
    qed
  qed
qed

text \<open>Both temporary strings are freed; one of them may not exist.\<close>

lemma finish_spec:
  assumes "rep w H'" "p \<noteq> NULL" "H' p = Some bs" "q = NULL \<or> q \<noteq> p \<and> q \<in> dom H'"
  obtains w' where "finish a (x, e) r q p w = (if x = 0 then vsci_map_win32err e else r, w')"
    "rep w' ((if q = NULL then H' else H'(q := None))(p := None))"
proof (cases "q = NULL")
  case True
  have "rep (vsc_xfree a p w) (H'(p := None))" using assms(3) by (intro xfree_spec [OF assms(1)]) auto
  then show ?thesis using that True assms(2) by (simp add: finish_def Let_def)
next
  case False
  have "rep (vsc_xfree a q w) (H'(q := None))" using assms(4) False by (intro xfree_spec [OF assms(1)]) auto
  then have "rep (vsc_xfree a p (vsc_xfree a q w)) (H'(q := None, p := None))"
    by (rule xfree_spec) (use assms(3,4) False in auto)
  then show ?thesis using that False assms(2) by (simp add: finish_def Let_def)
qed

lemma searchpatha_win32_spec:
  assumes "rep w H" "api_ok api" "2 ^ 33 \<le> limit" "limit \<le> 2 ^ 64"
  obtains r w' where "vsc_searchpatha_win32 api f v a w = Some (r, None, w')" "r < 0" "rep w' H"
    | p bytes n w' bs where "vsc_searchpatha_win32 api f v a w = Some (0, Some (p, bytes, n), w')" "H p = None" "rep w' (H(p \<mapsto> bs))"
    | r p q t w' b bs bt where
        "vsc_searchpatha_win32 api f v a w = Some (r, None, vsc_xfree a p (vsc_xfree a q (vsc_xfree a v w')))" "r < 0"
        "{p, q, t} \<inter> dom H = {}" "distinct [p, q, t]" "rep w' (H(p \<mapsto> b, q \<mapsto> bs, t \<mapsto> bt))" "\<exists>ws. conversion_fails api ws"
proof (rule cstrtowstra_spec [OF assms, of f])
  fix r w' assume "vsc_cstrtowstra api f a w = Some (r, None, w')" "r < 0" "rep w' H"
  then show ?thesis using that(1) by (simp add: vsc_searchpatha_win32_def)
next
  fix p wide n w1 b assume p: "vsc_cstrtowstra api f a w = Some (0, Some (p, wide, n), w1)" "p \<noteq> NULL" "H p = None" "rep w1 (H(p \<mapsto> b))"
  obtain x z e where x: "SearchPathW api (until_nul wide) 0 = (x, z, e)" by (metis prod_cases3)
  have one: "\<exists>w'. finish a (x, e) r NULL p w2 = (if x = 0 then vsci_map_win32err e else r, w') \<and> rep w' H"
    if "rep w2 (H(p \<mapsto> b))" for w2 x e r
    using finish_spec [OF that p(2), of b NULL x e r] p(3) by (force simp: fun_upd_idem)
  show ?thesis
  proof (cases "x = 0")
    case True
    then show ?thesis using that(1) one [OF p(4), of 0 e 0] p by (auto simp: vsc_searchpatha_win32_def x vsci_map_win32err_neg)
  next
    case x0: False
    have "unat x < 2 ^ 32" using unsigned_less [of x] by simp
    then have "unat (ucast x :: size_t) * unat (2 :: size_t) < limit"
      using assms(3) by (simp add: unsigned_ucast_eq take_bit_nat_eq_self)
    from xcalloc_spec [OF p(4) this assms(4)] obtain q w2 bs where q: "vsc_xcalloc a (ucast x) 2 w1 = Some (q, w2)"
      "q = NULL \<and> rep w2 (H(p \<mapsto> b)) \<or> q \<noteq> NULL \<and> (H(p \<mapsto> b)) q = None \<and> rep w2 (H(p \<mapsto> b, q \<mapsto> bs))" by blast
    show ?thesis
    proof (cases "q = NULL")
      case True
      then show ?thesis
        using that(1) one [of w2 x e "VSC_ERROR ENOMEM"] x0 p q by (auto simp: vsc_searchpatha_win32_def x VSC_ERROR_def)
    next
      case False
      then have q2: "(H(p \<mapsto> b)) q = None" "rep w2 (H(p \<mapsto> b, q \<mapsto> bs))" "q \<noteq> p" "H q = None" using q(2) by (auto split: if_splits)
      have two: "\<exists>w'. finish a (x, e) r q p w3 = (if x = 0 then vsci_map_win32err e else r, w') \<and> rep w' H'"
        if "rep w3 (H'(p \<mapsto> b, q \<mapsto> bs))" "H' p = None" "H' q = None" for w3 x e r H'
        using finish_spec [OF that(1) p(2), of b q x e r] that(2,3) q2(3) False by (force simp: fun_upd_idem fun_upd_twist)
      obtain y path e' where y: "SearchPathW api (until_nul wide) x = (y, path, e')" by (metis prod_cases3)
      show ?thesis
      proof (cases "y = 0")
        case True
        then show ?thesis
          using that(1) two [OF q2(2) p(3) q2(4), of 0 e' 0] x0 p(1) q(1) False
          by (auto simp: vsc_searchpatha_win32_def x y vsci_map_win32err_neg)
      next
        case y0: False
        show ?thesis
        proof (rule wstrtocstra_spec [OF q2(2) assms(2-4), of "until_nul path" v])
          fix r w' assume r: "vsc_wstrtocstra api (until_nul path) v a w2 = Some (r, None, w')" "r < 0" "rep w' (H(p \<mapsto> b, q \<mapsto> bs))"
          then show ?thesis
            using that(1) two [OF r(3) p(3) q2(4), of y e' r] x0 y0 p(1) q(1) False by (auto simp: vsc_searchpatha_win32_def x y)
        next
          fix t bytes n' w3 bs' assume t: "vsc_wstrtocstra api (until_nul path) v a w2 = Some (0, Some (t, bytes, n'), w3)"
            "t \<noteq> NULL" "(H(p \<mapsto> b, q \<mapsto> bs)) t = None" "rep w3 (H(p \<mapsto> b, q \<mapsto> bs, t \<mapsto> bs'))"
          then have tm: "t \<noteq> p" "t \<noteq> q" "H t = None" by (auto split: if_splits)
          have "rep w3 (H(t \<mapsto> bs', p \<mapsto> b, q \<mapsto> bs))" using t(4) tm by (simp add: fun_upd_twist)
          from two [OF this, of y e' 0] show ?thesis
            using that(2) t(1) tm p(1,3) q(1) q2(4) x0 y0 False by (auto simp: vsc_searchpatha_win32_def x y)
        next
          fix r t w3 bt assume t: "vsc_wstrtocstra api (until_nul path) v a w2 = Some (r, None, vsc_xfree a v w3)" "r < 0"
            "(H(p \<mapsto> b, q \<mapsto> bs)) t = None" "rep w3 (H(p \<mapsto> b, q \<mapsto> bs, t \<mapsto> bt))" "conversion_fails api (until_nul path)"
          have run: "vsc_searchpatha_win32 api f v a w = Some (r, None, vsc_xfree a p (vsc_xfree a q (vsc_xfree a v w3)))"
            using t(1) p(1,2) q(1) x0 y0 False by (simp add: vsc_searchpatha_win32_def x y finish_def Let_def)
          have fresh: "{p, q, t} \<inter> dom H = {}" "distinct [p, q, t]" using t(3) p(3) q2(3,4) by (auto split: if_splits)
          have "\<exists>ws. conversion_fails api ws" using t(5) by blast
          with run t(2) fresh t(4) show ?thesis by (rule that(3))
        qed
      qed
    qed
  qed
qed

end


text \<open>An API and a file system with one directory, for the witness.\<close>

definition sample_api :: winapi where
  "sample_api = \<lparr>MultiByteToWideChar = (\<lambda>s n. (int (length s mod 0x1000) + 1, map ucast s, 0)),
     WideCharToMultiByte = (\<lambda>s n. (int (length s mod 0x1000) + 1, map ucast s, 0)),
     SearchPathW = (\<lambda>s n. (3 + of_nat (length s), [0x43, 0x3A, 0x5C] @ s, 0))\<rparr>"

definition sample_files :: "uint16 list winfiles" where
  "sample_files = \<lparr>wfopen = (\<lambda>p m s. (None, ENOENT, s)), SetCurrentDirectoryW = (\<lambda>p s. (True, 0, p))\<rparr>"


end
