(* ===== verification/Cpp.thy ===== *)
theory Cpp
  imports Strings Colour
begin

text \<open>
  The code of the C++ bindings that is not a name for a function of the library
  (\<open>vscpplib.hpp\<close>, \<open>colour.cpp\<close>): splitting, comparison of colours, the deleter of blocks.
\<close>

section \<open>Splitting\<close>

text \<open>
  \<open>std::find\<close> over a range of characters: the distance to the first \<open>c\<close>, or to the end of the range.
\<close>

definition std_find :: "byte list \<Rightarrow> byte \<Rightarrow> nat" where
  "std_find rest c = length (takeWhile (\<lambda>x. x \<noteq> c) rest)"

lemma std_find_le: "std_find rest c \<le> length rest"
  by (simp add: std_find_def length_takeWhile_le)

text \<open>
  A callback without a result counts as one that returns true. The iterators are pointers into a
  range, so the test of \<open>next\<close> always holds.
\<close>

function for_each_delim :: "byte list \<Rightarrow> byte \<Rightarrow> (byte list \<Rightarrow> 'u \<Rightarrow> bool \<times> 'u) \<Rightarrow> 'u \<Rightarrow> bool \<times> 'u" where
  "for_each_delim rest delim f u =
     (if rest = [] then (True, u)
      else
        let nxt = std_find rest delim;
            (ok, u) = f (take nxt rest) u
        in if \<not> ok then (False, u)
           else for_each_delim (drop (if nxt \<noteq> length rest then nxt + 1 else nxt) rest) delim f u)"
  by pat_completeness auto
termination
  by (relation "measure (\<lambda>(rest, _). length rest)") (auto simp: std_find_def)

declare for_each_delim.simps [simp del]

section \<open>Colours and blocks\<close>

definition colour_equal :: "VscColour32 \<Rightarrow> VscColour32 \<Rightarrow> bool" where
  "colour_equal x y \<longleftrightarrow> red x = red y \<and> green x = green y \<and> blue x = blue y \<and> alpha x = alpha y"

definition vsc_deleter :: "libc \<Rightarrow> addr \<Rightarrow> heap world \<Rightarrow> heap world" where
  "vsc_deleter c p w = vsc_free c p w"

section \<open>Facts\<close>

lemma colour_equal_iff: "colour_equal x y \<longleftrightarrow> x = y"
  by (cases x; cases y) (auto simp: colour_equal_def)

lemma std_find_memchr: "(case memchr rest c of None \<Rightarrow> length rest | Some n \<Rightarrow> n) = std_find rest c"
  by (induction rest) (auto simp: std_find_def split: option.splits)

text \<open>
  The C++ function is the loop of the one in C, for callbacks that report the end with a status
  other than 0. The C function goes on to an empty last field after a trailing delimiter.
\<close>

lemma for_each_delim_loop:
  assumes "e \<noteq> 0"
  shows "for_each_loop s c (\<lambda>field u. case f field u of (ok, u) \<Rightarrow> (if ok then 0 else e, u)) u =
    (case for_each_delim s c f u of (ok, u) \<Rightarrow> (if ok then 0 else e, u))"
proof (induction s c f u rule: for_each_delim.induct)
  case (1 rest c f u)
  show ?case
  proof (cases "rest = []")
    case False
    let ?n = "std_find rest c"
    let ?rest = "drop (if ?n \<noteq> length rest then ?n + 1 else ?n) rest"
    obtain ok v where f: "f (take ?n rest) u = (ok, v)" by (cases "f (take ?n rest) u")
    let ?g = "\<lambda>field u. case f field u of (ok, u) \<Rightarrow> (if ok then 0 else e, u)"
    have g: "?g (take ?n rest) u = (if ok then 0 else e, v)" by (simp add: f)
    have c: "for_each_loop rest c ?g u = (if ok then for_each_loop ?rest c ?g v else (e, v))"
      using False assms by (subst for_each_loop.simps) (simp only: std_find_memchr Let_def g prod.case if_False if_True split: if_split, simp)
    have cpp: "for_each_delim rest c f u = (if ok then for_each_delim ?rest c f v else (False, v))"
      using False by (subst for_each_delim.simps) (simp only: Let_def f prod.case if_False, simp)
    show ?thesis
    proof (cases ok)
      case True
      then have "for_each_loop ?rest c ?g v = (case for_each_delim ?rest c f v of (ok, u) \<Rightarrow> (if ok then 0 else e, u))"
        using 1 [OF False refl f [symmetric]] by simp
      then show ?thesis using True by (simp only: c cpp if_True)
    qed (simp add: c cpp)
  qed (simp add: for_each_loop.simps [of "[]"] for_each_delim.simps [of "[]"])
qed

text \<open>A callback that keeps the fields: the two functions differ on a trailing delimiter, and only there.\<close>

lemma for_each_delim_fields:
  "snd (for_each_delim s c (\<lambda>field fs. (True, fs @ [field])) []) =
     (if last (split_fields c s) = [] then butlast (split_fields c s) else split_fields c s)"
proof -
  have r: "run_fields (\<lambda>field fs. (0, fs @ [field])) xs fs = (0, fs @ xs)" for xs and fs :: "byte list list"
    by (induction xs arbitrary: fs) simp_all
  have "for_each_loop s c (\<lambda>field fs. (0, fs @ [field])) [] =
      (case for_each_delim s c (\<lambda>field fs. (True, fs @ [field])) [] of (ok, u) \<Rightarrow> (if ok then 0 else 1, u))"
    using for_each_delim_loop [of 1 s c "\<lambda>field fs. (True, fs @ [field])" "[]"] by simp
  then show ?thesis
    by (simp add: for_each_loop_fields r split: prod.splits if_splits)
qed

lemma for_each_delim_trailing:
  "snd (for_each_delim [97, 44] 44 (\<lambda>field fs. (True, fs @ [field])) []) = [[97]]"
  "snd (vsc_for_each_delim (Some [97, 44]) 44 (\<lambda>field fs. (0, fs @ [field])) []) = [[97], []]"
  by code_simp+

end
