(* ===== verification/TestSuite.thy ===== *)
theory TestSuite
  imports Hash Crc32 Uuid Colour Report
begin

text \<open>
  The expectations of the repository's tests (\<open>tests/hash.cpp\<close>, \<open>uuid.cpp\<close>, \<open>colour.cpp\<close>,
  \<open>string.cpp\<close>, \<open>memory.cpp\<close>, \<open>io.cpp\<close>, \<open>hashmap.cpp\<close>), evaluated on the definitions: what the
  tests check of the program holds of its model.
\<close>

section \<open>Checksums and hashes (hash.cpp)\<close>

definition iscsi_read :: "byte list" where
  "iscsi_read =
     [0x01, 0xc0, 0x00, 0x00, 0x00, 0x00, 0x00, 0x00, 0x00, 0x00, 0x00, 0x00, 0x00, 0x00, 0x00, 0x00,
      0x14, 0x00, 0x00, 0x00, 0x00, 0x00, 0x04, 0x00, 0x00, 0x00, 0x00, 0x14, 0x00, 0x00, 0x00, 0x18,
      0x28, 0x00, 0x00, 0x00, 0x00, 0x00, 0x00, 0x00, 0x02, 0x00, 0x00, 0x00, 0x00, 0x00, 0x00, 0x00]"

lemma test_crc32: "vsc_crc32 [] = 0" "vsc_crc32 (ascii ''123456789'') = 0xcbf43926"
  by code_simp+

lemma test_crc32c:
  "vsc_crc32c [] = 0" "vsc_crc32c (ascii ''123456789'') = 0xe3069283"
  "vsc_crc32c (replicate 32 0) = 0x8a9136aa" "vsc_crc32c (replicate 32 (- 1)) = 0x62a8ab43"
  "vsc_crc32c (map of_nat (rev [0..<32])) = 0x113fdb5c" "vsc_crc32c iscsi_read = 0xd9963a56"
  by code_simp+

lemma test_hash: "vsc_hash None 100 = VSC_INVALID_HASH" "vsc_hash_string None = VSC_INVALID_HASH"
  by code_simp+

section \<open>UUIDs (uuid.cpp)\<close>

definition uuid_flags :: "uint32 list" where
  "uuid_flags = [VSC_UUID_FORMAT_NORMAL, VSC_UUID_FORMAT_UPPER, VSC_UUID_FORMAT_NORMAL OR VSC_UUID_FORMAT_MS,
     VSC_UUID_FORMAT_UPPER OR VSC_UUID_FORMAT_MS, VSC_UUID_FORMAT_NORMAL OR VSC_UUID_FORMAT_COMPACT,
     VSC_UUID_FORMAT_UPPER OR VSC_UUID_FORMAT_COMPACT,
     VSC_UUID_FORMAT_NORMAL OR VSC_UUID_FORMAT_MS OR VSC_UUID_FORMAT_COMPACT,
     VSC_UUID_FORMAT_UPPER OR VSC_UUID_FORMAT_MS OR VSC_UUID_FORMAT_COMPACT]"

definition c_str :: "string \<Rightarrow> byte list" where
  "c_str s = ascii s @ [0]"

lemma test_uuid_nil:
  "map (vsc_uuid_format vsc_uuid_nil) uuid_flags = map c_str
     [''00000000-0000-0000-0000-000000000000'', ''00000000-0000-0000-0000-000000000000'',
      ''{00000000-0000-0000-0000-000000000000}'', ''{00000000-0000-0000-0000-000000000000}'',
      ''00000000000000000000000000000000'', ''00000000000000000000000000000000'',
      ''{00000000000000000000000000000000}'', ''{00000000000000000000000000000000}'']"
  by code_simp

lemma test_uuid_max:
  "map (vsc_uuid_format vsc_uuid_max) uuid_flags = map c_str
     [''ffffffff-ffff-ffff-ffff-ffffffffffff'', ''FFFFFFFF-FFFF-FFFF-FFFF-FFFFFFFFFFFF'',
      ''{ffffffff-ffff-ffff-ffff-ffffffffffff}'', ''{FFFFFFFF-FFFF-FFFF-FFFF-FFFFFFFFFFFF}'',
      ''ffffffffffffffffffffffffffffffff'', ''FFFFFFFFFFFFFFFFFFFFFFFFFFFFFFFF'',
      ''{ffffffffffffffffffffffffffffffff}'', ''{FFFFFFFFFFFFFFFFFFFFFFFFFFFFFFFF}'']"
  by code_simp

definition parse_and_format :: "string \<Rightarrow> int \<times> byte list option" where
  "parse_and_format s =
     (let (r, uuid) = vsc_uuid_parse (Some vsc_uuid_nil) (Some (ascii s))
      in (r, map_option (\<lambda>u. vsc_uuid_format u VSC_UUID_FORMAT_NORMAL) uuid))"

lemma test_uuid_parse:
  "list_all (\<lambda>s. parse_and_format s = (0, Some (c_str ''8580bb1c-eb80-4b92-9f39-91124e353018'')))
     [''8580bb1c-eb80-4b92-9f39-91124e353018'', ''8580BB1C-EB80-4B92-9F39-91124E353018'',
      ''{8580bb1c-eb80-4b92-9f39-91124e353018}'', ''{8580BB1C-EB80-4B92-9F39-91124E353018}'',
      ''8580bb1ceb804b929f3991124e353018'', ''8580BB1CEB804B929F3991124E353018'',
      ''{8580bb1ceb804b929f3991124e353018}'', ''{8580BB1CEB804B929F3991124E353018}'']"
  "list_all (\<lambda>s. fst (parse_and_format s) = VSC_ERROR EINVAL)
     [''00000000+0000+0000+0000+000000000000'', ''00000000+0000-0000-0000-000000000000'']"
  by code_simp+

section \<open>Strings (string.cpp)\<close>

definition arena :: "unit VscAllocator" where
  "arena = fixed_allocator 0x2000 0 16"

definition string_at :: "(addr \<times> byte list \<times> unit world) option \<Rightarrow> (bool \<times> byte list) option" where
  "string_at r = map_option (\<lambda>(p, bs, w). (p \<noteq> NULL, bs)) r"

definition some_path :: "byte list option list" where
  "some_path = map (\<lambda>s. Some (ascii s)) [''/some'', ''filesystem'', ''path'']"

lemma test_strjoin:
  "string_at (vsc_strjoina arena (Some (ascii ''/'')) (some_path @ [None]) sample_world) =
     Some (True, c_str ''/some/filesystem/path'')"
  "string_at (vsc_strjoina arena None (some_path @ [None]) sample_world) = Some (False, [])"
  "string_at (vsc_strjoina arena (Some (ascii ''whatever'')) [None] sample_world) = Some (True, [0])"
  by code_simp+

lemma test_strnjoin:
  "string_at (vsc_strnjoina arena (Some (ascii ''/'')) some_path sample_world) = Some (True, c_str ''/some/filesystem/path'')"
  "string_at (vsc_strnjoina arena None some_path sample_world) = Some (False, [])"
  "string_at (vsc_strnjoina arena (Some (ascii ''whatever'')) [] sample_world) = Some (True, [0])"
  by code_simp+

lemma test_strdupr: "string_at (vsc_strdupra (ascii ''hello, world'') arena sample_world) = Some (True, c_str ''hello, world'')"
  by code_simp

definition collect :: "byte list \<Rightarrow> byte list list \<Rightarrow> int \<times> byte list list" where
  "collect tok acc = (0, acc @ [tok])"

definition newline :: "byte list \<Rightarrow> byte list" where
  "newline = map (\<lambda>c. if c = 0x7C then 10 else c)"

text \<open>A bar stands for the newline of the tests' strings.\<close>

definition fields_of :: "string \<Rightarrow> int \<times> byte list list" where
  "fields_of s = vsc_for_each_delim (Some (newline (ascii s))) 0x2C collect []"

definition toks :: "string list \<Rightarrow> byte list list" where
  "toks ss = map (\<lambda>s. newline (ascii s)) ss"

lemma test_for_each_delim:
  "fields_of ''a,b,c,d,,,sdf|fds,d'' = (0, toks [''a'', ''b'', ''c'', ''d'', '''', '''', ''sdf|fds'', ''d''])"
  "fields_of ''a,b,c,d,,,sdf|fds,'' = (0, toks [''a'', ''b'', ''c'', ''d'', '''', '''', ''sdf|fds'', ''''])"
  "fields_of '',b,c,d,,,sdf|fds,'' = (0, toks ['''', ''b'', ''c'', ''d'', '''', '''', ''sdf|fds'', ''''])"
  by code_simp+

lemma test_for_each_delim_status:
  "vsc_for_each_delim (Some (ascii ''a,b,c,d'')) 0x2C
     (\<lambda>tok acc. if tok = ascii ''c'' then (VSC_ERROR_EOF, acc) else collect tok acc) [] =
   (VSC_ERROR_EOF, toks [''a'', ''b''])"
  by code_simp

section \<open>Memory (memory.cpp)\<close>

lemma test_ctz: "list_all (\<lambda>i. vsc_ctz (push_bit i 1) = of_nat i) [0..<31]"
  by code_simp

lemma test_align:
  "vsc_align 16 16 0 (- 1) = (0, 0, - 1)" "fst (vsc_align 16 1234 17 (- 1)) = 32"
  "fst (snd (vsc_align 16 1234 17 (- 1))) = 32"
  by code_simp+

section \<open>Error messages (io.cpp)\<close>

definition memory_file :: FILE where
  "memory_file = \<lparr>fdata = [], fpos = 0, froom = 1023, fbad = None, fnoseek = None, fdesc = 3, feof = False, ferror = False\<rparr>"

lemma test_fperror:
  "let strerror_r = (\<lambda>e. (0, ascii ''Cannot allocate memory''));
       fp = snd (vsc_fperror strerror_r 0 memory_file VSC_ERROR_EOF (Some (ascii ''something 10'')));
       fp = snd (vsc_fperror strerror_r 0 fp (VSC_ERROR ENOMEM) (Some (ascii ''something dead'')));
       fp = snd (vsc_fperror strerror_r 0 fp (VSC_MKERR 76 69 76) (Some (ascii ''something funny'')));
       fp = snd (vsc_fperror strerror_r 0 fp (VSC_MKERR 0xFE 0xEE 76) (Some (ascii ''something sensitive'')))
   in fdata fp = ascii ''something 10: End of file'' @ [10] @ ascii ''something dead: Cannot allocate memory'' @ [10] @
     ascii ''something funny: Unknown error '' @ [0x27] @ ascii '' LEL'' @ [0x27, 10] @
     ascii ''something sensitive: Unknown error 0x20feee4c'' @ [10]"
  by code_simp

section \<open>Colours (colour.cpp)\<close>

definition rgba :: "byte \<Rightarrow> byte \<Rightarrow> byte \<Rightarrow> byte \<Rightarrow> VscColour32" where
  "rgba r g b a = \<lparr>red = r, green = g, blue = b, alpha = a\<rparr>"

text \<open>Each pixel with its colour; the pixel is packed from it and unpacks to it.\<close>

lemma test_rgb565:
  "list_all (\<lambda>(p, c). vsc_colour_pack_rgb565 c = p \<and> vsc_colour_unpack_rgb565 p = c)
     [(0x0000, rgba 0 0 0 0xFF), (0xF800, rgba 0xFF 0 0 0xFF), (0x07E0, rgba 0 0xFF 0 0xFF),
      (0x001F, rgba 0 0 0xFF 0xFF), (0xFFFF, rgba 0xFF 0xFF 0xFF 0xFF)]"
  by code_simp

lemma test_argb1555:
  "list_all (\<lambda>(p, c). vsc_colour_pack_argb1555 c = p \<and> vsc_colour_unpack_argb1555 p = c)
     [(0x0000, rgba 0 0 0 0), (0x8000, rgba 0 0 0 0xFF), (0x7C00, rgba 0xFF 0 0 0),
      (0x03E0, rgba 0 0xFF 0 0), (0x001F, rgba 0 0 0xFF 0), (0xFFFF, rgba 0xFF 0xFF 0xFF 0xFF)]"
  by code_simp

lemma test_xrgb1555:
  "list_all (\<lambda>(p, c). vsc_colour_pack_xrgb1555 c = p \<and> vsc_colour_unpack_xrgb1555 p = c)
     [(0x8000, rgba 0 0 0 0xFF), (0xFC00, rgba 0xFF 0 0 0xFF), (0x83E0, rgba 0 0xFF 0 0xFF),
      (0x801F, rgba 0 0 0xFF 0xFF), (0xFFFF, rgba 0xFF 0xFF 0xFF 0xFF)]"
  by code_simp

lemma test_argb8888:
  "list_all (\<lambda>(p, c). vsc_colour_pack_argb8888 c = p \<and> vsc_colour_unpack_argb8888 p = c)
     [(0x00000000, rgba 0 0 0 0), (0xFF000000, rgba 0 0 0 0xFF), (0x00FF0000, rgba 0xFF 0 0 0),
      (0x0000FF00, rgba 0 0xFF 0 0), (0x000000FF, rgba 0 0 0xFF 0), (0xFFFFFFFF, rgba 0xFF 0xFF 0xFF 0xFF)]"
  by code_simp

lemma test_xrgb8888:
  "list_all (\<lambda>(p, q, c). vsc_colour_pack_xrgb8888 (c\<lparr>alpha := 0\<rparr>) = q \<and> vsc_colour_unpack_xrgb8888 p = c)
     [(0x00000000, 0xFF000000, rgba 0 0 0 0xFF), (0xFF000000, 0xFF000000, rgba 0 0 0 0xFF),
      (0x00FF0000, 0xFFFF0000, rgba 0xFF 0 0 0xFF), (0x0000FF00, 0xFF00FF00, rgba 0 0xFF 0 0xFF),
      (0x000000FF, 0xFF0000FF, rgba 0 0 0xFF 0xFF), (0xFFFFFFFF, 0xFFFFFFFF, rgba 0xFF 0xFF 0xFF 0xFF)]"
  by code_simp

section \<open>The hash map (hashmap.cpp)\<close>

text \<open>
  The callbacks of the tests read strings through their arguments; \<open>str\<close> is the string at an
  address. The addresses of the keys are their characters, those of the values 256 above;
  \<open>0x1FF\<close> is the string \<open>C++\<close>.
\<close>

definition hashproc32 :: "(addr \<Rightarrow> byte list) \<Rightarrow> VscHashMapHashProc" where
  "hashproc32 str k = (if k = NULL then 0 else ucast (vsc_crc32c (str k)))"

definition compareproc :: "(addr \<Rightarrow> byte list) \<Rightarrow> VscHashMapCompareProc" where
  "compareproc str a b =
     (if a = b then 1
      else if a = NULL \<or> b = NULL then 0
      else if str a = str b then 1 else 0)"

definition letters :: "addr \<Rightarrow> byte list" where
  "letters p = [ucast p]"

definition test_map :: "unit VscHashMap" where
  "test_map = new_hashmap (hashproc32 letters) (compareproc letters) arena"

fun insert_all :: "(addr \<times> addr) list \<Rightarrow> unit VscHashMap \<times> unit world \<Rightarrow> int list \<times> unit VscHashMap \<times> unit world" where
  "insert_all [] (hm, w) = ([], hm, w)"
| "insert_all ((k, v) # kvs) (hm, w) =
     (case vsc_hashmap_insert hm k v w of
        None \<Rightarrow> ([], hm, w)
      | Some (r, hm, w) \<Rightarrow> let (rs, s) = insert_all kvs (hm, w) in (r # rs, s))"

definition resized_map :: "size_t \<Rightarrow> unit VscHashMap \<times> unit world" where
  "resized_map n = (case vsc_hashmap_resize test_map n sample_world of None \<Rightarrow> (test_map, sample_world) | Some (r, s) \<Rightarrow> s)"

lemma test_hashmap:
  "let hm = snd (vsc_hashmap_set_resize_policy (fst (resized_map 8)) VSC_HASHMAP_RESIZE_NONE);
       (rs, hm, w) = insert_all [(0x61, 0x141), (0x62, 0x142), (0x63, 0x143), (0x64, 0x144), (0x65, 0x145), (0x63, 0x1FF)]
         (hm, sample_world);
       found = (vsc_hashmap_find hm 0x61, vsc_hashmap_find_by_hash hm (vsc_hashmap_hash hm 0x61));
       (v1, hm) = vsc_hashmap_remove hm 0x64;
       (v2, hm) = vsc_hashmap_remove hm 0x61
   in rs = replicate 6 0 \<and> found = (0x141, 0x141) \<and> v1 = 0x144 \<and> v2 = 0x141 \<and> vsc_hashmap_capacity hm = 8 \<and>
     map (\<lambda>b. (hash b, key b, val b)) (buckets hm) =
       [(VSC_INVALID_HASH, NULL, NULL), (105567279, 0x65, 0x145), (VSC_INVALID_HASH, NULL, NULL), (VSC_INVALID_HASH, NULL, NULL),
        (3531649220, 0x62, 0x142), (VSC_INVALID_HASH, NULL, NULL), (VSC_INVALID_HASH, NULL, NULL), (552285127, 0x63, 0x1FF)]"
  by code_simp

lemma test_hashmap_disallow_resize:
  "let hm = snd (vsc_hashmap_set_resize_policy (fst (resized_map 2)) VSC_HASHMAP_RESIZE_NONE);
       (rs, hm, w) = insert_all [(0x61, NULL), (0x62, NULL), (0x63, NULL)] (hm, sample_world);
       hm = snd (vsc_hashmap_set_resize_policy hm VSC_HASHMAP_RESIZE_LOAD_FACTOR);
       (ss, hm, w) = insert_all [(0x63, NULL)] (hm, w)
   in rs = [0, 0, VSC_ERROR ENOSPC] \<and> ss = [0]"
  by code_simp

lemma test_hashmap_check_size:
  "let (rs, hm, w) = insert_all [(0x61, NULL), (0x62, NULL)] (resized_map 2);
       (ss, hm', w') = insert_all [(0x62, 1)] (hm, w)
   in rs = [0, 0] \<and> vsc_hashmap_size hm = 2 \<and> ss = [0] \<and> vsc_hashmap_size hm' = 2"
  by code_simp

lemma test_hashmap_null_keys:
  "let (rs, hm, w) = insert_all [(0x61, 0x141), (NULL, 0x1FE)] (test_map, sample_world)
   in rs = [0, 0] \<and> vsc_hashmap_find hm 0x61 = 0x141 \<and> vsc_hashmap_find hm NULL = 0x1FE"
  by code_simp

end
