(* ===== verification/Spec2Isabelle.thy ===== *)
theory Spec2Isabelle
  imports Hash HashmapRun AllocatorRun Xxh3Run Crc32 Uuid Colour Wav Xxh3Build XxhState SearchPath Report EnumGroups Files WindowsFiles Cpp TestSuite
begin

text \<open>
  vsclib is a C support library (\<open>src/vsclib\<close>): allocators, a hash map, hashes and checksums,
  strings, streams and binary files, UUIDs, colours, and wrappers of the operating system.
  This development models its code on the LP64 platform (\<open>size_t\<close> and pointers of 64 bits,
  little-endian, POSIX), with the branches for Windows where they do something else, and proves
  what each part promises.

  The parts and how they interact

  \<^item> \<open>Prelude\<close> holds the machine types and generic lemmas. \<open>Platform\<close> is \<open>macros.h\<close>, \<open>error.h\<close>,
    \<open>platform.h\<close>, the inline functions of \<open>mem.h\<close> and \<open>ctz.c\<close>: packing, alignment, error codes.
    Every other theory uses them.
  \<^item> Memory. \<open>Memory\<close> is the allocator interface of \<open>memdef.h\<close> (a record of callbacks over a
    \<open>world\<close>, which has the bytes of memory and the state of the allocator) and \<open>memory.c\<close>:
    \<open>vsc_xalloc_ex\<close> with the emulated reallocation, \<open>vsc_align\<close>, \<open>vsc_block_xalloc\<close>.
    \<open>Allocator\<close> is the system allocator (\<open>allocator.cpp\<close>, \<open>allocator_internal.h\<close>, \<open>sysmem.c\<close>)
    over a C heap; \<open>AllocatorCorrect\<close> proves that it implements a finite map from pointers to
    contents: the locale \<open>block_store\<close> for blocks of any alignment (interpretation \<open>sysblocks\<close>), and
    \<open>block_allocator\<close>, which extends it, for allocators whose blocks all may be resized (\<open>sysalloc\<close>, for
    blocks at multiples of 16). Every component that allocates is proved against that
    contract and gets its facts for the system allocator from the interpretation.
  \<^item> The hash map. \<open>Hashmap\<close> is \<open>hashmap.c\<close>: one function per operation, on a record with the
    fields of \<open>VscHashMap\<close>, the buckets as a list. \<open>HashmapCorrect\<close> has the invariant
    \<open>buckets_ok\<close> and the locale \<open>key_procs\<close>, the contract of the callbacks; \<open>HashmapSpec\<close> states
    the operations as those of the finite map \<open>hashmap_abs\<close>. \<open>Hash\<close> is \<open>hash.c\<close>, the string
    callbacks and the map on the system allocator: it joins the hash map, XXH3 and the strings.
  \<^item> Runs. \<open>Runs\<close> has sequences of calls and the locale \<open>contract\<close>, which carries one step of a
    refinement over to whole runs. It is interpreted three times: \<open>HashmapRun\<close> for clients of the
    hash map, \<open>AllocatorRun\<close> for programs on the heap, \<open>Xxh3Run\<close> for sessions with a state of XXH3.
  \<^item> Hashes. \<open>Crc32\<close> is \<open>crc32.c\<close>, with the polynomial division as its reference and the locale
    \<open>crc_table\<close> for the two tables. \<open>Xxhash\<close> has the reads, rotations and the buffering that
    all hashes of \<open>xxhash.h\<close> share; \<open>Xxh32\<close> and \<open>Xxh64\<close> are the two old hashes; \<open>Xxh3\<close> is XXH3
    with 64 bits, \<open>Xxh128\<close> with 128 bits and the generation of secrets, \<open>Xxh3Stream\<close> the
    streaming interface. \<open>Xxh3Correct\<close> and \<open>Xxh3StreamCorrect\<close> prove the portable product, the
    irrelevance of \<open>XXH_SIZE_OPT\<close> and that streaming gives the one-shot hash, over the kernels
    as parameters. \<open>Xxh3Simd\<close> has the kernels for AVX512, AVX2, SSE2, NEON and VSX and the
    selection by \<open>XXH_VECTOR\<close>; \<open>Xxh3SimdCorrect\<close> proves that they give the hashes of the scalar
    kernels and \<open>Xxh3SimdStream\<close> that the streaming interfaces compiled for a target do so, too.
    \<open>Xxh3Target\<close> has the macros of a target and what the preprocessor makes of them: the byte order,
    the ways to read, write, swap, rotate and multiply, and the functions of XXH3 over those.
    \<open>Xxh3Build\<close> adds the kernels that the macros select over an instruction set, and the proof that on a
    target which its macros describe (locale \<open>described_target\<close>), of either byte order, XXH3 gives the hashes of
    the portable scalar code.
    \<open>XxhState\<close> is the creation, copying and freeing of states and their layout.
  \<^item> Strings and text. \<open>Strings\<close> is \<open>string.c\<close>, \<open>stpcpy.c\<close>, \<open>strcpy.c\<close>, \<open>strdup.c\<close>, \<open>strdupr.c\<close>,
    \<open>strjoin.c\<close> and \<open>for_each.c\<close>; \<open>Uuid\<close> is \<open>uuid.c\<close>; \<open>Report\<close> is \<open>vsprintfa.c\<close> and \<open>error.c\<close>.
  \<^item> Streams. \<open>Stdio\<close> is what the C library provides and the wrappers of \<open>stdio.c\<close>, \<open>fopena.c\<close>,
    \<open>chdir.c\<close> and \<open>fnullify.c\<close>; \<open>ByteIO\<close> is \<open>io.h\<close>; \<open>Wav\<close> is \<open>wav.c\<close>; \<open>Getline\<close> is \<open>getline.c\<close>;
    \<open>Freadall\<close> and \<open>FreadallCorrect\<close> are \<open>freadall.c\<close>. \<open>Files\<close> has the entry points on the
    system allocator and the clock of POSIX.
  \<^item> \<open>Colour\<close> is \<open>colour.c\<close>. \<open>SearchPath\<close> is \<open>searchpath.c\<close>, \<open>EnumGroups\<close> is \<open>enum_groups.c\<close>.
  \<^item> Windows. \<open>Windows\<close> is \<open>util_win32.c\<close>, the conversions of strings and
    \<open>searchpath_win32.c\<close>; \<open>WindowsFiles\<close> has the Windows branches of \<open>sysmem.c\<close>, \<open>fopena.c\<close>,
    \<open>chdir.c\<close> and \<open>time.c\<close>, and the proof that they free the strings they convert, but for one error
    path of the search, which the code leaves with a leak.
  \<^item> \<open>Cpp\<close> is what the C++ bindings add to the library.
  \<^item> \<open>TestSuite\<close> evaluates the definitions on the inputs of the repository's tests and has what the
    tests expect as lemmas.

  How the code is modelled

  A structure is a record with the names of its members, a \<open>w\<close>-bit integer is a \<open>w word\<close>, so that
  arithmetic wraps as in C; \<open>int\<close> statuses are \<open>int\<close>. A function that changes memory takes the
  \<open>world\<close> and returns it. An error is its negative status, an out parameter that was not written
  is \<open>None\<close>; a result \<open>None\<close> of a function as a whole is \<open>abort()\<close>, or a write outside a buffer,
  or, for the partial functions of \<open>Freadall\<close> and \<open>EnumGroups\<close>, a loop that does not
  end. The theorems on those functions say that they return. What the system does (where the C
  heap puts a block, what a descriptor is, the databases and the environment, the Windows API,
  the intrinsics of the compilers, \<open>vsnprintf\<close>) is a parameter; what it documents is a named
  hypothesis (\<open>places_ok\<close>, \<open>stream_ok\<close>, \<open>api_ok\<close>, \<open>vector_ok\<close>, \<open>described_target\<close>, \<open>instruction_set\<close> and their like), and each has an
  instance, on which the witnesses rest.

  What the lemmas show

  \<^item> Refinement of abstract states: the hash map is a finite map (insertion, lookup, removal,
    update, enumeration, growth, on success and on every error), the system allocator is a finite
    map of blocks, the block allocator lays out what was asked for. For the hash map, the heap and
    the states of XXH3 this holds of every sequence of calls that a client is allowed to make; what
    is not allowed (\<open>careful_step\<close>, \<open>heap_legal\<close>) is more than the documentation forbids exactly where
    the code departs from it, below. The sessions with a state of XXH3 have one exception (seed 0).
  \<^item> Equivalence with a reference: the CRCs with bitwise division, the portable product with the
    128-bit one, streaming with one-shot hashing, vector with scalar kernels.
  \<^item> Function: reading lines and whole streams, splitting and joining, formatting and parsing
    (round trips), WAV files, pixel formats, searching PATH, walking groups.
  \<^item> Safety: what is allocated is freed, nothing is written outside a buffer, sizes that would wrap
    around are refused.
  \<^item> Departures of the code from its documentation: in general, removal across the end of the hash
    map's array, the reallocation of blocks with a small alignment, the seed 0 of the 128-bit
    stream, the overflow in configuring load factors and the leak in \<open>vsc_wstrtocstra\<close>; on concrete
    inputs, shrinking, \<open>validate\<close>, the descriptor that \<open>vsc_fnullify\<close> leaves open, the Windows clock, the
    trailing field of the C++ splitter. An update of the hash map answers 0 for a key that it
    updated and 1 for an absent one, as the code does and against \<open>hashmap.h\<close>.

  Bounds and fuel

  The probing loops of the hash map take the number of buckets as fuel, which is one round of the
  array and what the code's loops are bounded by. The scans of \<open>vsc_for_each_delim\<close>, the loops of
  the hashes and the doubling of buffers have termination proofs or are partial functions with a
  proof that they return. Lengths are below \<open>2 ^ 64\<close> where a \<open>size_t\<close> counts them; requests to the
  system allocator are below \<open>2 ^ 64 - 40\<close>, since its header and alignment are added unchecked.
  Alignments are powers of two below \<open>2 ^ 32\<close>: the header keeps the exponent and the code shifts an
  unsigned int by it. The vector kernels are proved for inputs of more than 64 bytes and secrets of at least 72, where
  the code requires 241 and 136.

  Not modelled

  \<^item> Big-endian machines, except in the byte-order functions of \<open>io.h\<close>, the canonical forms of
    \<open>xxhash.h\<close>, the VSX kernels and the targets of \<open>Xxh3Target\<close>; machines of 32 bits, except there.
  \<^item> Prefetching, compiler guards and attributes. The streaming interfaces are modelled with the
    portable reads, swaps, rotations and products only.
  \<^item> The error that the streaming functions of XXH3 return for a state that is NULL: a state is a value.
  \<^item> The non-Linux branches of \<open>freadall.c\<close> and Windows in \<open>enum_groups.c\<close>, which only return
    ENOTSUP.
  \<^item> Assertions, which release builds compile out; threads, since the library has none.
  \<^item> The names that the C++ header gives to functions of the library. Of the tests, those that
    need real time, the file system or floating point.
\<close>

end
